(* ===== verification/Tangent_Prelude.thy ===== *)
theory Tangent_Prelude
  imports Main "HOL-Library.Word"
begin

text \<open>
  Shared vocabulary of the development: machine bytes, the faults a C program can run into
  (every undefined behaviour and failed assertion of the modelled code is a value, never an
  unspecified HOL term), the sequencing operator of fallible code, the C memory primitives
  the sources use, and generic lemmas on big-endian byte strings and on lists.
\<close>

type_synonym byte = "8 word"
type_synonym ushort = "16 word"
type_synonym uint32 = "32 word"
type_synonym ulong = "64 word"

text \<open>
  What can go wrong in the modelled C: a failed \<^verbatim>\<open>assert\<close> (the build type is Debug, so
  assertions are compiled in), a null or dangling pointer that is dereferenced, a read of an
  automatic variable that was never written, an access outside an object, a write past the end
  of a buffer, a signed overflow, a \<^verbatim>\<open>va_arg\<close> whose type is not that of the argument, and an object used at a type it
  does not have. \<open>Out_of_fuel\<close> is no fault of the program: it is the value of a bounded unfolding of a loop that did not suffice. Nor is
  \<open>Exited\<close>: the program ended by \<^verbatim>\<open>exit\<close> with this status.
\<close>

datatype fault =
    Assert_failed
  | Null_deref
  | Uninit_read
  | Out_of_bounds
  | Buffer_overflow
  | Signed_overflow
  | Bad_vararg
  | Type_confusion
  | Out_of_fuel
  | Exited int

type_synonym 'a res = "fault + 'a"

named_theorems res_simps \<open>rewriting of fallible code\<close>
named_theorems wf_simps \<open>well-formedness of identifiers, addresses and nodes\<close>
named_theorems frame_simps \<open>fields of the server an operation leaves alone\<close>
named_theorems inv_intros \<open>preservation of the server invariant\<close>

subsection \<open>Sequencing of fallible code\<close>

definition fbind :: "'a res \<Rightarrow> ('a \<Rightarrow> 'b res) \<Rightarrow> 'b res" where
  "fbind m f = (case m of Inl e \<Rightarrow> Inl e | Inr a \<Rightarrow> f a)"

lemma fbind_simps [simp]: "fbind (Inl e) f = Inl e" "fbind (Inr a) f = f a"
  by (simp_all add: fbind_def)

lemma fbind_Inr_iff [res_simps]: "fbind m f = Inr b \<longleftrightarrow> (\<exists>a. m = Inr a \<and> f a = Inr b)"
  by (cases m) auto

lemma fbind_Inl_iff [res_simps]:
  "fbind m f = Inl e \<longleftrightarrow> m = Inl e \<or> (\<exists>a. m = Inr a \<and> f a = Inl e)"
  by (cases m) auto

lemma fbind_assoc: "fbind (fbind m f) g = fbind m (\<lambda>a. fbind (f a) g)"
  by (cases m) auto

definition assert_that :: "bool \<Rightarrow> unit res" where
  "assert_that b = (if b then Inr () else Inl Assert_failed)"

lemma assert_that_simps [simp]: "assert_that True = Inr ()" "assert_that False = Inl Assert_failed"
  by (simp_all add: assert_that_def)

lemma assert_that_Inr [res_simps]: "assert_that b = Inr u \<longleftrightarrow> b"
  by (simp add: assert_that_def)

text \<open>\<open>deref\<close> is the use of a pointer that may be \<^verbatim>\<open>NULL\<close>.\<close>

definition deref :: "'a option \<Rightarrow> 'a res" where
  "deref p = (case p of None \<Rightarrow> Inl Null_deref | Some a \<Rightarrow> Inr a)"

lemma deref_simps [simp]: "deref None = Inl Null_deref" "deref (Some a) = Inr a"
  by (simp_all add: deref_def)

lemma deref_Inr [res_simps]: "deref p = Inr a \<longleftrightarrow> p = Some a"
  by (cases p) auto

text \<open>\<open>read_var\<close> is the use of an automatic variable that may never have been written.\<close>

definition read_var :: "'a option \<Rightarrow> 'a res" where
  "read_var p = (case p of None \<Rightarrow> Inl Uninit_read | Some a \<Rightarrow> Inr a)"

lemma read_var_simps [simp]: "read_var None = Inl Uninit_read" "read_var (Some a) = Inr a"
  by (simp_all add: read_var_def)

lemma read_var_Inr [res_simps]: "read_var p = Inr a \<longleftrightarrow> p = Some a"
  by (cases p) auto

text \<open>A loop that applies a fallible operation to each element, in order, and stops at the first fault.\<close>

fun fmap :: "('a \<Rightarrow> 'b res) \<Rightarrow> 'a list \<Rightarrow> 'b list res" where
  "fmap f [] = Inr []"
| "fmap f (x # xs) = fbind (f x) (\<lambda>y. fbind (fmap f xs) (\<lambda>ys. Inr (y # ys)))"

lemma fmap_total: "(\<And>x. x \<in> set xs \<Longrightarrow> f x = Inr (g x)) \<Longrightarrow> fmap f xs = Inr (map g xs)"
  by (induction xs) simp_all

subsection \<open>Partial and total correctness of fallible code\<close>

text \<open>
  \<open>returns P m\<close>: if \<open>m\<close> does not fault, its result satisfies \<open>P\<close>; \<open>succeeds P m\<close>: it does not
  fault and its result satisfies \<open>P\<close>.
\<close>

definition returns :: "('a \<Rightarrow> bool) \<Rightarrow> 'a res \<Rightarrow> bool" where
  "returns P m = (case m of Inl _ \<Rightarrow> True | Inr a \<Rightarrow> P a)"

definition succeeds :: "('a \<Rightarrow> bool) \<Rightarrow> 'a res \<Rightarrow> bool" where
  "succeeds P m = (case m of Inl _ \<Rightarrow> False | Inr a \<Rightarrow> P a)"

lemma returns_simps [simp]: "returns P (Inl e)" "returns P (Inr a) = P a"
  by (simp_all add: returns_def)

lemma succeeds_simps [simp]: "\<not> succeeds P (Inl e)" "succeeds P (Inr a) = P a"
  by (simp_all add: succeeds_def)

lemma returns_iff: "returns P m \<longleftrightarrow> (\<forall>a. m = Inr a \<longrightarrow> P a)"
  by (cases m) simp_all

lemma succeeds_iff: "succeeds P m \<longleftrightarrow> (\<exists>a. m = Inr a \<and> P a)"
  by (cases m) simp_all

lemma returnsD: "returns P m \<Longrightarrow> m = Inr a \<Longrightarrow> P a"
  by simp

lemma returns_bind: "returns P (fbind m f) \<longleftrightarrow> returns (\<lambda>a. returns P (f a)) m"
  by (cases m) simp_all

lemma succeeds_bind: "succeeds P (fbind m f) \<longleftrightarrow> succeeds (\<lambda>a. succeeds P (f a)) m"
  by (cases m) simp_all

lemma returns_bindI: "returns Q m \<Longrightarrow> (\<And>a. Q a \<Longrightarrow> returns P (f a)) \<Longrightarrow> returns P (fbind m f)"
  by (cases m) simp_all

lemma succeeds_bindI: "succeeds Q m \<Longrightarrow> (\<And>a. Q a \<Longrightarrow> succeeds P (f a)) \<Longrightarrow> succeeds P (fbind m f)"
  by (cases m) simp_all

lemma returns_bind_any: "(\<And>a. returns P (f a)) \<Longrightarrow> returns P (fbind m f)"
  by (cases m) simp_all

lemma returns_triv: "returns (\<lambda>_. True) m"
  by (cases m) simp_all

lemma returns_if: "(b \<Longrightarrow> returns P x) \<Longrightarrow> (\<not> b \<Longrightarrow> returns P y) \<Longrightarrow> returns P (if b then x else y)"
  by simp

lemma succeeds_if: "(b \<Longrightarrow> succeeds P x) \<Longrightarrow> (\<not> b \<Longrightarrow> succeeds P y) \<Longrightarrow> succeeds P (if b then x else y)"
  by simp

lemma returns_mono: "returns P m \<Longrightarrow> (\<And>a. P a \<Longrightarrow> Q a) \<Longrightarrow> returns Q m"
  by (cases m) simp_all

lemma succeeds_mono: "succeeds P m \<Longrightarrow> (\<And>a. P a \<Longrightarrow> Q a) \<Longrightarrow> succeeds Q m"
  by (cases m) simp_all

lemma returns_option:
  "(x = None \<Longrightarrow> returns P n) \<Longrightarrow> (\<And>y. x = Some y \<Longrightarrow> returns P (s y)) \<Longrightarrow>
   returns P (case x of None \<Rightarrow> n | Some y \<Rightarrow> s y)"
  by (cases x) simp_all

lemma succeeds_option:
  "(x = None \<Longrightarrow> succeeds P n) \<Longrightarrow> (\<And>y. x = Some y \<Longrightarrow> succeeds P (s y)) \<Longrightarrow>
   succeeds P (case x of None \<Rightarrow> n | Some y \<Rightarrow> s y)"
  by (cases x) simp_all

lemma returns_read_var: "returns (\<lambda>a. p = Some a) (read_var p)"
  by (cases p) simp_all

lemma returns_deref: "returns (\<lambda>a. p = Some a) (deref p)"
  by (cases p) simp_all

subsection \<open>memcmp and memcpy\<close>

text \<open>
  \<^verbatim>\<open>memcmp\<close> compares the arrays byte by byte, as unsigned characters, and returns a negative,
  zero or positive number. The sources compare arrays of one and the same declared length.
\<close>

fun memcmp :: "byte list \<Rightarrow> byte list \<Rightarrow> int" where
  "memcmp (x # xs) (y # ys) =
     (if x < y then -1 else if y < x then 1 else memcmp xs ys)"
| "memcmp _ _ = 0"

text \<open>\<^verbatim>\<open>memcpy(dest, src, n)\<close>: reading \<open>n\<close> bytes of a shorter object is out of bounds.\<close>

definition memcpy :: "byte list \<Rightarrow> nat \<Rightarrow> byte list res" where
  "memcpy src n = (if n \<le> length src then Inr (take n src) else Inl Out_of_bounds)"

lemma memcpy_Inr [res_simps]: "memcpy src n = Inr bs \<longleftrightarrow> n \<le> length src \<and> bs = take n src"
  by (auto simp: memcpy_def)

lemma memcpy_exact [simp]: "length src = n \<Longrightarrow> memcpy src n = Inr src"
  by (simp add: memcpy_def)

lemma returns_memcpy: "returns (\<lambda>bs. length bs = n \<and> bs = take n src) (memcpy src n)"
  by (simp add: memcpy_def)

subsection \<open>Big-endian values of byte strings\<close>

fun be_val :: "byte list \<Rightarrow> nat" where
  "be_val [] = 0"
| "be_val (b # bs) = unat b * 256 ^ length bs + be_val bs"

lemma unat_byte_less [simp]: "unat (b :: byte) < 256"
proof -
  have "unat b < 2 ^ LENGTH(8)" by (rule unsigned_less)
  then show ?thesis by simp
qed

lemma unat_byte_le [simp]: "unat (b :: byte) \<le> 255"
  using unat_byte_less [of b] by linarith

lemma ucast_byte_back: "unat (w :: uint32) < 256 \<Longrightarrow> ucast (ucast w :: byte) = w"
proof (rule unsigned_word_eqI)
  assume w: "unat w < 256"
  have "unat b mod 4294967296 = unat b" for b :: byte
    by (rule mod_less) (rule order_less_trans [OF unat_byte_less], simp)
  then have "unat (ucast b :: uint32) = unat b" for b :: byte
    by (simp add: unsigned_ucast_eq take_bit_eq_mod)
  moreover have "unat (ucast w :: byte) = unat w" using w by (simp add: unsigned_ucast_eq take_bit_eq_mod)
  ultimately show "unat (ucast (ucast w :: byte) :: uint32) = unat w" by metis
qed

lemma uint_byte_less: "uint (b :: byte) < 256"
proof -
  have "uint b < 2 ^ LENGTH(8)" by (rule unsigned_less)
  then show ?thesis by simp
qed

lemma be_val_less: "be_val bs < 256 ^ length bs"
proof (induction bs)
  case (Cons b bs)
  have "unat b * 256 ^ length bs + be_val bs < (unat b + 1) * 256 ^ length bs"
    using Cons by (simp add: distrib_right)
  also have "\<dots> \<le> 256 * 256 ^ length bs"
    using unat_byte_le [of b] by (intro mult_right_mono) simp_all
  finally show ?case by simp
qed simp

lemma be_val_int_less: "int (be_val bs) < 256 ^ length bs"
  using be_val_less [of bs] by (metis of_nat_less_iff of_nat_numeral of_nat_power)

lemma be_val_append: "be_val (xs @ ys) = be_val xs * 256 ^ length ys + be_val ys"
  by (induction xs) (simp_all add: power_add distrib_right mult.assoc)

lemma be_val_snoc: "be_val (xs @ [y]) = 256 * be_val xs + unat y"
  by (simp add: be_val_append)

lemma base_digit_eqD:
  fixes a :: nat
  assumes "a * n + b = c * n + d" and "b < n" and "d < n"
  shows "a = c \<and> b = d"
proof -
  have "(a * n + b) div n = (c * n + d) div n" "(a * n + b) mod n = (c * n + d) mod n"
    using assms(1) by simp_all
  then show ?thesis using assms(2,3) by simp
qed

lemma be_val_inject: "length xs = length ys \<Longrightarrow> be_val xs = be_val ys \<longleftrightarrow> xs = ys"
proof (induction xs ys rule: list_induct2)
  case (Cons x xs y ys)
  have "unat x = unat y \<and> be_val xs = be_val ys" if "be_val (x # xs) = be_val (y # ys)"
    using that Cons.hyps be_val_less [of xs] be_val_less [of ys]
    by (intro base_digit_eqD [where n = "256 ^ length ys"]) simp_all
  then show ?case using Cons by (auto simp: unsigned_word_eqI)
qed simp

lemma be_val_digit_less:
  assumes "unat x < unat y" and "length xs = length ys"
  shows "be_val (x # xs) < be_val (y # ys)"
proof -
  have "be_val (x # xs) < (unat x + 1) * 256 ^ length xs"
    using be_val_less [of xs] by (simp add: distrib_right)
  also have "\<dots> \<le> unat y * 256 ^ length xs"
    using assms(1) by (intro mult_right_mono) simp_all
  also have "\<dots> \<le> be_val (y # ys)" using assms(2) by simp
  finally show ?thesis .
qed

lemma memcmp_be_val:
  assumes "length xs = length ys"
  shows "memcmp xs ys < 0 \<longleftrightarrow> be_val xs < be_val ys"
    and "memcmp xs ys = 0 \<longleftrightarrow> be_val xs = be_val ys"
proof -
  have "(memcmp xs ys < 0 \<longleftrightarrow> be_val xs < be_val ys) \<and>
        (memcmp xs ys = 0 \<longleftrightarrow> be_val xs = be_val ys)"
    using assms
  proof (induction xs ys rule: list_induct2)
    case (Cons x xs y ys)
    consider "unat x < unat y" | "unat y < unat x" | "x = y"
      by (metis linorder_less_linear unsigned_word_eqI)
    then show ?case
    proof cases
      case 1
      then show ?thesis
        using be_val_digit_less [OF 1 Cons.hyps] by (simp add: word_less_nat_alt)
    next
      case 2
      then show ?thesis
        using be_val_digit_less [OF 2 Cons.hyps [symmetric]] by (simp add: word_less_nat_alt)
    next
      case 3
      then show ?thesis using Cons by simp
    qed
  qed simp
  then show "memcmp xs ys < 0 \<longleftrightarrow> be_val xs < be_val ys"
    and "memcmp xs ys = 0 \<longleftrightarrow> be_val xs = be_val ys" by blast+
qed

lemma memcmp_eq_0: "length xs = length ys \<Longrightarrow> memcmp xs ys = 0 \<longleftrightarrow> xs = ys"
  by (simp add: memcmp_be_val(2) be_val_inject)

lemma power_diff_Suc: "k < m \<Longrightarrow> (b :: int) ^ (m - k) = b * b ^ (m - Suc k)"
  by (metis Suc_diff_Suc power_Suc)

text \<open>Writing one byte of an array changes its value by the weight of that position.\<close>

lemma be_val_update:
  assumes "i < length d"
  shows "int (be_val (d[i := v])) =
    int (be_val d) + (int (unat v) - int (unat (d ! i))) * 256 ^ (length d - Suc i)"
  using assms
proof (induction d arbitrary: i)
  case (Cons b bs)
  then show ?case by (cases i) (simp_all add: algebra_simps)
qed simp

subsection \<open>Words in memory\<close>

text \<open>
  The machine is little-endian with 64-bit \<^verbatim>\<open>long\<close> (the build targets x86-64 Linux): the
  bytes of an integer object, in address order, and the integer read from such bytes.
\<close>

definition le_bytes :: "nat \<Rightarrow> 'a::len word \<Rightarrow> byte list" where
  "le_bytes n w = map (\<lambda>k. ucast (drop_bit (8 * k) w)) [0..<n]"

definition le_word :: "byte list \<Rightarrow> 'a::len word" where
  "le_word bs = word_of_nat (be_val (rev bs))"

lemma length_le_bytes [simp]: "length (le_bytes n w) = n"
  by (simp add: le_bytes_def)

lemma unat_byte_at:
  fixes w :: "'a::len word"
  shows "unat (ucast (drop_bit (8 * k) w) :: byte) = unat w div 256 ^ k mod 256"
proof -
  have "unat w mod 2 ^ LENGTH('a) = unat w" by (rule mod_less) (rule unsigned_less)
  then show ?thesis
    unfolding unsigned_ucast_eq unsigned_drop_bit_eq
    by (simp add: drop_bit_eq_div take_bit_eq_mod power_mult)
qed

lemma be_val_rev_le_bytes: "be_val (rev (le_bytes n w)) = unat w mod 256 ^ n"
proof (induction n)
  case (Suc n)
  have "rev (le_bytes (Suc n) w) = ucast (drop_bit (8 * n) w) # rev (le_bytes n w)"
    by (simp add: le_bytes_def)
  then have "be_val (rev (le_bytes (Suc n) w)) = (unat w div 256 ^ n mod 256) * 256 ^ n + unat w mod 256 ^ n"
    using Suc unat_byte_at [of n w] by simp
  then show ?case
    using mod_mult2_eq [of "unat w" "256 ^ n" 256] by (simp add: mult.commute)
qed (simp add: le_bytes_def)

lemma le_bytes_inject:
  fixes v w :: "'a::len word"
  assumes "LENGTH('a) \<le> 8 * n"
  shows "le_bytes n v = le_bytes n w \<longleftrightarrow> v = w"
proof
  have small: "unat u < 256 ^ n" for u :: "'a word"
  proof -
    have "unat u < 2 ^ LENGTH('a)" by (rule unsigned_less)
    also have "\<dots> \<le> 2 ^ (8 * n)" using assms by (intro power_increasing) simp_all
    finally show ?thesis by (simp add: power_mult)
  qed
  assume "le_bytes n v = le_bytes n w"
  then have "be_val (rev (le_bytes n v)) = be_val (rev (le_bytes n w))" by simp
  then have "unat v = unat w" using small by (simp add: be_val_rev_le_bytes)
  then show "v = w" by (simp add: unsigned_word_eqI)
qed simp

subsection \<open>Searching lists from either end\<close>

lemma find_filter: "find P xs = (if filter P xs = [] then None else Some (hd (filter P xs)))"
  by (induction xs) auto

lemma find_rev_filter: "find P (rev xs) = (if filter P xs = [] then None else Some (last (filter P xs)))"
  by (simp add: find_filter rev_filter [symmetric] hd_rev)

lemma find_Some_in: "find P xs = Some x \<Longrightarrow> x \<in> set xs \<and> P x"
  by (induction xs) (auto split: if_splits)

lemma find_rev_Some_in: "find P (rev xs) = Some x \<Longrightarrow> x \<in> set xs \<and> P x"
  using find_Some_in [of P "rev xs" x] by simp

text \<open>In a list that is ordered by \<open>R\<close>, the elements of a down-closed \<open>P\<close> form a prefix.\<close>

lemma sorted_wrt_prefix_filter:
  assumes "sorted_wrt R xs" and "\<And>x y. x \<in> set xs \<Longrightarrow> y \<in> set xs \<Longrightarrow> R x y \<Longrightarrow> P y \<Longrightarrow> P x"
  shows "takeWhile P xs = filter P xs \<and> dropWhile P xs = filter (\<lambda>x. \<not> P x) xs"
  using assms
proof (induction xs)
  case (Cons x xs)
  show ?case
  proof (cases "P x")
    case True
    then show ?thesis using Cons by fastforce
  next
    case False
    then have "\<forall>y \<in> set xs. \<not> P y" using Cons.prems by fastforce
    then show ?thesis using False by (simp add: filter_empty_conv)
  qed
qed simp

end
