(* ===== verification/Chord_Id.thy ===== *)
theory Chord_Id
  imports Tangent_Prelude
begin

text \<open>
  Ring identifiers: the arithmetic and the comparisons of \<^verbatim>\<open>src/src/util.c\<close> on the 20-byte
  arrays of \<^verbatim>\<open>chordID\<close> (\<^verbatim>\<open>src/include/chord/chord_api.h\<close>), most significant byte first.
  The byte-level routines are the code's; \<open>id_val\<close> reads an identifier as a number below
  \<open>2 ^ 160\<close> and \<open>ring_off\<close> is the clockwise offset from a node, in which every
  interval test of the program becomes a comparison.
\<close>

unbundle bit_operations_syntax

subsection \<open>The identifiers and their constants\<close>

definition CHORD_ID_BITS :: nat where
  [simp]: "CHORD_ID_BITS = 160"

definition CHORD_ID_BYTES :: nat where
  [simp]: "CHORD_ID_BYTES = CHORD_ID_BITS div 8"

type_synonym chordID = "byte list"

definition wf_id :: "chordID \<Rightarrow> bool" where
  "wf_id i \<longleftrightarrow> length i = CHORD_ID_BYTES"

subsection \<open>Stepping by a power of two\<close>

text \<open>
  The carry loop of \<^verbatim>\<open>chord_id_successor\<close>: \<open>succ_carry d k\<close> runs it from index \<open>k - 1\<close>
  down to 0, incrementing bytes until one does not wrap to zero.
\<close>

fun succ_carry :: "chordID \<Rightarrow> nat \<Rightarrow> chordID" where
  "succ_carry d 0 = d"
| "succ_carry d (Suc i) =
     (let d' = d[i := d ! i + 1] in if d' ! i \<noteq> 0 then d' else succ_carry d' i)"

definition chord_id_successor :: "chordID \<Rightarrow> int \<Rightarrow> chordID res" where
  "chord_id_successor ident n =
     (if \<not> (0 \<le> n \<and> n < int CHORD_ID_BITS) then Inl Assert_failed
      else
        let start = CHORD_ID_BYTES - 1 - nat n div 8;
            old = ident ! start;
            ident' = ident[start := old + push_bit (nat n mod 8) 1]
        in Inr (if ident' ! start < old then succ_carry ident' start else ident'))"

text \<open>The borrow loop of \<^verbatim>\<open>chord_id_predecessor\<close>.\<close>

fun pred_borrow :: "chordID \<Rightarrow> nat \<Rightarrow> chordID" where
  "pred_borrow d 0 = d"
| "pred_borrow d (Suc i) =
     (if d ! i \<noteq> 0 then d[i := d ! i - 1] else pred_borrow (d[i := d ! i - 1]) i)"

definition chord_id_predecessor :: "chordID \<Rightarrow> int \<Rightarrow> chordID res" where
  "chord_id_predecessor ident n =
     (if \<not> (0 \<le> n \<and> n < int CHORD_ID_BITS) then Inl Assert_failed
      else
        let start = CHORD_ID_BYTES - 1 - nat n div 8;
            old = ident ! start;
            ident' = ident[start := old - push_bit (nat n mod 8) 1]
        in Inr (if ident' ! start > old then pred_borrow ident' start else ident'))"

subsection \<open>Addition and subtraction\<close>

text \<open>
  \<open>id_add_loop a b k carry r\<close> runs the loop of \<^verbatim>\<open>id_add\<close> from index \<open>k - 1\<close> down to 0;
  the sums are computed in \<^verbatim>\<open>int\<close>, masked with \<^verbatim>\<open>0xff\<close> and shifted by 8.
\<close>

fun id_add_loop :: "chordID \<Rightarrow> chordID \<Rightarrow> nat \<Rightarrow> int \<Rightarrow> chordID \<Rightarrow> chordID" where
  "id_add_loop a b 0 carry r = r"
| "id_add_loop a b (Suc i) carry r =
     (let s = uint (a ! i) + uint (b ! i) + carry
      in id_add_loop a b i (drop_bit 8 s) (r[i := word_of_int (s AND 255)]))"

definition id_add :: "chordID \<Rightarrow> chordID \<Rightarrow> chordID" where
  "id_add a b = id_add_loop a b CHORD_ID_BYTES 0 (replicate CHORD_ID_BYTES 0)"

fun id_subtract_loop :: "chordID \<Rightarrow> chordID \<Rightarrow> nat \<Rightarrow> int \<Rightarrow> chordID \<Rightarrow> chordID" where
  "id_subtract_loop a b 0 borrow r = r"
| "id_subtract_loop a b (Suc i) borrow r =
     (if uint (a ! i) - borrow < uint (b ! i)
      then id_subtract_loop a b i 1
             (r[i := word_of_int (256 + uint (a ! i) - borrow - uint (b ! i))])
      else id_subtract_loop a b i 0
             (r[i := word_of_int (uint (a ! i) - borrow - uint (b ! i))]))"

definition id_subtract :: "chordID \<Rightarrow> chordID \<Rightarrow> chordID" where
  "id_subtract a b = id_subtract_loop a b CHORD_ID_BYTES 0 (replicate CHORD_ID_BYTES 0)"

text \<open>
  \<open>rnd\<close> is the value \<^verbatim>\<open>random()\<close> returned; it lies in \<open>0 .. 2 ^ 31 - 1\<close>. The product
  \<^verbatim>\<open>a->x[i]*m/11\<close> is computed in \<^verbatim>\<open>int\<close> and truncated to a byte.
\<close>

definition random_from :: "nat \<Rightarrow> chordID \<Rightarrow> chordID" where
  "random_from rnd a =
     (let m = rnd mod 10 + 1 in map (\<lambda>c. word_of_nat (unat c * m div 11)) a)"

definition id_random_between :: "nat \<Rightarrow> chordID \<Rightarrow> chordID \<Rightarrow> chordID" where
  "id_random_between rnd a b =
     (let d = id_subtract b a; r = random_from rnd d in id_add a r)"

subsection \<open>Comparisons\<close>

definition id_equals :: "chordID \<Rightarrow> chordID \<Rightarrow> bool" where
  "id_equals a b \<longleftrightarrow> memcmp a b = 0"

definition is_less :: "chordID \<Rightarrow> chordID \<Rightarrow> bool" where
  "is_less a b \<longleftrightarrow> memcmp a b < 0"

definition id_is_between :: "chordID \<Rightarrow> chordID \<Rightarrow> chordID \<Rightarrow> bool" where
  "id_is_between x a b =
     (if id_equals a b then \<not> id_equals x a
      else if is_less a b then is_less a x \<and> is_less x b
      else is_less a x \<or> is_less x b)"

subsection \<open>Identifiers as numbers\<close>

definition ring_size :: nat where
  "ring_size = 2 ^ 160"

lemma ring_size_pos [simp]: "0 < ring_size"
  by (simp add: ring_size_def)

lemma ring_size_pow: "256 ^ 20 = ring_size"
  by (simp add: ring_size_def)

definition id_val :: "chordID \<Rightarrow> nat" where
  "id_val i = be_val i"

text \<open>
  The clockwise offset of \<open>i\<close> from \<open>s\<close>, counted so that the identifier right after \<open>s\<close>
  has offset 0 and \<open>s\<close> itself comes last, after a whole turn.
\<close>

definition ring_off :: "chordID \<Rightarrow> chordID \<Rightarrow> nat" where
  "ring_off s i = (id_val i + (ring_size - 1 - id_val s)) mod ring_size"

lemma id_val_less: "wf_id i \<Longrightarrow> id_val i < ring_size"
  using be_val_less [of i] by (simp add: wf_id_def id_val_def ring_size_def)

lemma id_val_inject: "wf_id a \<Longrightarrow> wf_id b \<Longrightarrow> id_val a = id_val b \<longleftrightarrow> a = b"
  by (simp add: wf_id_def id_val_def be_val_inject)

lemma id_equals_iff [wf_simps]: "wf_id a \<Longrightarrow> wf_id b \<Longrightarrow> id_equals a b \<longleftrightarrow> a = b"
  by (simp add: wf_id_def id_equals_def memcmp_eq_0)

lemma memcmp_refl [simp]: "memcmp a a = 0"
  by (induction a) simp_all

lemma id_equals_refl [simp]: "id_equals a a"
  by (simp add: id_equals_def)

lemma is_less_iff: "wf_id a \<Longrightarrow> wf_id b \<Longrightarrow> is_less a b \<longleftrightarrow> id_val a < id_val b"
  by (simp add: wf_id_def is_less_def memcmp_be_val id_val_def)

lemma ring_off_less [simp]: "ring_off s i < ring_size"
  by (simp add: ring_off_def)

lemma ring_off_eq:
  assumes "wf_id s" and "wf_id i"
  shows "ring_off s i = (if id_val s < id_val i then id_val i - id_val s - 1
                         else id_val i + (ring_size - 1 - id_val s))"
proof (cases "id_val s < id_val i")
  case True
  have "id_val i + (ring_size - 1 - id_val s) = (id_val i - id_val s - 1) + ring_size"
    using True assms [THEN id_val_less] by linarith
  moreover have "id_val i - id_val s - 1 < ring_size"
    using assms(2) [THEN id_val_less] by linarith
  ultimately show ?thesis using True by (simp only: ring_off_def mod_add_self2 mod_less if_True)
next
  case False
  have "id_val i + (ring_size - 1 - id_val s) < ring_size"
    using False assms [THEN id_val_less] by linarith
  then show ?thesis using False by (simp add: ring_off_def)
qed

lemma ring_off_self: "wf_id s \<Longrightarrow> ring_off s s = ring_size - 1"
  using id_val_less [of s] by (simp add: ring_off_eq)

lemma ring_off_inject:
  assumes "wf_id s" and "wf_id a" and "wf_id b"
  shows "ring_off s a = ring_off s b \<longleftrightarrow> a = b"
proof
  assume "ring_off s a = ring_off s b"
  then have "id_val a = id_val b"
    using assms [THEN id_val_less] by (simp add: ring_off_eq assms split: if_splits)
  then show "a = b" using assms by (simp add: id_val_inject)
qed simp

text \<open>The interval test of the program is a comparison of clockwise offsets.\<close>

lemma id_is_between_off:
  assumes "wf_id x" and "wf_id a" and "wf_id b"
  shows "id_is_between x a b \<longleftrightarrow> ring_off a x < ring_off a b"
proof (cases "a = b")
  case True
  have "ring_off a x < ring_off a a \<longleftrightarrow> ring_off a x \<noteq> ring_off a a"
    using ring_off_less [of a x] ring_off_self [OF assms(2)] by linarith
  then have "ring_off a x < ring_off a a \<longleftrightarrow> x \<noteq> a"
    using ring_off_inject [OF assms(2,1,2)] by simp
  then show ?thesis
    using True assms by (simp add: id_is_between_def id_equals_iff)
next
  case False
  then have "id_val a \<noteq> id_val b" using assms by (simp add: id_val_inject)
  then show ?thesis
    using assms [THEN id_val_less] False
    by (auto simp: id_is_between_def id_equals_iff is_less_iff ring_off_eq assms)
qed

subsection \<open>Stepping by a power of two, as numbers\<close>

lemma length_succ_carry [simp]: "length (succ_carry d k) = length d"
  by (induction d k rule: succ_carry.induct) (auto simp: Let_def)

lemma length_pred_borrow [simp]: "length (pred_borrow d k) = length d"
  by (induction d k rule: pred_borrow.induct) auto

lemma unat_byte_inc:
  fixes b :: byte
  shows "b + 1 \<noteq> 0 \<Longrightarrow> unat (b + 1) = unat b + 1" and "b + 1 = 0 \<Longrightarrow> unat b = 255"
proof -
  have "unat (b + 1) = (unat b + 1) mod 256"
    by (simp add: unat_word_ariths)
  moreover have "b + 1 = 0 \<longleftrightarrow> unat (b + 1) = 0" by (simp add: unat_eq_zero)
  ultimately show "b + 1 \<noteq> 0 \<Longrightarrow> unat (b + 1) = unat b + 1" and "b + 1 = 0 \<Longrightarrow> unat b = 255"
    using unat_byte_less [of b] by (auto simp: mod_Suc split: if_splits)
qed

lemma unat_byte_dec:
  fixes b :: byte
  shows "b \<noteq> 0 \<Longrightarrow> unat (b - 1) = unat b - 1" and "b = 0 \<Longrightarrow> unat (b - 1) = 255"
proof -
  show "b \<noteq> 0 \<Longrightarrow> unat (b - 1) = unat b - 1" by (rule unat_minus_one)
  have "unat (255 :: byte) = 255" by simp
  moreover have "(- 1 :: byte) = 255" by simp
  ultimately show "b = 0 \<Longrightarrow> unat (b - 1) = 255" by (metis diff_0)
qed

text \<open>
  The loops add (subtract) one unit of the byte at index \<open>k - 1\<close>, modulo the size of the
  whole array: running off the left end is the wrap-around.
\<close>

lemma succ_carry_val:
  assumes "k \<le> length d"
  shows "int (be_val (succ_carry d k)) =
         (int (be_val d) + 256 ^ (length d - k)) mod 256 ^ length d"
  using assms
proof (induction d k rule: succ_carry.induct)
  case (1 d)
  show ?case using be_val_int_less [of d] by simp
next
  case (2 d i)
  define d' where "d' = d[i := d ! i + 1]"
  have i: "i < length d" using 2(2) by simp
  then have pw: "(256::int) ^ (length d - i) = 256 * 256 ^ (length d - Suc i)"
    by (rule power_diff_Suc)
  have bound: "int (be_val d') < 256 ^ length d"
    using be_val_int_less [of d'] by (simp add: d'_def)
  have upd: "int (be_val d') = int (be_val d) +
      (int (unat (d ! i + 1)) - int (unat (d ! i))) * 256 ^ (length d - Suc i)"
    unfolding d'_def by (rule be_val_update [OF i])
  show ?case
  proof (cases "d ! i + 1 = 0")
    case False
    then have "int (be_val d') = int (be_val d) + 256 ^ (length d - Suc i)"
      using upd unat_byte_inc(1) [OF False] by simp
    moreover have "succ_carry d (Suc i) = d'" using False i by (simp add: d'_def Let_def)
    ultimately show ?thesis using bound by simp
  next
    case True
    then have "int (be_val d') = int (be_val d) - 255 * 256 ^ (length d - Suc i)"
      using upd unat_byte_inc(2) [OF True] by simp
    moreover have "succ_carry d (Suc i) = succ_carry d' i" using True i by (simp add: d'_def Let_def)
    moreover have "int (be_val (succ_carry d' i)) =
        (int (be_val d') + 256 ^ (length d - i)) mod 256 ^ length d"
      using 2(1) [OF d'_def] True i by (simp add: d'_def)
    ultimately show ?thesis using pw by (simp add: add.commute)
  qed
qed

lemma pred_borrow_val:
  assumes "k \<le> length d"
  shows "int (be_val (pred_borrow d k)) =
         (int (be_val d) - 256 ^ (length d - k)) mod 256 ^ length d"
  using assms
proof (induction d k rule: pred_borrow.induct)
  case (1 d)
  show ?case using be_val_int_less [of d] by simp
next
  case (2 d i)
  define d' where "d' = d[i := d ! i - 1]"
  have i: "i < length d" using 2(2) by simp
  then have pw: "(256::int) ^ (length d - i) = 256 * 256 ^ (length d - Suc i)"
    by (rule power_diff_Suc)
  have bound: "int (be_val d') < 256 ^ length d"
    using be_val_int_less [of d'] by (simp add: d'_def)
  have upd: "int (be_val d') = int (be_val d) +
      (int (unat (d ! i - 1)) - int (unat (d ! i))) * 256 ^ (length d - Suc i)"
    unfolding d'_def by (rule be_val_update [OF i])
  show ?case
  proof (cases "d ! i = 0")
    case False
    then have "0 < unat (d ! i)" by (simp add: unat_gt_0)
    then have "int (be_val d') = int (be_val d) - 256 ^ (length d - Suc i)"
      using upd unat_byte_dec(1) [OF False] by (simp add: of_nat_diff)
    moreover have "pred_borrow d (Suc i) = d'" using False by (simp add: d'_def)
    ultimately show ?thesis using bound
      by (metis mod_pos_pos_trivial of_nat_0_le_iff)
  next
    case True
    then have "int (be_val d') = int (be_val d) + 255 * 256 ^ (length d - Suc i)"
      using upd unat_byte_dec(2) [OF True] by (simp only: True) simp
    moreover have "pred_borrow d (Suc i) = pred_borrow d' i" using True by (simp add: d'_def)
    moreover have "int (be_val (pred_borrow d' i)) =
        (int (be_val d') - 256 ^ (length d - i)) mod 256 ^ length d"
      using 2(1) True i by (simp add: d'_def)
    ultimately show ?thesis using pw by simp
  qed
qed

lemma unat_push_one: "k < 8 \<Longrightarrow> unat (push_bit k (1 :: byte)) = 2 ^ k"
proof -
  assume "k < 8"
  then have "k = 0 \<or> k = 1 \<or> k = 2 \<or> k = 3 \<or> k = 4 \<or> k = 5 \<or> k = 6 \<or> k = 7"
    by linarith
  then show ?thesis by (elim disjE) simp_all
qed

lemma unat_byte_add_cases:
  fixes a c :: byte
  shows "if a + c < a then unat (a + c) + 256 = unat a + unat c
         else unat (a + c) = unat a + unat c"
proof -
  have *: "unat (a + c) = (unat a + unat c) mod 256"
    by (simp add: unat_word_ariths)
  show ?thesis
  proof (cases "unat a + unat c < 256")
    case True
    then have "unat (a + c) = unat a + unat c" using * by (simp only: mod_less)
    moreover from this have "\<not> a + c < a" unfolding word_less_nat_alt by linarith
    ultimately show ?thesis by (simp only: if_False)
  next
    case False
    then have "unat a + unat c = (unat a + unat c - 256) + 256" "unat a + unat c - 256 < 256"
      using unat_byte_less [of a] unat_byte_less [of c] by linarith+
    then have "(unat a + unat c) mod 256 = unat a + unat c - 256"
      by (metis mod_add_self2 mod_less)
    then have e: "unat (a + c) + 256 = unat a + unat c" using * False by linarith
    then have "a + c < a" unfolding word_less_nat_alt using unat_byte_less [of c] by linarith
    then show ?thesis using e by (simp only: if_True)
  qed
qed

lemma unat_byte_sub_cases:
  fixes a c :: byte
  shows "if a - c > a then unat (a - c) + unat c = unat a + 256
         else unat (a - c) + unat c = unat a"
  using unat_byte_add_cases [of "a - c" c] by (auto simp: word_less_nat_alt split: if_splits)

text \<open>The position and the weight of the byte that holds bit \<open>n\<close>.\<close>

lemma bit_position:
  assumes "n < CHORD_ID_BITS"
  shows "(256::int) ^ (CHORD_ID_BYTES - Suc (CHORD_ID_BYTES - 1 - n div 8)) * 2 ^ (n mod 8) = 2 ^ n"
    and "CHORD_ID_BYTES - 1 - n div 8 < CHORD_ID_BYTES"
proof -
  have "n div 8 \<le> 19" using assms by simp
  then have "20 - Suc (19 - n div 8) = n div 8" by simp
  moreover have "(256::int) ^ (n div 8) = 2 ^ (8 * (n div 8))"
    by (simp add: power_mult)
  ultimately show "(256::int) ^ (CHORD_ID_BYTES - Suc (CHORD_ID_BYTES - 1 - n div 8)) * 2 ^ (n mod 8) = 2 ^ n"
    by (simp add: power_add [symmetric])
qed simp

lemma chord_id_successor_Inr:
  assumes "0 \<le> n" and "n < 160"
  shows "\<exists>r. chord_id_successor i n = Inr r \<and> length r = length i"
  using assms by (simp add: chord_id_successor_def Let_def)

lemma chord_id_predecessor_Inr:
  assumes "0 \<le> n" and "n < 160"
  shows "\<exists>r. chord_id_predecessor i n = Inr r \<and> length r = length i"
  using assms by (simp add: chord_id_predecessor_def Let_def)

lemma successor_int_val:
  assumes wf: "wf_id ident" and n: "n < CHORD_ID_BITS"
    and r: "chord_id_successor ident (int n) = Inr r"
  shows "int (id_val r) = (int (id_val ident) + 2 ^ n) mod int ring_size"
proof -
  define start where "start = CHORD_ID_BYTES - 1 - n div 8"
  define inc where "inc = (push_bit (n mod 8) 1 :: byte)"
  define ident' where "ident' = ident[start := ident ! start + inc]"
  have len: "length ident = 20" using wf by (simp add: wf_id_def)
  have start: "start < length ident" using bit_position(2) [OF n] len by (simp add: start_def)
  have w: "(256::int) ^ (20 - Suc start) * 2 ^ (n mod 8) = 2 ^ n"
    using bit_position(1) [OF n] by (simp add: start_def)
  have w': "(256::int) ^ (20 - start) = 256 * 256 ^ (20 - Suc start)"
    using start len by (intro power_diff_Suc) simp
  have "unat inc = 2 ^ (n mod 8)" unfolding inc_def by (rule unat_push_one) simp
  then have inc: "int (unat inc) = 2 ^ (n mod 8)" by (simp only: of_nat_power of_nat_numeral)
  have upd: "int (be_val ident') = int (be_val ident) +
      (int (unat (ident ! start + inc)) - int (unat (ident ! start))) * 256 ^ (20 - Suc start)"
    using be_val_update [OF start, of "ident ! start + inc"] by (simp add: ident'_def len)
  have N: "(256::int) ^ 20 = int ring_size" by (simp add: ring_size_def)
  have rdef: "r = (if ident ! start + inc < ident ! start then succ_carry ident' start else ident')"
    using r n start by (simp add: chord_id_successor_def Let_def start_def inc_def ident'_def split: if_splits)
  show ?thesis
  proof (cases "ident ! start + inc < ident ! start")
    case True
    then have "int (unat (ident ! start + inc)) - int (unat (ident ! start)) = 2 ^ (n mod 8) - 256"
      using unat_byte_add_cases [of "ident ! start" inc] inc by (simp only: if_True if_False)
    then have "int (be_val ident') = int (be_val ident) + 2 ^ n - 256 ^ (20 - start)"
      using upd w w' by (simp only: left_diff_distrib mult.commute [of "2 ^ _"])
    then show ?thesis
      using True rdef succ_carry_val [of start ident'] start len
      by (simp add: id_val_def ident'_def ring_size_def)
  next
    case False
    then have "int (be_val ident') = int (be_val ident) + 2 ^ n"
      using unat_byte_add_cases [of "ident ! start" inc] inc upd w by (simp add: algebra_simps)
    moreover have "int (be_val ident') < int ring_size"
      using be_val_int_less [of ident'] N len by (simp add: ident'_def)
    ultimately show ?thesis using False rdef by (simp add: id_val_def)
  qed
qed

lemma predecessor_int_val:
  assumes wf: "wf_id ident" and n: "n < CHORD_ID_BITS"
    and r: "chord_id_predecessor ident (int n) = Inr r"
  shows "int (id_val r) = (int (id_val ident) - 2 ^ n) mod int ring_size"
proof -
  define start where "start = CHORD_ID_BYTES - 1 - n div 8"
  define inc where "inc = (push_bit (n mod 8) 1 :: byte)"
  define ident' where "ident' = ident[start := ident ! start - inc]"
  have len: "length ident = 20" using wf by (simp add: wf_id_def)
  have start: "start < length ident" using bit_position(2) [OF n] len by (simp add: start_def)
  have w: "(256::int) ^ (20 - Suc start) * 2 ^ (n mod 8) = 2 ^ n"
    using bit_position(1) [OF n] by (simp add: start_def)
  have w': "(256::int) ^ (20 - start) = 256 * 256 ^ (20 - Suc start)"
    using start len by (intro power_diff_Suc) simp
  have "unat inc = 2 ^ (n mod 8)" unfolding inc_def by (rule unat_push_one) simp
  then have inc: "int (unat inc) = 2 ^ (n mod 8)" by (simp only: of_nat_power of_nat_numeral)
  have upd: "int (be_val ident') = int (be_val ident) +
      (int (unat (ident ! start - inc)) - int (unat (ident ! start))) * 256 ^ (20 - Suc start)"
    using be_val_update [OF start, of "ident ! start - inc"] by (simp add: ident'_def len)
  have N: "(256::int) ^ 20 = int ring_size" by (simp add: ring_size_def)
  have rdef: "r = (if ident ! start - inc > ident ! start then pred_borrow ident' start else ident')"
    using r n start by (simp add: chord_id_predecessor_def Let_def start_def inc_def ident'_def split: if_splits)
  show ?thesis
  proof (cases "ident ! start - inc > ident ! start")
    case True
    then have "int (unat (ident ! start - inc)) - int (unat (ident ! start)) = 256 - 2 ^ (n mod 8)"
      using unat_byte_sub_cases [of "ident ! start" inc] inc by (simp only: if_True if_False)
    then have "int (be_val ident') = int (be_val ident) - 2 ^ n + 256 ^ (20 - start)"
      using upd w w' by (simp only: left_diff_distrib mult.commute [of "2 ^ _"])
    then show ?thesis
      using True rdef pred_borrow_val [of start ident'] start len
      by (simp add: id_val_def ident'_def ring_size_def)
  next
    case False
    then have "int (unat (ident ! start - inc)) - int (unat (ident ! start)) = - (2 ^ (n mod 8))"
      using unat_byte_sub_cases [of "ident ! start" inc] inc by (simp only: if_True if_False)
    then have eq: "int (be_val ident') = int (be_val ident) - 2 ^ n"
      using upd w by (simp only: mult_minus_left mult.commute [of "2 ^ _"] add_uminus_conv_diff)
    moreover have "int (be_val ident') < int ring_size"
      using be_val_int_less [of ident'] N len by (simp add: ident'_def)
    ultimately show ?thesis using False rdef
      by (metis id_val_def mod_pos_pos_trivial of_nat_0_le_iff)
  qed
qed

subsection \<open>Addition and subtraction, as numbers\<close>

lemma length_id_add_loop [simp]: "length (id_add_loop a b k c r) = length r"
  by (induction a b k c r rule: id_add_loop.induct) (simp_all add: Let_def)

lemma length_id_subtract_loop [simp]: "length (id_subtract_loop a b k c r) = length r"
  by (induction a b k c r rule: id_subtract_loop.induct) simp_all

lemma int_and_255: "(s :: int) AND 255 = s mod 256"
proof -
  have "s AND mask 8 = take_bit 8 s" by (simp only: take_bit_eq_mask)
  then show ?thesis by (simp add: take_bit_eq_mod mask_eq_exp_minus_1)
qed

lemma int_drop_8: "drop_bit 8 (s :: int) = s div 256"
  by (simp add: drop_bit_eq_div)

lemma unat_byte_of_int: "0 \<le> z \<Longrightarrow> z < 256 \<Longrightarrow> int (unat (word_of_int z :: byte)) = z"
  by (simp add: uint_word_of_int)

text \<open>
  The loop invariant of both loops: below index \<open>k\<close> the result is the sum (difference) of the
  prefixes and the carry (borrow), modulo the size of the prefix; the bytes from \<open>k\<close> on are
  done.
\<close>

lemma be_val_take_Suc:
  "i < length d \<Longrightarrow> int (be_val (take (Suc i) d)) = 256 * int (be_val (take i d)) + uint (d ! i)"
  by (simp add: take_Suc_conv_app_nth be_val_snoc)

lemma be_val_split: "int (be_val d) = int (be_val (take k d)) * 256 ^ (length d - k) + int (be_val (drop k d))"
  by (metis append_take_drop_id be_val_append length_drop of_nat_add of_nat_mult of_nat_numeral of_nat_power)

lemma be_val_drop_update:
  assumes "i < length r"
  shows "be_val (drop i (r[i := v])) = unat v * 256 ^ (length r - Suc i) + be_val (drop (Suc i) r)"
  using assms by (simp add: drop_update_swap Cons_nth_drop_Suc [symmetric])

lemma digit_mod:
  fixes A z :: int
  assumes "0 \<le> z" and "z < 256"
  shows "(256 * A + z) mod (256 * 256 ^ i) = 256 * (A mod 256 ^ i) + z"
proof -
  have "(256 * A + z) div 256 = A" "(256 * A + z) mod 256 = z" using assms by simp_all
  then show ?thesis using zmod_zmult2_eq [of "256 ^ i" "256 * A + z" 256] by simp
qed

lemma id_add_loop_val:
  assumes "k \<le> length r" and "length a = length r" and "length b = length r"
  shows "int (be_val (id_add_loop a b k c r)) =
    ((int (be_val (take k a)) + int (be_val (take k b)) + c) mod 256 ^ k) * 256 ^ (length r - k)
      + int (be_val (drop k r))"
  using assms
proof (induction a b k c r rule: id_add_loop.induct)
  case (1 a b c r)
  show ?case by simp
next
  case (2 a b i c r)
  define s where "s = uint (a ! i) + uint (b ! i) + c"
  define r' where "r' = r[i := word_of_int (s AND 255)]"
  have i: "i < length r" "i < length a" "i < length b" using 2(2-4) by simp_all
  have v: "int (unat (word_of_int (s AND 255) :: byte)) = s mod 256"
    by (simp only: int_and_255) (rule unat_byte_of_int, simp_all)
  have "int (be_val (id_add_loop a b i (s div 256) r')) =
    ((int (be_val (take i a)) + int (be_val (take i b)) + s div 256) mod 256 ^ i) * 256 ^ (length r - i)
      + int (be_val (drop i r'))"
    using 2(1) [OF s_def] 2(2-4) by (simp add: r'_def int_drop_8)
  moreover have "int (be_val (drop i r')) = s mod 256 * 256 ^ (length r - Suc i) + int (be_val (drop (Suc i) r))"
    unfolding r'_def be_val_drop_update [OF i(1)] using v by simp
  moreover have "(int (be_val (take (Suc i) a)) + int (be_val (take (Suc i) b)) + c) mod 256 ^ Suc i =
    256 * ((int (be_val (take i a)) + int (be_val (take i b)) + s div 256) mod 256 ^ i) + s mod 256"
    (is "?L mod _ = _")
  proof -
    have "?L = 256 * (int (be_val (take i a)) + int (be_val (take i b)) + s div 256) + s mod 256"
      using i by (simp add: be_val_take_Suc s_def algebra_simps)
    then show ?thesis by (simp only: power_Suc) (rule digit_mod, simp_all)
  qed
  moreover have "id_add_loop a b (Suc i) c r = id_add_loop a b i (s div 256) r'"
    by (simp add: s_def r'_def Let_def int_drop_8)
  ultimately show ?case
    using power_diff_Suc [OF i(1), of 256] by (simp only: distrib_right)
qed

lemma id_subtract_loop_val:
  assumes "k \<le> length r" and "length a = length r" and "length b = length r"
    and "c = 0 \<or> c = 1"
  shows "int (be_val (id_subtract_loop a b k c r)) =
    ((int (be_val (take k a)) - int (be_val (take k b)) - c) mod 256 ^ k) * 256 ^ (length r - k)
      + int (be_val (drop k r))"
  using assms
proof (induction a b k c r rule: id_subtract_loop.induct)
  case (1 a b c r)
  show ?case by simp
next
  case (2 a b i c r)
  define d where "d = uint (a ! i) - c - uint (b ! i)"
  define c' where "c' = (if d < 0 then 1 else 0 :: int)"
  define r' where "r' = r[i := word_of_int (d + 256 * c')]"
  have i: "i < length r" "i < length a" "i < length b" using 2(3-5) by simp_all
  have "- 256 \<le> d" "d < 256"
    using 2(6) uint_byte_less [of "a ! i"] uint_byte_less [of "b ! i"]
      uint_ge_0 [of "a ! i"] uint_ge_0 [of "b ! i"] unfolding d_def by linarith+
  then have range: "0 \<le> d + 256 * c'" "d + 256 * c' < 256"
    by (simp_all add: c'_def)
  have v: "int (unat (word_of_int (d + 256 * c') :: byte)) = d + 256 * c'"
    using range by (rule unat_byte_of_int)
  have step: "id_subtract_loop a b (Suc i) c r = id_subtract_loop a b i c' r'"
    by (simp add: d_def c'_def r'_def algebra_simps)
  have "int (be_val (id_subtract_loop a b i c' r')) =
    ((int (be_val (take i a)) - int (be_val (take i b)) - c') mod 256 ^ i) * 256 ^ (length r - i)
      + int (be_val (drop i r'))"
    using 2(1,2) 2(3-5) by (auto simp: r'_def c'_def d_def algebra_simps)
  moreover have "int (be_val (drop i r')) = (d + 256 * c') * 256 ^ (length r - Suc i) + int (be_val (drop (Suc i) r))"
    unfolding r'_def be_val_drop_update [OF i(1)] using v
    by (simp only: of_nat_add of_nat_mult of_nat_power of_nat_numeral)
  moreover have "(int (be_val (take (Suc i) a)) - int (be_val (take (Suc i) b)) - c) mod 256 ^ Suc i =
    256 * ((int (be_val (take i a)) - int (be_val (take i b)) - c') mod 256 ^ i) + (d + 256 * c')"
    (is "?L mod _ = _")
  proof -
    have "?L = 256 * (int (be_val (take i a)) - int (be_val (take i b)) - c') + (d + 256 * c')"
      using i by (simp add: be_val_take_Suc d_def algebra_simps)
    then show ?thesis using range by (simp only: power_Suc) (rule digit_mod)
  qed
  ultimately show ?case
    using power_diff_Suc [OF i(1), of 256] step by (simp only: distrib_right)
qed

lemma id_add_int_val:
  assumes "wf_id a" and "wf_id b"
  shows "int (id_val (id_add a b)) = (int (id_val a) + int (id_val b)) mod int ring_size"
    and "wf_id (id_add a b)"
  using id_add_loop_val [of 20 "replicate 20 0" a b 0] assms
  by (simp_all add: id_add_def id_val_def wf_id_def ring_size_def)

lemma id_subtract_int_val:
  assumes "wf_id a" and "wf_id b"
  shows "int (id_val (id_subtract a b)) = (int (id_val a) - int (id_val b)) mod int ring_size"
    and "wf_id (id_subtract a b)"
  using id_subtract_loop_val [of 20 "replicate 20 0" a b 0] assms
  by (simp_all add: id_subtract_def id_val_def wf_id_def ring_size_def)

lemmas id_arith = id_add_int_val id_subtract_int_val

subsection \<open>Random identifiers\<close>

lemma wf_random_from [wf_simps]: "wf_id a \<Longrightarrow> wf_id (random_from rnd a)"
  by (simp add: wf_id_def random_from_def Let_def)

lemma random_byte:
  fixes c :: byte
  shows "unat (word_of_nat (unat c * (rnd mod 10 + 1) div 11) :: byte) = unat c * (rnd mod 10 + 1) div 11"
    and "unat c * (rnd mod 10 + 1) div 11 \<le> unat c"
    and "c \<noteq> 0 \<Longrightarrow> unat c * (rnd mod 10 + 1) div 11 < unat c"
proof -
  have m: "rnd mod 10 + 1 \<le> 10" by simp
  then have le: "unat c * (rnd mod 10 + 1) \<le> unat c * 10" by (intro mult_left_mono) simp_all
  then show "unat c * (rnd mod 10 + 1) div 11 \<le> unat c" by linarith
  then have "unat c * (rnd mod 10 + 1) div 11 < 256" using unat_byte_less [of c] by linarith
  then show "unat (word_of_nat (unat c * (rnd mod 10 + 1) div 11) :: byte) = unat c * (rnd mod 10 + 1) div 11"
    by (simp add: unat_of_nat)
  assume "c \<noteq> 0"
  then have "0 < unat c" by (simp add: unat_gt_0)
  then show "unat c * (rnd mod 10 + 1) div 11 < unat c" using le by linarith
qed

lemma random_from_val:
  "be_val (random_from rnd a) \<le> be_val a \<and> (be_val a \<noteq> 0 \<longrightarrow> be_val (random_from rnd a) < be_val a)"
proof (induction a)
  case (Cons c a)
  let ?v = "unat c * (rnd mod 10 + 1) div 11" and ?w = "256 ^ length a :: nat"
  have e: "be_val (random_from rnd (c # a)) = ?v * ?w + be_val (random_from rnd a)"
    using random_byte(1) [of c rnd] by (simp only: random_from_def Let_def list.map be_val.simps length_map)
  have le: "?v * ?w \<le> unat c * ?w" using random_byte(2) by (intro mult_right_mono) simp_all
  have lt: "?v * ?w < unat c * ?w" if "c \<noteq> 0" using random_byte(3) [OF that] by (intro mult_strict_right_mono) simp_all
  show ?case
  proof (cases "c = 0")
    case False
    then show ?thesis using Cons lt unfolding e be_val.simps by linarith
  qed (use Cons e in simp)
qed (simp add: random_from_def)

lemma ring_off_int:
  assumes "wf_id s"
  shows "int (ring_off s i) = (int (id_val i) - int (id_val s) - 1) mod int ring_size"
proof -
  have "int (id_val i + (ring_size - 1 - id_val s)) = (int (id_val i) - int (id_val s) - 1) + int ring_size"
    using id_val_less [OF assms] by (simp add: of_nat_diff)
  then show ?thesis unfolding ring_off_def by (simp only: of_nat_mod mod_add_self2)
qed

lemma mod_pred_less_iff:
  fixes u v N :: int
  assumes "0 < N" and "v mod N \<noteq> 0"
  shows "(u - 1) mod N < (v - 1) mod N \<longleftrightarrow> 0 < u mod N \<and> u mod N < v mod N"
proof -
  have pred: "(z - 1) mod N = (if z mod N = 0 then N - 1 else z mod N - 1)" for z
  proof -
    have "(z - 1) mod N = (z mod N - 1) mod N" by (simp add: mod_diff_left_eq)
    moreover have "0 \<le> z mod N" "z mod N < N" using assms(1) by simp_all
    then have "z mod N \<noteq> 0 \<Longrightarrow> (z mod N - 1) mod N = z mod N - 1"
      by (intro mod_pos_pos_trivial) linarith+
    ultimately show ?thesis using zmod_minus1 [OF assms(1)] by simp
  qed
  define U V where "U = u mod N" and "V = v mod N"
  have "0 \<le> U" "U < N" "V \<noteq> 0" "0 \<le> V" "V < N" using assms by (simp_all add: U_def V_def)
  then show ?thesis unfolding pred U_def [symmetric] V_def [symmetric] by auto
qed

lemma id_diff_mod_0:
  assumes "wf_id a" and "wf_id b"
  shows "(int (id_val b) - int (id_val a)) mod int ring_size = 0 \<longleftrightarrow> a = b"
proof -
  have "(int (id_val b) - int (id_val a)) mod int ring_size = 0 \<longleftrightarrow>
        int (id_val b) mod int ring_size = int (id_val a) mod int ring_size"
    by (simp add: mod_eq_dvd_iff dvd_eq_mod_eq_0 [symmetric])
  also have "\<dots> \<longleftrightarrow> id_val b = id_val a"
    using assms [THEN id_val_less] by simp
  finally show ?thesis using id_val_inject [OF assms] by auto
qed

subsection \<open>Properties of the identifier arithmetic\<close>

text \<open>For every bit position the program may ask for, \<^verbatim>\<open>chord_id_successor\<close> returns an
  identifier, and its value is the argument's plus \<open>2 ^ n\<close>, modulo the size of the ring: the
  carry loop over the bytes is modular addition.\<close>

theorem chord_id_successor_adds:
  assumes "wf_id ident" and "0 \<le> n" and "n < int CHORD_ID_BITS"
  shows "\<exists>r. chord_id_successor ident n = Inr r \<and> wf_id r \<and>
           id_val r = (id_val ident + 2 ^ nat n) mod 2 ^ 160"
proof -
  obtain r where r: "chord_id_successor ident n = Inr r" "length r = length ident"
    using chord_id_successor_Inr [of n ident] assms by auto
  have "int (id_val r) = int ((id_val ident + 2 ^ nat n) mod ring_size)"
    using successor_int_val [of ident "nat n" r] assms r(1) by (simp add: of_nat_mod)
  then have "id_val r = (id_val ident + 2 ^ nat n) mod ring_size" by (simp only: of_nat_eq_iff)
  then show ?thesis using r assms(1) by (auto simp: wf_id_def ring_size_def)
qed

theorem chord_id_successor_adds_witness:
  "\<exists>r. chord_id_successor (replicate 20 255) 159 = Inr r \<and> wf_id r \<and>
     id_val r = (id_val (replicate 20 255) + 2 ^ nat 159) mod 2 ^ 160"
  by (rule chord_id_successor_adds) (simp_all add: wf_id_def)

text \<open>C23. \<^verbatim>\<open>chord_id_predecessor\<close> undoes \<^verbatim>\<open>chord_id_successor\<close> on every identifier and at every
  bit position, wrap-around included.\<close>

theorem chord_id_predecessor_successor:
  assumes "wf_id ident" and "0 \<le> n" and "n < int CHORD_ID_BITS"
  shows "fbind (chord_id_successor ident n) (\<lambda>r. chord_id_predecessor r n) = Inr ident"
proof -
  obtain r where r: "chord_id_successor ident n = Inr r" "length r = length ident"
    using chord_id_successor_Inr [of n ident] assms by auto
  obtain q where q: "chord_id_predecessor r n = Inr q" "length q = length r"
    using chord_id_predecessor_Inr [of n r] assms by auto
  have wf: "wf_id r" "wf_id q" using r(2) q(2) assms(1) by (simp_all add: wf_id_def)
  have "int (id_val r) = (int (id_val ident) + 2 ^ nat n) mod int ring_size"
    using successor_int_val [of ident "nat n" r] assms r(1) by simp
  moreover have "int (id_val q) = (int (id_val r) - 2 ^ nat n) mod int ring_size"
    using predecessor_int_val [of r "nat n" q] assms q(1) wf(1) by simp
  ultimately have "int (id_val q) = int (id_val ident) mod int ring_size"
    by (simp add: mod_diff_left_eq)
  then have "id_val q = id_val ident" using id_val_less [OF assms(1)] by simp
  then show ?thesis using r(1) q(1) id_val_inject [OF wf(2) assms(1)] by simp
qed

theorem chord_id_predecessor_successor_witness:
  "fbind (chord_id_successor (replicate 20 255) 7) (\<lambda>r. chord_id_predecessor r 7) = Inr (replicate 20 255)"
  by (rule chord_id_predecessor_successor) (simp_all add: wf_id_def)

text \<open>\<^verbatim>\<open>id_add\<close> is addition modulo \<open>2 ^ 160\<close> and \<^verbatim>\<open>id_subtract\<close> inverts it.\<close>

theorem id_add_subtract:
  assumes "wf_id a" and "wf_id b"
  shows "id_val (id_add a b) = (id_val a + id_val b) mod 2 ^ 160 \<and> id_subtract (id_add a b) b = a"
proof
  have "int (id_val (id_add a b)) = int ((id_val a + id_val b) mod ring_size)"
    using id_add_int_val(1) [OF assms] by (simp add: of_nat_mod)
  then show "id_val (id_add a b) = (id_val a + id_val b) mod 2 ^ 160"
    by (simp only: of_nat_eq_iff ring_size_def)
  have wf: "wf_id (id_add a b)" using id_add_int_val(2) [OF assms] .
  have "int (id_val (id_subtract (id_add a b) b)) = int (id_val a) mod int ring_size"
    by (simp add: id_subtract_int_val(1) [OF wf assms(2)] id_add_int_val(1) [OF assms] mod_diff_left_eq)
  then have "id_val (id_subtract (id_add a b) b) = id_val a" using id_val_less [OF assms(1)] by simp
  then show "id_subtract (id_add a b) b = a"
    using id_val_inject [OF id_subtract_int_val(2) [OF wf assms(2)] assms(1)] by simp
qed

theorem id_add_subtract_witness:
  "id_val (id_add (replicate 20 200) (replicate 20 100)) =
     (id_val (replicate 20 200) + id_val (replicate 20 100)) mod 2 ^ 160 \<and>
   id_subtract (id_add (replicate 20 200) (replicate 20 100)) (replicate 20 100) = replicate 20 200"
  by (rule id_add_subtract) (simp_all add: wf_id_def)

text \<open>C24. \<^verbatim>\<open>id_is_between\<close> decides the open clockwise interval from \<open>a\<close> to \<open>b\<close>: measured
  clockwise from \<open>a\<close>, \<open>x\<close> comes strictly after \<open>a\<close> and strictly before \<open>b\<close>; when the two
  ends coincide the interval is the whole ring without that point.\<close>

theorem id_is_between_interval:
  assumes "wf_id x" and "wf_id a" and "wf_id b"
  shows "id_is_between x a b \<longleftrightarrow>
    (if a = b then x \<noteq> a
     else 0 < (int (id_val x) - int (id_val a)) mod 2 ^ 160 \<and>
          (int (id_val x) - int (id_val a)) mod 2 ^ 160 < (int (id_val b) - int (id_val a)) mod 2 ^ 160)"
proof (cases "a = b")
  case True
  then show ?thesis using assms by (simp add: id_is_between_def id_equals_iff)
next
  case False
  have "ring_off a x < ring_off a b \<longleftrightarrow> int (ring_off a x) < int (ring_off a b)" by simp
  also have "\<dots> \<longleftrightarrow> 0 < (int (id_val x) - int (id_val a)) mod int ring_size \<and>
      (int (id_val x) - int (id_val a)) mod int ring_size < (int (id_val b) - int (id_val a)) mod int ring_size"
    unfolding ring_off_int [OF assms(2)] using False
    by (intro mod_pred_less_iff) (simp_all add: id_diff_mod_0 assms)
  finally show ?thesis using False id_is_between_off [OF assms] by (simp add: ring_size_def)
qed

theorem id_is_between_interval_witness:
  "id_is_between (replicate 20 1) (replicate 20 255) (replicate 20 7) \<longleftrightarrow>
    (if replicate 20 255 = replicate 20 (7::byte) then replicate 20 1 \<noteq> replicate 20 (255::byte)
     else 0 < (int (id_val (replicate 20 1)) - int (id_val (replicate 20 255))) mod 2 ^ 160 \<and>
          (int (id_val (replicate 20 1)) - int (id_val (replicate 20 255))) mod 2 ^ 160
            < (int (id_val (replicate 20 7)) - int (id_val (replicate 20 255))) mod 2 ^ 160)"
  by (rule id_is_between_interval) (simp_all add: wf_id_def)

text \<open>Whatever \<^verbatim>\<open>random()\<close> returns, \<^verbatim>\<open>id_random_between\<close> yields \<open>a\<close> itself or an
  identifier of the open interval from \<open>a\<close> to \<open>b\<close>; it never reaches \<open>b\<close>.\<close>

theorem id_random_between_in_interval:
  assumes "wf_id a" and "wf_id b"
  shows "wf_id (id_random_between rnd a b) \<and>
         (id_random_between rnd a b = a \<or> id_is_between (id_random_between rnd a b) a b)"
proof -
  define d where "d = id_subtract b a"
  define r where "r = random_from rnd d"
  define q where "q = id_add a r"
  have q_eq: "id_random_between rnd a b = q" by (simp add: id_random_between_def d_def r_def q_def Let_def)
  have wfd: "wf_id d" and wfr: "wf_id r" and wfq: "wf_id q"
    by (simp_all add: d_def r_def q_def id_arith wf_random_from assms)
  have dv: "int (id_val d) = (int (id_val b) - int (id_val a)) mod int ring_size"
    by (simp add: d_def id_arith assms)
  have "int (id_val q) - int (id_val a) = ((int (id_val a) + int (id_val r)) mod int ring_size) - int (id_val a)"
    by (simp add: q_def id_arith assms wfr)
  then have qv: "(int (id_val q) - int (id_val a)) mod int ring_size = int (id_val r)"
    using id_val_less [OF wfr] by (simp add: mod_diff_left_eq)
  have rv: "id_val r \<le> id_val d" "id_val d \<noteq> 0 \<Longrightarrow> id_val r < id_val d"
    using random_from_val [of rnd d] by (simp_all add: r_def id_val_def)
  show ?thesis
  proof (cases "id_val r = 0")
    case True
    then have "q = a" using id_diff_mod_0 [OF assms(1) wfq] qv by simp
    then show ?thesis using q_eq wfq by simp
  next
    case False
    then have "id_val d \<noteq> 0" using rv(1) by simp
    then have "int (ring_off a q) < int (ring_off a b)"
      unfolding ring_off_int [OF assms(1)] using dv qv rv(2) False
      by (subst mod_pred_less_iff) simp_all
    then show ?thesis using q_eq wfq id_is_between_off [OF wfq assms] by simp
  qed
qed

theorem id_random_between_in_interval_witness:
  "wf_id (id_random_between 3 (replicate 20 9) (replicate 20 4)) \<and>
   (id_random_between 3 (replicate 20 9) (replicate 20 4) = replicate 20 9 \<or>
    id_is_between (id_random_between 3 (replicate 20 9) (replicate 20 4)) (replicate 20 9) (replicate 20 4))"
  by (rule id_random_between_in_interval) (simp_all add: wf_id_def)

end
