(* ===== verification/Chord_Addr.thy ===== *)
theory Chord_Addr
  imports Tangent_Prelude
begin

text \<open>
  Network addresses and round-trip times: the address helpers of \<^verbatim>\<open>src/src/util.c\<close> (all peers are
  stored as 16-byte IPv6 addresses, IPv4 peers as IPv4-mapped ones) and the smoothed round-trip
  estimate \<^verbatim>\<open>update_rtt\<close>.
\<close>

type_synonym in6_addr = "byte list"

definition wf_addr :: "in6_addr \<Rightarrow> bool" where
  "wf_addr a \<longleftrightarrow> length a = 16"

definition v6_addr_equals :: "in6_addr \<Rightarrow> in6_addr \<Rightarrow> bool" where
  "v6_addr_equals addr1 addr2 \<longleftrightarrow> memcmp addr1 addr2 = 0"

text \<open>\<^verbatim>\<open>v6_addr_set\<close> copies 16 bytes from a raw buffer, for example a field of a packet.\<close>

definition v6_addr_set :: "byte list \<Rightarrow> in6_addr res" where
  "v6_addr_set src = memcpy src 16"

definition IN6_IS_ADDR_UNSPECIFIED :: "in6_addr \<Rightarrow> bool" where
  "IN6_IS_ADDR_UNSPECIFIED a \<longleftrightarrow> a = replicate 16 0"

definition V4_MAPPED :: "in6_addr \<Rightarrow> bool" where
  "V4_MAPPED a \<longleftrightarrow> take 10 a = replicate 10 0 \<and> a ! 10 = 255 \<and> a ! 11 = 255"

definition to_v6addr :: "ulong \<Rightarrow> in6_addr" where
  "to_v6addr v4addr = replicate 10 0 @ replicate 2 255 @ take 4 (le_bytes 8 v4addr)"

text \<open>
  \<^verbatim>\<open>to_v4addr\<close> reads a whole \<^verbatim>\<open>ulong\<close>, 8 bytes, at offset 12 of the 16-byte address: the last
  four bytes it reads are whatever \<open>trailing\<close> bytes follow the address in memory.
\<close>

definition to_v4addr :: "byte list \<Rightarrow> in6_addr \<Rightarrow> ulong" where
  "to_v4addr trailing v6addr = le_word (drop 12 v6addr @ trailing)"

definition htons :: "ushort \<Rightarrow> ushort" where
  "htons p = le_word (rev (le_bytes 2 p))"

definition htonl :: "uint32 \<Rightarrow> uint32" where
  "htonl w = le_word (rev (le_bytes 4 w))"

subsection \<open>Round-trip times\<close>

text \<open>A result of \<^verbatim>\<open>long\<close> arithmetic; leaving the 64-bit range is undefined behaviour.\<close>

definition chk_long :: "int \<Rightarrow> int res" where
  "chk_long z = (if - (2 ^ 63) \<le> z \<and> z < 2 ^ 63 then Inr z else Inl Signed_overflow)"

text \<open>The right shifts of negative numbers are arithmetic, that is, they round down.\<close>

definition update_rtt :: "int \<Rightarrow> int \<Rightarrow> int \<Rightarrow> (int \<times> int) res" where
  "update_rtt rtt_avg rtt_dev new_rtt =
     (if rtt_avg = 0 then Inr (new_rtt, 0)
      else
        fbind (chk_long (new_rtt - rtt_avg)) (\<lambda>err.
        fbind (chk_long (rtt_avg + err div 8)) (\<lambda>rtt_avg'.
        fbind (if err < 0 then chk_long (- err) else Inr err) (\<lambda>err'.
        fbind (chk_long (err' - rtt_dev)) (\<lambda>d.
        fbind (chk_long (rtt_dev + d div 4)) (\<lambda>rtt_dev'.
        Inr (rtt_avg', rtt_dev')))))))"

subsection \<open>Lemmas\<close>

lemma v6_addr_equals_iff [wf_simps]: "wf_addr a \<Longrightarrow> wf_addr b \<Longrightarrow> v6_addr_equals a b \<longleftrightarrow> a = b"
  by (simp add: wf_addr_def v6_addr_equals_def memcmp_eq_0)

lemma v6_addr_set_Inr [res_simps]: "v6_addr_set src = Inr a \<longleftrightarrow> 16 \<le> length src \<and> a = take 16 src"
  by (simp add: v6_addr_set_def res_simps)

lemma v6_addr_set_wf: "v6_addr_set src = Inr a \<Longrightarrow> wf_addr a"
  by (auto simp: res_simps wf_addr_def)

lemma wf_to_v6addr [wf_simps]: "wf_addr (to_v6addr v)"
  by (simp add: wf_addr_def to_v6addr_def)

lemma chk_long_Inr [res_simps]: "chk_long z = Inr y \<longleftrightarrow> y = z \<and> - (2 ^ 63) \<le> z \<and> z < 2 ^ 63"
  by (auto simp: chk_long_def)

subsection \<open>Properties\<close>

text \<open>Mapping an IPv4 address into IPv6 and back gives the address, whatever bytes lie behind
  the object that \<^verbatim>\<open>to_v4addr\<close> over-reads: only the 32 bits the callers keep are meaningful. The
  image is recognised as IPv4-mapped.\<close>

theorem to_v4addr_to_v6addr:
  "V4_MAPPED (to_v6addr v) \<and> (ucast (to_v4addr trailing (to_v6addr v)) :: uint32) = ucast v"
proof
  show "V4_MAPPED (to_v6addr v)" by (simp add: V4_MAPPED_def to_v6addr_def nth_append)
  have "take 4 (le_bytes 8 v) = le_bytes 4 v"
    by (simp add: le_bytes_def take_map)
  then have "drop 12 (to_v6addr v) = le_bytes 4 v" by (simp add: to_v6addr_def)
  then have e: "be_val (rev (drop 12 (to_v6addr v) @ trailing)) =
      be_val (rev trailing) * 256 ^ 4 + unat v mod 256 ^ 4"
    by (simp add: be_val_append be_val_rev_le_bytes)
  define X where "X = be_val (rev (drop 12 (to_v6addr v) @ trailing))"
  have "unat (ucast (to_v4addr trailing (to_v6addr v)) :: uint32) = X mod 2 ^ 64 mod 2 ^ 32"
    unfolding to_v4addr_def le_word_def X_def [symmetric]
    by (simp add: unsigned_ucast_eq take_bit_eq_mod unat_of_nat)
  also have "\<dots> = X mod 2 ^ 32" by (rule mod_mod_cancel) (simp add: le_imp_power_dvd)
  also have "\<dots> = unat (ucast v :: uint32)"
    unfolding X_def e by (simp add: unsigned_ucast_eq take_bit_eq_mod)
  finally have "unat (ucast (to_v4addr trailing (to_v6addr v)) :: uint32) = unat (ucast v :: uint32)" .
  then show "(ucast (to_v4addr trailing (to_v6addr v)) :: uint32) = ucast v"
    by (rule unsigned_word_eqI)
qed

text \<open>The IPv4 address inside an address: what the program sends to, whatever lies behind the address in memory; and the address that a packet from there is seen under.\<close>

definition v4_part :: "in6_addr \<Rightarrow> uint32" where
  "v4_part a = le_word (drop 12 a)"

lemma to_v4addr_part:
  assumes "wf_addr a"
  shows "(ucast (to_v4addr trailing a) :: uint32) = v4_part a"
proof -
  define X where "X = be_val (rev (drop 12 a @ trailing))"
  have "X = be_val (rev trailing) * 2 ^ 32 + be_val (rev (drop 12 a))" using assms by (simp add: X_def be_val_append wf_addr_def)
  then have X: "X mod 2 ^ 32 = be_val (rev (drop 12 a)) mod 2 ^ 32" by simp
  have "unat (ucast (to_v4addr trailing a) :: uint32) = X mod 2 ^ 64 mod 2 ^ 32"
    unfolding to_v4addr_def le_word_def X_def [symmetric] by (simp add: unsigned_ucast_eq take_bit_eq_mod unat_of_nat)
  also have "\<dots> = X mod 2 ^ 32" by (rule mod_mod_cancel) (simp add: le_imp_power_dvd)
  also have "\<dots> = unat (v4_part a)" unfolding X v4_part_def le_word_def by (simp add: unat_of_nat take_bit_eq_mod)
  finally show ?thesis by (rule unsigned_word_eqI)
qed

lemma to_v6addr_part:
  assumes "wf_addr a" and "V4_MAPPED a"
  shows "to_v6addr (ucast (v4_part a)) = a"
proof -
  have len: "length a = 16" using assms(1) by (simp add: wf_addr_def)
  have "drop 10 a = a ! 10 # a ! 11 # drop 12 a" using Cons_nth_drop_Suc [of 10 a] Cons_nth_drop_Suc [of 11 a] len by simp
  then have a: "a = replicate 10 0 @ [255, 255] @ drop 12 a" using assms(2) append_take_drop_id [of 10 a] by (simp add: V4_MAPPED_def)
  have "be_val (rev (drop 12 a)) < 256 ^ 4" using be_val_less [of "rev (drop 12 a)"] len by simp
  then have "be_val (rev (le_bytes 4 (ucast (v4_part a) :: ulong))) = be_val (rev (drop 12 a))"
    by (simp add: be_val_rev_le_bytes v4_part_def le_word_def unsigned_ucast_eq take_bit_eq_mod unat_of_nat)
  then have "le_bytes 4 (ucast (v4_part a) :: ulong) = drop 12 a" using be_val_inject [of "rev (le_bytes 4 (ucast (v4_part a) :: ulong))" "rev (drop 12 a)"] len by simp
  moreover have "take 4 (le_bytes 8 w) = le_bytes 4 w" for w :: ulong by (simp add: le_bytes_def take_map)
  ultimately have "to_v6addr (ucast (v4_part a)) = replicate 10 0 @ [255, 255] @ drop 12 a" by (simp add: to_v6addr_def numeral_2_eq_2)
  then show ?thesis using a by simp
qed

lemma V4_MAPPED_to_v6addr [simp]: "V4_MAPPED (to_v6addr v)"
  using to_v4addr_to_v6addr by blast

lemma v4_part_inject: "wf_addr a \<Longrightarrow> wf_addr b \<Longrightarrow> V4_MAPPED a \<Longrightarrow> V4_MAPPED b \<Longrightarrow> v4_part a = v4_part b \<longleftrightarrow> a = b"
  by (metis to_v6addr_part)

text \<open>Times of moderate size, of either sign, do not overflow, and the two updates are the usual exponential averages.\<close>

lemma update_rtt_exact:
  assumes "avg \<noteq> 0" and "\<bar>avg\<bar> < 2 ^ 61" and "\<bar>dev\<bar> < 2 ^ 61" and "\<bar>new\<bar> < 2 ^ 61"
  shows "update_rtt avg dev new = Inr (avg + (new - avg) div 8, dev + (\<bar>new - avg\<bar> - dev) div 4)"
proof -
  define err where "err = new - avg"
  define d where "d = \<bar>err\<bar> - dev"
  have err8: "min err 0 \<le> err div 8" "err div 8 \<le> max err 0" by linarith+
  have d4: "min d 0 \<le> d div 4" "d div 4 \<le> max d 0" by linarith+
  have err: "- (2 ^ 62) < err" "err < 2 ^ 62" using assms by (simp_all add: err_def)
  then have c: "chk_long err = Inr err" "chk_long (avg + err div 8) = Inr (avg + err div 8)"
    "(if err < 0 then chk_long (- err) else Inr err) = Inr \<bar>err\<bar>"
    using err8 assms(2) by (auto simp: chk_long_def abs_if split: if_splits)
  have "- (2 ^ 62) < d" "d < 2 ^ 62 + 2 ^ 61" using err assms(3) by (simp_all add: d_def)
  then have d: "chk_long d = Inr d" "chk_long (dev + d div 4) = Inr (dev + d div 4)"
    using d4 assms(3) by (auto simp: chk_long_def)
  show ?thesis
    using assms(1) by (simp add: update_rtt_def err_def [symmetric] c d d_def [symmetric])
qed

lemma update_rtt_eq:
  assumes "0 < avg" and "avg < 2 ^ 62" and "0 \<le> dev" and "dev < 2 ^ 62" and "0 \<le> new" and "new < 2 ^ 62"
  shows "update_rtt avg dev new = Inr (avg + (new - avg) div 8, dev + (\<bar>new - avg\<bar> - dev) div 4)"
proof -
  define err where "err = new - avg"
  define d where "d = \<bar>err\<bar> - dev"
  have err8: "min err 0 \<le> err div 8" "err div 8 \<le> max err 0" by linarith+
  have d4: "min d 0 \<le> d div 4" "d div 4 \<le> max d 0" by linarith+
  have "- (2 ^ 62) < err" "err < 2 ^ 62" using assms by (simp_all add: err_def)
  then have c: "chk_long err = Inr err" "chk_long (avg + err div 8) = Inr (avg + err div 8)"
    "(if err < 0 then chk_long (- err) else Inr err) = Inr \<bar>err\<bar>"
    using err8 assms(1,2) by (auto simp: chk_long_def abs_if)
  have "- (2 ^ 62) < d" "d < 2 ^ 62" using \<open>- (2 ^ 62) < err\<close> \<open>err < 2 ^ 62\<close> assms(3,4) by (simp_all add: d_def)
  then have d: "chk_long d = Inr d" "chk_long (dev + d div 4) = Inr (dev + d div 4)"
    using d4 assms(3,4) by (auto simp: chk_long_def)
  show ?thesis
    using assms(1) by (simp add: update_rtt_def err_def [symmetric] c d d_def [symmetric])
qed

text \<open>C27. The round-trip estimator on every branch, for times of either sign below \<open>2 ^ 61\<close> microseconds: nothing overflows. The first sample (an average of zero) becomes the average, with deviation zero.
  Any other sample moves the average by an eighth of the error and the deviation by a quarter of its distance to the size of the error, both rounded down; so neither moves past its target,
  and an average or deviation that was off by eight (four) or more moves.\<close>

theorem update_rtt_bounds:
  assumes "\<bar>avg\<bar> < 2 ^ 61" and "\<bar>dev\<bar> < 2 ^ 61" and "\<bar>new\<bar> < 2 ^ 61"
  shows "\<exists>avg' dev'. update_rtt avg dev new = Inr (avg', dev') \<and>
    (if avg = 0 then avg' = new \<and> dev' = 0
     else avg' - avg = (new - avg) div 8 \<and> dev' - dev = (\<bar>new - avg\<bar> - dev) div 4 \<and>
       min avg new \<le> avg' \<and> avg' \<le> max avg new \<and> (8 \<le> \<bar>new - avg\<bar> \<longrightarrow> \<bar>new - avg'\<bar> < \<bar>new - avg\<bar>) \<and>
       min dev \<bar>new - avg\<bar> \<le> dev' \<and> dev' \<le> max dev \<bar>new - avg\<bar> \<and> (4 \<le> \<bar>\<bar>new - avg\<bar> - dev\<bar> \<longrightarrow> \<bar>\<bar>new - avg\<bar> - dev'\<bar> < \<bar>\<bar>new - avg\<bar> - dev\<bar>))"
proof (cases "avg = 0")
  case False
  have "min a n \<le> a + (n - a) div 8" "a + (n - a) div 8 \<le> max a n" "8 \<le> \<bar>n - a\<bar> \<Longrightarrow> \<bar>n - (a + (n - a) div 8)\<bar> < \<bar>n - a\<bar>" for a n :: int by linarith+
  moreover have "min d e \<le> d + (e - d) div 4" "d + (e - d) div 4 \<le> max d e" "4 \<le> \<bar>e - d\<bar> \<Longrightarrow> \<bar>e - (d + (e - d) div 4)\<bar> < \<bar>e - d\<bar>" for d e :: int by linarith+
  ultimately show ?thesis unfolding update_rtt_exact [OF False assms] using False by simp
qed (simp add: update_rtt_def)

theorem update_rtt_bounds_witness:
  "\<exists>avg' dev'. update_rtt 100 8 (-20) = Inr (avg', dev') \<and> avg' - 100 = - 15 \<and> dev' - 8 = 28"
  using update_rtt_bounds [of 100 8 "-20"] by (auto intro!: exI)

end
