(* ===== verification/Chord_Messages.thy ===== *)
theory Chord_Messages
  imports Chord_Id Chord_Addr
begin

text \<open>
  The wire messages of \<^verbatim>\<open>src/src/messages.pb-c.h\<close> as records, their initialisers, and the
  environment of the server: everything the program calls that is not part of the repository (the
  protobuf-c codec, SHA-1, the clocks, \<^verbatim>\<open>random\<close>, \<^verbatim>\<open>inet_ntop\<close>) is a field of \<open>env\<close>, and what
  the program relies on is a named predicate over it.
\<close>

subsection \<open>The structures of the generated header\<close>

text \<open>
  An optional field has its \<^verbatim>\<open>has_\<close> flag beside it; an absent one holds the default of the
  initialiser. A \<^verbatim>\<open>ProtobufCBinaryData\<close> is its bytes (\<^verbatim>\<open>{0, NULL}\<close> is the empty list).
\<close>

record Header =
  hdr_has_version :: bool
  hdr_version :: uint32
  hdr_type :: uint32
  hdr_payload :: "byte list"

record Ticket =
  tkt_time :: uint32
  tkt_hash :: "byte list"

record AddrDiscover =
  ad_has_ticket :: bool
  ad_ticket :: "byte list"

record AddrDiscoverReply =
  adr_has_ticket :: bool
  adr_ticket :: "byte list"
  adr_addr :: "byte list"

record Data =
  dat_id :: "byte list"
  dat_has_ttl :: bool
  dat_ttl :: uint32
  dat_has_last :: bool
  dat_last :: bool
  dat_data :: "byte list"

record FindSuccessor =
  fs_has_ticket :: bool
  fs_ticket :: "byte list"
  fs_has_ttl :: bool
  fs_ttl :: uint32
  fs_addr :: "byte list"
  fs_port :: uint32

record FindSuccessorReply =
  fsr_has_ticket :: bool
  fsr_ticket :: "byte list"
  fsr_addr :: "byte list"
  fsr_port :: uint32

record Stabilize =
  stab_addr :: "byte list"
  stab_port :: uint32

record StabilizeReply =
  stabr_addr :: "byte list"
  stabr_port :: uint32

record Notify =
  ntf_unit :: unit

record Ping =
  ping_has_ticket :: bool
  ping_ticket :: "byte list"
  ping_time :: ulong

record Pong =
  pong_has_ticket :: bool
  pong_ticket :: "byte list"
  pong_time :: ulong

text \<open>The messages of the file client, \<^verbatim>\<open>src/file_client/d_messages.pb-c.h\<close>.\<close>

record ClientRequest =
  cr_name :: "byte list"

record ClientRequestReply =
  crr_name :: "byte list"
  crr_code :: uint32

record Query =
  qry_reply_addr :: "byte list"
  qry_reply_port :: uint32
  qry_name :: "byte list"

record QueryReplySuccess =
  qrs_name :: "byte list"

record QueryReplyFailure =
  qrf_name :: "byte list"

record Push =
  psh_reply_addr :: "byte list"
  psh_reply_port :: uint32
  psh_name :: "byte list"

record PushReply =
  pshr_name :: "byte list"

datatype message =
    M_Header Header
  | M_Ticket Ticket
  | M_AddrDiscover AddrDiscover
  | M_AddrDiscoverReply AddrDiscoverReply
  | M_Data Data
  | M_FindSuccessor FindSuccessor
  | M_FindSuccessorReply FindSuccessorReply
  | M_Stabilize Stabilize
  | M_StabilizeReply StabilizeReply
  | M_Notify Notify
  | M_Ping Ping
  | M_Pong Pong
  | M_ClientRequest ClientRequest
  | M_ClientRequestReply ClientRequestReply
  | M_Query Query
  | M_QueryReplySuccess QueryReplySuccess
  | M_QueryReplyFailure QueryReplyFailure
  | M_Push Push
  | M_PushReply PushReply

text \<open>The descriptor each structure's \<^verbatim>\<open>base\<close> points to.\<close>

datatype msg_desc =
    header__descriptor | ticket__descriptor | addr_discover__descriptor
  | addr_discover_reply__descriptor | data__descriptor | find_successor__descriptor
  | find_successor_reply__descriptor | stabilize__descriptor | stabilize_reply__descriptor
  | notify__descriptor | ping__descriptor | pong__descriptor
  | client_request__descriptor | client_request_reply__descriptor | query__descriptor | query_reply_success__descriptor
  | query_reply_failure__descriptor | push__descriptor | push_reply__descriptor

fun descriptor_of :: "message \<Rightarrow> msg_desc" where
  "descriptor_of (M_Header _) = header__descriptor"
| "descriptor_of (M_Ticket _) = ticket__descriptor"
| "descriptor_of (M_AddrDiscover _) = addr_discover__descriptor"
| "descriptor_of (M_AddrDiscoverReply _) = addr_discover_reply__descriptor"
| "descriptor_of (M_Data _) = data__descriptor"
| "descriptor_of (M_FindSuccessor _) = find_successor__descriptor"
| "descriptor_of (M_FindSuccessorReply _) = find_successor_reply__descriptor"
| "descriptor_of (M_Stabilize _) = stabilize__descriptor"
| "descriptor_of (M_StabilizeReply _) = stabilize_reply__descriptor"
| "descriptor_of (M_Notify _) = notify__descriptor"
| "descriptor_of (M_Ping _) = ping__descriptor"
| "descriptor_of (M_Pong _) = pong__descriptor"
| "descriptor_of (M_ClientRequest _) = client_request__descriptor"
| "descriptor_of (M_ClientRequestReply _) = client_request_reply__descriptor"
| "descriptor_of (M_Query _) = query__descriptor"
| "descriptor_of (M_QueryReplySuccess _) = query_reply_success__descriptor"
| "descriptor_of (M_QueryReplyFailure _) = query_reply_failure__descriptor"
| "descriptor_of (M_Push _) = push__descriptor"
| "descriptor_of (M_PushReply _) = push_reply__descriptor"

subsection \<open>The initialisers\<close>

definition HEADER__INIT :: Header where
  "HEADER__INIT = \<lparr>hdr_has_version = False, hdr_version = 0, hdr_type = 0, hdr_payload = []\<rparr>"

definition TICKET__INIT :: Ticket where
  "TICKET__INIT = \<lparr>tkt_time = 0, tkt_hash = []\<rparr>"

definition ADDR_DISCOVER__INIT :: AddrDiscover where
  "ADDR_DISCOVER__INIT = \<lparr>ad_has_ticket = False, ad_ticket = []\<rparr>"

definition ADDR_DISCOVER_REPLY__INIT :: AddrDiscoverReply where
  "ADDR_DISCOVER_REPLY__INIT = \<lparr>adr_has_ticket = False, adr_ticket = [], adr_addr = []\<rparr>"

definition DATA__INIT :: Data where
  "DATA__INIT = \<lparr>dat_id = [], dat_has_ttl = False, dat_ttl = 32, dat_has_last = False,
     dat_last = False, dat_data = []\<rparr>"

definition FIND_SUCCESSOR__INIT :: FindSuccessor where
  "FIND_SUCCESSOR__INIT = \<lparr>fs_has_ticket = False, fs_ticket = [], fs_has_ttl = False, fs_ttl = 0,
     fs_addr = [], fs_port = 0\<rparr>"

definition FIND_SUCCESSOR_REPLY__INIT :: FindSuccessorReply where
  "FIND_SUCCESSOR_REPLY__INIT = \<lparr>fsr_has_ticket = False, fsr_ticket = [], fsr_addr = [], fsr_port = 0\<rparr>"

definition STABILIZE__INIT :: Stabilize where
  "STABILIZE__INIT = \<lparr>stab_addr = [], stab_port = 0\<rparr>"

definition STABILIZE_REPLY__INIT :: StabilizeReply where
  "STABILIZE_REPLY__INIT = \<lparr>stabr_addr = [], stabr_port = 0\<rparr>"

definition NOTIFY__INIT :: Notify where
  "NOTIFY__INIT = \<lparr>ntf_unit = ()\<rparr>"

definition PING__INIT :: Ping where
  "PING__INIT = \<lparr>ping_has_ticket = False, ping_ticket = [], ping_time = 0\<rparr>"

definition PONG__INIT :: Pong where
  "PONG__INIT = \<lparr>pong_has_ticket = False, pong_ticket = [], pong_time = 0\<rparr>"

definition CLIENT_REQUEST__INIT :: ClientRequest where
  "CLIENT_REQUEST__INIT = \<lparr>cr_name = []\<rparr>"

definition CLIENT_REQUEST_REPLY__INIT :: ClientRequestReply where
  "CLIENT_REQUEST_REPLY__INIT = \<lparr>crr_name = [], crr_code = 0\<rparr>"

definition QUERY__INIT :: Query where
  "QUERY__INIT = \<lparr>qry_reply_addr = [], qry_reply_port = 0, qry_name = []\<rparr>"

definition QUERY_REPLY_SUCCESS__INIT :: QueryReplySuccess where
  "QUERY_REPLY_SUCCESS__INIT = \<lparr>qrs_name = []\<rparr>"

definition QUERY_REPLY_FAILURE__INIT :: QueryReplyFailure where
  "QUERY_REPLY_FAILURE__INIT = \<lparr>qrf_name = []\<rparr>"

definition PUSH__INIT :: Push where
  "PUSH__INIT = \<lparr>psh_reply_addr = [], psh_reply_port = 0, psh_name = []\<rparr>"

definition PUSH_REPLY__INIT :: PushReply where
  "PUSH_REPLY__INIT = \<lparr>pshr_name = []\<rparr>"

text \<open>
  A message is canonical when its absent optional fields hold the initialiser's default: what a
  decoder that starts from the initialiser returns.
\<close>

fun canonical :: "message \<Rightarrow> bool" where
  "canonical (M_Header m) = (hdr_has_version m \<or> hdr_version m = hdr_version HEADER__INIT)"
| "canonical (M_AddrDiscover m) = (ad_has_ticket m \<or> ad_ticket m = [])"
| "canonical (M_AddrDiscoverReply m) = (adr_has_ticket m \<or> adr_ticket m = [])"
| "canonical (M_Data m) = ((dat_has_ttl m \<or> dat_ttl m = dat_ttl DATA__INIT) \<and>
     (dat_has_last m \<or> dat_last m = dat_last DATA__INIT))"
| "canonical (M_FindSuccessor m) = ((fs_has_ticket m \<or> fs_ticket m = []) \<and>
     (fs_has_ttl m \<or> fs_ttl m = fs_ttl FIND_SUCCESSOR__INIT))"
| "canonical (M_FindSuccessorReply m) = (fsr_has_ticket m \<or> fsr_ticket m = [])"
| "canonical (M_Ping m) = (ping_has_ticket m \<or> ping_ticket m = [])"
| "canonical (M_Pong m) = (pong_has_ticket m \<or> pong_ticket m = [])"
| "canonical _ = True"

text \<open>The bytes a message carries in its byte-string fields.\<close>

fun msg_len :: "message \<Rightarrow> nat" where
  "msg_len (M_Header m) = length (hdr_payload m)"
| "msg_len (M_Ticket m) = length (tkt_hash m)"
| "msg_len (M_AddrDiscover m) = length (ad_ticket m)"
| "msg_len (M_AddrDiscoverReply m) = length (adr_ticket m) + length (adr_addr m)"
| "msg_len (M_Data m) = length (dat_id m) + length (dat_data m)"
| "msg_len (M_FindSuccessor m) = length (fs_ticket m) + length (fs_addr m)"
| "msg_len (M_FindSuccessorReply m) = length (fsr_ticket m) + length (fsr_addr m)"
| "msg_len (M_Stabilize m) = length (stab_addr m)"
| "msg_len (M_StabilizeReply m) = length (stabr_addr m)"
| "msg_len (M_Notify m) = 0"
| "msg_len (M_Ping m) = length (ping_ticket m)"
| "msg_len (M_Pong m) = length (pong_ticket m)"
| "msg_len (M_ClientRequest m) = length (cr_name m)"
| "msg_len (M_ClientRequestReply m) = length (crr_name m)"
| "msg_len (M_Query m) = length (qry_reply_addr m) + length (qry_name m)"
| "msg_len (M_QueryReplySuccess m) = length (qrs_name m)"
| "msg_len (M_QueryReplyFailure m) = length (qrf_name m)"
| "msg_len (M_Push m) = length (psh_reply_addr m) + length (psh_name m)"
| "msg_len (M_PushReply m) = length (pshr_name m)"

subsection \<open>The environment\<close>

text \<open>
  The readings of the clocks and of \<^verbatim>\<open>random\<close> are functions of a counter that the state
  advances, so that different calls may see different values. \<open>mem_after a\<close> are the bytes behind
  an address object, \<open>va_ulong\<close> what \<^verbatim>\<open>va_arg(args, ulong)\<close> yields for an argument that was
  passed as \<^verbatim>\<open>uint32_t\<close>, and \<open>pb_free_null\<close> tells whether freeing a \<^verbatim>\<open>NULL\<close> message is
  harmless (it depends on the assertion macro of the protobuf-c version in use).
\<close>

record env =
  sha1 :: "byte list \<Rightarrow> byte list"
  pb_pack :: "message \<Rightarrow> byte list"
  pb_unpack :: "msg_desc \<Rightarrow> byte list \<Rightarrow> message option"
  pb_free_null :: bool
  time_pack :: "nat \<Rightarrow> int"
  time_verify :: "nat \<Rightarrow> int"
  wall_time :: "nat \<Rightarrow> ulong"
  random :: "nat \<Rightarrow> nat"
  inet_ntop6 :: "in6_addr \<Rightarrow> string"
  mem_after :: "in6_addr \<Rightarrow> byte list"
  va_ulong :: "uint32 \<Rightarrow> ulong"

text \<open>
  What the program relies on: SHA-1 digests have 20 bytes; a canonical message survives
  encoding and decoding under its own descriptor; decoding yields a message of the requested
  type whose byte strings come from the input; encoding adds at most 32 bytes of tags, lengths and numbers
  (in the protobuf wire format a tag takes one byte, a length below \<open>2 ^ 21\<close> at most three, a 32-bit number at most five).
\<close>

definition sha1_ok :: "env \<Rightarrow> bool" where
  "sha1_ok E \<longleftrightarrow> (\<forall>bs. length (sha1 E bs) = CHORD_ID_BYTES)"

definition codec_ok :: "env \<Rightarrow> bool" where
  "codec_ok E \<longleftrightarrow> (\<forall>m. canonical m \<longrightarrow> pb_unpack E (descriptor_of m) (pb_pack E m) = Some m)"

definition codec_typed :: "env \<Rightarrow> bool" where
  "codec_typed E \<longleftrightarrow> (\<forall>d bs m. pb_unpack E d bs = Some m \<longrightarrow> descriptor_of m = d)"

definition codec_bounded :: "env \<Rightarrow> bool" where
  "codec_bounded E \<longleftrightarrow> (\<forall>d bs m. pb_unpack E d bs = Some m \<longrightarrow> msg_len m \<le> length bs)"

definition codec_size :: "env \<Rightarrow> bool" where
  "codec_size E \<longleftrightarrow> (\<forall>m. msg_len m < 2 ^ 20 \<longrightarrow> length (pb_pack E m) \<le> msg_len m + 32)"

lemma codec_sizeD: "codec_size E \<Longrightarrow> msg_len m < 2 ^ 20 \<Longrightarrow> length (pb_pack E m) \<le> msg_len m + 32"
  by (simp add: codec_size_def)

lemma sha1_length [simp]: "sha1_ok E \<Longrightarrow> length (sha1 E bs) = 20"
  by (simp add: sha1_ok_def)

lemma codec_roundtrip: "codec_ok E \<Longrightarrow> canonical m \<Longrightarrow> pb_unpack E (descriptor_of m) (pb_pack E m) = Some m"
  by (simp add: codec_ok_def)

end
