(* ===== verification/Codec_Instance.thy ===== *)
theory Codec_Instance
  imports Chord_Messages
begin

text \<open>
  A concrete environment, for the theorems that show the hypotheses on the environment can hold:
  a codec for the messages (every field a byte string with its length before it, the length in base 128 with
  continuation marks) and a digest that folds its input into 20 bytes. It stands
  for no code of the repository.
\<close>

function enc_nat :: "nat \<Rightarrow> byte list" where
  "enc_nat n = (if n < 128 then [word_of_nat n] else word_of_nat (n mod 128 + 128) # enc_nat (n div 128))"
  by auto
termination by (relation "measure id") auto

declare enc_nat.simps [simp del]

fun dec_nat :: "byte list \<Rightarrow> (nat \<times> byte list) option" where
  "dec_nat [] = None"
| "dec_nat (b # bs) =
     (if unat b < 128 then Some (unat b, bs)
      else case dec_nat bs of None \<Rightarrow> None | Some (n, r) \<Rightarrow> Some (unat b - 128 + 128 * n, r))"

lemma unat_byte_of_nat: "n < 256 \<Longrightarrow> unat (word_of_nat n :: byte) = n"
  by (simp add: unat_of_nat take_bit_eq_mod)

lemma dec_enc_nat [simp]: "dec_nat (enc_nat n @ rest) = Some (n, rest)"
proof (induction n rule: enc_nat.induct)
  case (1 n)
  show ?case
  proof (cases "n < 128")
    case True
    then show ?thesis by (subst enc_nat.simps) (simp add: unat_byte_of_nat)
  next
    case False
    have "n mod 128 < 128" by simp
    then have "n mod 128 + 128 < 256" by linarith
    then have "unat (word_of_nat (n mod 128 + 128) :: byte) = n mod 128 + 128" by (rule unat_byte_of_nat)
    then show ?thesis using 1 False by (subst enc_nat.simps) simp
  qed
qed

lemma dec_nat_length: "dec_nat bs = Some (n, r) \<Longrightarrow> length r < length bs"
  by (induction bs arbitrary: n) (fastforce split: if_splits option.splits)+

lemma length_enc_nat: "n < 128 ^ Suc k \<Longrightarrow> length (enc_nat n) \<le> Suc k"
proof (induction k arbitrary: n)
  case (Suc k)
  then have "n div 128 < 128 ^ Suc k" by (simp add: less_mult_imp_div_less mult.commute)
  then show ?case using Suc.IH by (subst enc_nat.simps) simp
qed (simp add: enc_nat.simps)

definition enc_bytes :: "byte list \<Rightarrow> byte list" where
  "enc_bytes bs = enc_nat (length bs) @ bs"

definition dec_bytes :: "byte list \<Rightarrow> (byte list \<times> byte list) option" where
  "dec_bytes bs =
     (case dec_nat bs of None \<Rightarrow> None
      | Some (n, r) \<Rightarrow> if n \<le> length r then Some (take n r, drop n r) else None)"

lemma dec_enc_bytes [simp]: "dec_bytes (enc_bytes bs @ rest) = Some (bs, rest)"
  by (simp add: dec_bytes_def enc_bytes_def)

lemma dec_bytes_length: "dec_bytes bs = Some (v, r) \<Longrightarrow> length v + length r \<le> length bs"
  by (auto simp: dec_bytes_def split: option.splits if_splits dest!: dec_nat_length)

lemma length_enc_bytes: "length bs < 2 ^ 20 \<Longrightarrow> length (enc_bytes bs) \<le> length bs + 3"
  using length_enc_nat [of "length bs" 2] by (simp add: enc_bytes_def)

definition enc_bool :: "bool \<Rightarrow> byte list" where
  "enc_bool b = enc_bytes (if b then [1] else [0])"

definition dec_bool :: "byte list \<Rightarrow> (bool \<times> byte list) option" where
  "dec_bool bs = (case dec_bytes bs of None \<Rightarrow> None | Some (v, r) \<Rightarrow> Some (v = [1], r))"

lemma dec_enc_bool [simp]: "dec_bool (enc_bool b @ rest) = Some (b, rest)"
  by (simp add: dec_bool_def enc_bool_def)

definition enc_word :: "'a::len word \<Rightarrow> byte list" where
  "enc_word w = enc_bytes (le_bytes 8 w)"

definition dec_word :: "byte list \<Rightarrow> ('a::len word \<times> byte list) option" where
  "dec_word bs = (case dec_bytes bs of None \<Rightarrow> None | Some (v, r) \<Rightarrow> Some (le_word v, r))"

lemma le_word_le_bytes:
  fixes w :: "'a::len word"
  assumes "LENGTH('a) \<le> 8 * n"
  shows "le_word (le_bytes n w) = w"
proof -
  have "unat w < 2 ^ LENGTH('a)" by (rule unsigned_less)
  also have "(2 :: nat) ^ LENGTH('a) \<le> 2 ^ (8 * n)" using assms by (intro power_increasing) simp_all
  finally have "unat w < 256 ^ n" by (simp add: power_mult)
  then show ?thesis by (simp add: le_word_def be_val_rev_le_bytes)
qed

lemma le_bytes_le_word:
  assumes "length bs = n" and "8 * n \<le> LENGTH('a::len)"
  shows "le_bytes n (le_word bs :: 'a word) = bs"
proof -
  have "be_val (rev bs) < 256 ^ n" using be_val_less [of "rev bs"] assms(1) by simp
  moreover have "(256 :: nat) ^ n = 2 ^ (8 * n)" by (simp add: power_mult)
  moreover have "(2 :: nat) ^ (8 * n) \<le> 2 ^ LENGTH('a)" using assms(2) by (intro power_increasing) simp_all
  ultimately have "be_val (rev bs) < 2 ^ LENGTH('a)" "be_val (rev bs) < 256 ^ n" by linarith+
  then have "be_val (rev (le_bytes n (le_word bs :: 'a word))) = be_val (rev bs)"
    by (simp add: be_val_rev_le_bytes le_word_def unat_of_nat take_bit_eq_mod)
  then show ?thesis using be_val_inject [of "rev (le_bytes n (le_word bs :: 'a word))" "rev bs"] assms(1) by simp
qed

lemma htons_htons [simp]: "htons (htons w) = w"
  by (simp add: htons_def le_bytes_le_word le_word_le_bytes)

lemma dec_enc_word32 [simp]: "dec_word (enc_word w @ rest) = Some (w :: uint32, rest)"
  by (simp add: dec_word_def enc_word_def le_word_le_bytes)

lemma dec_enc_word64 [simp]: "dec_word (enc_word w @ rest) = Some (w :: ulong, rest)"
  by (simp add: dec_word_def enc_word_def le_word_le_bytes)

lemmas dec_enc_last [simp] =
  dec_enc_bytes [where rest = "[]", simplified] dec_enc_word32 [where rest = "[]", simplified]
  dec_enc_word64 [where rest = "[]", simplified]

fun demo_pack :: "message \<Rightarrow> byte list" where
  "demo_pack (M_Header m) = enc_bool (hdr_has_version m) @ enc_word (hdr_version m) @
     enc_word (hdr_type m) @ enc_bytes (hdr_payload m)"
| "demo_pack (M_Ticket m) = enc_word (tkt_time m) @ enc_bytes (tkt_hash m)"
| "demo_pack (M_AddrDiscover m) = enc_bool (ad_has_ticket m) @ enc_bytes (ad_ticket m)"
| "demo_pack (M_AddrDiscoverReply m) =
     enc_bool (adr_has_ticket m) @ enc_bytes (adr_ticket m) @ enc_bytes (adr_addr m)"
| "demo_pack (M_Data m) = enc_bytes (dat_id m) @ enc_bool (dat_has_ttl m) @ enc_word (dat_ttl m) @
     enc_bool (dat_has_last m) @ enc_bool (dat_last m) @ enc_bytes (dat_data m)"
| "demo_pack (M_FindSuccessor m) = enc_bool (fs_has_ticket m) @ enc_bytes (fs_ticket m) @
     enc_bool (fs_has_ttl m) @ enc_word (fs_ttl m) @ enc_bytes (fs_addr m) @ enc_word (fs_port m)"
| "demo_pack (M_FindSuccessorReply m) = enc_bool (fsr_has_ticket m) @ enc_bytes (fsr_ticket m) @
     enc_bytes (fsr_addr m) @ enc_word (fsr_port m)"
| "demo_pack (M_Stabilize m) = enc_bytes (stab_addr m) @ enc_word (stab_port m)"
| "demo_pack (M_StabilizeReply m) = enc_bytes (stabr_addr m) @ enc_word (stabr_port m)"
| "demo_pack (M_Notify m) = []"
| "demo_pack (M_Ping m) = enc_bool (ping_has_ticket m) @ enc_bytes (ping_ticket m) @ enc_word (ping_time m)"
| "demo_pack (M_Pong m) = enc_bool (pong_has_ticket m) @ enc_bytes (pong_ticket m) @ enc_word (pong_time m)"
| "demo_pack (M_ClientRequest m) = enc_bytes (cr_name m)"
| "demo_pack (M_ClientRequestReply m) = enc_bytes (crr_name m) @ enc_word (crr_code m)"
| "demo_pack (M_Query m) = enc_bytes (qry_reply_addr m) @ enc_word (qry_reply_port m) @ enc_bytes (qry_name m)"
| "demo_pack (M_QueryReplySuccess m) = enc_bytes (qrs_name m)"
| "demo_pack (M_QueryReplyFailure m) = enc_bytes (qrf_name m)"
| "demo_pack (M_Push m) = enc_bytes (psh_reply_addr m) @ enc_word (psh_reply_port m) @ enc_bytes (psh_name m)"
| "demo_pack (M_PushReply m) = enc_bytes (pshr_name m)"

text \<open>Sequencing of decoders that hand on the rest of the input.\<close>

definition andthen :: "('a \<times> byte list) option \<Rightarrow> ('a \<Rightarrow> byte list \<Rightarrow> 'b option) \<Rightarrow> 'b option" where
  "andthen p f = (case p of None \<Rightarrow> None | Some (a, r) \<Rightarrow> f a r)"

lemma andthen_Some [simp]: "andthen (Some (a, r)) f = f a r"
  by (simp add: andthen_def)

lemma andthen_eq_Some: "andthen p f = Some m \<longleftrightarrow> (\<exists>a r. p = Some (a, r) \<and> f a r = Some m)"
  by (auto simp: andthen_def split: option.splits)

fun demo_unpack :: "msg_desc \<Rightarrow> byte list \<Rightarrow> message option" where
  "demo_unpack header__descriptor bs =
     andthen (dec_bool bs) (\<lambda>h bs. andthen (dec_word bs) (\<lambda>v bs. andthen (dec_word bs) (\<lambda>t bs.
     andthen (dec_bytes bs) (\<lambda>p bs. Some (M_Header \<lparr>hdr_has_version = h, hdr_version = v,
       hdr_type = t, hdr_payload = p\<rparr>)))))"
| "demo_unpack ticket__descriptor bs =
     andthen (dec_word bs) (\<lambda>t bs. andthen (dec_bytes bs) (\<lambda>h bs.
       Some (M_Ticket \<lparr>tkt_time = t, tkt_hash = h\<rparr>)))"
| "demo_unpack addr_discover__descriptor bs =
     andthen (dec_bool bs) (\<lambda>h bs. andthen (dec_bytes bs) (\<lambda>t bs.
       Some (M_AddrDiscover \<lparr>ad_has_ticket = h, ad_ticket = t\<rparr>)))"
| "demo_unpack addr_discover_reply__descriptor bs =
     andthen (dec_bool bs) (\<lambda>h bs. andthen (dec_bytes bs) (\<lambda>t bs. andthen (dec_bytes bs) (\<lambda>a bs.
       Some (M_AddrDiscoverReply \<lparr>adr_has_ticket = h, adr_ticket = t, adr_addr = a\<rparr>))))"
| "demo_unpack data__descriptor bs =
     andthen (dec_bytes bs) (\<lambda>i bs. andthen (dec_bool bs) (\<lambda>ht bs. andthen (dec_word bs) (\<lambda>t bs.
     andthen (dec_bool bs) (\<lambda>hl bs. andthen (dec_bool bs) (\<lambda>l bs. andthen (dec_bytes bs) (\<lambda>d bs.
       Some (M_Data \<lparr>dat_id = i, dat_has_ttl = ht, dat_ttl = t, dat_has_last = hl, dat_last = l,
         dat_data = d\<rparr>)))))))"
| "demo_unpack find_successor__descriptor bs =
     andthen (dec_bool bs) (\<lambda>h bs. andthen (dec_bytes bs) (\<lambda>t bs. andthen (dec_bool bs) (\<lambda>ht bs.
     andthen (dec_word bs) (\<lambda>l bs. andthen (dec_bytes bs) (\<lambda>a bs. andthen (dec_word bs) (\<lambda>p bs.
       Some (M_FindSuccessor \<lparr>fs_has_ticket = h, fs_ticket = t, fs_has_ttl = ht, fs_ttl = l,
         fs_addr = a, fs_port = p\<rparr>)))))))"
| "demo_unpack find_successor_reply__descriptor bs =
     andthen (dec_bool bs) (\<lambda>h bs. andthen (dec_bytes bs) (\<lambda>t bs. andthen (dec_bytes bs) (\<lambda>a bs.
     andthen (dec_word bs) (\<lambda>p bs. Some (M_FindSuccessorReply \<lparr>fsr_has_ticket = h, fsr_ticket = t,
       fsr_addr = a, fsr_port = p\<rparr>)))))"
| "demo_unpack stabilize__descriptor bs =
     andthen (dec_bytes bs) (\<lambda>a bs. andthen (dec_word bs) (\<lambda>p bs.
       Some (M_Stabilize \<lparr>stab_addr = a, stab_port = p\<rparr>)))"
| "demo_unpack stabilize_reply__descriptor bs =
     andthen (dec_bytes bs) (\<lambda>a bs. andthen (dec_word bs) (\<lambda>p bs.
       Some (M_StabilizeReply \<lparr>stabr_addr = a, stabr_port = p\<rparr>)))"
| "demo_unpack notify__descriptor bs = Some (M_Notify \<lparr>ntf_unit = ()\<rparr>)"
| "demo_unpack ping__descriptor bs =
     andthen (dec_bool bs) (\<lambda>h bs. andthen (dec_bytes bs) (\<lambda>t bs. andthen (dec_word bs) (\<lambda>u bs.
       Some (M_Ping \<lparr>ping_has_ticket = h, ping_ticket = t, ping_time = u\<rparr>))))"
| "demo_unpack pong__descriptor bs =
     andthen (dec_bool bs) (\<lambda>h bs. andthen (dec_bytes bs) (\<lambda>t bs. andthen (dec_word bs) (\<lambda>u bs.
       Some (M_Pong \<lparr>pong_has_ticket = h, pong_ticket = t, pong_time = u\<rparr>))))"
| "demo_unpack client_request__descriptor bs =
     andthen (dec_bytes bs) (\<lambda>a bs.
       Some (M_ClientRequest \<lparr>cr_name = a\<rparr>))"
| "demo_unpack client_request_reply__descriptor bs =
     andthen (dec_bytes bs) (\<lambda>a bs. andthen (dec_word bs) (\<lambda>b bs.
       Some (M_ClientRequestReply \<lparr>crr_name = a, crr_code = b\<rparr>)))"
| "demo_unpack query__descriptor bs =
     andthen (dec_bytes bs) (\<lambda>a bs. andthen (dec_word bs) (\<lambda>b bs. andthen (dec_bytes bs) (\<lambda>c bs.
       Some (M_Query \<lparr>qry_reply_addr = a, qry_reply_port = b, qry_name = c\<rparr>))))"
| "demo_unpack query_reply_success__descriptor bs =
     andthen (dec_bytes bs) (\<lambda>a bs.
       Some (M_QueryReplySuccess \<lparr>qrs_name = a\<rparr>))"
| "demo_unpack query_reply_failure__descriptor bs =
     andthen (dec_bytes bs) (\<lambda>a bs.
       Some (M_QueryReplyFailure \<lparr>qrf_name = a\<rparr>))"
| "demo_unpack push__descriptor bs =
     andthen (dec_bytes bs) (\<lambda>a bs. andthen (dec_word bs) (\<lambda>b bs. andthen (dec_bytes bs) (\<lambda>c bs.
       Some (M_Push \<lparr>psh_reply_addr = a, psh_reply_port = b, psh_name = c\<rparr>))))"
| "demo_unpack push_reply__descriptor bs =
     andthen (dec_bytes bs) (\<lambda>a bs.
       Some (M_PushReply \<lparr>pshr_name = a\<rparr>))"

lemma demo_roundtrip: "demo_unpack (descriptor_of m) (demo_pack m) = Some m"
  by (cases m) simp_all

lemma demo_typed: "demo_unpack d bs = Some m \<Longrightarrow> descriptor_of m = d"
  by (cases d) (auto simp: andthen_eq_Some)

lemma dec_bool_length: "dec_bool bs = Some (v, r) \<Longrightarrow> length r \<le> length bs"
  by (auto simp: dec_bool_def split: option.splits dest: dec_bytes_length)

lemma dec_word_length: "dec_word bs = Some (v, r) \<Longrightarrow> length r \<le> length bs"
  by (auto simp: dec_word_def split: option.splits dest: dec_bytes_length)

lemma demo_bounded: "demo_unpack d bs = Some m \<Longrightarrow> msg_len m \<le> length bs"
  by (cases d) (auto simp: andthen_eq_Some dest!: dec_bytes_length dec_bool_length dec_word_length)

lemma length_enc_fixed [simp]: "length (enc_bool b) = 2" "length (enc_word w) = 9"
  by (simp_all add: enc_bool_def enc_word_def enc_bytes_def enc_nat.simps)

lemma demo_size: "msg_len m < 2 ^ 20 \<Longrightarrow> length (demo_pack m) \<le> msg_len m + 32"
proof -
  assume "msg_len m < 2 ^ 20"
  moreover have "length (enc_bytes a) + length (enc_bytes b) \<le> length a + length b + 6"
    if "length a + length b < 2 ^ 20" for a b :: "byte list"
    using length_enc_bytes [of a] length_enc_bytes [of b] that by linarith
  ultimately show ?thesis using length_enc_bytes by (cases m) fastforce+
qed

definition demo_sha1 :: "byte list \<Rightarrow> byte list" where
  "demo_sha1 bs = take 20 (bs @ replicate 20 (word_of_nat (length bs)))"

definition demo_env :: env where
  "demo_env = \<lparr>sha1 = demo_sha1, pb_pack = demo_pack, pb_unpack = demo_unpack, pb_free_null = True,
     time_pack = (\<lambda>_. 1700000000), time_verify = (\<lambda>_. 1700000005), wall_time = (\<lambda>_. 5000000),
     random = (\<lambda>n. n), inet_ntop6 = (\<lambda>_. ''::1''), mem_after = (\<lambda>_. [0, 0, 0, 0]),
     va_ulong = ucast\<rparr>"

lemma demo_env_sel [simp]:
  "sha1 demo_env = demo_sha1" "pb_pack demo_env = demo_pack" "pb_unpack demo_env = demo_unpack"
  "pb_free_null demo_env" "time_pack demo_env n = 1700000000" "time_verify demo_env n = 1700000005"
  "wall_time demo_env n = 5000000" "random demo_env n = n" "inet_ntop6 demo_env a = ''::1''"
  "mem_after demo_env a = [0, 0, 0, 0]" "va_ulong demo_env w = ucast w"
  by (simp_all add: demo_env_def)

lemma demo_env_ok [simp]:
  "sha1_ok demo_env" "codec_ok demo_env" "codec_typed demo_env" "codec_bounded demo_env" "codec_size demo_env"
  by (auto simp: sha1_ok_def codec_ok_def codec_typed_def codec_bounded_def codec_size_def demo_sha1_def
      demo_roundtrip demo_typed demo_bounded demo_size)

end
