(* ===== verification/Chord_Crypt.thy ===== *)
theory Chord_Crypt
  imports Chord_Messages Codec_Instance
begin

text \<open>
  Tickets and identifiers, \<^verbatim>\<open>src/src/crypt.c\<close>. A request carries a ticket: the current time and a
  truncated SHA-1 of a private salt, that time and the parameters the reply must repeat; a reply
  is accepted only when the ticket it returns hashes to the same value. Node identifiers are the
  SHA-1 of address and port. The digest context of the OpenSSL calls is the byte string fed to it
  so far.
\<close>

definition TICKET_TIMEOUT :: int where
  [simp]: "TICKET_TIMEOUT = 1000000"

definition TICKET_HASH_LEN :: nat where
  [simp]: "TICKET_HASH_LEN = 4"

definition TICKET_SALT_LEN :: nat where
  [simp]: "TICKET_SALT_LEN = 16"

subsection \<open>Hashing a format and its arguments\<close>

text \<open>A variadic argument, with the type it is passed with after the default promotions.\<close>

datatype va =
    VA_int int
  | VA_uint32 uint32
  | VA_ulong ulong
  | VA_id chordID
  | VA_addr in6_addr

fun vpack_hash :: "env \<Rightarrow> byte list \<Rightarrow> string \<Rightarrow> va list \<Rightarrow> byte list res" where
  "vpack_hash E ctx [] args = Inr ctx"
| "vpack_hash E ctx (f # fmt) args =
     (if f = CHR ''c'' then
        (case args of VA_int i # as \<Rightarrow> vpack_hash E (ctx @ [word_of_int i]) fmt as
         | _ \<Rightarrow> Inl Bad_vararg)
      else if f = CHR ''s'' then
        (case args of VA_int i # as \<Rightarrow>
           vpack_hash E (ctx @ le_bytes 2 (word_of_int i :: ushort)) fmt as
         | _ \<Rightarrow> Inl Bad_vararg)
      else if f = CHR ''l'' then
        (case args of VA_ulong l # as \<Rightarrow> vpack_hash E (ctx @ le_bytes 8 l) fmt as
         | VA_uint32 w # as \<Rightarrow> vpack_hash E (ctx @ le_bytes 8 (va_ulong E w)) fmt as
         | _ \<Rightarrow> Inl Bad_vararg)
      else if f = CHR ''x'' then
        (case args of VA_id i # as \<Rightarrow> vpack_hash E (ctx @ i) fmt as
         | _ \<Rightarrow> Inl Bad_vararg)
      else if f = CHR ''6'' then
        (case args of VA_addr a # as \<Rightarrow> vpack_hash E (ctx @ a) fmt as
         | _ \<Rightarrow> Inl Bad_vararg)
      else vpack_hash E ctx fmt args)"

definition pack_hash :: "env \<Rightarrow> byte list \<Rightarrow> string \<Rightarrow> va list \<Rightarrow> byte list res" where
  "pack_hash E ctx fmt args = vpack_hash E ctx fmt args"

subsection \<open>Tickets\<close>

text \<open>
  \<open>t\<close> is the value \<^verbatim>\<open>time(NULL)\<close> returned. The first \<open>hash_len\<close> bytes of the digest buffer
  go into the ticket; the result is the encoded ticket written to the caller's buffer.
\<close>

definition pack_ticket_impl :: "env \<Rightarrow> int \<Rightarrow> byte list \<Rightarrow> nat \<Rightarrow> nat \<Rightarrow> string \<Rightarrow> va list \<Rightarrow> byte list res" where
  "pack_ticket_impl E t salt salt_len hash_len fmt args =
     (let epoch_time = (word_of_int t :: uint32) in
      fbind (memcpy salt salt_len) (\<lambda>ctx.
      fbind (pack_hash E ctx ''l'' [VA_uint32 epoch_time]) (\<lambda>ctx.
      fbind (vpack_hash E ctx fmt args) (\<lambda>ctx.
      fbind (memcpy (sha1 E ctx) hash_len) (\<lambda>hash.
      Inr (pb_pack E (M_Ticket (TICKET__INIT\<lparr>tkt_time := epoch_time, tkt_hash := hash\<rparr>))))))))"

text \<open>
  The failure exits free the ticket, which is \<^verbatim>\<open>NULL\<close> when it could not be decoded. The
  comparison of the \<^verbatim>\<open>uint32_t\<close> time with the \<^verbatim>\<open>time_t\<close> is done in \<^verbatim>\<open>long\<close>.
\<close>

definition verify_ticket_impl ::
  "env \<Rightarrow> int \<Rightarrow> byte list \<Rightarrow> nat \<Rightarrow> nat \<Rightarrow> byte list \<Rightarrow> string \<Rightarrow> va list \<Rightarrow> bool res" where
  "verify_ticket_impl E current_time salt salt_len hash_len ticket_buf fmt args =
     (case pb_unpack E ticket__descriptor ticket_buf of
        Some (M_Ticket ticket) \<Rightarrow>
          if length (tkt_hash ticket) \<noteq> hash_len then Inr False
          else if uint (tkt_time ticket) < current_time - TICKET_TIMEOUT then Inr False
          else
            fbind (memcpy salt salt_len) (\<lambda>ctx.
            fbind (pack_hash E ctx ''l'' [VA_uint32 (tkt_time ticket)]) (\<lambda>ctx.
            fbind (vpack_hash E ctx fmt args) (\<lambda>ctx.
            fbind (memcpy (sha1 E ctx) hash_len) (\<lambda>md_value.
            Inr (memcmp md_value (tkt_hash ticket) = 0)))))
      | _ \<Rightarrow> if pb_free_null E then Inr False else Inl Null_deref)"

subsection \<open>Identifiers\<close>

definition get_data_id :: "env \<Rightarrow> byte list \<Rightarrow> chordID" where
  "get_data_id E buf = sha1 E buf"

definition get_address_id :: "env \<Rightarrow> in6_addr \<Rightarrow> ushort \<Rightarrow> chordID res" where
  "get_address_id E addr port =
     fbind (pack_hash E [] ''6s'' [VA_addr addr, VA_int (uint (htons port))]) (\<lambda>ctx.
     Inr (sha1 E ctx))"

subsection \<open>Lemmas\<close>

text \<open>The digest input grows by appending, whatever was fed before.\<close>

lemma vpack_hash_ctx:
  "vpack_hash E ctx fmt args = fbind (vpack_hash E [] fmt args) (\<lambda>bs. Inr (ctx @ bs))"
proof (induction fmt arbitrary: ctx args)
  case (Cons f fmt)
  have step: "vpack_hash E (c @ d) fmt as = fbind (vpack_hash E d fmt as) (\<lambda>bs. Inr (c @ bs))" for c d as
    by (subst Cons.IH, subst (2) Cons.IH) (cases "vpack_hash E [] fmt as"; simp)
  show ?case
    using step [of ctx "[]"] by (auto simp: step split: list.splits va.splits)
qed simp

definition addr_id :: "env \<Rightarrow> in6_addr \<Rightarrow> ushort \<Rightarrow> chordID" where
  "addr_id E addr port = sha1 E (addr @ le_bytes 2 (htons port))"

lemma get_address_id_eq [simp]: "get_address_id E addr port = Inr (addr_id E addr port)"
  by (simp add: get_address_id_def pack_hash_def addr_id_def)

lemma wf_addr_id [wf_simps, simp]: "sha1_ok E \<Longrightarrow> wf_id (addr_id E addr port)"
  by (simp add: addr_id_def wf_id_def)

text \<open>What a ticket is computed from, as one byte string.\<close>

definition ticket_digest :: "env \<Rightarrow> byte list \<Rightarrow> uint32 \<Rightarrow> byte list \<Rightarrow> byte list" where
  "ticket_digest E salt time params = sha1 E (salt @ le_bytes 8 (va_ulong E time) @ params)"

lemma pack_ticket_eq:
  assumes "length salt = salt_len" and "hash_len \<le> 20" and "sha1_ok E"
    and "vpack_hash E [] fmt args = Inr params"
  shows "pack_ticket_impl E t salt salt_len hash_len fmt args =
    Inr (pb_pack E (M_Ticket \<lparr>tkt_time = word_of_int t,
      tkt_hash = take hash_len (ticket_digest E salt (word_of_int t) params)\<rparr>))"
  using assms vpack_hash_ctx [of E "salt @ le_bytes 8 (va_ulong E (word_of_int t))" fmt args]
  by (simp add: pack_ticket_impl_def pack_hash_def ticket_digest_def memcpy_def TICKET__INIT_def Let_def)

lemma verify_ticket_Inr_True:
  assumes "length salt = salt_len" and "hash_len \<le> 20" and "sha1_ok E"
    and "vpack_hash E [] fmt args = Inr params"
  shows "verify_ticket_impl E now salt salt_len hash_len buf fmt args = Inr True \<longleftrightarrow>
    (\<exists>tk. pb_unpack E ticket__descriptor buf = Some (M_Ticket tk) \<and>
       now - TICKET_TIMEOUT \<le> uint (tkt_time tk) \<and>
       tkt_hash tk = take hash_len (ticket_digest E salt (tkt_time tk) params))"
proof -
  have ctx: "vpack_hash E (salt @ le_bytes 8 (va_ulong E w)) fmt args =
      Inr (salt @ le_bytes 8 (va_ulong E w) @ params)" for w
    using vpack_hash_ctx [of E "salt @ le_bytes 8 (va_ulong E w)" fmt args] assms(4) by simp
  have cmp: "memcmp (take hash_len (sha1 E bs)) h = 0 \<longleftrightarrow> h = take hash_len (sha1 E bs)"
    if "length h = hash_len" for h bs
    using memcmp_eq_0 [of "take hash_len (sha1 E bs)" h] that assms(2,3) by auto
  have len: "length (take hash_len (sha1 E bs)) = hash_len" for bs using assms(2,3) by simp
  show ?thesis
    using assms(1-3) ctx cmp len
    by (auto simp: verify_ticket_impl_def pack_hash_def ticket_digest_def memcpy_def
        split: option.splits message.splits if_splits)
qed

subsection \<open>Properties\<close>

text \<open>C21. A ticket the program issued is accepted when it comes back with the same parameters, with
  the same salt and not later than the timeout after it was issued. The issue time is a 32-bit
  Unix time.\<close>

theorem verify_accepts_issued_ticket:
  assumes "codec_ok E" and "sha1_ok E" and "length salt = salt_len" and "hash_len \<le> 20"
    and "vpack_hash E [] fmt args = Inr params"
    and "0 \<le> issued" and "issued < 2 ^ 32" and "now \<le> issued + TICKET_TIMEOUT"
  shows "fbind (pack_ticket_impl E issued salt salt_len hash_len fmt args)
           (\<lambda>ticket. verify_ticket_impl E now salt salt_len hash_len ticket fmt args) = Inr True"
proof -
  let ?t = "\<lparr>tkt_time = word_of_int issued :: uint32,
      tkt_hash = take hash_len (ticket_digest E salt (word_of_int issued) params)\<rparr>"
  have "pb_unpack E ticket__descriptor (pb_pack E (M_Ticket ?t)) = Some (M_Ticket ?t)"
    using codec_roundtrip [OF assms(1), of "M_Ticket ?t"] by simp
  moreover have "uint (word_of_int issued :: uint32) = issued"
    using assms(6,7) by (simp add: uint_word_of_int)
  ultimately have "verify_ticket_impl E now salt salt_len hash_len (pb_pack E (M_Ticket ?t)) fmt args = Inr True"
    using assms(8) by (subst verify_ticket_Inr_True [OF assms(3,4,2,5)]) auto
  then show ?thesis using pack_ticket_eq [OF assms(3,4,2,5)] by simp
qed

theorem verify_accepts_issued_ticket_witness:
  "fbind (pack_ticket_impl demo_env 1700000000 (replicate 16 7) 16 4 ''c6s'' [VA_int 0, VA_addr (replicate 16 1), VA_int 4000])
     (\<lambda>ticket. verify_ticket_impl demo_env 1700000009 (replicate 16 7) 16 4 ticket
        ''c6s'' [VA_int 0, VA_addr (replicate 16 1), VA_int 4000]) = Inr True"
  by (rule verify_accepts_issued_ticket
      [where params = "[0] @ replicate 16 1 @ le_bytes 2 (word_of_int 4000 :: ushort)"]) simp_all

text \<open>C22. Verification accepts nothing else: an accepted buffer decodes to a ticket that has not
  expired and whose hash is the truncated digest of this node's salt, the ticket's own time and
  the parameters of the reply at hand.\<close>

theorem verify_accepts_only_matching:
  assumes "sha1_ok E" and "length salt = salt_len" and "hash_len \<le> 20"
    and "vpack_hash E [] fmt args = Inr params"
    and "verify_ticket_impl E now salt salt_len hash_len buf fmt args = Inr True"
  shows "\<exists>tk. pb_unpack E ticket__descriptor buf = Some (M_Ticket tk) \<and>
    now - TICKET_TIMEOUT \<le> uint (tkt_time tk) \<and> length (tkt_hash tk) = hash_len \<and>
    tkt_hash tk = take hash_len (sha1 E (salt @ le_bytes 8 (va_ulong E (tkt_time tk)) @ params))"
  using assms(5) assms(1,3) unfolding verify_ticket_Inr_True [OF assms(2,3,1,4)]
  by (auto simp: ticket_digest_def)

theorem verify_accepts_only_matching_witness:
  "\<exists>tk. pb_unpack demo_env ticket__descriptor
      (demo_pack (M_Ticket \<lparr>tkt_time = 1700000000, tkt_hash = replicate 4 7\<rparr>)) = Some (M_Ticket tk) \<and>
    1700000009 - TICKET_TIMEOUT \<le> uint (tkt_time tk) \<and> length (tkt_hash tk) = 4 \<and>
    tkt_hash tk = take 4 (sha1 demo_env (replicate 16 7 @ le_bytes 8 (va_ulong demo_env (tkt_time tk)) @ [3]))"
proof (rule verify_accepts_only_matching)
  have u: "pb_unpack demo_env ticket__descriptor
      (demo_pack (M_Ticket \<lparr>tkt_time = 1700000000, tkt_hash = replicate 4 7\<rparr>)) =
      Some (M_Ticket \<lparr>tkt_time = 1700000000, tkt_hash = replicate 4 7\<rparr>)"
    using demo_roundtrip [of "M_Ticket \<lparr>tkt_time = 1700000000, tkt_hash = replicate 4 7\<rparr>"]
    by simp
  show "verify_ticket_impl demo_env 1700000009 (replicate 16 7) 16 4
      (demo_pack (M_Ticket \<lparr>tkt_time = 1700000000, tkt_hash = replicate 4 7\<rparr>)) ''c'' [VA_int 3] = Inr True"
    using u by (subst verify_ticket_Inr_True [where params = "[3]"])
      (simp_all add: ticket_digest_def demo_sha1_def)
qed simp_all

end
