(* ===== verification/Chord_Server.thy ===== *)
theory Chord_Server
  imports Chord_Crypt
begin

text \<open>
  The state of a Chord server (\<^verbatim>\<open>src/include/chord/chord.h\<close>, \<^verbatim>\<open>finger.h\<close>, \<^verbatim>\<open>chord_opts.h\<close>) and the
  responsibility range of \<^verbatim>\<open>src/src/chord.c\<close>. The doubly linked finger list between \<^verbatim>\<open>head_flist\<close>
  and \<^verbatim>\<open>tail_flist\<close> is the list of its nodes in that order; theory \<open>Finger_Heap\<close> relates it to
  the pointer structure.
\<close>

subsection \<open>Configuration\<close>

definition NFINGERS :: int where
  [simp]: "NFINGERS = 160"

definition NSUCCESSORS :: int where
  [simp]: "NSUCCESSORS = 8"

definition NPREDECESSORS :: int where
  [simp]: "NPREDECESSORS = 3"

definition MAX_PASSIVE_FINGERS :: int where
  [simp]: "MAX_PASSIVE_FINGERS = 20"

definition PING_THRESH :: int where
  [simp]: "PING_THRESH = 5"

definition DEF_TTL :: byte where
  [simp]: "DEF_TTL = 32"

definition BUFSIZE :: nat where
  [simp]: "BUFSIZE = 65535"

definition CHORD_WIRE_VERSION :: uint32 where
  [simp]: "CHORD_WIRE_VERSION = 1"

text \<open>The packet types and the results of the packet handlers, with the values of the enums.\<close>

datatype packet_type =
    CHORD_ADDR_DISCOVER | CHORD_ADDR_DISCOVER_REPLY | CHORD_DATA | CHORD_FS | CHORD_FS_REPLY
  | CHORD_STAB | CHORD_STAB_REPLY | CHORD_NOTIFY | CHORD_PING | CHORD_PONG

fun packet_num :: "packet_type \<Rightarrow> int" where
  "packet_num CHORD_ADDR_DISCOVER = 0"
| "packet_num CHORD_ADDR_DISCOVER_REPLY = 1"
| "packet_num CHORD_DATA = 2"
| "packet_num CHORD_FS = 3"
| "packet_num CHORD_FS_REPLY = 4"
| "packet_num CHORD_STAB = 5"
| "packet_num CHORD_STAB_REPLY = 6"
| "packet_num CHORD_NOTIFY = 7"
| "packet_num CHORD_PING = 8"
| "packet_num CHORD_PONG = 9"

datatype chord_error =
    CHORD_NO_ERROR | CHORD_PROTOCOL_ERROR | CHORD_TTL_EXPIRED | CHORD_INVALID_TICKET
  | CHORD_ADDR_UNDISCOVERED | CHORD_SELF_ORIGINATOR | CHORD_FINGER_ERROR

subsection \<open>Nodes, fingers, servers\<close>

record Node =
  n_id :: chordID
  n_addr :: in6_addr
  n_port :: ushort

datatype finger_status = F_PASSIVE | F_ACTIVE

record Finger =
  f_node :: Node
  f_status :: finger_status
  f_npings :: int
  f_rtt_avg :: int
  f_rtt_dev :: int

abbreviation f_id :: "Finger \<Rightarrow> chordID" where
  "f_id f \<equiv> n_id (f_node f)"

abbreviation f_addr :: "Finger \<Rightarrow> in6_addr" where
  "f_addr f \<equiv> n_addr (f_node f)"

abbreviation f_port :: "Finger \<Rightarrow> ushort" where
  "f_port f \<equiv> n_port (f_node f)"

abbreviation is_active :: "Finger \<Rightarrow> bool" where
  "is_active f \<equiv> f_status f = F_ACTIVE"

abbreviation is_passive :: "Finger \<Rightarrow> bool" where
  "is_passive f \<equiv> f_status f = F_PASSIVE"

text \<open>The value of \<^verbatim>\<open>send_func\<close>: the two raw senders, or \<^verbatim>\<open>NULL\<close> before the socket is set up.\<close>

datatype send_func_t = Send_unset | Send_raw_v4 | Send_raw_v6

text \<open>A datagram handed to \<^verbatim>\<open>sendto\<close>: destination and contents.\<close>

datatype sockaddr = Sockaddr_in ushort uint32 | Sockaddr_in6 ushort in6_addr

datatype datagram = Datagram (dg_sock: int) (dg_dest: sockaddr) (dg_bytes: "byte list")

text \<open>
  \<open>outbox\<close> (the datagrams sent so far, in order), \<open>rnd_calls\<close> (how often \<^verbatim>\<open>random\<close> was called)
  and the two event flags stand for the effects on the outside world. The fields \<^verbatim>\<open>tunnel_sock\<close>,
  \<^verbatim>\<open>key_array\<close>, \<^verbatim>\<open>num_keys\<close>, \<^verbatim>\<open>packet_handlers\<close> and \<^verbatim>\<open>packet_handler_ctx\<close> are never used by the
  library.
\<close>

record ChordServer =
  s_node :: Node
  pred_bound :: chordID
  flist :: "Finger list"
  num_passive_fingers :: int
  to_fix_finger :: int
  to_fix_backup :: int
  to_ping :: int
  sock :: int
  is_v6 :: bool
  send_func :: send_func_t
  well_known :: "Node list"
  ticket_salt :: "byte list"
  ticket_salt_len :: nat
  ticket_hash_len :: nat
  discover_addr_event :: bool
  stab_event :: bool
  outbox :: "datagram list"
  rnd_calls :: nat

abbreviation s_id :: "ChordServer \<Rightarrow> chordID" where
  "s_id srv \<equiv> n_id (s_node srv)"

abbreviation s_addr :: "ChordServer \<Rightarrow> in6_addr" where
  "s_addr srv \<equiv> n_addr (s_node srv)"

abbreviation s_port :: "ChordServer \<Rightarrow> ushort" where
  "s_port srv \<equiv> n_port (s_node srv)"

subsection \<open>The range a server is responsible for\<close>

definition chord_update_range :: "ChordServer \<Rightarrow> chordID \<Rightarrow> chordID \<Rightarrow> ChordServer" where
  "chord_update_range srv l r =
     srv\<lparr>pred_bound := l, s_node := (s_node srv)\<lparr>n_id := r\<rparr>\<rparr>"

definition chord_get_range :: "ChordServer \<Rightarrow> chordID \<times> chordID" where
  "chord_get_range srv = (pred_bound srv, s_id srv)"

definition chord_id_is_local :: "ChordServer \<Rightarrow> chordID \<Rightarrow> bool" where
  "chord_id_is_local srv x \<longleftrightarrow>
     id_equals x (s_id srv) \<or> id_is_between x (pred_bound srv) (s_id srv)"

lemma chord_update_range_same [simp]:
  "chord_update_range srv l (s_id srv) = srv\<lparr>pred_bound := l\<rparr>"
  by (simp add: chord_update_range_def)

lemma chord_id_is_local_off:
  assumes "wf_id x" and "wf_id (pred_bound srv)" and "wf_id (s_id srv)"
  shows "chord_id_is_local srv x \<longleftrightarrow>
    ring_off (pred_bound srv) x \<le> ring_off (pred_bound srv) (s_id srv)"
  using ring_off_inject [OF assms(2,1,3)]
  by (auto simp: chord_id_is_local_def id_is_between_off id_equals_iff assms)

end
