(* ===== verification/Finger_Table.thy ===== *)
theory Finger_Table
  imports Chord_Server
begin

text \<open>
  The finger table, \<^verbatim>\<open>src/src/finger.c\<close>: successor and predecessor search, the closest preceding
  finger, insertion in ring order with a bound on unverified fingers, activation, removal. A
  \<^verbatim>\<open>Finger *\<close> is named by the identifier of the finger it points to: the code keeps the
  identifiers in the list distinct. The invariant says that the list is in clockwise order, that the count of passive
  fingers is exact and bounded, and that the responsibility range starts at the last active finger.
\<close>

subsection \<open>The operations\<close>

definition new_finger :: "Node \<Rightarrow> Finger" where
  "new_finger node = \<lparr>f_node = node, f_status = F_PASSIVE, f_npings = 0, f_rtt_avg = 0, f_rtt_dev = 0\<rparr>"

definition succ_finger :: "ChordServer \<Rightarrow> Finger option" where
  "succ_finger srv = find is_active (flist srv)"

definition pred_finger :: "ChordServer \<Rightarrow> Finger option" where
  "pred_finger srv = find is_active (rev (flist srv))"

definition closest_preceding_finger :: "ChordServer \<Rightarrow> chordID \<Rightarrow> bool \<Rightarrow> Finger option" where
  "closest_preceding_finger srv ident fall =
     find (\<lambda>f. (fall \<or> is_active f) \<and> id_is_between (f_id f) (s_id srv) ident) (rev (flist srv))"

definition closest_preceding_node :: "ChordServer \<Rightarrow> chordID \<Rightarrow> bool \<Rightarrow> Node" where
  "closest_preceding_node srv ident fall =
     (case closest_preceding_finger srv ident fall of None \<Rightarrow> s_node srv | Some f \<Rightarrow> f_node f)"

fun get_finger_from :: "Finger list \<Rightarrow> chordID \<Rightarrow> nat \<Rightarrow> (Finger \<times> nat) option" where
  "get_finger_from [] ident i = None"
| "get_finger_from (f # fs) ident i =
     (if id_equals ident (f_id f) then Some (f, i) else get_finger_from fs ident (Suc i))"

definition get_finger :: "ChordServer \<Rightarrow> chordID \<Rightarrow> (Finger \<times> nat) option" where
  "get_finger srv ident = get_finger_from (flist srv) ident 0"

fun worst_passive_from :: "Finger list \<Rightarrow> int \<Rightarrow> Finger option \<Rightarrow> Finger option" where
  "worst_passive_from [] npings_record worst_finger = worst_finger"
| "worst_passive_from (f # fs) npings_record worst_finger =
     (if is_passive f \<and> f_npings f > npings_record then
        if f_npings f \<ge> PING_THRESH - 1 then Some f
        else worst_passive_from fs (f_npings f) (Some f)
      else worst_passive_from fs npings_record worst_finger)"

definition get_worst_passive_finger :: "ChordServer \<Rightarrow> Finger option" where
  "get_worst_passive_finger srv = worst_passive_from (flist srv) (- 1) None"

text \<open>Unlinking and linking in the list; the finger is named by its identifier.\<close>

fun list_insert_after :: "chordID \<Rightarrow> Finger \<Rightarrow> Finger list \<Rightarrow> Finger list" where
  "list_insert_after i new_f [] = []"
| "list_insert_after i new_f (f # fs) =
     (if f_id f = i then f # new_f # fs else f # list_insert_after i new_f fs)"

fun list_remove :: "chordID \<Rightarrow> Finger list \<Rightarrow> Finger list" where
  "list_remove i [] = []"
| "list_remove i (f # fs) = (if f_id f = i then fs else f # list_remove i fs)"

definition upd_finger :: "chordID \<Rightarrow> (Finger \<Rightarrow> Finger) \<Rightarrow> ChordServer \<Rightarrow> ChordServer" where
  "upd_finger i g srv = srv\<lparr>flist := map (\<lambda>f. if f_id f = i then g f else f) (flist srv)\<rparr>"

definition finger_at :: "ChordServer \<Rightarrow> chordID \<Rightarrow> Finger option" where
  "finger_at srv i = find (\<lambda>f. f_id f = i) (flist srv)"

definition fingerlist_insert :: "ChordServer \<Rightarrow> Finger \<Rightarrow> ChordServer" where
  "fingerlist_insert srv new_f =
     (if flist srv = [] then srv\<lparr>flist := [new_f]\<rparr>
      else case closest_preceding_finger srv (f_id new_f) True of
        None \<Rightarrow> srv\<lparr>flist := new_f # flist srv\<rparr>
      | Some prec_f \<Rightarrow> srv\<lparr>flist := list_insert_after (f_id prec_f) new_f (flist srv)\<rparr>)"

definition remove_finger :: "ChordServer \<Rightarrow> Finger \<Rightarrow> ChordServer" where
  "remove_finger srv f =
     (let srv1 = (if is_passive f then srv\<lparr>num_passive_fingers := num_passive_fingers srv - 1\<rparr> else srv);
          pred = pred_finger srv1;
          srv2 = srv1\<lparr>flist := list_remove (f_id f) (flist srv1)\<rparr>;
          pf = pred_finger srv2
      in if map_option f_id pred \<noteq> map_option f_id pf then
           (case pf of None \<Rightarrow> chord_update_range srv2 (s_id srv2) (s_id srv2)
            | Some p \<Rightarrow> chord_update_range srv2 (f_id p) (s_id srv2))
         else srv2)"

definition activate_finger :: "ChordServer \<Rightarrow> Finger \<Rightarrow> ChordServer" where
  "activate_finger srv f =
     (if is_passive f then
        upd_finger (f_id f) (\<lambda>g. g\<lparr>f_status := F_ACTIVE\<rparr>)
          (srv\<lparr>num_passive_fingers := num_passive_fingers srv - 1\<rparr>)
      else srv)"

text \<open>The bound on passive fingers that \<^verbatim>\<open>insert_finger\<close> enforces before it links a new one.\<close>

definition evict :: "ChordServer \<Rightarrow> ChordServer res" where
  "evict srv =
     (if num_passive_fingers srv \<ge> MAX_PASSIVE_FINGERS then
        (case get_worst_passive_finger srv of
           None \<Rightarrow> Inl Assert_failed
         | Some worst_finger \<Rightarrow> Inr (remove_finger srv worst_finger))
      else Inr srv)"

text \<open>
  The result of \<^verbatim>\<open>insert_finger\<close>: the finger (\<open>None\<close> is \<^verbatim>\<open>NULL\<close>), what was stored through
  \<^verbatim>\<open>fnew\<close> (\<open>None\<close> when nothing was), and the server.
  The message about a dropped finger passes \<^verbatim>\<open>&f->node.id\<close> with a null \<^verbatim>\<open>f\<close>; the member is the first of the structure, so the
  printer is given a null pointer, which it accepts.
\<close>

definition insert_finger ::
  "ChordServer \<Rightarrow> chordID \<Rightarrow> in6_addr \<Rightarrow> ushort \<Rightarrow> (Finger option \<times> bool option \<times> ChordServer) res" where
  "insert_finger srv ident addr port =
     (if v6_addr_equals (s_addr srv) addr \<and> s_port srv = port then Inr (None, None, srv)
      else
        case get_finger srv ident of
          Some (f, index) \<Rightarrow>
            if \<not> v6_addr_equals (f_addr f) addr then
              let f' = f\<lparr>f_node := (f_node f)\<lparr>n_addr := addr, n_port := port\<rparr>,
                         f_rtt_avg := 0, f_rtt_dev := 0, f_npings := 0\<rparr>
              in Inr (Some f', Some False, upd_finger (f_id f) (\<lambda>_. f') srv)
            else Inr (Some f, Some False, srv)
        | None \<Rightarrow>
            fbind
              (evict srv)
              (\<lambda>srv.
                 let srv = srv\<lparr>num_passive_fingers := num_passive_fingers srv + 1\<rparr>;
                     new_f = new_finger \<lparr>n_id = ident, n_addr = addr, n_port = port\<rparr>
                 in Inr (Some new_f, Some True, fingerlist_insert srv new_f)))"

subsection \<open>Ring order as an interface\<close>

text \<open>
  What the list code relies on: a search predicate that, on valid keys, is the comparison of an
  injective offset. Everything about searching from the tail and inserting after the found
  element follows from these two laws.
\<close>

locale ring_order =
  fixes off :: "'k \<Rightarrow> nat"
    and before :: "'k \<Rightarrow> 'k \<Rightarrow> bool"
    and valid :: "'k \<Rightarrow> bool"
    and key :: "'e \<Rightarrow> 'k"
  assumes before_off: "valid x \<Longrightarrow> valid y \<Longrightarrow> before x y \<longleftrightarrow> off x < off y"
    and off_inject: "valid x \<Longrightarrow> valid y \<Longrightarrow> off x = off y \<longleftrightarrow> x = y"
begin

lemma asc_distinct: "sorted_wrt (\<lambda>x y. off (key x) < off (key y)) es \<Longrightarrow> distinct (map key es)"
  by (induction es) auto

lemma asc_prefix:
  assumes "sorted_wrt (\<lambda>x y. off (key x) < off (key y)) es"
    and "\<forall>e \<in> set es. valid (key e)" and "valid k"
  shows "takeWhile (\<lambda>e. before (key e) k) es = filter (\<lambda>e. before (key e) k) es"
    and "dropWhile (\<lambda>e. before (key e) k) es = filter (\<lambda>e. \<not> before (key e) k) es"
  using sorted_wrt_prefix_filter [OF assms(1), of "\<lambda>e. before (key e) k"] assms(2,3)
  by (auto simp: before_off)

lemma asc_insert:
  assumes "sorted_wrt (\<lambda>x y. off (key x) < off (key y)) es"
    and "\<forall>e \<in> set es. valid (key e)" and "valid (key n)" and "key n \<notin> key ` set es"
  shows "sorted_wrt (\<lambda>x y. off (key x) < off (key y))
    (takeWhile (\<lambda>e. before (key e) (key n)) es @ n # dropWhile (\<lambda>e. before (key e) (key n)) es)"
proof -
  have "off (key n) < off (key e)" if "e \<in> set es" "\<not> before (key e) (key n)" for e
  proof -
    have "key e \<noteq> key n" using that(1) assms(4) by (metis imageI)
    then show ?thesis
      using that assms(2,3) off_inject [of "key e" "key n"] by (auto simp: before_off)
  qed
  then show ?thesis
    unfolding asc_prefix [OF assms(1-3)]
    using assms(1,2,3)
    by (auto simp: sorted_wrt_append sorted_wrt_filter before_off intro: less_trans)
qed

lemma search_from_tail:
  assumes "sorted_wrt (\<lambda>x y. off (key x) < off (key y)) es"
    and "\<forall>e \<in> set es. valid (key e)" and "valid k"
  shows "find (\<lambda>e. before (key e) k) (rev es) =
    (if takeWhile (\<lambda>e. before (key e) k) es = [] then None
     else Some (last (takeWhile (\<lambda>e. before (key e) k) es)))"
  unfolding asc_prefix [OF assms] by (rule find_rev_filter)

lemma find_least:
  assumes "sorted_wrt (\<lambda>x y. off (key x) < off (key y)) es"
  shows "find P es = Some e \<longleftrightarrow> e \<in> set es \<and> P e \<and> (\<forall>d \<in> set es. P d \<longrightarrow> off (key e) \<le> off (key d))"
  using assms by (induction es) (auto simp: not_le)

lemma find_greatest:
  assumes "sorted_wrt (\<lambda>x y. off (key x) < off (key y)) es"
  shows "find P (rev es) = Some e \<longleftrightarrow>
    e \<in> set es \<and> P e \<and> (\<forall>d \<in> set es. P d \<longrightarrow> off (key d) \<le> off (key e))"
  using assms by (induction es rule: rev_induct) (auto simp: sorted_wrt_append not_le)

end

interpretation ring: ring_order "ring_off s" "\<lambda>x y. id_is_between x s y" "\<lambda>i. wf_id i \<and> wf_id s" f_id
  by unfold_locales (auto simp: id_is_between_off ring_off_inject)

subsection \<open>The invariant\<close>

definition wf_finger :: "Finger \<Rightarrow> bool" where
  "wf_finger f \<longleftrightarrow> wf_id (f_id f) \<and> wf_addr (f_addr f) \<and> 0 \<le> f_npings f"

definition ring_sorted :: "chordID \<Rightarrow> Finger list \<Rightarrow> bool" where
  "ring_sorted s fs \<longleftrightarrow> sorted_wrt (\<lambda>f g. ring_off s (f_id f) < ring_off s (f_id g)) fs"

definition passive_count :: "Finger list \<Rightarrow> int" where
  "passive_count fs = int (length (filter is_passive fs))"

definition range_start :: "chordID \<Rightarrow> Finger list \<Rightarrow> chordID" where
  "range_start s fs = (case find is_active (rev fs) of None \<Rightarrow> s | Some f \<Rightarrow> f_id f)"

definition table_inv :: "ChordServer \<Rightarrow> bool" where
  "table_inv srv \<longleftrightarrow>
     wf_id (s_id srv) \<and> wf_addr (s_addr srv) \<and>
     (\<forall>f \<in> set (flist srv). wf_finger f) \<and>
     ring_sorted (s_id srv) (flist srv) \<and>
     num_passive_fingers srv = passive_count (flist srv) \<and>
     num_passive_fingers srv \<le> MAX_PASSIVE_FINGERS \<and>
     pred_bound srv = range_start (s_id srv) (flist srv)"

lemma table_invD:
  assumes "table_inv srv"
  shows "wf_id (s_id srv)" "wf_addr (s_addr srv)" "f \<in> set (flist srv) \<Longrightarrow> wf_finger f"
    "ring_sorted (s_id srv) (flist srv)" "num_passive_fingers srv = passive_count (flist srv)"
    "passive_count (flist srv) \<le> 20" "pred_bound srv = range_start (s_id srv) (flist srv)"
  using assms by (auto simp: table_inv_def)

lemma wf_fingerD: "wf_finger f \<Longrightarrow> wf_id (f_id f)" "wf_finger f \<Longrightarrow> wf_addr (f_addr f)"
  by (simp_all add: wf_finger_def)

lemma ring_sorted_distinct: "ring_sorted s fs \<Longrightarrow> distinct (map f_id fs)"
  unfolding ring_sorted_def by (rule ring.asc_distinct)

lemma wf_range_start: "wf_id s \<Longrightarrow> \<forall>f \<in> set fs. wf_finger f \<Longrightarrow> wf_id (range_start s fs)"
  by (auto simp: range_start_def wf_finger_def split: option.splits dest!: find_rev_Some_in)

lemma table_inv_wf_range: "table_inv srv \<Longrightarrow> wf_id (pred_bound srv)"
  by (auto simp: table_inv_def intro: wf_range_start)

subsection \<open>The list operations\<close>

lemma filter_other_ids: "f_id f \<notin> f_id ` set fs \<Longrightarrow> filter (\<lambda>g. f_id g \<noteq> f_id f) fs = fs"
  by (induction fs) auto

lemma list_remove_filter:
  "distinct (map f_id fs) \<Longrightarrow> list_remove i fs = filter (\<lambda>f. f_id f \<noteq> i) fs"
proof (induction fs)
  case (Cons f fs)
  have "filter (\<lambda>g. f_id g \<noteq> f_id f) fs = fs"
    using Cons.prems by (simp add: filter_other_ids)
  then show ?case using Cons by auto
qed simp

lemma list_insert_after_split:
  "f_id p \<notin> f_id ` set xs \<Longrightarrow> list_insert_after (f_id p) n (xs @ p # ys) = xs @ p # n # ys"
  by (induction xs) auto

text \<open>The insertion point in ring order.\<close>

definition ring_insert :: "chordID \<Rightarrow> Finger \<Rightarrow> Finger list \<Rightarrow> Finger list" where
  "ring_insert s n fs =
     takeWhile (\<lambda>f. id_is_between (f_id f) s (f_id n)) fs @ n #
     dropWhile (\<lambda>f. id_is_between (f_id f) s (f_id n)) fs"

lemma set_ring_insert [simp]: "set (ring_insert s n fs) = insert n (set fs)"
proof -
  have "set fs = set (takeWhile P fs) \<union> set (dropWhile P fs)" for P
    by (metis set_append takeWhile_dropWhile_id)
  then show ?thesis by (auto simp: ring_insert_def)
qed

lemma filter_ring_insert:
  "filter P (ring_insert s n fs) =
     filter P (takeWhile (\<lambda>f. id_is_between (f_id f) s (f_id n)) fs) @
     (if P n then [n] else []) @ filter P (dropWhile (\<lambda>f. id_is_between (f_id f) s (f_id n)) fs)"
  by (simp add: ring_insert_def)

lemma filter_ring_insert_other [simp]: "\<not> P n \<Longrightarrow> filter P (ring_insert s n fs) = filter P fs"
  by (simp add: filter_ring_insert filter_append [symmetric])

lemma ring_sorted_insert:
  assumes "wf_id s" and "\<forall>f \<in> set fs. wf_finger f" and "wf_id (f_id n)"
    and "ring_sorted s fs" and "f_id n \<notin> f_id ` set fs"
  shows "ring_sorted s (ring_insert s n fs)"
  using ring.asc_insert [of s fs n] assms by (simp add: ring_sorted_def ring_insert_def wf_finger_def)

lemma fingerlist_insert_eq:
  assumes "wf_id (s_id srv)" and "\<forall>f \<in> set (flist srv). wf_finger f" and "wf_id (f_id n)"
    and "ring_sorted (s_id srv) (flist srv)"
  shows "fingerlist_insert srv n = srv\<lparr>flist := ring_insert (s_id srv) n (flist srv)\<rparr>"
proof -
  let ?P = "\<lambda>f. id_is_between (f_id f) (s_id srv) (f_id n)"
  have search: "closest_preceding_finger srv (f_id n) True =
      (if takeWhile ?P (flist srv) = [] then None else Some (last (takeWhile ?P (flist srv))))"
    using ring.search_from_tail [of "s_id srv" "flist srv" "f_id n"] assms
    by (simp add: closest_preceding_finger_def ring_sorted_def wf_finger_def)
  show ?thesis
  proof (cases "takeWhile ?P (flist srv) = []")
    case True
    then have "dropWhile ?P (flist srv) = flist srv" by (metis append_Nil takeWhile_dropWhile_id)
    then show ?thesis using True search by (auto simp: fingerlist_insert_def ring_insert_def)
  next
    case False
    then obtain xs p where xs: "takeWhile ?P (flist srv) = xs @ [p]" by (metis rev_exhaust)
    have "flist srv = xs @ p # dropWhile ?P (flist srv)"
      using xs takeWhile_dropWhile_id [of ?P "flist srv"] by simp
    moreover from this ring_sorted_distinct [OF assms(4)] have "f_id p \<notin> f_id ` set xs"
      by (metis (no_types, lifting) IntI distinct_append empty_iff list.set_intros(1) list.simps(9) map_append set_map)
    ultimately have "list_insert_after (f_id p) n (flist srv) = xs @ p # n # dropWhile ?P (flist srv)"
      using list_insert_after_split [of p xs n] by metis
    moreover have "flist srv \<noteq> []" using False by auto
    ultimately show ?thesis using False search xs by (simp add: fingerlist_insert_def ring_insert_def)
  qed
qed

subsection \<open>Removal\<close>

lemma range_start_cong:
  "map_option f_id (find is_active (rev fs)) = map_option f_id (find is_active (rev gs)) \<Longrightarrow>
   range_start s fs = range_start s gs"
  by (auto simp: range_start_def split: option.splits)

lemma remove_finger_eq:
  assumes "table_inv srv"
  shows "remove_finger srv f =
    srv\<lparr>flist := filter (\<lambda>g. f_id g \<noteq> f_id f) (flist srv),
        num_passive_fingers := num_passive_fingers srv - (if is_passive f then 1 else 0),
        pred_bound := range_start (s_id srv) (filter (\<lambda>g. f_id g \<noteq> f_id f) (flist srv))\<rparr>"
proof -
  let ?gs = "filter (\<lambda>g. f_id g \<noteq> f_id f) (flist srv)"
  have rem: "list_remove (f_id f) (flist srv) = ?gs"
    using list_remove_filter ring_sorted_distinct table_invD(4) assms by blast
  have pb: "pred_bound srv = range_start (s_id srv) (flist srv)" by (rule table_invD(7) [OF assms])
  show ?thesis
  proof (cases "map_option f_id (find is_active (rev (flist srv))) = map_option f_id (find is_active (rev ?gs))")
    case True
    then show ?thesis
      using rem pb range_start_cong [OF True, of "s_id srv"]
      by (simp add: remove_finger_def pred_finger_def Let_def)
  next
    case False
    then show ?thesis
      using rem
      by (auto simp: remove_finger_def pred_finger_def Let_def range_start_def chord_update_range_def split: option.splits)
  qed
qed

lemma passive_count_nonneg [simp]: "0 \<le> passive_count fs"
  by (simp add: passive_count_def)

lemma passive_count_remove:
  assumes "distinct (map f_id fs)" and "f \<in> set fs"
  shows "passive_count (filter (\<lambda>g. f_id g \<noteq> f_id f) fs) = passive_count fs - (if is_passive f then 1 else 0)"
  using assms
proof (induction fs)
  case (Cons g fs)
  show ?case
  proof (cases "g = f")
    case True
    then have "filter (\<lambda>h. f_id h \<noteq> f_id f) fs = fs"
      using Cons.prems(1) by (simp add: filter_other_ids)
    then show ?thesis using True by (simp add: passive_count_def)
  next
    case False
    moreover from this Cons.prems have "f \<in> set fs" "f_id g \<noteq> f_id f" by force+
    ultimately show ?thesis using Cons by (auto simp: passive_count_def)
  qed
qed simp

lemma ring_sorted_filter: "ring_sorted s fs \<Longrightarrow> ring_sorted s (filter P fs)"
  by (simp add: ring_sorted_def sorted_wrt_filter)

lemma remove_finger_inv [inv_intros]:
  assumes "table_inv srv" and "f \<in> set (flist srv)"
  shows "table_inv (remove_finger srv f)"
proof -
  have "passive_count (filter (\<lambda>g. f_id g \<noteq> f_id f) (flist srv)) =
      passive_count (flist srv) - (if is_passive f then 1 else 0)"
    by (intro passive_count_remove ring_sorted_distinct [OF table_invD(4)] assms)
  then show ?thesis
    using assms(1) unfolding remove_finger_eq [OF assms(1)]
    by (simp add: table_inv_def ring_sorted_filter)
qed

subsection \<open>The worst passive finger\<close>

lemma worst_passive_from_Some:
  "worst_passive_from fs r w = Some f \<Longrightarrow> w = Some f \<or> (f \<in> set fs \<and> is_passive f \<and> f_npings f > r)"
  by (induction fs r w rule: worst_passive_from.induct) (auto split: if_splits)

lemma worst_passive_from_None:
  "worst_passive_from fs r w = None \<longleftrightarrow> w = None \<and> (\<forall>f \<in> set fs. is_passive f \<longrightarrow> f_npings f \<le> r)"
  by (induction fs r w rule: worst_passive_from.induct) (auto split: if_splits)

lemma get_worst_passive_finger_ex:
  assumes "table_inv srv" and "0 < num_passive_fingers srv"
  obtains f where "get_worst_passive_finger srv = Some f" "f \<in> set (flist srv)" "is_passive f"
proof (cases "get_worst_passive_finger srv")
  case None
  then have "f_npings f \<le> -1" if "f \<in> set (flist srv)" "is_passive f" for f
    using that by (simp add: get_worst_passive_finger_def worst_passive_from_None)
  moreover have "f_npings f \<ge> 0" if "f \<in> set (flist srv)" for f
    using table_invD(3) [OF assms(1) that] by (simp add: wf_finger_def)
  ultimately have "filter is_passive (flist srv) = []" by (force simp: filter_empty_conv)
  then show ?thesis using assms(2) table_invD(5) [OF assms(1)] by (simp add: passive_count_def)
next
  case (Some f)
  then show ?thesis
    using that worst_passive_from_Some [of "flist srv" "-1" None f]
    by (simp add: get_worst_passive_finger_def)
qed

subsection \<open>Lookup and update by identifier\<close>

lemma get_finger_from_Some:
  "get_finger_from fs i k = Some (f, n) \<Longrightarrow>
   k \<le> n \<and> n - k < length fs \<and> fs ! (n - k) = f \<and> id_equals i (f_id f)"
proof (induction fs i k rule: get_finger_from.induct)
  case (2 g fs i k)
  show ?case
  proof (cases "id_equals i (f_id g)")
    case False
    then have "Suc k \<le> n \<and> n - Suc k < length fs \<and> fs ! (n - Suc k) = f \<and> id_equals i (f_id f)"
      using 2 by simp
    then show ?thesis by (auto simp: nth_Cons split: nat.splits) (metis Suc_diff_Suc Suc_le_lessD diff_Suc_Suc nat.inject)+
  qed (use 2 in auto)
qed simp

lemma get_finger_from_None: "get_finger_from fs i k = None \<longleftrightarrow> (\<forall>f \<in> set fs. \<not> id_equals i (f_id f))"
  by (induction fs i k rule: get_finger_from.induct) auto

lemma get_finger_Some:
  assumes "get_finger srv i = Some (f, n)" and "table_inv srv" and "wf_id i"
  shows "f \<in> set (flist srv) \<and> f_id f = i \<and> flist srv ! n = f \<and> n < length (flist srv)"
  using get_finger_from_Some [of "flist srv" i 0 f n] assms table_invD(3) [OF assms(2), of f]
  by (auto simp: get_finger_def id_equals_iff wf_finger_def)

lemma get_finger_None:
  assumes "table_inv srv" and "wf_id i"
  shows "get_finger srv i = None \<longleftrightarrow> i \<notin> f_id ` set (flist srv)"
  using assms table_invD(3) [OF assms(1)]
  by (auto simp: get_finger_def get_finger_from_None id_equals_iff wf_finger_def image_iff)

lemma map_keeps_table:
  assumes "\<And>f. f \<in> set fs \<Longrightarrow> f_id (h f) = f_id f \<and> f_status (h f) = f_status f"
  shows "ring_sorted s (map h fs) = ring_sorted s fs"
    and "passive_count (map h fs) = passive_count fs"
    and "range_start s (map h fs) = range_start s fs"
proof -
  show "ring_sorted s (map h fs) = ring_sorted s fs"
    using assms by (induction fs) (auto simp: ring_sorted_def)
  show "passive_count (map h fs) = passive_count fs"
    using assms by (induction fs) (auto simp: passive_count_def)
  have "find is_active (rev (map h fs)) = map_option h (find is_active (rev fs))"
    using assms by (induction fs rule: rev_induct) auto
  then show "range_start s (map h fs) = range_start s fs"
    using assms by (auto simp: range_start_def split: option.splits dest!: find_rev_Some_in)
qed

lemma upd_finger_inv [inv_intros]:
  assumes "table_inv srv"
    and "\<And>f. f \<in> set (flist srv) \<Longrightarrow> f_id f = i \<Longrightarrow>
           f_id (g f) = i \<and> f_status (g f) = f_status f \<and> wf_finger (g f)"
  shows "table_inv (upd_finger i g srv)"
  using assms unfolding table_inv_def
  by (auto simp: upd_finger_def map_keeps_table)

lemma distinct_ids_eq:
  "distinct (map f_id fs) \<Longrightarrow> f \<in> set fs \<Longrightarrow> g \<in> set fs \<Longrightarrow> f_id f = f_id g \<Longrightarrow> f = g"
  by (auto simp: distinct_map dest: inj_onD)

lemma table_inv_unique:
  "table_inv srv \<Longrightarrow> f \<in> set (flist srv) \<Longrightarrow> g \<in> set (flist srv) \<Longrightarrow> f_id f = f_id g \<Longrightarrow> f = g"
  using distinct_ids_eq ring_sorted_distinct table_invD(4) by blast

lemma finger_at_eq:
  assumes "table_inv srv"
  shows "finger_at srv i = Some f \<longleftrightarrow> f \<in> set (flist srv) \<and> f_id f = i"
proof
  assume "finger_at srv i = Some f"
  then show "f \<in> set (flist srv) \<and> f_id f = i" by (auto simp: finger_at_def dest: find_Some_in)
next
  assume f: "f \<in> set (flist srv) \<and> f_id f = i"
  then obtain g where g: "finger_at srv i = Some g"
    by (cases "finger_at srv i") (auto simp: finger_at_def find_None_iff)
  then have "g \<in> set (flist srv) \<and> f_id g = i" by (auto simp: finger_at_def dest: find_Some_in)
  then show "finger_at srv i = Some f" using f g table_inv_unique [OF assms, of f g] by simp
qed

lemma finger_at_get_finger:
  assumes "table_inv srv" and "wf_id i"
  shows "finger_at srv i = map_option fst (get_finger srv i)"
proof (cases "get_finger srv i")
  case None
  then show ?thesis
    using get_finger_None [OF assms] by (auto simp: finger_at_def find_None_iff)
next
  case (Some p)
  then show ?thesis
    using get_finger_Some [of srv i "fst p" "snd p"] assms by (simp add: finger_at_eq [OF assms(1)])
qed

subsection \<open>Insertion\<close>

text \<open>The operations on the table change the list, the passive count and the range, nothing else.\<close>

definition table_frame :: "ChordServer \<Rightarrow> ChordServer \<Rightarrow> bool" where
  "table_frame srv srv' \<longleftrightarrow>
     srv' = srv\<lparr>flist := flist srv', num_passive_fingers := num_passive_fingers srv', pred_bound := pred_bound srv'\<rparr>"

lemma table_frame_refl [simp]: "table_frame srv srv"
  by (simp add: table_frame_def)

lemma table_frameI: "srv' = srv\<lparr>flist := fs, num_passive_fingers := k, pred_bound := b\<rparr> \<Longrightarrow> table_frame srv srv'"
  by (simp add: table_frame_def)

lemma table_frame_link:
  assumes "table_frame srv srv1"
  shows "table_frame srv (srv1\<lparr>num_passive_fingers := k, flist := fs\<rparr>)"
  by (rule table_frameI [where b = "pred_bound srv1" and fs = fs and k = k]) (subst assms [unfolded table_frame_def], simp)

lemma table_frameD:
  assumes "table_frame srv srv'"
  shows "s_node srv' = s_node srv" "to_fix_finger srv' = to_fix_finger srv"
    "to_fix_backup srv' = to_fix_backup srv" "to_ping srv' = to_ping srv" "sock srv' = sock srv"
    "is_v6 srv' = is_v6 srv" "send_func srv' = send_func srv" "well_known srv' = well_known srv"
    "ticket_salt srv' = ticket_salt srv" "ticket_salt_len srv' = ticket_salt_len srv"
    "ticket_hash_len srv' = ticket_hash_len srv" "discover_addr_event srv' = discover_addr_event srv"
    "stab_event srv' = stab_event srv" "outbox srv' = outbox srv" "rnd_calls srv' = rnd_calls srv"
  by (subst assms [unfolded table_frame_def], simp)+

lemma remove_finger_frame: "table_inv srv \<Longrightarrow> table_frame srv (remove_finger srv f)"
  by (simp add: remove_finger_eq table_frame_def)

lemma passive_count_insert [simp]:
  "passive_count (ring_insert s n fs) = passive_count fs + (if is_passive n then 1 else 0)"
proof -
  let ?P = "\<lambda>f. id_is_between (f_id f) s (f_id n)"
  have "length (filter is_passive fs) =
    length (filter is_passive (takeWhile ?P fs)) + length (filter is_passive (dropWhile ?P fs))"
    by (metis filter_append length_append takeWhile_dropWhile_id)
  then show ?thesis by (simp add: passive_count_def ring_insert_def)
qed

lemma range_start_insert_passive [simp]: "is_passive n \<Longrightarrow> range_start s (ring_insert s n fs) = range_start s fs"
  by (simp add: range_start_def find_rev_filter)

text \<open>Linking a new passive finger, once there is room for it.\<close>

lemma link_new_finger:
  fixes p :: ushort
  assumes "table_inv srv" and "num_passive_fingers srv < 20"
    and "wf_id i" and "wf_addr a" and "i \<notin> f_id ` set (flist srv)"
  defines "n \<equiv> new_finger \<lparr>n_id = i, n_addr = a, n_port = p\<rparr>"
  defines "srv1 \<equiv> srv\<lparr>num_passive_fingers := num_passive_fingers srv + 1\<rparr>"
  shows "fingerlist_insert srv1 n = srv1\<lparr>flist := ring_insert (s_id srv) n (flist srv)\<rparr>"
    and "table_inv (fingerlist_insert srv1 n)"
proof -
  have n: "f_id n = i" "is_passive n" "wf_finger n"
    using assms(3,4) by (simp_all add: n_def new_finger_def wf_finger_def)
  show eq: "fingerlist_insert srv1 n = srv1\<lparr>flist := ring_insert (s_id srv) n (flist srv)\<rparr>"
    using fingerlist_insert_eq [of srv1 n] n assms(1,3) by (simp add: srv1_def table_inv_def)
  show "table_inv (fingerlist_insert srv1 n)"
    unfolding eq using assms(1,2,3,5) n ring_sorted_insert [of "s_id srv" "flist srv" n]
    by (simp add: table_inv_def srv1_def)
qed

text \<open>Making room: the eviction of the worst passive finger never fails its assertion.\<close>

lemma evict_ok:
  assumes "table_inv srv"
  obtains srv1 where "evict srv = Inr srv1" "table_inv srv1" "table_frame srv srv1"
    "num_passive_fingers srv1 < 20" "set (flist srv1) \<subseteq> set (flist srv)"
    "\<And>f. f \<in> set (flist srv) \<Longrightarrow> is_active f \<Longrightarrow> f \<in> set (flist srv1)"
proof (cases "num_passive_fingers srv \<ge> 20")
  case True
  then obtain w where w: "get_worst_passive_finger srv = Some w" "w \<in> set (flist srv)" "is_passive w"
    using get_worst_passive_finger_ex [OF assms] by force
  have eq: "evict srv = Inr (remove_finger srv w)" using True w(1) by (simp add: evict_def)
  have "f_id f \<noteq> f_id w" if "f \<in> set (flist srv)" "is_active f" for f
    using table_inv_unique [OF assms that(1) w(2)] that(2) w(3) by force
  moreover have "table_inv (remove_finger srv w)" "table_frame srv (remove_finger srv w)"
    using assms w(2) by (simp_all add: remove_finger_inv remove_finger_frame)
  ultimately show ?thesis
    using w(3) table_invD(5,6) [OF assms] by (intro that [OF eq]) (auto simp: remove_finger_eq [OF assms])
next
  case False
  then show ?thesis using that [of srv] assms by (simp add: evict_def)
qed

text \<open>
  The whole of \<^verbatim>\<open>insert_finger\<close> on a well-formed table. It never fails; a node's own address leaves
  everything as it is, with nothing stored through \<^verbatim>\<open>fnew\<close>; otherwise the result is a member of the new table with the
  requested identifier and address, and active fingers stay (with their address replaced when it is
  the one that was asked for).
\<close>

lemma insert_finger_cases [consumes 3, case_names self known moved fresh]:
  assumes "table_inv srv" and "wf_id i" and "wf_addr a"
  obtains (self) "a = s_addr srv" "p = s_port srv" "insert_finger srv i a p = Inr (None, None, srv)"
  | (known) f n where "\<not> (a = s_addr srv \<and> p = s_port srv)" "get_finger srv i = Some (f, n)"
      "f_addr f = a" "insert_finger srv i a p = Inr (Some f, Some False, srv)"
  | (moved) f n f' where "\<not> (a = s_addr srv \<and> p = s_port srv)" "get_finger srv i = Some (f, n)"
      "f_addr f \<noteq> a"
      "f' = f\<lparr>f_node := (f_node f)\<lparr>n_addr := a, n_port := p\<rparr>, f_rtt_avg := 0, f_rtt_dev := 0, f_npings := 0\<rparr>"
      "insert_finger srv i a p = Inr (Some f', Some False, upd_finger i (\<lambda>_. f') srv)"
  | (fresh) srv1 n where "\<not> (a = s_addr srv \<and> p = s_port srv)" "get_finger srv i = None"
      "evict srv = Inr srv1" "n = new_finger \<lparr>n_id = i, n_addr = a, n_port = p\<rparr>"
      "insert_finger srv i a p = Inr (Some n, Some True,
         srv1\<lparr>num_passive_fingers := num_passive_fingers srv1 + 1, flist := ring_insert (s_id srv1) n (flist srv1)\<rparr>)"
proof -
  have self_iff: "v6_addr_equals (s_addr srv) a \<and> s_port srv = p \<longleftrightarrow> a = s_addr srv \<and> p = s_port srv"
    using assms by (auto simp: v6_addr_equals_iff table_inv_def)
  show ?thesis
  proof (cases "a = s_addr srv \<and> p = s_port srv")
    case True
    then show ?thesis using self self_iff by (simp add: insert_finger_def)
  next
    case notself: False
    show ?thesis
    proof (cases "get_finger srv i")
      case (Some fn)
      obtain f n where fn: "fn = (f, n)" by force
      have f: "f \<in> set (flist srv)" "f_id f = i"
        using get_finger_Some [of srv i f n] Some fn assms by auto
      have "v6_addr_equals (f_addr f) a \<longleftrightarrow> f_addr f = a"
        using table_invD(3) [OF assms(1) f(1)] assms(3) by (simp add: v6_addr_equals_iff wf_finger_def)
      then show ?thesis
        using known [OF notself] moved [OF notself] Some fn f(2) self_iff notself
        by (cases "f_addr f = a") (simp_all add: insert_finger_def Let_def)
    next
      case None
      obtain srv1 where srv1: "evict srv = Inr srv1" "table_inv srv1" "num_passive_fingers srv1 < 20"
          "set (flist srv1) \<subseteq> set (flist srv)"
        using evict_ok [OF assms(1)] by metis
      moreover have "i \<notin> f_id ` set (flist srv1)"
        using None get_finger_None [OF assms(1,2)] srv1(4) by blast
      ultimately show ?thesis
        using fresh [OF notself None srv1(1) refl] link_new_finger(1) [OF srv1(2,3) assms(2,3)] None self_iff notself
        by (simp add: insert_finger_def Let_def)
    qed
  qed
qed

text \<open>Which fingers are active, in ring order, is what the routing decisions depend on.\<close>

definition active_ids :: "ChordServer \<Rightarrow> chordID list" where
  "active_ids srv = map f_id (filter is_active (flist srv))"

lemma succ_finger_active_ids:
  "map_option f_id (succ_finger srv) = (if active_ids srv = [] then None else Some (hd (active_ids srv)))"
  by (simp add: succ_finger_def find_filter active_ids_def hd_map)

lemma pred_finger_active_ids:
  "map_option f_id (pred_finger srv) = (if active_ids srv = [] then None else Some (last (active_ids srv)))"
  by (simp add: pred_finger_def find_rev_filter active_ids_def last_map)

lemma evict_active_ids: "table_inv srv \<Longrightarrow> evict srv = Inr srv1 \<Longrightarrow> active_ids srv1 = active_ids srv"
proof -
  assume inv: "table_inv srv" and ev: "evict srv = Inr srv1"
  have "filter (\<lambda>f. f_id f \<noteq> f_id w \<and> is_active f) (flist srv) = filter is_active (flist srv)"
    if "w \<in> set (flist srv)" "is_passive w" for w
    using table_inv_unique [OF inv _ that(1)] that(2) by (intro filter_cong) force+
  moreover have "w \<in> set (flist srv) \<and> is_passive w" if "get_worst_passive_finger srv = Some w" for w
    using worst_passive_from_Some [of "flist srv" "-1" None w] that by (simp add: get_worst_passive_finger_def)
  ultimately show ?thesis
    using ev by (auto simp: evict_def active_ids_def remove_finger_eq [OF inv] split: if_splits option.splits)
qed

lemma insert_finger_active_ids:
  assumes "table_inv srv" and "wf_id i" and "wf_addr a" and "insert_finger srv i a p = Inr (fo, fn, srv')"
  shows "active_ids srv' = active_ids srv"
  using assms(1-3)
proof (cases rule: insert_finger_cases [where p = p])
  case (moved f n f')
  have f: "f \<in> set (flist srv)" "f_id f = i" using get_finger_Some [OF moved(2) assms(1,2)] by auto
  have "map f_id (filter is_active (map h fs)) = map f_id (filter is_active fs)"
    if "\<And>f. f \<in> set fs \<Longrightarrow> f_id (h f) = f_id f \<and> f_status (h f) = f_status f" for h fs
    using that by (induction fs) auto
  from this [of "flist srv" "\<lambda>g. if f_id g = i then f' else g"] show ?thesis
    using moved assms(4) f table_inv_unique [OF assms(1) _ f(1)]
    by (force simp: active_ids_def upd_finger_def)
next
  case (fresh srv1 n)
  then show ?thesis
    using assms(4) evict_active_ids [OF assms(1) fresh(3)] by (auto simp: active_ids_def new_finger_def)
qed (use assms(4) in auto)

lemma insert_finger_ok:
  assumes "table_inv srv" and "wf_id i" and "wf_addr a"
  obtains fo fn srv' where "insert_finger srv i a p = Inr (fo, fn, srv')" "table_inv srv'" "table_frame srv srv'"
    "fo = None \<longleftrightarrow> a = s_addr srv \<and> p = s_port srv" "fn = None \<longleftrightarrow> a = s_addr srv \<and> p = s_port srv"
    "fn = Some True \<Longrightarrow> get_finger srv i = None" "fn = Some False \<Longrightarrow> get_finger srv i \<noteq> None"
    "\<And>f. fo = Some f \<Longrightarrow> f \<in> set (flist srv') \<and> f_id f = i \<and> f_addr f = a"
  using assms
proof (cases rule: insert_finger_cases [where p = p])
  case self
  then show ?thesis using that [OF self(3) assms(1)] by auto
next
  case (known f n)
  then show ?thesis using that [OF known(4) assms(1)] get_finger_Some [OF known(2) assms(1,2)] by auto
next
  case (moved f n f')
  have f: "f \<in> set (flist srv)" "f_id f = i" using get_finger_Some [OF moved(2) assms(1,2)] by auto
  have "wf_finger f'" using assms(2,3) f(2) by (simp add: moved(4) wf_finger_def)
  then have "table_inv (upd_finger i (\<lambda>_. f') srv)"
    using table_inv_unique [OF assms(1) _ f(1)] f moved(4) by (intro upd_finger_inv assms(1)) force
  moreover have "f' \<in> set (flist (upd_finger i (\<lambda>_. f') srv))" using f by (force simp: upd_finger_def)
  moreover have "table_frame srv (upd_finger i (\<lambda>_. f') srv)" by (simp add: table_frame_def upd_finger_def)
  ultimately show ?thesis using that [OF moved(5)] moved f(2) by auto
next
  case (fresh srv1 n)
  obtain srv2 where srv2: "evict srv = Inr srv2" "table_inv srv2" "table_frame srv srv2"
      "num_passive_fingers srv2 < 20" "set (flist srv2) \<subseteq> set (flist srv)"
    using evict_ok [OF assms(1)] by metis
  then have [simp]: "srv2 = srv1" using fresh(3) by simp
  have "i \<notin> f_id ` set (flist srv1)" using fresh(2) get_finger_None [OF assms(1,2)] srv2(5) by auto
  then have inv: "table_inv (srv1\<lparr>num_passive_fingers := num_passive_fingers srv1 + 1,
                             flist := ring_insert (s_id srv1) n (flist srv1)\<rparr>)"
    using link_new_finger [of srv1 i a p] srv2 assms(2,3) fresh(4) by simp
  moreover have "table_frame srv (srv1\<lparr>num_passive_fingers := num_passive_fingers srv1 + 1,
                             flist := ring_insert (s_id srv1) n (flist srv1)\<rparr>)"
    using srv2(3) by (simp add: table_frame_link)
  ultimately show ?thesis using that [OF fresh(5)] fresh by (auto simp: new_finger_def)
qed

subsection \<open>Properties of the table\<close>

text \<open>A concrete server and two fingers, for the witnesses below and in the theories that follow.\<close>

definition demo_id :: "byte \<Rightarrow> chordID" where
  "demo_id b = b # replicate 19 0"

definition demo_addr :: "byte \<Rightarrow> in6_addr" where
  "demo_addr b = replicate 10 0 @ [255, 255, 10, 0, 0, b]"

definition demo_srv :: "ChordServer" where
  "demo_srv = \<lparr>s_node = \<lparr>n_id = demo_id 16, n_addr = demo_addr 1, n_port = 4000\<rparr>, pred_bound = demo_id 16,
     flist = [], num_passive_fingers = 0, to_fix_finger = 159, to_fix_backup = 0, to_ping = 0, sock = 3,
     is_v6 = False, send_func = Send_raw_v4, well_known = [], ticket_salt = replicate 16 7,
     ticket_salt_len = 16, ticket_hash_len = 4, discover_addr_event = False, stab_event = True,
     outbox = [], rnd_calls = 0\<rparr>"

definition demo_finger :: "byte \<Rightarrow> finger_status \<Rightarrow> Finger" where
  "demo_finger b st = \<lparr>f_node = \<lparr>n_id = demo_id b, n_addr = demo_addr b, n_port = 4000\<rparr>, f_status = st,
     f_npings = 0, f_rtt_avg = 0, f_rtt_dev = 0\<rparr>"

definition demo_srv2 :: "ChordServer" where
  "demo_srv2 = demo_srv\<lparr>flist := [demo_finger 32 F_ACTIVE, demo_finger 48 F_PASSIVE], num_passive_fingers := 1,
     pred_bound := demo_id 32\<rparr>"

lemma demo_wf [simp]: "wf_id (demo_id b)" "wf_addr (demo_addr b)" "wf_finger (demo_finger b st)"
  by (simp_all add: demo_id_def demo_addr_def demo_finger_def wf_id_def wf_addr_def wf_finger_def)

lemma demo_srv_inv [simp]: "table_inv demo_srv"
  by (simp add: table_inv_def demo_srv_def ring_sorted_def passive_count_def range_start_def)

lemma demo_between: "id_is_between (demo_id 32) (demo_id 16) (demo_id 48)"
  by code_simp

lemma demo_inject [simp]: "demo_addr a = demo_addr b \<longleftrightarrow> a = b" "demo_id a = demo_id b \<longleftrightarrow> a = b"
  by (simp_all add: demo_addr_def demo_id_def)

lemma demo_srv_sel [simp]:
  "s_node demo_srv = \<lparr>n_id = demo_id 16, n_addr = demo_addr 1, n_port = 4000\<rparr>" "flist demo_srv = []"
  "s_node demo_srv2 = \<lparr>n_id = demo_id 16, n_addr = demo_addr 1, n_port = 4000\<rparr>"
  "flist demo_srv2 = [demo_finger 32 F_ACTIVE, demo_finger 48 F_PASSIVE]"
  by (simp_all add: demo_srv_def demo_srv2_def)

lemma demo_srv2_inv [simp]: "table_inv demo_srv2"
proof -
  have "ring_off (demo_id 16) (demo_id 32) < ring_off (demo_id 16) (demo_id 48)"
    using demo_between by (simp add: id_is_between_off)
  then show ?thesis
    by (simp add: table_inv_def demo_srv2_def demo_srv_def ring_sorted_def passive_count_def range_start_def)
       (simp add: demo_finger_def)
qed

text \<open>
  C9. \<^verbatim>\<open>insert_finger\<close> on a well-formed table. A request for the server's own address and port is dropped: no finger is returned, the flag of the caller is not set
  and nothing changes. For any other node it never fails its assertion; the finger it returns is the one the table then holds for the identifier, at the requested address; it reports a
  new finger exactly when the identifier was unknown; the table stays well-formed; and which fingers are active does not change.
\<close>

theorem insert_finger_correct:
  assumes "table_inv srv" and "wf_id ident" and "wf_addr addr"
  shows "if addr = s_addr srv \<and> port = s_port srv then insert_finger srv ident addr port = Inr (None, None, srv)
    else \<exists>f fnew index srv'. insert_finger srv ident addr port = Inr (Some f, Some fnew, srv') \<and>
      table_inv srv' \<and> get_finger srv' ident = Some (f, index) \<and> f_addr f = addr \<and>
      (fnew \<longleftrightarrow> get_finger srv ident = None) \<and> active_ids srv' = active_ids srv"
proof (cases "addr = s_addr srv \<and> port = s_port srv")
  case True
  then show ?thesis using assms(3) by (simp add: insert_finger_def v6_addr_equals_iff)
next
  case False
  obtain fo fn srv' where ins: "insert_finger srv ident addr port = Inr (fo, fn, srv')" "table_inv srv'"
    "fo \<noteq> None" "fn \<noteq> None" "fn = Some True \<Longrightarrow> get_finger srv ident = None"
    "fn = Some False \<Longrightarrow> get_finger srv ident \<noteq> None"
    "\<And>f. fo = Some f \<Longrightarrow> f \<in> set (flist srv') \<and> f_id f = ident \<and> f_addr f = addr"
    using insert_finger_ok [OF assms(1-3), of port] False by metis
  then obtain f fnew where f: "fo = Some f" "fn = Some fnew" by auto
  then have "finger_at srv' ident = Some f" using ins(7) by (simp add: finger_at_eq [OF ins(2)])
  then obtain index where "get_finger srv' ident = Some (f, index)"
    by (auto simp: finger_at_get_finger [OF ins(2) assms(2)])
  then show ?thesis
    using False ins f insert_finger_active_ids [OF assms(1-3) ins(1)] by (cases fnew) auto
qed

lemma insert_finger_correct_witness:
  "(\<exists>f fnew index srv'. insert_finger demo_srv2 (demo_id 40) (demo_addr 9) 4000 = Inr (Some f, Some fnew, srv') \<and>
    table_inv srv' \<and> get_finger srv' (demo_id 40) = Some (f, index) \<and> f_addr f = demo_addr 9 \<and>
    (fnew \<longleftrightarrow> get_finger demo_srv2 (demo_id 40) = None) \<and> active_ids srv' = active_ids demo_srv2) \<and>
   insert_finger demo_srv2 (demo_id 40) (s_addr demo_srv2) (s_port demo_srv2) = Inr (None, None, demo_srv2)"
  using insert_finger_correct [of demo_srv2 "demo_id 40" "demo_addr 9" 4000] insert_finger_correct [of demo_srv2 "demo_id 40" "s_addr demo_srv2" "s_port demo_srv2"]
    table_invD(2) [of demo_srv2] by simp

text \<open>
  C20. Removing a finger of a well-formed table takes out exactly that finger, keeps the table
  well-formed, and moves the left end of the responsibility range to the last finger that is still
  active, or to the node itself.
\<close>

theorem remove_finger_correct:
  assumes "table_inv srv" and "f \<in> set (flist srv)"
  shows "table_inv (remove_finger srv f) \<and>
    set (flist (remove_finger srv f)) = set (flist srv) - {f} \<and>
    pred_bound (remove_finger srv f) =
      (case pred_finger (remove_finger srv f) of None \<Rightarrow> s_id srv | Some p \<Rightarrow> f_id p)"
proof -
  have "g = f" if "g \<in> set (flist srv)" "f_id g = f_id f" for g
    using that table_inv_unique [OF assms(1) _ assms(2)] by blast
  then show ?thesis
    using remove_finger_inv [OF assms] by (auto simp: remove_finger_eq [OF assms(1)] range_start_def pred_finger_def)
qed

lemma remove_finger_correct_witness:
  "table_inv (remove_finger demo_srv2 (demo_finger 32 F_ACTIVE)) \<and>
    set (flist (remove_finger demo_srv2 (demo_finger 32 F_ACTIVE))) = set (flist demo_srv2) - {demo_finger 32 F_ACTIVE} \<and>
    pred_bound (remove_finger demo_srv2 (demo_finger 32 F_ACTIVE)) =
      (case pred_finger (remove_finger demo_srv2 (demo_finger 32 F_ACTIVE)) of None \<Rightarrow> s_id demo_srv2 | Some p \<Rightarrow> f_id p)"
  by (rule remove_finger_correct) simp_all

text \<open>
  C10. The search that routes a packet: on a well-formed table \<^verbatim>\<open>closest_preceding_finger\<close> returns the
  finger strictly between this node and the identifier (an active one, unless all are asked for) that
  lies farthest clockwise from this node, and \<^verbatim>\<open>NULL\<close> only when there is none.
\<close>

theorem closest_preceding_finger_farthest:
  assumes "table_inv srv"
  shows "(closest_preceding_finger srv ident fall = Some f \<longleftrightarrow>
      f \<in> set (flist srv) \<and> (fall \<or> is_active f) \<and> id_is_between (f_id f) (s_id srv) ident \<and>
      (\<forall>g \<in> set (flist srv). (fall \<or> is_active g) \<and> id_is_between (f_id g) (s_id srv) ident \<longrightarrow>
         ring_off (s_id srv) (f_id g) \<le> ring_off (s_id srv) (f_id f))) \<and>
    (closest_preceding_finger srv ident fall = None \<longleftrightarrow>
      (\<forall>g \<in> set (flist srv). (fall \<or> is_active g) \<longrightarrow> \<not> id_is_between (f_id g) (s_id srv) ident))"
  using ring.find_greatest [of "s_id srv" "flist srv"] table_invD(4) [OF assms]
  by (auto simp: closest_preceding_finger_def ring_sorted_def find_None_iff)

lemma closest_preceding_finger_farthest_witness:
  "closest_preceding_finger demo_srv2 (demo_id 64) False = Some (demo_finger 32 F_ACTIVE)"
proof -
  have "id_is_between (demo_id 32) (demo_id 16) (demo_id 64)" by code_simp
  then show ?thesis
    using closest_preceding_finger_farthest [OF demo_srv2_inv, of "demo_id 64" False "demo_finger 32 F_ACTIVE"]
    by (simp add: demo_finger_def)
qed

text \<open>
  The successor is the active finger nearest clockwise, the predecessor the one farthest
  clockwise, that is nearest counter-clockwise.
\<close>

theorem succ_pred_finger_extremal:
  assumes "table_inv srv"
  shows "(succ_finger srv = Some f \<longleftrightarrow> f \<in> set (flist srv) \<and> is_active f \<and>
      (\<forall>g \<in> set (flist srv). is_active g \<longrightarrow> ring_off (s_id srv) (f_id f) \<le> ring_off (s_id srv) (f_id g))) \<and>
    (pred_finger srv = Some f \<longleftrightarrow> f \<in> set (flist srv) \<and> is_active f \<and>
      (\<forall>g \<in> set (flist srv). is_active g \<longrightarrow> ring_off (s_id srv) (f_id g) \<le> ring_off (s_id srv) (f_id f)))"
  using ring.find_greatest [of "s_id srv" "flist srv"] ring.find_least [of "s_id srv" "flist srv"]
    table_invD(4) [OF assms]
  by (simp add: succ_finger_def pred_finger_def ring_sorted_def)

lemma succ_pred_finger_extremal_witness:
  "succ_finger demo_srv2 = Some (demo_finger 32 F_ACTIVE) \<and> pred_finger demo_srv2 = Some (demo_finger 32 F_ACTIVE)"
  using succ_pred_finger_extremal [OF demo_srv2_inv, of "demo_finger 32 F_ACTIVE"] by (simp add: demo_finger_def)

text \<open>The two ways round the ring: seen from \<open>p\<close> and seen from \<open>s\<close>.\<close>

lemma ring_off_rotate:
  assumes "wf_id s" and "wf_id p" and "wf_id x" and "p \<noteq> s"
  shows "ring_off p x \<le> ring_off p s \<longleftrightarrow> ring_off s p < ring_off s x"
  using assms(1-3) [THEN id_val_less] id_val_inject [OF assms(2,1)] assms(4)
  by (auto simp: ring_off_eq assms split: if_splits)

lemma chord_id_is_local_ring:
  assumes "table_inv srv" and "wf_id x" and "s_id srv \<notin> f_id ` set (flist srv)"
  shows "chord_id_is_local srv x \<longleftrightarrow>
    (\<forall>f \<in> set (flist srv). is_active f \<longrightarrow> ring_off (s_id srv) (f_id f) < ring_off (s_id srv) x)"
proof (cases "pred_finger srv")
  case None
  then have "\<forall>f \<in> set (flist srv). \<not> is_active f" by (auto simp: pred_finger_def find_None_iff)
  moreover have "pred_bound srv = s_id srv"
    using None table_invD(7) [OF assms(1)] by (simp add: range_start_def pred_finger_def)
  moreover have "ring_off (s_id srv) x \<le> ring_off (s_id srv) (s_id srv)"
    using ring_off_self [OF table_invD(1) [OF assms(1)]] ring_off_less [of "s_id srv" x] by linarith
  ultimately show ?thesis
    using table_invD(1) [OF assms(1)] assms(2) by (auto simp: chord_id_is_local_off)
next
  case (Some p)
  have p: "p \<in> set (flist srv)" "is_active p"
      "\<forall>g \<in> set (flist srv). is_active g \<longrightarrow> ring_off (s_id srv) (f_id g) \<le> ring_off (s_id srv) (f_id p)"
    using Some ring.find_greatest [of "s_id srv" "flist srv" is_active p] table_invD(4) [OF assms(1)]
    by (simp_all add: pred_finger_def ring_sorted_def)
  have "pred_bound srv = f_id p"
    using Some table_invD(7) [OF assms(1)] by (simp add: range_start_def pred_finger_def)
  moreover have "wf_id (f_id p)" "f_id p \<noteq> s_id srv"
    using wf_fingerD(1) [OF table_invD(3) [OF assms(1) p(1)]] assms(3) imageI [OF p(1), of f_id] by metis+
  ultimately have "chord_id_is_local srv x \<longleftrightarrow> ring_off (s_id srv) (f_id p) < ring_off (s_id srv) x"
    using ring_off_rotate [of "s_id srv" "f_id p" x] table_invD(1) [OF assms(1)] assms(2)
    by (simp add: chord_id_is_local_off)
  then show ?thesis using p by (meson le_less_trans)
qed

text \<open>
  The responsibility range in terms of the table: a node whose own identifier is not among its fingers
  holds an identifier to be local exactly when, going clockwise from the node, every active finger
  comes strictly before that identifier.
\<close>

theorem chord_id_is_local_iff:
  assumes "table_inv srv" and "wf_id x" and "s_id srv \<notin> f_id ` set (flist srv)"
  shows "chord_id_is_local srv x \<longleftrightarrow>
    (\<forall>f \<in> set (flist srv). is_active f \<longrightarrow> ring_off (s_id srv) (f_id f) < ring_off (s_id srv) x)"
  using assms by (rule chord_id_is_local_ring)

lemma chord_id_is_local_iff_witness:
  "chord_id_is_local demo_srv2 (demo_id 8) \<longleftrightarrow>
    (\<forall>f \<in> set (flist demo_srv2). is_active f \<longrightarrow> ring_off (s_id demo_srv2) (f_id f) < ring_off (s_id demo_srv2) (demo_id 8))"
  by (rule chord_id_is_local_iff) (simp_all add: demo_finger_def)

text \<open>
  The finger that is given up for a new one is passive, and is one with the most unanswered pings,
  or already one ping short of removal.
\<close>

theorem get_worst_passive_finger_worst:
  assumes "get_worst_passive_finger srv = Some f"
  shows "f \<in> set (flist srv) \<and> is_passive f \<and>
    (f_npings f \<ge> PING_THRESH - 1 \<or> (\<forall>g \<in> set (flist srv). is_passive g \<longrightarrow> f_npings g \<le> f_npings f))"
proof -
  have "w = Some f \<or> (f \<in> set fs \<and> is_passive f)" if "worst_passive_from fs r w = Some f" for fs r w
    using worst_passive_from_Some [OF that] by blast
  moreover have "f_npings f \<ge> 4 \<or> (\<forall>g \<in> set fs. is_passive g \<longrightarrow> f_npings g \<le> f_npings f)"
    if "worst_passive_from fs r w = Some f" "\<forall>h. w = Some h \<longrightarrow> f_npings h = r" for fs r w
    using that
  proof (induction fs r w rule: worst_passive_from.induct)
    case (2 g fs r w)
    have "r \<le> f_npings f" if "worst_passive_from fs r w = Some f" for fs
      using worst_passive_from_Some [OF that] 2(4) by auto
    moreover have "f_npings g \<le> f_npings f" if "worst_passive_from fs (f_npings g) (Some g) = Some f"
      using worst_passive_from_Some [OF that] by auto
    ultimately show ?case using 2 by (fastforce split: if_splits)
  qed simp
  ultimately show ?thesis using assms by (force simp: get_worst_passive_finger_def)
qed

lemma get_worst_passive_finger_worst_witness:
  "demo_finger 48 F_PASSIVE \<in> set (flist demo_srv2) \<and> is_passive (demo_finger 48 F_PASSIVE) \<and>
    (f_npings (demo_finger 48 F_PASSIVE) \<ge> PING_THRESH - 1 \<or>
     (\<forall>g \<in> set (flist demo_srv2). is_passive g \<longrightarrow> f_npings g \<le> f_npings (demo_finger 48 F_PASSIVE)))"
  by (rule get_worst_passive_finger_worst) (simp add: get_worst_passive_finger_def demo_finger_def)

end
