(* ===== verification/Chord_Send.thy ===== *)
theory Chord_Send
  imports Finger_Table
begin

text \<open>
  Building and sending packets: \<^verbatim>\<open>src/src/pack.c\<close> and \<^verbatim>\<open>src/src/sendpkt.c\<close>. Every packet is a
  \<^verbatim>\<open>Header\<close> whose payload is an encoded message; the encoders write into static buffers whose
  sizes are checked here, because the code does not check them. A sent datagram is appended to
  the \<open>outbox\<close>. Logging has no effect on the state and is left out.
\<close>

subsection \<open>pack.c\<close>

definition pack_header :: "env \<Rightarrow> uint32 \<Rightarrow> int \<Rightarrow> message \<Rightarrow> byte list res" where
  "pack_header E version type msg =
     (let payload = pb_pack E msg in
      if BUFSIZE < length payload then Inl Buffer_overflow
      else
        let header = HEADER__INIT\<lparr>hdr_version := version, hdr_has_version := True,
                       hdr_type := word_of_int type, hdr_payload := payload\<rparr>;
            buf = pb_pack E (M_Header header)
        in if BUFSIZE < length buf then Inl Buffer_overflow else Inr buf)"

definition pack_chord_header :: "env \<Rightarrow> packet_type \<Rightarrow> message \<Rightarrow> byte list res" where
  "pack_chord_header E type msg = pack_header E CHORD_WIRE_VERSION (packet_num type) msg"

definition pack_addr_discover :: "env \<Rightarrow> byte list \<Rightarrow> byte list res" where
  "pack_addr_discover E ticket =
     pack_chord_header E CHORD_ADDR_DISCOVER
       (M_AddrDiscover (ADDR_DISCOVER__INIT\<lparr>ad_ticket := ticket, ad_has_ticket := True\<rparr>))"

definition pack_addr_discover_reply :: "env \<Rightarrow> byte list \<Rightarrow> in6_addr \<Rightarrow> byte list res" where
  "pack_addr_discover_reply E ticket addr =
     pack_chord_header E CHORD_ADDR_DISCOVER_REPLY
       (M_AddrDiscoverReply (ADDR_DISCOVER_REPLY__INIT\<lparr>adr_ticket := ticket, adr_has_ticket := True,
          adr_addr := addr\<rparr>))"

definition pack_data :: "env \<Rightarrow> bool \<Rightarrow> byte \<Rightarrow> chordID \<Rightarrow> ushort \<Rightarrow> byte list \<Rightarrow> byte list res" where
  "pack_data E is_last ttl ident len data =
     fbind (memcpy data (unat len)) (\<lambda>bytes.
     pack_chord_header E CHORD_DATA
       (M_Data (DATA__INIT\<lparr>dat_id := ident, dat_ttl := ucast ttl, dat_has_ttl := True, dat_last := is_last,
          dat_has_last := True, dat_data := bytes\<rparr>)))"

definition pack_fs :: "env \<Rightarrow> byte list \<Rightarrow> byte \<Rightarrow> in6_addr \<Rightarrow> ushort \<Rightarrow> byte list res" where
  "pack_fs E ticket ttl addr port =
     pack_chord_header E CHORD_FS
       (M_FindSuccessor (FIND_SUCCESSOR__INIT\<lparr>fs_ticket := ticket, fs_has_ticket := True, fs_ttl := ucast ttl,
          fs_has_ttl := True, fs_addr := addr, fs_port := ucast port\<rparr>))"

definition pack_fs_reply :: "env \<Rightarrow> byte list \<Rightarrow> in6_addr \<Rightarrow> ushort \<Rightarrow> byte list res" where
  "pack_fs_reply E ticket addr port =
     pack_chord_header E CHORD_FS_REPLY
       (M_FindSuccessorReply (FIND_SUCCESSOR_REPLY__INIT\<lparr>fsr_ticket := ticket, fsr_has_ticket := True,
          fsr_addr := addr, fsr_port := ucast port\<rparr>))"

definition pack_stab :: "env \<Rightarrow> in6_addr \<Rightarrow> ushort \<Rightarrow> byte list res" where
  "pack_stab E addr port =
     pack_chord_header E CHORD_STAB
       (M_Stabilize (STABILIZE__INIT\<lparr>stab_addr := addr, stab_port := ucast port\<rparr>))"

definition pack_stab_reply :: "env \<Rightarrow> in6_addr \<Rightarrow> ushort \<Rightarrow> byte list res" where
  "pack_stab_reply E addr port =
     pack_chord_header E CHORD_STAB_REPLY
       (M_StabilizeReply (STABILIZE_REPLY__INIT\<lparr>stabr_addr := addr, stabr_port := ucast port\<rparr>))"

definition pack_notify :: "env \<Rightarrow> byte list res" where
  "pack_notify E = pack_chord_header E CHORD_NOTIFY (M_Notify NOTIFY__INIT)"

definition pack_ping :: "env \<Rightarrow> byte list \<Rightarrow> ulong \<Rightarrow> byte list res" where
  "pack_ping E ticket time =
     pack_chord_header E CHORD_PING
       (M_Ping (PING__INIT\<lparr>ping_ticket := ticket, ping_has_ticket := True, ping_time := time\<rparr>))"

definition pack_pong :: "env \<Rightarrow> byte list \<Rightarrow> ulong \<Rightarrow> byte list res" where
  "pack_pong E ticket time =
     pack_chord_header E CHORD_PONG
       (M_Pong (PONG__INIT\<lparr>pong_ticket := ticket, pong_has_ticket := True, pong_time := time\<rparr>))"

subsection \<open>sendpkt.c\<close>

definition send_raw_v4 :: "env \<Rightarrow> int \<Rightarrow> in6_addr \<Rightarrow> ushort \<Rightarrow> byte list \<Rightarrow> datagram res" where
  "send_raw_v4 E fd addr port buf =
     fbind (assert_that (V4_MAPPED addr)) (\<lambda>_.
     Inr (Datagram fd (Sockaddr_in (htons port) (ucast (to_v4addr (mem_after E addr) addr))) buf))"

definition send_raw_v6 :: "int \<Rightarrow> in6_addr \<Rightarrow> ushort \<Rightarrow> byte list \<Rightarrow> datagram" where
  "send_raw_v6 fd addr port buf = Datagram fd (Sockaddr_in6 (htons port) addr) buf"

text \<open>The call through \<^verbatim>\<open>srv->send_func\<close>. A failing \<^verbatim>\<open>sendto\<close> is only reported.\<close>

definition send_packet :: "env \<Rightarrow> ChordServer \<Rightarrow> in6_addr \<Rightarrow> ushort \<Rightarrow> byte list \<Rightarrow> ChordServer res" where
  "send_packet E srv addr port buf =
     fbind (case send_func srv of
              Send_unset \<Rightarrow> Inl Null_deref
            | Send_raw_v4 \<Rightarrow> send_raw_v4 E (sock srv) addr port buf
            | Send_raw_v6 \<Rightarrow> Inr (send_raw_v6 (sock srv) addr port buf))
       (\<lambda>d. Inr (srv\<lparr>outbox := outbox srv @ [d]\<rparr>))"

definition get_current_time :: "env \<Rightarrow> ChordServer \<Rightarrow> ulong" where
  "get_current_time E srv = wall_time E (length (outbox srv))"

text \<open>\<^verbatim>\<open>pack_ticket\<close> into the 1024 bytes of \<^verbatim>\<open>ticket_buf\<close>.\<close>

definition pack_ticket :: "env \<Rightarrow> ChordServer \<Rightarrow> string \<Rightarrow> va list \<Rightarrow> byte list res" where
  "pack_ticket E srv fmt args =
     fbind (pack_ticket_impl E (time_pack E (length (outbox srv))) (ticket_salt srv) (ticket_salt_len srv)
              (ticket_hash_len srv) fmt args)
       (\<lambda>ticket. if 1024 < length ticket then Inl Buffer_overflow else Inr ticket)"

definition send_addr_discover :: "env \<Rightarrow> ChordServer \<Rightarrow> in6_addr \<Rightarrow> ushort \<Rightarrow> ChordServer res" where
  "send_addr_discover E srv to_addr to_port =
     fbind (pack_ticket E srv ''c6s''
              [VA_int (packet_num CHORD_ADDR_DISCOVER), VA_addr to_addr, VA_int (uint to_port)]) (\<lambda>ticket.
     fbind (pack_addr_discover E ticket) (\<lambda>buf.
     send_packet E srv to_addr to_port buf))"

definition send_addr_discover_reply ::
  "env \<Rightarrow> ChordServer \<Rightarrow> byte list \<Rightarrow> in6_addr \<Rightarrow> ushort \<Rightarrow> ChordServer res" where
  "send_addr_discover_reply E srv ticket to_addr to_port =
     fbind (pack_addr_discover_reply E ticket to_addr) (\<lambda>buf.
     send_packet E srv to_addr to_port buf)"

definition send_data ::
  "env \<Rightarrow> ChordServer \<Rightarrow> bool \<Rightarrow> byte \<Rightarrow> Node \<Rightarrow> chordID \<Rightarrow> ushort \<Rightarrow> byte list \<Rightarrow> ChordServer res" where
  "send_data E srv is_last ttl np ident n data =
     fbind (pack_data E is_last ttl ident n data) (\<lambda>buf.
     send_packet E srv (n_addr np) (n_port np) buf)"

definition send_fs ::
  "env \<Rightarrow> ChordServer \<Rightarrow> byte \<Rightarrow> in6_addr \<Rightarrow> ushort \<Rightarrow> in6_addr \<Rightarrow> ushort \<Rightarrow> ChordServer res" where
  "send_fs E srv ttl to_addr to_port addr port =
     fbind (pack_ticket E srv ''c'' [VA_int (packet_num CHORD_FS)]) (\<lambda>ticket.
     fbind (pack_fs E ticket ttl addr port) (\<lambda>buf.
     send_packet E srv to_addr to_port buf))"

definition send_fs_forward ::
  "env \<Rightarrow> ChordServer \<Rightarrow> byte list \<Rightarrow> byte \<Rightarrow> in6_addr \<Rightarrow> ushort \<Rightarrow> in6_addr \<Rightarrow> ushort \<Rightarrow> ChordServer res" where
  "send_fs_forward E srv ticket ttl to_addr to_port addr port =
     fbind (pack_fs E ticket ttl addr port) (\<lambda>buf.
     send_packet E srv to_addr to_port buf)"

definition send_fs_reply ::
  "env \<Rightarrow> ChordServer \<Rightarrow> byte list \<Rightarrow> in6_addr \<Rightarrow> ushort \<Rightarrow> in6_addr \<Rightarrow> ushort \<Rightarrow> ChordServer res" where
  "send_fs_reply E srv ticket to_addr to_port addr port =
     fbind (pack_fs_reply E ticket addr port) (\<lambda>buf.
     send_packet E srv to_addr to_port buf)"

definition send_stab ::
  "env \<Rightarrow> ChordServer \<Rightarrow> in6_addr \<Rightarrow> ushort \<Rightarrow> in6_addr \<Rightarrow> ushort \<Rightarrow> ChordServer res" where
  "send_stab E srv to_addr to_port addr port =
     fbind (pack_stab E addr port) (\<lambda>buf.
     send_packet E srv to_addr to_port buf)"

definition send_stab_reply ::
  "env \<Rightarrow> ChordServer \<Rightarrow> in6_addr \<Rightarrow> ushort \<Rightarrow> in6_addr \<Rightarrow> ushort \<Rightarrow> ChordServer res" where
  "send_stab_reply E srv to_addr to_port addr port =
     fbind (pack_stab_reply E addr port) (\<lambda>buf.
     send_packet E srv to_addr to_port buf)"

definition send_notify :: "env \<Rightarrow> ChordServer \<Rightarrow> in6_addr \<Rightarrow> ushort \<Rightarrow> ChordServer res" where
  "send_notify E srv to_addr to_port =
     fbind (pack_notify E) (\<lambda>buf.
     send_packet E srv to_addr to_port buf)"

definition send_ping :: "env \<Rightarrow> ChordServer \<Rightarrow> in6_addr \<Rightarrow> ushort \<Rightarrow> ulong \<Rightarrow> ChordServer res" where
  "send_ping E srv to_addr to_port time =
     fbind (pack_ticket E srv ''c6sl''
              [VA_int (packet_num CHORD_PING), VA_addr to_addr, VA_int (uint to_port), VA_ulong time]) (\<lambda>ticket.
     fbind (pack_ping E ticket time) (\<lambda>buf.
     send_packet E srv to_addr to_port buf))"

definition send_pong ::
  "env \<Rightarrow> ChordServer \<Rightarrow> byte list \<Rightarrow> in6_addr \<Rightarrow> ushort \<Rightarrow> ulong \<Rightarrow> ChordServer res" where
  "send_pong E srv ticket to_addr to_port time =
     fbind (pack_pong E ticket time) (\<lambda>buf.
     send_packet E srv to_addr to_port buf)"

subsection \<open>What a successful send does\<close>

text \<open>The bytes of a packet, its destination, and the server after it was sent.\<close>

definition packet :: "env \<Rightarrow> packet_type \<Rightarrow> message \<Rightarrow> byte list" where
  "packet E type msg = pb_pack E (M_Header \<lparr>hdr_has_version = True, hdr_version = 1,
     hdr_type = word_of_int (packet_num type), hdr_payload = pb_pack E msg\<rparr>)"

definition dest_of :: "env \<Rightarrow> ChordServer \<Rightarrow> in6_addr \<Rightarrow> ushort \<Rightarrow> sockaddr" where
  "dest_of E srv addr port =
     (if send_func srv = Send_raw_v6 then Sockaddr_in6 (htons port) addr
      else Sockaddr_in (htons port) (ucast (to_v4addr (mem_after E addr) addr)))"

definition post :: "env \<Rightarrow> ChordServer \<Rightarrow> in6_addr \<Rightarrow> ushort \<Rightarrow> packet_type \<Rightarrow> message \<Rightarrow> ChordServer" where
  "post E srv addr port type msg =
     srv\<lparr>outbox := outbox srv @ [Datagram (sock srv) (dest_of E srv addr port) (packet E type msg)]\<rparr>"

definition can_send :: "ChordServer \<Rightarrow> in6_addr \<Rightarrow> bool" where
  "can_send srv addr \<longleftrightarrow>
     send_func srv = Send_raw_v6 \<or> (send_func srv = Send_raw_v4 \<and> V4_MAPPED addr)"

definition fits :: "env \<Rightarrow> message \<Rightarrow> bool" where
  "fits E msg \<longleftrightarrow> length (pb_pack E msg) \<le> BUFSIZE \<and> (\<forall>type. length (packet E type msg) \<le> BUFSIZE)"

text \<open>
  The interface the handlers rely on: an encoder that yields a fixed packet when it fits, a
  channel that delivers when it is ready. Handing an encoded message to the channel then has one
  outcome on success, and it succeeds when the message fits and the channel is ready.
\<close>

locale channel =
  fixes enc :: "'t \<Rightarrow> 'm \<Rightarrow> 'b res"
    and send :: "'s \<Rightarrow> 'a \<Rightarrow> 'p \<Rightarrow> 'b \<Rightarrow> 's res"
    and wire :: "'t \<Rightarrow> 'm \<Rightarrow> 'b"
    and ok :: "'m \<Rightarrow> bool"
    and ready :: "'s \<Rightarrow> 'a \<Rightarrow> bool"
    and posted :: "'s \<Rightarrow> 'a \<Rightarrow> 'p \<Rightarrow> 'b \<Rightarrow> 's"
  assumes enc_result: "enc t m = Inr b \<Longrightarrow> b = wire t m"
    and enc_total: "ok m \<Longrightarrow> enc t m = Inr (wire t m)"
    and send_result: "send s a p b = Inr s' \<Longrightarrow> s' = posted s a p b"
    and send_total: "ready s a \<Longrightarrow> send s a p b = Inr (posted s a p b)"
begin

lemma transmit_result: "fbind (enc t m) (\<lambda>b. send s a p b) = Inr s' \<Longrightarrow> s' = posted s a p (wire t m)"
  by (auto simp: res_simps dest: enc_result send_result)

lemma transmit_total: "ok m \<Longrightarrow> ready s a \<Longrightarrow> fbind (enc t m) (\<lambda>b. send s a p b) = Inr (posted s a p (wire t m))"
  by (simp add: enc_total send_total)

lemma transmit_bind_result:
  "fbind (fbind g (\<lambda>x. enc t (f x))) (\<lambda>b. send s a p b) = Inr s' \<Longrightarrow> \<exists>x. g = Inr x \<and> s' = posted s a p (wire t (f x))"
  by (cases g) (auto dest: transmit_result)

end

lemma pack_chord_header_eq:
  "pack_chord_header E t m =
     (if length (pb_pack E m) \<le> BUFSIZE \<and> length (packet E t m) \<le> BUFSIZE then Inr (packet E t m) else Inl Buffer_overflow)"
  by (simp add: pack_chord_header_def pack_header_def packet_def HEADER__INIT_def Let_def)

lemma send_packet_eq:
  "send_packet E srv addr port buf =
     (if can_send srv addr
      then Inr (srv\<lparr>outbox := outbox srv @ [Datagram (sock srv) (dest_of E srv addr port) buf]\<rparr>)
      else Inl (if send_func srv = Send_unset then Null_deref else Assert_failed))"
  by (cases "send_func srv"; cases "V4_MAPPED addr")
    (simp_all add: send_packet_def send_raw_v4_def send_raw_v6_def dest_of_def can_send_def)

interpretation chan: channel "pack_chord_header E" "send_packet E" "packet E" "fits E" can_send
    "\<lambda>srv addr port buf. srv\<lparr>outbox := outbox srv @ [Datagram (sock srv) (dest_of E srv addr port) buf]\<rparr>"
proof
  fix t m b
  show "pack_chord_header E t m = Inr b \<Longrightarrow> b = packet E t m" by (simp add: pack_chord_header_eq split: if_splits)
  show "fits E m \<Longrightarrow> pack_chord_header E t m = Inr (packet E t m)" by (simp add: pack_chord_header_eq fits_def)
next
  fix srv srv' :: ChordServer and a p b
  show "send_packet E srv a p b = Inr srv' \<Longrightarrow>
      srv' = srv\<lparr>outbox := outbox srv @ [Datagram (sock srv) (dest_of E srv a p) b]\<rparr>"
    by (simp add: send_packet_eq split: if_splits)
  show "can_send srv a \<Longrightarrow> send_packet E srv a p b =
      Inr (srv\<lparr>outbox := outbox srv @ [Datagram (sock srv) (dest_of E srv a p) b]\<rparr>)"
    by (simp add: send_packet_eq)
qed

lemmas transmit_result = chan.transmit_result [folded post_def]
lemmas transmit_total = chan.transmit_total [folded post_def]

lemma post_sel [simp]:
  "s_node (post E srv a p t m) = s_node srv" "pred_bound (post E srv a p t m) = pred_bound srv"
  "flist (post E srv a p t m) = flist srv" "num_passive_fingers (post E srv a p t m) = num_passive_fingers srv"
  "to_fix_finger (post E srv a p t m) = to_fix_finger srv" "to_fix_backup (post E srv a p t m) = to_fix_backup srv"
  "to_ping (post E srv a p t m) = to_ping srv" "sock (post E srv a p t m) = sock srv"
  "is_v6 (post E srv a p t m) = is_v6 srv" "send_func (post E srv a p t m) = send_func srv"
  "well_known (post E srv a p t m) = well_known srv" "ticket_salt (post E srv a p t m) = ticket_salt srv"
  "ticket_salt_len (post E srv a p t m) = ticket_salt_len srv" "ticket_hash_len (post E srv a p t m) = ticket_hash_len srv"
  "discover_addr_event (post E srv a p t m) = discover_addr_event srv" "stab_event (post E srv a p t m) = stab_event srv"
  "rnd_calls (post E srv a p t m) = rnd_calls srv"
  "outbox (post E srv a p t m) = outbox srv @ [Datagram (sock srv) (dest_of E srv a p) (packet E t m)]"
  by (simp_all add: post_def)

lemma table_inv_post [simp]: "table_inv (post E srv a p t m) = table_inv srv"
  by (simp add: table_inv_def)

lemma can_send_post [simp]: "can_send (post E srv a p t m) b = can_send srv b"
  by (simp add: can_send_def)

lemma fits_small: "codec_size E \<Longrightarrow> msg_len m \<le> 65400 \<Longrightarrow> fits E m"
proof -
  assume E: "codec_size E" and m: "msg_len m \<le> 65400"
  have p: "length (pb_pack E m) \<le> msg_len m + 32" using codec_sizeD [OF E, of m] m by simp
  have "length (packet E t m) \<le> length (pb_pack E m) + 32" for t
    using codec_sizeD [OF E, of "M_Header \<lparr>hdr_has_version = True, hdr_version = 1,
     hdr_type = word_of_int (packet_num t), hdr_payload = pb_pack E m\<rparr>"] p m by (simp add: packet_def)
  then have "length (packet E t m) \<le> 65535" for t
    by (rule order_trans) (use p m in linarith)
  then show ?thesis using p m by (simp add: fits_def)
qed

subsection \<open>Each message\<close>

definition env_ok :: "env \<Rightarrow> bool" where
  "env_ok E \<longleftrightarrow> sha1_ok E \<and> codec_size E"

text \<open>
  The fields of a server that the packet handlers never touch: the ticket key has its declared size, the socket (once it is
  set up) is of the configured family, and the counters of the periodic work are in range.
\<close>

definition config_ok :: "ChordServer \<Rightarrow> bool" where
  "config_ok srv \<longleftrightarrow>
     length (ticket_salt srv) = ticket_salt_len srv \<and> ticket_hash_len srv \<le> 20 \<and>
     (send_func srv = Send_unset \<or> send_func srv = (if is_v6 srv then Send_raw_v6 else Send_raw_v4)) \<and>
     0 \<le> to_fix_finger srv \<and> to_fix_finger srv < NFINGERS \<and>
     0 \<le> to_fix_backup srv \<and> to_fix_backup srv < NSUCCESSORS \<and> 0 \<le> to_ping srv"

lemma env_okD: "env_ok E \<Longrightarrow> sha1_ok E" "env_ok E \<Longrightarrow> codec_size E"
  by (simp_all add: env_ok_def)

lemma demo_env_env_ok [simp]: "env_ok demo_env"
  by (simp add: env_ok_def)

lemma config_ok_post [simp]: "config_ok (post E srv a p t m) = config_ok srv"
  by (simp add: config_ok_def)

lemma config_ok_demo [simp]: "config_ok demo_srv" "config_ok demo_srv2"
  by (simp_all add: config_ok_def demo_srv_def demo_srv2_def)

definition ticket_for :: "env \<Rightarrow> ChordServer \<Rightarrow> byte list \<Rightarrow> byte list" where
  "ticket_for E srv params =
     (let t = word_of_int (time_pack E (length (outbox srv))) in
      pb_pack E (M_Ticket \<lparr>tkt_time = t,
        tkt_hash = take (ticket_hash_len srv) (ticket_digest E (ticket_salt srv) t params)\<rparr>))"

lemma length_ticket_for: "codec_size E \<Longrightarrow> config_ok srv \<Longrightarrow> length (ticket_for E srv params) \<le> 52"
  unfolding ticket_for_def Let_def
  by (rule order_trans [OF codec_sizeD]) (auto simp: config_ok_def)

lemma pack_ticket_total:
  assumes "env_ok E" and "config_ok srv" and "vpack_hash E [] fmt args = Inr params"
  shows "pack_ticket E srv fmt args = Inr (ticket_for E srv params)"
proof -
  have "pack_ticket_impl E (time_pack E (length (outbox srv))) (ticket_salt srv) (ticket_salt_len srv)
      (ticket_hash_len srv) fmt args = Inr (ticket_for E srv params)"
    using pack_ticket_eq assms by (simp add: config_ok_def env_ok_def ticket_for_def Let_def)
  moreover have "length (ticket_for E srv params) \<le> 1024"
    using length_ticket_for [of E srv params] assms by (simp add: env_ok_def)
  ultimately show ?thesis by (simp add: pack_ticket_def)
qed

definition discover_params :: "in6_addr \<Rightarrow> ushort \<Rightarrow> byte list" where
  "discover_params a p = [0] @ a @ le_bytes 2 p"

definition ping_params :: "in6_addr \<Rightarrow> ushort \<Rightarrow> ulong \<Rightarrow> byte list" where
  "ping_params a p t = [8] @ a @ le_bytes 2 p @ le_bytes 8 t"

lemma vpack_hash_params:
  "vpack_hash E [] ''c6s'' [VA_int (packet_num CHORD_ADDR_DISCOVER), VA_addr a, VA_int (uint p)] = Inr (discover_params a p)"
  "vpack_hash E [] ''c6sl'' [VA_int (packet_num CHORD_PING), VA_addr a, VA_int (uint p), VA_ulong t] = Inr (ping_params a p t)"
  "vpack_hash E [] ''c'' [VA_int (packet_num CHORD_FS)] = Inr [3]"
  by (simp_all add: discover_params_def ping_params_def)

lemma send_addr_discover_total:
  assumes "env_ok E" and "config_ok srv" and "can_send srv a"
  shows "send_addr_discover E srv a p = Inr (post E srv a p CHORD_ADDR_DISCOVER
    (M_AddrDiscover \<lparr>ad_has_ticket = True, ad_ticket = ticket_for E srv (discover_params a p)\<rparr>))"
  unfolding send_addr_discover_def pack_ticket_total [OF assms(1,2) vpack_hash_params(1)] fbind_simps pack_addr_discover_def
  by (subst transmit_total) 
    (use length_ticket_for [of E srv "discover_params a p"] assms in \<open>auto intro!: fits_small simp: env_ok_def ADDR_DISCOVER__INIT_def\<close>)

lemma send_addr_discover_reply_total:
  assumes "env_ok E" and "length ticket \<le> 65000" and "wf_addr a" and "can_send srv a"
  shows "send_addr_discover_reply E srv ticket a p = Inr (post E srv a p CHORD_ADDR_DISCOVER_REPLY
    (M_AddrDiscoverReply \<lparr>adr_has_ticket = True, adr_ticket = ticket, adr_addr = a\<rparr>))"
  unfolding send_addr_discover_reply_def pack_addr_discover_reply_def
  by (subst transmit_total) (use assms in \<open>auto intro!: fits_small simp: env_ok_def wf_addr_def ADDR_DISCOVER_REPLY__INIT_def\<close>)

lemma send_data_total:
  assumes "env_ok E" and "wf_id i" and "unat n \<le> length data" and "unat n \<le> 65000" and "can_send srv (n_addr np)"
  shows "send_data E srv l ttl np i n data = Inr (post E srv (n_addr np) (n_port np) CHORD_DATA
    (M_Data \<lparr>dat_id = i, dat_has_ttl = True, dat_ttl = ucast ttl, dat_has_last = True, dat_last = l, dat_data = take (unat n) data\<rparr>))"
  using assms unfolding send_data_def pack_data_def memcpy_def fbind_assoc
  by (simp, subst transmit_total) (auto intro!: fits_small simp: env_ok_def wf_id_def DATA__INIT_def)

lemma send_fs_total:
  assumes "env_ok E" and "config_ok srv" and "wf_addr b" and "can_send srv a"
  shows "send_fs E srv ttl a p b q = Inr (post E srv a p CHORD_FS (M_FindSuccessor \<lparr>fs_has_ticket = True,
    fs_ticket = ticket_for E srv [3], fs_has_ttl = True, fs_ttl = ucast ttl, fs_addr = b, fs_port = ucast q\<rparr>))"
  unfolding send_fs_def pack_ticket_total [OF assms(1,2) vpack_hash_params(3)] fbind_simps pack_fs_def
  by (subst transmit_total)
    (use length_ticket_for [of E srv "[3]"] assms in \<open>auto intro!: fits_small simp: env_ok_def wf_addr_def FIND_SUCCESSOR__INIT_def\<close>)

lemma send_fs_forward_total:
  assumes "env_ok E" and "length ticket \<le> 65000" and "wf_addr b" and "can_send srv a"
  shows "send_fs_forward E srv ticket ttl a p b q = Inr (post E srv a p CHORD_FS (M_FindSuccessor \<lparr>fs_has_ticket = True,
    fs_ticket = ticket, fs_has_ttl = True, fs_ttl = ucast ttl, fs_addr = b, fs_port = ucast q\<rparr>))"
  unfolding send_fs_forward_def pack_fs_def
  by (subst transmit_total) (use assms in \<open>auto intro!: fits_small simp: env_ok_def wf_addr_def FIND_SUCCESSOR__INIT_def\<close>)

lemma send_fs_reply_total:
  assumes "env_ok E" and "length ticket \<le> 65000" and "wf_addr b" and "can_send srv a"
  shows "send_fs_reply E srv ticket a p b q = Inr (post E srv a p CHORD_FS_REPLY
    (M_FindSuccessorReply \<lparr>fsr_has_ticket = True, fsr_ticket = ticket, fsr_addr = b, fsr_port = ucast q\<rparr>))"
  unfolding send_fs_reply_def pack_fs_reply_def
  by (subst transmit_total) (use assms in \<open>auto intro!: fits_small simp: env_ok_def wf_addr_def FIND_SUCCESSOR_REPLY__INIT_def\<close>)

lemma send_stab_total:
  assumes "env_ok E" and "wf_addr b" and "can_send srv a"
  shows "send_stab E srv a p b q = Inr (post E srv a p CHORD_STAB (M_Stabilize \<lparr>stab_addr = b, stab_port = ucast q\<rparr>))"
  unfolding send_stab_def pack_stab_def
  by (subst transmit_total) (use assms in \<open>auto intro!: fits_small simp: env_ok_def wf_addr_def STABILIZE__INIT_def\<close>)

lemma send_stab_reply_total:
  assumes "env_ok E" and "wf_addr b" and "can_send srv a"
  shows "send_stab_reply E srv a p b q =
    Inr (post E srv a p CHORD_STAB_REPLY (M_StabilizeReply \<lparr>stabr_addr = b, stabr_port = ucast q\<rparr>))"
  unfolding send_stab_reply_def pack_stab_reply_def
  by (subst transmit_total) (use assms in \<open>auto intro!: fits_small simp: env_ok_def wf_addr_def STABILIZE_REPLY__INIT_def\<close>)

lemma send_notify_total:
  assumes "env_ok E" and "can_send srv a"
  shows "send_notify E srv a p = Inr (post E srv a p CHORD_NOTIFY (M_Notify NOTIFY__INIT))"
  unfolding send_notify_def pack_notify_def
  by (subst transmit_total) (use assms in \<open>auto intro!: fits_small simp: env_ok_def\<close>)

lemma send_ping_total:
  assumes "env_ok E" and "config_ok srv" and "can_send srv a"
  shows "send_ping E srv a p t = Inr (post E srv a p CHORD_PING
    (M_Ping \<lparr>ping_has_ticket = True, ping_ticket = ticket_for E srv (ping_params a p t), ping_time = t\<rparr>))"
  unfolding send_ping_def pack_ticket_total [OF assms(1,2) vpack_hash_params(2)] fbind_simps pack_ping_def
  by (subst transmit_total) (use length_ticket_for [of E srv "ping_params a p t"] assms in \<open>auto intro!: fits_small simp: env_ok_def PING__INIT_def\<close>)

lemma send_pong_total:
  assumes "env_ok E" and "length ticket \<le> 65000" and "can_send srv a"
  shows "send_pong E srv ticket a p t = Inr (post E srv a p CHORD_PONG
    (M_Pong \<lparr>pong_has_ticket = True, pong_ticket = ticket, pong_time = t\<rparr>))"
  unfolding send_pong_def pack_pong_def
  by (subst transmit_total) (use assms in \<open>auto intro!: fits_small simp: env_ok_def PONG__INIT_def\<close>)

subsection \<open>Whatever a send does, it only appends to the outbox\<close>

definition sent :: "ChordServer \<Rightarrow> ChordServer \<Rightarrow> bool" where
  "sent srv srv' \<longleftrightarrow> (\<exists>ds. srv' = srv\<lparr>outbox := outbox srv @ ds\<rparr>)"

lemma sent_refl [simp]: "sent srv srv"
  unfolding sent_def by (rule exI [of _ "[]"]) simp

lemma sent_trans: "sent a b \<Longrightarrow> sent b c \<Longrightarrow> sent a c"
  by (auto simp: sent_def)

lemma sent_post [simp]: "sent srv (post E srv a p t m)"
  by (auto simp: sent_def post_def)

lemma sent_table_inv: "sent srv srv' \<Longrightarrow> table_inv srv' = table_inv srv"
  by (auto simp: sent_def table_inv_def)

lemma send_packet_sent: "send_packet E srv a p b = Inr srv' \<Longrightarrow> sent srv srv'"
  by (auto simp: sent_def dest!: chan.send_result)

lemma send_sent:
  "send_addr_discover E srv a p = Inr srv' \<Longrightarrow> sent srv srv'"
  "send_addr_discover_reply E srv tk a p = Inr srv' \<Longrightarrow> sent srv srv'"
  "send_data E srv l ttl np i n data = Inr srv' \<Longrightarrow> sent srv srv'"
  "send_fs E srv ttl a p b q = Inr srv' \<Longrightarrow> sent srv srv'"
  "send_fs_forward E srv tk ttl a p b q = Inr srv' \<Longrightarrow> sent srv srv'"
  "send_fs_reply E srv tk a p b q = Inr srv' \<Longrightarrow> sent srv srv'"
  "send_stab E srv a p b q = Inr srv' \<Longrightarrow> sent srv srv'"
  "send_stab_reply E srv a p b q = Inr srv' \<Longrightarrow> sent srv srv'"
  "send_notify E srv a p = Inr srv' \<Longrightarrow> sent srv srv'"
  "send_ping E srv a p t = Inr srv' \<Longrightarrow> sent srv srv'"
  "send_pong E srv tk a p t = Inr srv' \<Longrightarrow> sent srv srv'"
  by (auto simp: send_addr_discover_def send_addr_discover_reply_def send_data_def send_fs_def send_fs_forward_def
      send_fs_reply_def send_stab_def send_stab_reply_def send_notify_def send_ping_def send_pong_def res_simps
      intro: send_packet_sent)

subsection \<open>Properties\<close>

text \<open>
  What is sent can be read: a packet built by \<^verbatim>\<open>pack_chord_header\<close> decodes to a header with the
  packet's type and the protocol version, whose payload decodes, under the descriptor of the
  message that was packed, to that message.
\<close>

theorem pack_header_roundtrip:
  assumes "codec_ok E" and "canonical msg" and "pack_chord_header E type msg = Inr buf"
  shows "\<exists>h. pb_unpack E header__descriptor buf = Some (M_Header h) \<and>
    hdr_type h = word_of_int (packet_num type) \<and> hdr_version h = CHORD_WIRE_VERSION \<and>
    pb_unpack E (descriptor_of msg) (hdr_payload h) = Some msg"
proof -
  let ?h = "\<lparr>hdr_has_version = True, hdr_version = 1, hdr_type = word_of_int (packet_num type),
      hdr_payload = pb_pack E msg\<rparr>"
  have "buf = pb_pack E (M_Header ?h)" using chan.enc_result [OF assms(3)] by (simp add: packet_def)
  moreover have "pb_unpack E header__descriptor (pb_pack E (M_Header ?h)) = Some (M_Header ?h)"
    using codec_roundtrip [OF assms(1), of "M_Header ?h"] by simp
  ultimately show ?thesis using codec_roundtrip [OF assms(1,2)] by auto
qed

lemma pack_header_roundtrip_witness:
  "\<exists>h. pb_unpack demo_env header__descriptor (packet demo_env CHORD_NOTIFY (M_Notify NOTIFY__INIT)) = Some (M_Header h) \<and>
    hdr_type h = word_of_int (packet_num CHORD_NOTIFY) \<and> hdr_version h = CHORD_WIRE_VERSION \<and>
    pb_unpack demo_env (descriptor_of (M_Notify NOTIFY__INIT)) (hdr_payload h) = Some (M_Notify NOTIFY__INIT)"
  by (rule pack_header_roundtrip) (simp_all add: chan.enc_total fits_small)

end
