(* ===== verification/Chord_Process.thy ===== *)
theory Chord_Process
  imports Chord_Send
begin

text \<open>
  The packet handlers, \<^verbatim>\<open>src/src/process.c\<close>. Each takes the decoded message and the sender and returns
  an error code with the new server state, or a fault. A \<^verbatim>\<open>Finger *\<close> that is kept across a
  call is looked up again by its identifier when it is used; if it is gone, the pointer dangles.
  The \<^verbatim>\<open>header\<close> argument is used only to report errors.
\<close>

subsection \<open>The handlers\<close>

type_synonym handled = "(chord_error \<times> ChordServer) res"

definition verify_ticket :: "env \<Rightarrow> ChordServer \<Rightarrow> byte list \<Rightarrow> string \<Rightarrow> va list \<Rightarrow> bool res" where
  "verify_ticket E srv ticket fmt args =
     verify_ticket_impl E (time_verify E (length (outbox srv))) (ticket_salt srv) (ticket_salt_len srv)
       (ticket_hash_len srv) ticket fmt args"

definition process_addr_discover :: "env \<Rightarrow> ChordServer \<Rightarrow> AddrDiscover \<Rightarrow> Node \<Rightarrow> handled" where
  "process_addr_discover E srv msg from =
     fbind (send_addr_discover_reply E srv (ad_ticket msg) (n_addr from) (n_port from)) (\<lambda>srv.
     Inr (CHORD_NO_ERROR, srv))"

definition process_addr_discover_reply :: "env \<Rightarrow> ChordServer \<Rightarrow> AddrDiscoverReply \<Rightarrow> Node \<Rightarrow> handled" where
  "process_addr_discover_reply E srv msg from =
     fbind (verify_ticket E srv (adr_ticket msg) ''c6s''
              [VA_int (packet_num CHORD_ADDR_DISCOVER), VA_addr (n_addr from), VA_int (uint (n_port from))]) (\<lambda>valid.
     if \<not> valid then Inr (CHORD_INVALID_TICKET, srv)
     else if IN6_IS_ADDR_UNSPECIFIED (s_addr srv) then
       fbind (v6_addr_set (adr_addr msg)) (\<lambda>addr.
       fbind (get_address_id E addr (s_port srv)) (\<lambda>ident.
       let srv = srv\<lparr>s_node := (s_node srv)\<lparr>n_addr := addr, n_id := ident\<rparr>\<rparr>;
           srv = chord_update_range srv (s_id srv) (s_id srv)
       in Inr (CHORD_NO_ERROR, srv\<lparr>discover_addr_event := False, stab_event := True\<rparr>)))
     else Inr (CHORD_NO_ERROR, srv))"

text \<open>The next hop, and whether it should be the last one.\<close>

definition next_route_node :: "ChordServer \<Rightarrow> chordID \<Rightarrow> bool \<Rightarrow> Node \<times> bool" where
  "next_route_node srv ident is_last =
     (case (if is_last then pred_finger srv else None) of
        Some pf \<Rightarrow> (f_node pf, True)
      | None \<Rightarrow>
          (case succ_finger srv of
             Some sf \<Rightarrow>
               if id_is_between ident (s_id srv) (f_id sf) \<or> id_equals ident (f_id sf)
               then (f_node sf, True)
               else (closest_preceding_node srv ident False, False)
           | None \<Rightarrow> (closest_preceding_node srv ident False, False)))"

definition process_data :: "env \<Rightarrow> ChordServer \<Rightarrow> Data \<Rightarrow> Node \<Rightarrow> handled" where
  "process_data E srv msg from =
     fbind (memcpy (dat_id msg) CHORD_ID_BYTES) (\<lambda>ident.
     if IN6_IS_ADDR_UNSPECIFIED (s_addr srv) then Inr (CHORD_ADDR_UNDISCOVERED, srv)
     else
       let ttl = dat_ttl msg - 1 in
       if ttl = 0 then Inr (CHORD_TTL_EXPIRED, srv)
       else if chord_id_is_local srv ident then Inr (CHORD_NO_ERROR, srv)
       else
         let (np, next_is_last) = next_route_node srv ident (dat_last msg) in
         fbind (send_data E srv next_is_last (ucast ttl) np ident (word_of_nat (length (dat_data msg))) (dat_data msg)) (\<lambda>srv.
         Inr (CHORD_NO_ERROR, srv)))"

definition process_fs :: "env \<Rightarrow> ChordServer \<Rightarrow> FindSuccessor \<Rightarrow> Node \<Rightarrow> handled" where
  "process_fs E srv msg from =
     (let reply_port = (ucast (fs_port msg) :: ushort) in
      if IN6_IS_ADDR_UNSPECIFIED (s_addr srv) then Inr (CHORD_ADDR_UNDISCOVERED, srv)
      else
        fbind (v6_addr_set (fs_addr msg)) (\<lambda>reply_addr.
        fbind (get_address_id E reply_addr reply_port) (\<lambda>reply_id.
        let ttl = fs_ttl msg - 1 in
        if ttl = 0 then Inr (CHORD_TTL_EXPIRED, srv)
        else if v6_addr_equals (s_addr srv) reply_addr \<and> s_port srv = reply_port then Inr (CHORD_NO_ERROR, srv)
        else
          fbind
            (case succ_finger srv of
               None \<Rightarrow> send_fs_reply E srv (fs_ticket msg) reply_addr reply_port (s_addr srv) (s_port srv)
             | Some sf \<Rightarrow>
                 if id_is_between reply_id (s_id srv) (f_id sf) \<or> id_equals reply_id (f_id sf)
                 then send_fs_reply E srv (fs_ticket msg) reply_addr reply_port (f_addr sf) (f_port sf)
                 else
                   let np = closest_preceding_node srv reply_id False in
                   send_fs_forward E srv (fs_ticket msg) (ucast ttl) (n_addr np) (n_port np) reply_addr reply_port)
            (\<lambda>srv. Inr (CHORD_NO_ERROR, srv)))))"

definition process_fs_reply :: "env \<Rightarrow> ChordServer \<Rightarrow> FindSuccessorReply \<Rightarrow> Node \<Rightarrow> handled" where
  "process_fs_reply E srv msg from =
     (if IN6_IS_ADDR_UNSPECIFIED (s_addr srv) then Inr (CHORD_ADDR_UNDISCOVERED, srv)
      else
        fbind (memcpy (fsr_addr msg) 16) (\<lambda>addr.
        fbind (get_address_id E addr (ucast (fsr_port msg))) (\<lambda>ident.
        fbind (verify_ticket E srv (fsr_ticket msg) ''c'' [VA_int (packet_num CHORD_FS)]) (\<lambda>valid.
        if \<not> valid then Inr (CHORD_INVALID_TICKET, srv)
        else if v6_addr_equals (s_addr srv) addr \<and> ucast (s_port srv) = fsr_port msg then Inr (CHORD_NO_ERROR, srv)
        else
          fbind (insert_finger srv ident addr (ucast (fsr_port msg))) (\<lambda>(f, fnew, srv).
          fbind (read_var fnew) (\<lambda>fnew.
          fbind (if fnew then send_ping E srv addr (ucast (fsr_port msg)) (get_current_time E srv) else Inr srv) (\<lambda>srv.
          Inr (CHORD_NO_ERROR, srv))))))))"

definition process_stab :: "env \<Rightarrow> ChordServer \<Rightarrow> Stabilize \<Rightarrow> Node \<Rightarrow> handled" where
  "process_stab E srv msg from =
     (let pred = pred_finger srv in
      if IN6_IS_ADDR_UNSPECIFIED (s_addr srv) then Inr (CHORD_ADDR_UNDISCOVERED, srv)
      else
        fbind (memcpy (stab_addr msg) 16) (\<lambda>addr.
        fbind (get_address_id E addr (ucast (stab_port msg))) (\<lambda>ident.
        fbind (insert_finger srv ident addr (ucast (stab_port msg))) (\<lambda>(f, fnew, srv).
        fbind
          (case pred of
             None \<Rightarrow> Inr srv
           | Some p \<Rightarrow>
               fbind (deref (finger_at srv (f_id p))) (\<lambda>p.
               send_stab_reply E srv addr (ucast (stab_port msg)) (f_addr p) (f_port p)))
          (\<lambda>srv. Inr (CHORD_NO_ERROR, srv))))))"

definition process_stab_reply :: "env \<Rightarrow> ChordServer \<Rightarrow> StabilizeReply \<Rightarrow> Node \<Rightarrow> handled" where
  "process_stab_reply E srv msg from =
     (if IN6_IS_ADDR_UNSPECIFIED (s_addr srv) then Inr (CHORD_ADDR_UNDISCOVERED, srv)
      else
        fbind (memcpy (stabr_addr msg) 16) (\<lambda>addr.
        fbind (get_address_id E addr (ucast (stabr_port msg))) (\<lambda>ident.
        if v6_addr_equals (s_addr srv) addr \<and> ucast (s_port srv) = stabr_port msg then Inr (CHORD_NO_ERROR, srv)
        else
          fbind (insert_finger srv ident addr (ucast (stabr_port msg))) (\<lambda>(f, fnew, srv).
          fbind (deref (succ_finger srv)) (\<lambda>succ.
          fbind (send_notify E srv (f_addr succ) (f_port succ)) (\<lambda>srv.
          fbind (read_var fnew) (\<lambda>fnew.
          fbind (if fnew then send_ping E srv addr (ucast (stabr_port msg)) (get_current_time E srv) else Inr srv) (\<lambda>srv.
          Inr (CHORD_NO_ERROR, srv)))))))))"

definition process_notify :: "env \<Rightarrow> ChordServer \<Rightarrow> Notify \<Rightarrow> Node \<Rightarrow> handled" where
  "process_notify E srv msg from =
     (if IN6_IS_ADDR_UNSPECIFIED (s_addr srv) then Inr (CHORD_ADDR_UNDISCOVERED, srv)
      else
        fbind (insert_finger srv (n_id from) (n_addr from) (n_port from)) (\<lambda>(f, fnew, srv).
        fbind (read_var fnew) (\<lambda>fnew.
        fbind (if fnew then send_ping E srv (n_addr from) (n_port from) (get_current_time E srv) else Inr srv) (\<lambda>srv.
        Inr (CHORD_NO_ERROR, srv)))))"

definition process_ping :: "env \<Rightarrow> ChordServer \<Rightarrow> Ping \<Rightarrow> Node \<Rightarrow> handled" where
  "process_ping E srv msg from =
     (if IN6_IS_ADDR_UNSPECIFIED (s_addr srv) then Inr (CHORD_ADDR_UNDISCOVERED, srv)
      else
        fbind (insert_finger srv (n_id from) (n_addr from) (n_port from)) (\<lambda>(f, fnew, srv).
        fbind (read_var fnew) (\<lambda>fnew.
        let ping_it = fnew \<and>
              (case pred_finger srv of None \<Rightarrow> True
               | Some pred \<Rightarrow> id_is_between (n_id from) (f_id pred) (s_id srv))
        in
        fbind (if ping_it then send_ping E srv (n_addr from) (n_port from) (get_current_time E srv) else Inr srv) (\<lambda>srv.
        fbind (send_pong E srv (ping_ticket msg) (n_addr from) (n_port from) (ping_time msg)) (\<lambda>srv.
        Inr (CHORD_NO_ERROR, srv))))))"

text \<open>
  The part of \<^verbatim>\<open>process_pong\<close> after the finger was found: refresh it, measure the round trip,
  activate it and move the range when it became the predecessor.
\<close>

definition refreshed :: "int \<times> int \<Rightarrow> Finger \<Rightarrow> Finger" where
  "refreshed rtt g = g\<lparr>f_npings := 0, f_rtt_avg := fst rtt, f_rtt_dev := snd rtt\<rparr>"

definition pong_activate :: "ChordServer \<Rightarrow> Finger \<Rightarrow> ChordServer res" where
  "pong_activate srv f =
     (let pred = pred_finger srv;
          srv = activate_finger srv f;
          newpred = pred_finger srv
      in
      fbind (assert_that (newpred \<noteq> None \<or> map_option f_id pred = map_option f_id newpred)) (\<lambda>_.
      if map_option f_id pred \<noteq> map_option f_id newpred then
        fbind (deref newpred) (\<lambda>newpred. Inr (chord_update_range srv (f_id newpred) (s_id srv)))
      else Inr srv))"

definition pong_refresh :: "env \<Rightarrow> ChordServer \<Rightarrow> Pong \<Rightarrow> Finger \<Rightarrow> ChordServer res" where
  "pong_refresh E srv msg f =
     (let new_rtt = get_current_time E srv - pong_time msg in
      fbind (update_rtt (f_rtt_avg f) (f_rtt_dev f) (sint new_rtt)) (\<lambda>rtt.
      pong_activate (upd_finger (f_id f) (refreshed rtt) srv) f))"

definition process_pong :: "env \<Rightarrow> ChordServer \<Rightarrow> Pong \<Rightarrow> Node \<Rightarrow> handled" where
  "process_pong E srv msg from =
     (if IN6_IS_ADDR_UNSPECIFIED (s_addr srv) then Inr (CHORD_ADDR_UNDISCOVERED, srv)
      else
        fbind (verify_ticket E srv (pong_ticket msg) ''c6sl''
                 [VA_int (packet_num CHORD_PING), VA_addr (n_addr from), VA_int (uint (n_port from)),
                  VA_ulong (pong_time msg)]) (\<lambda>valid.
        if \<not> valid then Inr (CHORD_INVALID_TICKET, srv)
        else
          fbind (insert_finger srv (n_id from) (n_addr from) (n_port from)) (\<lambda>(fo, fnew, srv).
          case fo of
            None \<Rightarrow> Inr (CHORD_FINGER_ERROR, srv)
          | Some f \<Rightarrow> fbind (pong_refresh E srv msg f) (\<lambda>srv. Inr (CHORD_NO_ERROR, srv)))))"

text \<open>The text \<^verbatim>\<open>process_error\<close> logs for an error code.\<close>

fun process_error :: "chord_error \<Rightarrow> string" where
  "process_error CHORD_NO_ERROR = ''no error''"
| "process_error CHORD_PROTOCOL_ERROR = ''protocol error''"
| "process_error CHORD_TTL_EXPIRED = ''time-to-live expired''"
| "process_error CHORD_INVALID_TICKET = ''invalid ticket''"
| "process_error CHORD_ADDR_UNDISCOVERED = ''received routing packet before address discovery''"
| "process_error CHORD_SELF_ORIGINATOR = ''received packet from self''"
| "process_error CHORD_FINGER_ERROR = ''finger error''"

subsection \<open>The server invariant\<close>

text \<open>
  Beyond the table: tickets can be computed, every finger's identifier is the hash of its address and port,
  so is the server's own once its address is known, and before that no finger is kept.
\<close>

definition ids_ok :: "env \<Rightarrow> ChordServer \<Rightarrow> bool" where
  "ids_ok E srv \<longleftrightarrow> (\<forall>f \<in> set (flist srv). f_id f = addr_id E (f_addr f) (f_port f))"

definition srv_inv :: "env \<Rightarrow> ChordServer \<Rightarrow> bool" where
  "srv_inv E srv \<longleftrightarrow>
     table_inv srv \<and> config_ok srv \<and> ids_ok E srv \<and>
     (if IN6_IS_ADDR_UNSPECIFIED (s_addr srv) then flist srv = [] else s_id srv = addr_id E (s_addr srv) (s_port srv))"

lemma srv_invD:
  assumes "srv_inv E srv"
  shows "table_inv srv" "config_ok srv" "ids_ok E srv"
  using assms by (simp_all add: srv_inv_def)

lemma sent_srv_inv: "sent srv srv' \<Longrightarrow> srv_inv E srv' = srv_inv E srv"
  unfolding sent_def by (elim exE) (simp add: srv_inv_def config_ok_def ids_ok_def table_inv_def)

lemma srv_inv_post [simp]: "srv_inv E (post E' srv a p t m) = srv_inv E srv"
  by (rule sent_srv_inv [OF sent_post])

lemma insert_finger_new_set:
  assumes "table_inv srv" and "wf_id i" and "wf_addr a"
    and "insert_finger srv i a p = Inr (fo, fn, srv')" and "g \<in> set (flist srv')"
  shows "g \<in> set (flist srv) \<or> (f_id g = i \<and> f_addr g = a \<and> f_port g = p)"
  using assms(1-3)
proof (cases rule: insert_finger_cases [where p = p])
  case (moved f n f')
  then show ?thesis
    using assms(4,5) get_finger_Some [OF moved(2) assms(1,2)] by (auto simp: upd_finger_def)
next
  case (fresh srv1 n)
  obtain srv2 where "evict srv = Inr srv2" "set (flist srv2) \<subseteq> set (flist srv)" using evict_ok [OF assms(1)] by metis
  then show ?thesis using fresh assms(4,5) by (auto simp: new_finger_def)
qed (use assms(4,5) in auto)

lemma insert_finger_srv_inv:
  assumes "srv_inv E srv" and "sha1_ok E" and "\<not> IN6_IS_ADDR_UNSPECIFIED (s_addr srv)" and "wf_addr a"
    and "insert_finger srv (addr_id E a p) a p = Inr (fo, fn, srv')"
  shows "srv_inv E srv'" and "table_frame srv srv'" and "fo = Some f \<Longrightarrow> f \<in> set (flist srv')"
proof -
  have i: "wf_id (addr_id E a p)" using assms(2) by simp
  obtain inv: "table_inv srv'" and fr: "table_frame srv srv'" and mem: "\<And>f. fo = Some f \<Longrightarrow> f \<in> set (flist srv')"
    using insert_finger_ok [OF srv_invD(1) [OF assms(1)] i assms(4), of p] assms(5) by (metis Inr_inject Pair_inject)
  have "ids_ok E srv'"
    using insert_finger_new_set [OF srv_invD(1) [OF assms(1)] i assms(4,5)] srv_invD(3) [OF assms(1)]
    by (auto simp: ids_ok_def)
  then show "srv_inv E srv'"
    using inv assms(1,3) table_frameD [OF fr] by (simp add: srv_inv_def config_ok_def)
  show "table_frame srv srv'" "fo = Some f \<Longrightarrow> f \<in> set (flist srv')" using fr mem by auto
qed

subsection \<open>Activation\<close>

lemma ring_sorted_map:
  "(\<And>f. f \<in> set fs \<Longrightarrow> f_id (h f) = f_id f) \<Longrightarrow> ring_sorted s (map h fs) = ring_sorted s fs"
  by (induction fs) (auto simp: ring_sorted_def)

lemma passive_count_activate:
  assumes "distinct (map f_id fs)" and "f \<in> set fs"
  shows "passive_count (map (\<lambda>g. if f_id g = f_id f then g\<lparr>f_status := F_ACTIVE\<rparr> else g) fs) =
    passive_count fs - (if is_passive f then 1 else 0)"
  using assms
proof (induction fs)
  case (Cons g fs)
  show ?case
  proof (cases "g = f")
    case True
    then have "map (\<lambda>h. if f_id h = f_id f then h\<lparr>f_status := F_ACTIVE\<rparr> else h) fs = fs"
      using Cons.prems(1) by (intro map_idI) (auto simp: image_iff)
    then show ?thesis using True by (simp add: passive_count_def)
  next
    case False
    then have "f \<in> set fs" "f_id g \<noteq> f_id f" using Cons.prems by force+
    then show ?thesis using Cons by (cases "is_passive f") (simp_all add: passive_count_def)
  qed
qed simp

definition activated :: "ChordServer \<Rightarrow> Finger \<Rightarrow> ChordServer" where
  "activated srv f =
     (let fs = map (\<lambda>g. if f_id g = f_id f then g\<lparr>f_status := F_ACTIVE\<rparr> else g) (flist srv)
      in srv\<lparr>flist := fs, num_passive_fingers := num_passive_fingers srv - (if is_passive f then 1 else 0),
             pred_bound := range_start (s_id srv) fs\<rparr>)"

lemma activated_inv:
  assumes "table_inv srv" and "f \<in> set (flist srv)"
  shows "table_inv (activated srv f)"
proof -
  let ?h = "\<lambda>g. if f_id g = f_id f then g\<lparr>f_status := F_ACTIVE\<rparr> else g"
  have c: "passive_count (map ?h (flist srv)) = passive_count (flist srv) - (if is_passive f then 1 else 0)"
    by (rule passive_count_activate [OF ring_sorted_distinct [OF table_invD(4) [OF assms(1)]] assms(2)])
  show ?thesis
    using assms(1) by (auto simp: table_inv_def activated_def Let_def c ring_sorted_map wf_finger_def)
qed

lemma activate_finger_flist:
  assumes "table_inv srv" and "f \<in> set (flist srv)"
  shows "activate_finger srv f = (activated srv f)\<lparr>pred_bound := pred_bound srv\<rparr>"
proof (cases "is_passive f")
  case True
  then show ?thesis by (simp add: activate_finger_def activated_def upd_finger_def Let_def)
next
  case False
  then have "f\<lparr>f_status := F_ACTIVE\<rparr> = f" by (cases "f_status f") auto
  moreover have "g = f" if "g \<in> set (flist srv)" "f_id g = f_id f" for g
    using table_inv_unique [OF assms(1) that(1) assms(2) that(2)] .
  ultimately have "map (\<lambda>g. if f_id g = f_id f then g\<lparr>f_status := F_ACTIVE\<rparr> else g) (flist srv) = flist srv"
    by (intro map_idI) auto
  then show ?thesis using False by (simp add: activate_finger_def activated_def Let_def)
qed

lemma refreshed_sel [simp]: "f_node (refreshed rtt g) = f_node g" "f_status (refreshed rtt g) = f_status g"
  by (simp_all add: refreshed_def)

lemma refreshed_inv: "table_inv srv \<Longrightarrow> table_inv (upd_finger i (refreshed rtt) srv)"
  by (rule upd_finger_inv) (auto simp: refreshed_def wf_finger_def dest: table_invD(3))

lemma activate_pred_ne:
  assumes "f \<in> set (flist srv)"
  shows "find is_active (rev (flist (activated srv f))) \<noteq> None"
  using assms by (auto simp: activated_def Let_def find_None_iff)

text \<open>The outcome of the second half of \<^verbatim>\<open>process_pong\<close>: the assertion holds and the range follows the predecessor.\<close>

lemma pong_refresh_eq:
  assumes "table_inv srv" and "f \<in> set (flist srv)"
  shows "pong_refresh E srv msg f =
    fbind (update_rtt (f_rtt_avg f) (f_rtt_dev f) (sint (get_current_time E srv - pong_time msg)))
      (\<lambda>rtt. Inr (activated (upd_finger (f_id f) (refreshed rtt) srv) f))"
proof -
  have "pong_activate (upd_finger (f_id f) (refreshed rtt) srv) f =
      Inr (activated (upd_finger (f_id f) (refreshed rtt) srv) f)" for rtt
  proof -
    define srv1 where "srv1 = upd_finger (f_id f) (refreshed rtt) srv"
    define f1 where "f1 = refreshed rtt f"
    have inv: "table_inv srv1" unfolding srv1_def by (rule refreshed_inv [OF assms(1)])
    have f1: "f1 \<in> set (flist srv1)" using assms(2) by (force simp: srv1_def f1_def upd_finger_def)
    have [simp]: "activate_finger srv1 f = activate_finger srv1 f1" "activated srv1 f = activated srv1 f1"
      by (simp_all add: activate_finger_def activated_def f1_def)
    have act: "activate_finger srv1 f1 = (activated srv1 f1)\<lparr>pred_bound := pred_bound srv1\<rparr>"
      by (rule activate_finger_flist [OF inv f1])
    obtain np where np: "find is_active (rev (flist (activated srv1 f1))) = Some np"
      using activate_pred_ne [OF f1] by blast
    have pb: "pred_bound srv1 = range_start (s_id srv1) (flist srv1)" by (rule table_invD(7) [OF inv])
    have ab: "pred_bound (activated srv1 f1) = range_start (s_id srv1) (flist (activated srv1 f1))"
      "s_node (activated srv1 f1) = s_node srv1" by (simp_all add: activated_def Let_def)
    show ?thesis
    proof (cases "map_option f_id (find is_active (rev (flist srv1))) = Some (f_id np)")
      case True
      then have "range_start (s_id srv1) (flist srv1) = pred_bound (activated srv1 f1)"
        using np ab(1) by (auto simp: range_start_def split: option.splits)
      then show ?thesis
        unfolding srv1_def [symmetric] using True np pb by (auto simp: pong_activate_def Let_def act pred_finger_def)
    next
      case False
      have "pred_bound (activated srv1 f1) = f_id np" using np ab(1) by (simp add: range_start_def)
      then show ?thesis
        unfolding srv1_def [symmetric] using False np
        by (simp add: pong_activate_def Let_def act pred_finger_def chord_update_range_def)
    qed
  qed
  then show ?thesis by (simp add: pong_refresh_def Let_def)
qed

lemma activated_srv_inv:
  assumes "srv_inv E srv" and "f \<in> set (flist srv)"
  shows "srv_inv E (activated (upd_finger (f_id f) (refreshed rtt) srv) f)"
proof -
  define srv1 where "srv1 = upd_finger (f_id f) (refreshed rtt) srv"
  have inv: "table_inv srv1" unfolding srv1_def by (rule refreshed_inv [OF srv_invD(1) [OF assms(1)]])
  have f1: "refreshed rtt f \<in> set (flist srv1)" using assms(2) by (force simp: srv1_def upd_finger_def)
  have "table_inv (activated srv1 f)"
    using activated_inv [OF inv f1] by (simp add: activated_def)
  moreover have "ids_ok E (activated srv1 f)"
    using srv_invD(3) [OF assms(1)] by (auto simp: ids_ok_def activated_def srv1_def upd_finger_def Let_def)
  ultimately show ?thesis
    using assms by (auto simp: srv_inv_def config_ok_def srv1_def [symmetric]) (auto simp: activated_def srv1_def upd_finger_def Let_def)
qed

subsection \<open>Every handler preserves the invariant\<close>

definition wf_node :: "env \<Rightarrow> Node \<Rightarrow> bool" where
  "wf_node E n \<longleftrightarrow> wf_addr (n_addr n) \<and> n_id n = addr_id E (n_addr n) (n_port n)"

definition keeps :: "env \<Rightarrow> handled \<Rightarrow> bool" where
  "keeps E r \<longleftrightarrow> returns (\<lambda>(err, srv). srv_inv E srv) r"

lemma insert_finger_keeps:
  assumes "srv_inv E srv" and "sha1_ok E" and "\<not> IN6_IS_ADDR_UNSPECIFIED (s_addr srv)"
    and "wf_addr a" and "i = addr_id E a p"
  shows "returns (\<lambda>(fo, fn, srv1). srv_inv E srv1 \<and> table_frame srv srv1 \<and> (\<forall>f. fo = Some f \<longrightarrow> f \<in> set (flist srv1)))
    (insert_finger srv i a p)"
  using insert_finger_srv_inv [OF assms(1-4), of p] assms(5) by (auto simp: returns_iff)

lemma send_keeps:
  assumes "srv_inv E srv"
  shows "returns (srv_inv E) (send_addr_discover_reply E srv tk a p)"
    "returns (srv_inv E) (send_data E srv l ttl np i n data)" "returns (srv_inv E) (send_fs_forward E srv tk ttl a p b q)"
    "returns (srv_inv E) (send_fs_reply E srv tk a p b q)" "returns (srv_inv E) (send_stab_reply E srv a p b q)"
    "returns (srv_inv E) (send_notify E srv a p)" "returns (srv_inv E) (send_ping E srv a p t)"
    "returns (srv_inv E) (send_pong E srv tk a p t)" "returns (srv_inv E) (send_fs E srv ttl a p b q)"
    "returns (srv_inv E) (send_stab E srv a p b q)" "returns (srv_inv E) (send_addr_discover E srv a p)"
  using assms sent_srv_inv [OF send_sent(1)] sent_srv_inv [OF send_sent(2)] sent_srv_inv [OF send_sent(3)]
    sent_srv_inv [OF send_sent(4)] sent_srv_inv [OF send_sent(5)] sent_srv_inv [OF send_sent(6)] sent_srv_inv [OF send_sent(7)]
    sent_srv_inv [OF send_sent(8)] sent_srv_inv [OF send_sent(9)] sent_srv_inv [OF send_sent(10)] sent_srv_inv [OF send_sent(11)]
  by (simp_all add: returns_iff)

lemma finish_keeps: "returns (srv_inv E) m \<Longrightarrow> keeps E (fbind m (\<lambda>srv. Inr (err, srv)))"
  unfolding keeps_def returns_bind by (rule returns_mono) simp_all

lemma keeps_simps [simp]: "keeps E (Inr (err, srv)) = srv_inv E srv" "keeps E (Inl e)"
  by (simp_all add: keeps_def)

lemma keeps_if: "(b \<Longrightarrow> keeps E x) \<Longrightarrow> (\<not> b \<Longrightarrow> keeps E y) \<Longrightarrow> keeps E (if b then x else y)"
  by simp

lemma keeps_bind: "returns Q m \<Longrightarrow> (\<And>a. Q a \<Longrightarrow> keeps E (f a)) \<Longrightarrow> keeps E (fbind m f)"
  unfolding keeps_def by (rule returns_bindI)

lemma keeps_verify: "(\<And>v. keeps E (f v)) \<Longrightarrow> keeps E (fbind (verify_ticket E srv tk fmt args) f)"
  unfolding keeps_def by (rule returns_bind_any)

lemma keeps_memcpy: "(\<And>bs. length bs = n \<Longrightarrow> keeps E (f bs)) \<Longrightarrow> keeps E (fbind (memcpy src n) f)"
  by (rule keeps_bind [OF returns_memcpy]) simp

lemma keeps_addr_set: "(\<And>a. wf_addr a \<Longrightarrow> keeps E (f a)) \<Longrightarrow> keeps E (fbind (v6_addr_set src) f)"
  unfolding v6_addr_set_def by (rule keeps_memcpy) (simp add: wf_addr_def)

lemma keeps_option:
  "(x = None \<Longrightarrow> keeps E n) \<Longrightarrow> (\<And>y. x = Some y \<Longrightarrow> keeps E (s y)) \<Longrightarrow>
   keeps E (case x of None \<Rightarrow> n | Some y \<Rightarrow> s y)"
  by (cases x) simp_all

lemma ping_new_keeps: "srv_inv E srv \<Longrightarrow> returns (srv_inv E) (if b then send_ping E srv a p t else Inr srv)"
  by (simp add: send_keeps)

lemmas keeps_send = finish_keeps [OF send_keeps(1)] finish_keeps [OF send_keeps(2)] finish_keeps [OF send_keeps(3)]
  finish_keeps [OF send_keeps(4)] finish_keeps [OF send_keeps(8)] finish_keeps [OF ping_new_keeps]

lemma process_addr_discover_keeps: "srv_inv E srv \<Longrightarrow> keeps E (process_addr_discover E srv msg from)"
  by (simp add: process_addr_discover_def keeps_send)

lemma process_addr_discover_reply_keeps:
  assumes "srv_inv E srv" and "sha1_ok E"
  shows "keeps E (process_addr_discover_reply E srv msg from)"
proof -
  have "srv_inv E (srv\<lparr>s_node := (s_node srv)\<lparr>n_addr := a, n_id := addr_id E a (s_port srv)\<rparr>,
       pred_bound := addr_id E a (s_port srv), discover_addr_event := False, stab_event := True\<rparr>)"
    if "wf_addr a" "IN6_IS_ADDR_UNSPECIFIED (s_addr srv)" for a
    using assms that by (simp add: srv_inv_def table_inv_def config_ok_def ids_ok_def ring_sorted_def range_start_def passive_count_def)
  then show ?thesis
    unfolding process_addr_discover_reply_def using assms(1)
    by (intro keeps_verify keeps_if keeps_addr_set) (auto simp: chord_update_range_def Let_def)
qed

lemma process_data_keeps: "srv_inv E srv \<Longrightarrow> keeps E (process_data E srv msg from)"
  unfolding process_data_def Let_def by (intro keeps_memcpy keeps_if) (auto simp: keeps_send split: prod.splits)

lemma process_fs_keeps: "srv_inv E srv \<Longrightarrow> keeps E (process_fs E srv msg from)"
  unfolding process_fs_def Let_def
  by (intro keeps_addr_set keeps_if) (auto simp: send_keeps intro!: keeps_if finish_keeps returns_option returns_if)

lemma process_fs_reply_keeps:
  assumes "srv_inv E srv" and "sha1_ok E"
  shows "keeps E (process_fs_reply E srv msg from)"
  unfolding process_fs_reply_def using assms
  by (intro keeps_if keeps_memcpy)
    (auto simp: wf_addr_def keeps_send intro!: keeps_verify keeps_if keeps_bind [OF insert_finger_keeps] keeps_bind [OF returns_read_var])

lemma process_stab_keeps:
  assumes "srv_inv E srv" and "sha1_ok E"
  shows "keeps E (process_stab E srv msg from)"
  unfolding process_stab_def Let_def using assms
  by (intro keeps_if keeps_memcpy)
    (auto simp: wf_addr_def send_keeps intro!: keeps_bind [OF insert_finger_keeps] finish_keeps returns_option returns_bind_any)

lemma process_stab_reply_keeps:
  assumes "srv_inv E srv" and "sha1_ok E"
  shows "keeps E (process_stab_reply E srv msg from)"
  unfolding process_stab_reply_def using assms
  by (intro keeps_if keeps_memcpy)
    (auto simp: wf_addr_def keeps_send
      intro!: keeps_bind [OF insert_finger_keeps] keeps_bind [OF returns_deref] keeps_bind [OF send_keeps(6)] keeps_bind [OF returns_read_var])

lemma process_notify_keeps:
  assumes "srv_inv E srv" and "sha1_ok E" and "wf_node E from"
  shows "keeps E (process_notify E srv msg from)"
  unfolding process_notify_def using assms
  by (auto simp: wf_node_def keeps_send intro!: keeps_if keeps_bind [OF insert_finger_keeps] keeps_bind [OF returns_read_var])

lemma process_ping_keeps:
  assumes "srv_inv E srv" and "sha1_ok E" and "wf_node E from"
  shows "keeps E (process_ping E srv msg from)"
  unfolding process_ping_def Let_def using assms
  by (auto simp: wf_node_def intro!: keeps_if keeps_bind [OF insert_finger_keeps] keeps_bind [OF returns_read_var]
      keeps_bind [OF ping_new_keeps] keeps_send)

lemma pong_refresh_keeps:
  assumes "srv_inv E srv" and "f \<in> set (flist srv)"
  shows "returns (srv_inv E) (pong_refresh E srv msg f)"
  unfolding pong_refresh_eq [OF srv_invD(1) [OF assms(1)] assms(2)]
  by (rule returns_bind_any) (simp add: activated_srv_inv [OF assms])

lemma process_pong_keeps:
  assumes "srv_inv E srv" and "sha1_ok E" and "wf_node E from"
  shows "keeps E (process_pong E srv msg from)"
  unfolding process_pong_def using assms
  by (auto simp: wf_node_def intro!: keeps_if keeps_verify keeps_bind [OF insert_finger_keeps] keeps_option
      finish_keeps [OF pong_refresh_keeps])

subsection \<open>Concrete servers\<close>

definition demo_peer :: "byte \<Rightarrow> Node" where
  "demo_peer b = \<lparr>n_id = addr_id demo_env (demo_addr b) 4000, n_addr = demo_addr b, n_port = 4000\<rparr>"

definition demo_peer_finger :: "byte \<Rightarrow> finger_status \<Rightarrow> Finger" where
  "demo_peer_finger b st = \<lparr>f_node = demo_peer b, f_status = st, f_npings = 1, f_rtt_avg = 0, f_rtt_dev = 0\<rparr>"

text \<open>A server that knows nobody, and one with an active and a passive finger.\<close>

definition lone_srv :: ChordServer where
  "lone_srv = demo_srv\<lparr>s_node := demo_peer 1, pred_bound := n_id (demo_peer 1)\<rparr>"

definition ring_srv :: ChordServer where
  "ring_srv = lone_srv\<lparr>flist := [demo_peer_finger 2 F_ACTIVE, demo_peer_finger 3 F_PASSIVE], num_passive_fingers := 1,
     pred_bound := n_id (demo_peer 2)\<rparr>"

lemma demo_peer_sel [simp]:
  "n_addr (demo_peer b) = demo_addr b" "n_port (demo_peer b) = 4000"
  "n_id (demo_peer b) = addr_id demo_env (demo_addr b) 4000"
  "f_node (demo_peer_finger b st) = demo_peer b" "f_status (demo_peer_finger b st) = st"
  "f_npings (demo_peer_finger b st) = 1" "f_rtt_avg (demo_peer_finger b st) = 0" "f_rtt_dev (demo_peer_finger b st) = 0"
  by (simp_all add: demo_peer_def demo_peer_finger_def)

lemma demo_peer_wf [simp]: "wf_node demo_env (demo_peer b)" "wf_finger (demo_peer_finger b st)"
  by (simp_all add: wf_node_def wf_finger_def)

lemma demo_srv_more_sel [simp]:
  "s_node lone_srv = demo_peer 1" "flist lone_srv = []" "outbox lone_srv = []" "send_func lone_srv = Send_raw_v4"
  "s_node ring_srv = demo_peer 1" "flist ring_srv = [demo_peer_finger 2 F_ACTIVE, demo_peer_finger 3 F_PASSIVE]"
  "outbox ring_srv = []" "send_func ring_srv = Send_raw_v4" "pred_bound ring_srv = n_id (demo_peer 2)"
  "num_passive_fingers ring_srv = 1" "pred_bound lone_srv = n_id (demo_peer 1)" "num_passive_fingers lone_srv = 0"
  by (simp_all add: lone_srv_def ring_srv_def demo_srv_def)

lemma demo_crypto [simp]: "config_ok lone_srv" "config_ok ring_srv"
  by (simp_all add: config_ok_def lone_srv_def ring_srv_def demo_srv_def)

lemma demo_addr_specified [simp]: "\<not> IN6_IS_ADDR_UNSPECIFIED (demo_addr b)" "V4_MAPPED (demo_addr b)"
proof -
  have n: "demo_addr b ! 10 = 255" "demo_addr b ! 11 = 255" "take 10 (demo_addr b) = replicate 10 0"
    by (simp_all add: demo_addr_def nth_append)
  have "(replicate 16 0 :: byte list) ! 10 = 0" by simp
  then show "\<not> IN6_IS_ADDR_UNSPECIFIED (demo_addr b)" using n(1) unfolding IN6_IS_ADDR_UNSPECIFIED_def by force
  show "V4_MAPPED (demo_addr b)" using n by (simp add: V4_MAPPED_def)
qed

lemma length_demo_addr [simp]: "length (demo_addr b) = 16"
  by (simp add: demo_addr_def)

lemma demo_can_send [simp]: "can_send lone_srv (demo_addr b)" "can_send ring_srv (demo_addr b)"
  by (simp_all add: can_send_def)

lemma demo_peer_id: "addr_id demo_env (demo_addr b) 4000 = replicate 10 0 @ [255, 255, 10, 0, 0, b, 15, 160, 18, 18]"
proof -
  have u: "[0..<2] = [0, Suc 0]" by (simp add: numeral_2_eq_2)
  have b: "le_bytes 2 (4000 :: ushort) = [160, 15]" by (simp add: le_bytes_def u)
  have "htons 4000 = 40975" by (simp add: htons_def le_word_def b)
  moreover have "le_bytes 2 (40975 :: ushort) = [15, 160]" by (simp add: le_bytes_def u)
  ultimately have "le_bytes 2 (htons 4000) = [15, 160]" by simp
  moreover have "replicate 2 18 = [18 :: byte, 18]" by (simp add: numeral_2_eq_2)
  ultimately show ?thesis by (simp add: addr_id_def demo_sha1_def demo_addr_def)
qed

lemma demo_peers_order: "id_is_between (n_id (demo_peer 2)) (n_id (demo_peer 1)) (n_id (demo_peer 3))"
  unfolding demo_peer_sel demo_peer_id by code_simp

lemma lone_srv_inv [simp]: "srv_inv demo_env lone_srv"
  by (simp add: srv_inv_def table_inv_def ids_ok_def ring_sorted_def passive_count_def range_start_def)

lemma ring_srv_inv [simp]: "srv_inv demo_env ring_srv"
proof -
  have "ring_off (n_id (demo_peer 1)) (n_id (demo_peer 2)) < ring_off (n_id (demo_peer 1)) (n_id (demo_peer 3))"
    using demo_peers_order by (simp add: id_is_between_off)
  then show ?thesis
    by (simp add: srv_inv_def table_inv_def ids_ok_def ring_sorted_def passive_count_def range_start_def)
qed

subsection \<open>Properties of the handlers\<close>

lemma next_route_node_step:
  assumes "table_inv srv" and "wf_id ident" and "succ_finger srv = Some sf"
  shows "\<exists>f \<in> set (flist srv). is_active f \<and> fst (next_route_node srv ident False) = f_node f \<and>
    (if ring_off (s_id srv) ident \<le> ring_off (s_id srv) (f_id sf)
     then f = sf \<and> snd (next_route_node srv ident False)
     else \<not> snd (next_route_node srv ident False) \<and> id_is_between (f_id f) (s_id srv) ident \<and>
       (\<forall>g \<in> set (flist srv). is_active g \<and> id_is_between (f_id g) (s_id srv) ident \<longrightarrow>
          ring_off (s_id srv) (f_id g) \<le> ring_off (s_id srv) (f_id f)))"
proof -
  have sf: "sf \<in> set (flist srv)" "is_active sf" using assms(3) by (auto simp: succ_finger_def dest: find_Some_in)
  have wf: "wf_id (s_id srv)" "wf_id (f_id sf)"
    using table_invD(1) [OF assms(1)] wf_fingerD(1) [OF table_invD(3) [OF assms(1) sf(1)]] by auto
  have in_succ: "id_is_between ident (s_id srv) (f_id sf) \<or> id_equals ident (f_id sf) \<longleftrightarrow>
      ring_off (s_id srv) ident \<le> ring_off (s_id srv) (f_id sf)"
    using ring_off_inject [OF wf(1) assms(2) wf(2)] wf assms(2) by (auto simp: id_is_between_off id_equals_iff)
  show ?thesis
  proof (cases "ring_off (s_id srv) ident \<le> ring_off (s_id srv) (f_id sf)")
    case True
    then show ?thesis using in_succ assms(3) sf by (intro bexI [of _ sf]) (simp_all add: next_route_node_def)
  next
    case False
    then have "id_is_between (f_id sf) (s_id srv) ident" using wf assms(2) by (simp add: id_is_between_off)
    then obtain f where f: "closest_preceding_finger srv ident False = Some f"
      using sf by (cases "closest_preceding_finger srv ident False") (auto simp: closest_preceding_finger_def find_None_iff)
    then have "f \<in> set (flist srv)" "is_active f" "id_is_between (f_id f) (s_id srv) ident"
      "\<forall>g \<in> set (flist srv). is_active g \<and> id_is_between (f_id g) (s_id srv) ident \<longrightarrow>
          ring_off (s_id srv) (f_id g) \<le> ring_off (s_id srv) (f_id f)"
      using ring.find_greatest [of "s_id srv" "flist srv" "\<lambda>g. is_active g \<and> id_is_between (f_id g) (s_id srv) ident" f]
        table_invD(4) [OF assms(1)]
      by (simp_all add: closest_preceding_finger_def ring_sorted_def)
    moreover have "next_route_node srv ident False = (f_node f, False)"
      using False in_succ assms(3) f by (simp add: next_route_node_def closest_preceding_node_def)
    ultimately show ?thesis using False by (intro bexI [of _ f]) simp_all
  qed
qed

lemma no_active_fingers:
  assumes "succ_finger srv = None"
  shows "pred_finger srv = None" "closest_preceding_node srv ident False = s_node srv"
proof -
  have "\<forall>f \<in> set (flist srv). \<not> is_active f" using assms by (auto simp: succ_finger_def find_None_iff)
  then show "pred_finger srv = None" "closest_preceding_node srv ident False = s_node srv"
    by (auto simp: pred_finger_def closest_preceding_node_def closest_preceding_finger_def find_None_iff split: option.splits dest!: find_rev_Some_in)
qed

text \<open>
  C16. The routing decision on every branch, on a well-formed table. A packet that was sent here as its last hop goes to the predecessor, again as a last hop. Otherwise it
  goes to the successor, flagged as the last hop, when the identifier lies in the half-open interval from this node to it, or else to an active finger strictly between this node and the identifier, the
  farthest such finger: progress. Only a server without an active finger names itself as the next node.
\<close>

theorem next_route_node_progress:
  assumes "table_inv srv" and "wf_id ident"
  shows "case succ_finger srv of
      None \<Rightarrow> next_route_node srv ident is_last = (s_node srv, False)
    | Some sf \<Rightarrow> \<exists>f \<in> set (flist srv). is_active f \<and> fst (next_route_node srv ident is_last) = f_node f \<and>
        (if is_last then Some f = pred_finger srv \<and> snd (next_route_node srv ident is_last)
         else if ring_off (s_id srv) ident \<le> ring_off (s_id srv) (f_id sf)
         then f = sf \<and> snd (next_route_node srv ident is_last)
         else \<not> snd (next_route_node srv ident is_last) \<and> id_is_between (f_id f) (s_id srv) ident \<and>
           (\<forall>g \<in> set (flist srv). is_active g \<and> id_is_between (f_id g) (s_id srv) ident \<longrightarrow>
              ring_off (s_id srv) (f_id g) \<le> ring_off (s_id srv) (f_id f)))"
proof (cases "succ_finger srv")
  case None
  then show ?thesis using no_active_fingers [OF None] by (simp add: next_route_node_def)
next
  case (Some sf)
  show ?thesis
  proof (cases is_last)
    case True
    have "sf \<in> set (flist srv)" "is_active sf" using Some by (auto simp: succ_finger_def dest: find_Some_in)
    then obtain pf where pf: "pred_finger srv = Some pf" by (cases "pred_finger srv") (auto simp: pred_finger_def find_None_iff)
    then have "pf \<in> set (flist srv)" "is_active pf" by (auto simp: pred_finger_def dest: find_rev_Some_in)
    then show ?thesis using True Some pf by (auto simp: next_route_node_def intro!: bexI [of _ pf])
  next
    case False
    then have l: "is_last = False" by simp
    show ?thesis unfolding l Some option.case if_False by (rule next_route_node_step [OF assms Some])
  qed
qed

lemma next_route_node_progress_witness:
  "(\<exists>f \<in> set (flist ring_srv). is_active f \<and> fst (next_route_node ring_srv (demo_id 64) True) = f_node f \<and> Some f = pred_finger ring_srv \<and>
     snd (next_route_node ring_srv (demo_id 64) True)) \<and>
   next_route_node lone_srv (demo_id 64) False = (s_node lone_srv, False)"
  using next_route_node_progress [OF srv_invD(1) [OF ring_srv_inv], of "demo_id 64" True] next_route_node_progress [of lone_srv "demo_id 64" False]
  by (simp add: succ_finger_def table_inv_def ring_sorted_def passive_count_def range_start_def)

lemma process_data_step:
  assumes "env_ok E" and "length (dat_id msg) = 20" and "\<not> IN6_IS_ADDR_UNSPECIFIED (s_addr srv)"
    and "2 \<le> dat_ttl msg" and "dat_ttl msg \<le> 256" and "\<not> chord_id_is_local srv (dat_id msg)"
    and "length (dat_data msg) \<le> 65000" and "next_route_node srv (dat_id msg) (dat_last msg) = (np, is_last)"
    and "can_send srv (n_addr np)"
  shows "process_data E srv msg from = Inr (CHORD_NO_ERROR, post E srv (n_addr np) (n_port np) CHORD_DATA
    (M_Data \<lparr>dat_id = dat_id msg, dat_has_ttl = True, dat_ttl = dat_ttl msg - 1, dat_has_last = True,
       dat_last = is_last, dat_data = dat_data msg\<rparr>))"
proof -
  have "unat (dat_ttl msg - 1) = unat (dat_ttl msg) - 1"
    using assms(4) by (intro unat_minus_one) auto
  moreover have "2 \<le> unat (dat_ttl msg)" "unat (dat_ttl msg) \<le> 256"
    using assms(4,5) by (simp_all add: word_le_nat_alt)
  ultimately have t: "1 \<le> unat (dat_ttl msg - 1)" "unat (dat_ttl msg - 1) \<le> 255" by simp_all
  then have nz: "dat_ttl msg - 1 \<noteq> 0" by auto
  have ttl_back: "(ucast (ucast (dat_ttl msg - 1) :: byte) :: uint32) = dat_ttl msg - 1"
    using t(2) by (intro ucast_byte_back) simp
  have len: "unat (word_of_nat (length (dat_data msg)) :: ushort) = length (dat_data msg)"
    using assms(7) by (simp add: unat_of_nat take_bit_eq_mod)
  show ?thesis
    using assms nz ttl_back send_data_total [OF assms(1), of "dat_id msg" "word_of_nat (length (dat_data msg))" "dat_data msg" srv np]
    by (simp add: process_data_def wf_id_def len)
qed

text \<open>
  A forwarded data packet. When a well-formed server is not responsible for the identifier
  and the time to live is between 2 and 256, exactly one packet leaves: the same identifier and
  data, to the next hop, with the time to live one less and the last-hop flag of the routing decision.
\<close>

theorem process_data_forwards:
  assumes "env_ok E" and "length (dat_id msg) = 20" and "\<not> IN6_IS_ADDR_UNSPECIFIED (s_addr srv)"
    and "2 \<le> dat_ttl msg" and "dat_ttl msg \<le> 256" and "\<not> chord_id_is_local srv (dat_id msg)"
    and "length (dat_data msg) \<le> 65000" and "next_route_node srv (dat_id msg) (dat_last msg) = (np, is_last)"
    and "can_send srv (n_addr np)"
  shows "process_data E srv msg from = Inr (CHORD_NO_ERROR, post E srv (n_addr np) (n_port np) CHORD_DATA
    (M_Data \<lparr>dat_id = dat_id msg, dat_has_ttl = True, dat_ttl = dat_ttl msg - 1, dat_has_last = True,
       dat_last = is_last, dat_data = dat_data msg\<rparr>))"
  using assms by (rule process_data_step)

text \<open>The identifier of peer 2 as seen from \<open>ring_srv\<close>: not local, and owned by the successor.\<close>

lemma ring_srv_peer2:
  "chord_id_is_local ring_srv (n_id (demo_peer 2)) = False"
  "next_route_node ring_srv (n_id (demo_peer 2)) False = (demo_peer 2, True)"
proof -
  have e: "id_equals (n_id (demo_peer 2)) (n_id (demo_peer 1)) = False" "id_equals (n_id (demo_peer 2)) (n_id (demo_peer 2)) = True"
    "id_is_between (n_id (demo_peer 2)) (n_id (demo_peer 2)) (n_id (demo_peer 1)) = False"
    unfolding demo_peer_sel demo_peer_id by code_simp+
  show "chord_id_is_local ring_srv (n_id (demo_peer 2)) = False" using e by (simp add: chord_id_is_local_def)
  show "next_route_node ring_srv (n_id (demo_peer 2)) False = (demo_peer 2, True)"
    using e by (simp add: next_route_node_def succ_finger_def)
qed

definition demo_data :: Data where
  "demo_data = \<lparr>dat_id = n_id (demo_peer 2), dat_has_ttl = True, dat_ttl = 2, dat_has_last = True, dat_last = False, dat_data = [1, 2, 3]\<rparr>"

lemma process_data_forwards_witness:
  "process_data demo_env ring_srv demo_data (demo_peer 7) =
    Inr (CHORD_NO_ERROR, post demo_env ring_srv (n_addr (demo_peer 2)) (n_port (demo_peer 2)) CHORD_DATA
      (M_Data \<lparr>dat_id = dat_id demo_data, dat_has_ttl = True, dat_ttl = dat_ttl demo_data - 1, dat_has_last = True, dat_last = True,
         dat_data = dat_data demo_data\<rparr>))"
  by (rule process_data_forwards) (use ring_srv_peer2 in \<open>simp_all add: demo_data_def\<close>, simp_all add: demo_peer_id)

text \<open>
  C26. The bug in \<^verbatim>\<open>process_stab_reply\<close>: a server that knows its address but has no active finger is brought down
  by one unsolicited \<^verbatim>\<open>STAB_REPLY\<close> that carries any other address: the missing successor is
  dereferenced. No ticket protects this message.
\<close>

theorem process_stab_reply_null_successor:
  assumes "srv_inv E srv" and "sha1_ok E" and "\<not> IN6_IS_ADDR_UNSPECIFIED (s_addr srv)" and "active_ids srv = []"
    and "length (stabr_addr msg) = 16" and "stabr_addr msg \<noteq> s_addr srv"
  shows "process_stab_reply E srv msg from = Inl Null_deref"
proof -
  let ?a = "stabr_addr msg" and ?p = "ucast (stabr_port msg) :: ushort"
  have a: "wf_addr ?a" "wf_id (addr_id E ?a ?p)" using assms(2,5) by (simp_all add: wf_addr_def)
  obtain fo fn srv' where ins: "insert_finger srv (addr_id E ?a ?p) ?a ?p = Inr (fo, fn, srv')"
    using insert_finger_ok [OF srv_invD(1) [OF assms(1)] a(2,1), of ?p] by metis
  then have "active_ids srv' = []"
    using insert_finger_active_ids [OF srv_invD(1) [OF assms(1)] a(2,1)] assms(4) by simp
  then have "succ_finger srv' = None" using succ_finger_active_ids [of srv'] by simp
  moreover have "\<not> v6_addr_equals (s_addr srv) ?a"
    using a(1) table_invD(2) [OF srv_invD(1) [OF assms(1)]] assms(6) by (auto simp: v6_addr_equals_iff)
  ultimately show ?thesis using assms(3,5) ins by (simp add: process_stab_reply_def)
qed

lemma process_stab_reply_null_successor_witness:
  "process_stab_reply demo_env lone_srv \<lparr>stabr_addr = demo_addr 9, stabr_port = 4000\<rparr> (demo_peer 9) = Inl Null_deref"
  by (rule process_stab_reply_null_successor) (simp_all add: active_ids_def)

text \<open>
  A server learns its own address once. On an authentic \<^verbatim>\<open>ADDR_DISCOVER_REPLY\<close> a server without an address takes the
  reported one, derives its identifier from it, becomes responsible for the whole ring, stops the discovery timer
  and starts the stabilization timer; a server that has an address ignores the report.
\<close>

theorem addr_discover_reply_once:
  assumes "16 \<le> length (adr_addr adr)"
    and "verify_ticket E srv (adr_ticket adr) ''c6s'' [VA_int (packet_num CHORD_ADDR_DISCOVER), VA_addr (n_addr from),
        VA_int (uint (n_port from))] = Inr True"
  shows "process_addr_discover_reply E srv adr from = Inr (CHORD_NO_ERROR,
    if IN6_IS_ADDR_UNSPECIFIED (s_addr srv) then
      (let a = take 16 (adr_addr adr); i = addr_id E a (s_port srv)
       in srv\<lparr>s_node := \<lparr>n_id = i, n_addr = a, n_port = s_port srv\<rparr>, pred_bound := i,
              discover_addr_event := False, stab_event := True\<rparr>)
    else srv)"
  using assms by (cases "s_node srv")
    (simp add: process_addr_discover_reply_def v6_addr_set_def memcpy_def chord_update_range_def Let_def)

text \<open>A server that does not know its address yet.\<close>

definition new_srv :: ChordServer where
  "new_srv = lone_srv\<lparr>s_node := \<lparr>n_id = replicate 20 0, n_addr = replicate 16 0, n_port = 4000\<rparr>, pred_bound := replicate 20 0\<rparr>"

definition same_key :: "ChordServer \<Rightarrow> ChordServer \<Rightarrow> bool" where
  "same_key srv srv' \<longleftrightarrow> ticket_salt srv' = ticket_salt srv \<and> ticket_salt_len srv' = ticket_salt_len srv \<and>
     ticket_hash_len srv' = ticket_hash_len srv"

lemma issued_ticket_verifies:
  assumes "codec_ok E" and "sha1_ok E" and "config_ok srv" and "same_key srv srv'"
    and "vpack_hash E [] fmt args = Inr params"
    and "0 \<le> time_pack E (length (outbox srv))" and "time_pack E (length (outbox srv)) < 2 ^ 32"
    and "time_verify E (length (outbox srv')) \<le> time_pack E (length (outbox srv)) + TICKET_TIMEOUT"
  shows "verify_ticket E srv' (ticket_for E srv params) fmt args = Inr True"
proof -
  let ?w = "word_of_int (time_pack E (length (outbox srv))) :: uint32"
  let ?t = "\<lparr>tkt_time = ?w, tkt_hash = take (ticket_hash_len srv) (ticket_digest E (ticket_salt srv) ?w params)\<rparr>"
  have "pb_unpack E ticket__descriptor (ticket_for E srv params) = Some (M_Ticket ?t)"
    using codec_roundtrip [OF assms(1), of "M_Ticket ?t"] by (simp add: ticket_for_def Let_def)
  moreover have "uint ?w = time_pack E (length (outbox srv))"
    using assms(6,7) by (simp add: uint_word_of_int)
  ultimately show ?thesis
    unfolding verify_ticket_def
    using assms(3,4,8) by (subst verify_ticket_Inr_True [OF _ _ assms(2,5)]) (auto simp: config_ok_def same_key_def)
qed

lemma new_srv_sel [simp]: "s_node new_srv = \<lparr>n_id = replicate 20 0, n_addr = replicate 16 0, n_port = 4000\<rparr>"
  "flist new_srv = []" "outbox new_srv = []"
  by (simp_all add: new_srv_def)

lemma demo_same_key [simp]: "same_key ring_srv ring_srv" "same_key new_srv new_srv" "config_ok new_srv"
  by (simp_all add: same_key_def config_ok_def new_srv_def lone_srv_def demo_srv_def)

definition demo_adr :: AddrDiscoverReply where
  "demo_adr = \<lparr>adr_has_ticket = True, adr_ticket = ticket_for demo_env new_srv (discover_params (demo_addr 2) 4000),
    adr_addr = demo_addr 1\<rparr>"

lemma addr_discover_reply_once_witness:
  "process_addr_discover_reply demo_env new_srv demo_adr (demo_peer 2) = Inr (CHORD_NO_ERROR,
    if IN6_IS_ADDR_UNSPECIFIED (s_addr new_srv) then
      (let a = take 16 (adr_addr demo_adr); i = addr_id demo_env a (s_port new_srv)
       in new_srv\<lparr>s_node := \<lparr>n_id = i, n_addr = a, n_port = s_port new_srv\<rparr>, pred_bound := i,
              discover_addr_event := False, stab_event := True\<rparr>)
    else new_srv)"
proof (rule addr_discover_reply_once)
  show "verify_ticket demo_env new_srv (adr_ticket demo_adr) ''c6s'' [VA_int (packet_num CHORD_ADDR_DISCOVER), VA_addr (n_addr (demo_peer 2)),
        VA_int (uint (n_port (demo_peer 2)))] = Inr True"
    unfolding demo_adr_def AddrDiscoverReply.simps by (rule issued_ticket_verifies) (simp_all add: discover_params_def)
qed (simp add: demo_adr_def)

subsection \<open>A pong activates its sender\<close>

lemma update_rtt_total:
  assumes "avg = 0 \<or> 0 < avg \<and> avg < 2 ^ 62 \<and> 0 \<le> dev \<and> dev < 2 ^ 62" and "0 \<le> new" and "new < 2 ^ 62"
  shows "\<exists>rtt. update_rtt avg dev new = Inr rtt"
  using assms update_rtt_eq [of avg dev new] by (cases "avg = 0") (auto simp: update_rtt_def)

lemma insert_finger_rtt:
  assumes "table_inv srv" and "wf_id i" and "wf_addr a" and "insert_finger srv i a p = Inr (Some f, fn, srv')"
  shows "f \<in> set (flist srv) \<or> f_rtt_avg f = 0"
  using assms(1-3)
proof (cases rule: insert_finger_cases [where p = p])
  case (known g n)
  then show ?thesis using assms(4) get_finger_Some [OF known(2) assms(1,2)] by auto
qed (use assms(4) in \<open>auto simp: new_finger_def\<close>)

definition rtts_ok :: "ChordServer \<Rightarrow> bool" where
  "rtts_ok srv \<longleftrightarrow> (\<forall>f \<in> set (flist srv). f_rtt_avg f = 0 \<or>
     0 < f_rtt_avg f \<and> f_rtt_avg f < 2 ^ 62 \<and> 0 \<le> f_rtt_dev f \<and> f_rtt_dev f < 2 ^ 62)"

lemma activated_finger_at:
  assumes "table_inv srv" and "f \<in> set (flist srv)"
  shows "finger_at (activated (upd_finger (f_id f) (refreshed rtt) srv) f) (f_id f) = Some ((refreshed rtt f)\<lparr>f_status := F_ACTIVE\<rparr>)"
proof -
  have inv: "table_inv (upd_finger (f_id f) (refreshed rtt) srv)" by (rule refreshed_inv [OF assms(1)])
  have mem: "refreshed rtt f \<in> set (flist (upd_finger (f_id f) (refreshed rtt) srv))"
    using assms(2) by (force simp: upd_finger_def)
  have eq: "activated (upd_finger (f_id f) (refreshed rtt) srv) f =
      activated (upd_finger (f_id f) (refreshed rtt) srv) (refreshed rtt f)"
    by (simp add: activated_def)
  have "(refreshed rtt f)\<lparr>f_status := F_ACTIVE\<rparr> \<in>
      set (flist (activated (upd_finger (f_id f) (refreshed rtt) srv) (refreshed rtt f)))"
    using mem by (force simp: activated_def Let_def)
  then show ?thesis unfolding eq finger_at_eq [OF activated_inv [OF inv mem]] by simp
qed

lemma process_pong_accepts:
  assumes "srv_inv E srv" and "sha1_ok E" and "wf_node E from" and "\<not> IN6_IS_ADDR_UNSPECIFIED (s_addr srv)"
    and "\<not> (n_addr from = s_addr srv \<and> n_port from = s_port srv)" and "rtts_ok srv"
    and "0 \<le> sint (get_current_time E srv - pong_time msg)" and "sint (get_current_time E srv - pong_time msg) < 2 ^ 62"
    and "verify_ticket E srv (pong_ticket msg) ''c6sl'' [VA_int (packet_num CHORD_PING), VA_addr (n_addr from),
        VA_int (uint (n_port from)), VA_ulong (pong_time msg)] = Inr True"
  obtains srv' f where "process_pong E srv msg from = Inr (CHORD_NO_ERROR, srv')" "srv_inv E srv'"
    "finger_at srv' (n_id from) = Some f" "is_active f" "f_npings f = 0" "f_addr f = n_addr from" "outbox srv' = outbox srv"
proof -
  have sender: "wf_addr (n_addr from)" "wf_id (n_id from)" "n_id from = addr_id E (n_addr from) (n_port from)"
    using assms(2,3) by (simp_all add: wf_node_def)
  obtain fo fn srv1 where ins: "insert_finger srv (n_id from) (n_addr from) (n_port from) = Inr (fo, fn, srv1)"
      "table_inv srv1" "table_frame srv srv1" "fo \<noteq> None"
      "\<And>f. fo = Some f \<Longrightarrow> f \<in> set (flist srv1) \<and> f_id f = n_id from \<and> f_addr f = n_addr from"
    using insert_finger_ok [OF srv_invD(1) [OF assms(1)] sender(2,1), of "n_port from"] assms(5) by metis
  then obtain f where f: "fo = Some f" "f \<in> set (flist srv1)" "f_id f = n_id from" "f_addr f = n_addr from" by blast
  have inv1: "srv_inv E srv1" using insert_finger_srv_inv(1) [OF assms(1,2,4) sender(1)] ins(1) sender(3) by metis
  have time: "get_current_time E srv1 = get_current_time E srv"
    using table_frameD [OF ins(3)] by (simp add: get_current_time_def)
  have "f_rtt_avg f = 0 \<or> 0 < f_rtt_avg f \<and> f_rtt_avg f < 2 ^ 62 \<and> 0 \<le> f_rtt_dev f \<and> f_rtt_dev f < 2 ^ 62"
    using insert_finger_rtt [OF srv_invD(1) [OF assms(1)] sender(2,1) ins(1) [unfolded f(1)]] assms(6)
    by (auto simp: rtts_ok_def)
  then obtain rtt where rtt: "update_rtt (f_rtt_avg f) (f_rtt_dev f) (sint (get_current_time E srv1 - pong_time msg)) = Inr rtt"
    using update_rtt_total assms(7,8) time by metis
  let ?srv' = "activated (upd_finger (f_id f) (refreshed rtt) srv1) f"
  have "process_pong E srv msg from = Inr (CHORD_NO_ERROR, ?srv')"
    using assms(4,9) ins(1) f(1) pong_refresh_eq [OF ins(2) f(2), of E msg] rtt by (simp add: process_pong_def)
  moreover have "outbox ?srv' = outbox srv"
    using table_frameD [OF ins(3)] by (simp add: activated_def upd_finger_def Let_def)
  ultimately show ?thesis
    using activated_srv_inv [OF inv1 f(2)] activated_finger_at [OF ins(2) f(2), of rtt] f(3,4)
    by (intro that [of ?srv' "(refreshed rtt f)\<lparr>f_status := F_ACTIVE\<rparr>"]) (simp_all add: refreshed_def)
qed

text \<open>
  A pong in time activates its sender: on a well-formed server with sane round-trip records, a pong from another node
  whose ticket verifies is handled without error and leaves an active finger for the sender, at the sender's
  address and with no unanswered pings; the invariant holds and nothing is sent.
\<close>

theorem process_pong_activates:
  assumes "srv_inv E srv" and "sha1_ok E" and "wf_node E from" and "\<not> IN6_IS_ADDR_UNSPECIFIED (s_addr srv)"
    and "\<not> (n_addr from = s_addr srv \<and> n_port from = s_port srv)" and "rtts_ok srv"
    and "0 \<le> sint (get_current_time E srv - pong_time msg)" and "sint (get_current_time E srv - pong_time msg) < 2 ^ 62"
    and "verify_ticket E srv (pong_ticket msg) ''c6sl'' [VA_int (packet_num CHORD_PING), VA_addr (n_addr from),
        VA_int (uint (n_port from)), VA_ulong (pong_time msg)] = Inr True"
  shows "\<exists>srv' f. process_pong E srv msg from = Inr (CHORD_NO_ERROR, srv') \<and> srv_inv E srv' \<and>
    finger_at srv' (n_id from) = Some f \<and> is_active f \<and> f_npings f = 0 \<and> f_addr f = n_addr from \<and>
    outbox srv' = outbox srv"
  using process_pong_accepts [OF assms] by metis

definition demo_pong :: Pong where
  "demo_pong = \<lparr>pong_has_ticket = True, pong_ticket = ticket_for demo_env ring_srv (ping_params (demo_addr 3) 4000 4999000),
     pong_time = 4999000\<rparr>"

lemma process_pong_activates_witness:
  "\<exists>srv' f. process_pong demo_env ring_srv demo_pong (demo_peer 3) = Inr (CHORD_NO_ERROR, srv') \<and> srv_inv demo_env srv' \<and>
    finger_at srv' (n_id (demo_peer 3)) = Some f \<and> is_active f \<and> f_npings f = 0 \<and> f_addr f = n_addr (demo_peer 3) \<and>
    outbox srv' = outbox ring_srv"
proof (rule process_pong_activates)
  show "verify_ticket demo_env ring_srv (pong_ticket demo_pong) ''c6sl'' [VA_int (packet_num CHORD_PING), VA_addr (n_addr (demo_peer 3)),
        VA_int (uint (n_port (demo_peer 3))), VA_ulong (pong_time demo_pong)] = Inr True"
    unfolding demo_pong_def Pong.simps by (rule issued_ticket_verifies) (simp_all add: ping_params_def)
qed (simp_all add: demo_pong_def get_current_time_def rtts_ok_def)

end
