(* ===== verification/Chord_Dispatcher.thy ===== *)
theory Chord_Dispatcher
  imports Chord_Process
begin

text \<open>
  The packet dispatcher, \<^verbatim>\<open>src/src/dispatcher.c\<close>, and the parts of \<^verbatim>\<open>src/src/chord.c\<close> that build
  a server around it: handlers for small packet types live in an array, those for other types in a linked list; a received
  datagram is decoded, its handler found and run. What a registered \<^verbatim>\<open>process\<close> pointer does is a
  parameter of the dispatcher (\<open>run\<close>); \<open>run_process\<close> is what it does in the Chord server.
\<close>

subsection \<open>State\<close>

record ('a, 'p) packet_handler =
  h_name :: "string option"
  h_process_args :: "'a list"
  h_nargs :: int
  h_unpack :: "msg_desc option"
  h_process :: "'p option"

record ('a, 'p) odd_packet_handler =
  o_value :: int
  o_handler :: "('a, 'p) packet_handler"

record ('a, 'p) Dispatcher =
  d_handlers :: "('a, 'p) packet_handler list"
  d_odd :: "('a, 'p) odd_packet_handler list"
  d_size :: int
  d_unpack_error :: bool
  d_process_error :: bool

text \<open>An entry that \<^verbatim>\<open>calloc\<close> zeroed.\<close>

definition empty_handler :: "('a, 'p) packet_handler" where
  "empty_handler = \<lparr>h_name = None, h_process_args = [], h_nargs = 0, h_unpack = None, h_process = None\<rparr>"

definition new_dispatcher :: "nat \<Rightarrow> ('a, 'p) Dispatcher" where
  "new_dispatcher sz = \<lparr>d_handlers = replicate sz empty_handler, d_odd = [], d_size = int sz,
     d_unpack_error = False, d_process_error = False\<rparr>"

subsection \<open>Finding and changing handlers\<close>

text \<open>The address of a handler: a slot of the array or a node of the list.\<close>

datatype hloc = Slot nat | Odd nat

fun find_odd :: "('a, 'p) odd_packet_handler list \<Rightarrow> int \<Rightarrow> nat \<Rightarrow> hloc option" where
  "find_odd [] v i = None"
| "find_odd (node # rest) v i =
     (if o_value node < v then find_odd rest v (Suc i)
      else if o_value node = v then Some (Odd i) else None)"

definition get_handler :: "('a, 'p) Dispatcher \<Rightarrow> int \<Rightarrow> hloc option res" where
  "get_handler d v =
     (if v < d_size d then
        if 0 \<le> v then Inr (Some (Slot (nat v))) else Inl Out_of_bounds
      else Inr (find_odd (d_odd d) v 0))"

fun handler_at :: "('a, 'p) Dispatcher \<Rightarrow> hloc \<Rightarrow> ('a, 'p) packet_handler res" where
  "handler_at d (Slot i) = (if i < length (d_handlers d) then Inr (d_handlers d ! i) else Inl Out_of_bounds)"
| "handler_at d (Odd i) = (if i < length (d_odd d) then Inr (o_handler (d_odd d ! i)) else Inl Out_of_bounds)"

fun set_handler :: "('a, 'p) Dispatcher \<Rightarrow> hloc \<Rightarrow> ('a, 'p) packet_handler \<Rightarrow> ('a, 'p) Dispatcher" where
  "set_handler d (Slot i) h = d\<lparr>d_handlers := (d_handlers d)[i := h]\<rparr>"
| "set_handler d (Odd i) h = d\<lparr>d_odd := (d_odd d)[i := (d_odd d ! i)\<lparr>o_handler := h\<rparr>]\<rparr>"

definition dispatcher_get_packet_name :: "('a, 'p) Dispatcher \<Rightarrow> int \<Rightarrow> string option res" where
  "dispatcher_get_packet_name d v =
     fbind (get_handler d v) (\<lambda>loc.
     case loc of None \<Rightarrow> Inr None | Some loc \<Rightarrow> fbind (handler_at d loc) (\<lambda>h. Inr (h_name h)))"

definition dispatcher_set_error_handlers :: "('a, 'p) Dispatcher \<Rightarrow> bool \<Rightarrow> bool \<Rightarrow> ('a, 'p) Dispatcher" where
  "dispatcher_set_error_handlers d u_err p_err = d\<lparr>d_unpack_error := u_err, d_process_error := p_err\<rparr>"

definition init_handler :: "string \<Rightarrow> 'a \<Rightarrow> msg_desc \<Rightarrow> 'p \<Rightarrow> ('a, 'p) packet_handler" where
  "init_handler name arg unpack process =
     \<lparr>h_name = Some name, h_process_args = [arg], h_nargs = 1, h_unpack = Some unpack, h_process = Some process\<rparr>"

text \<open>
  For a value outside the array the code allocates \<^verbatim>\<open>sizeof(struct packet_handler)\<close> (40 bytes) for a
  \<^verbatim>\<open>struct odd_packet_handler\<close> (56 bytes) and writes past it, or, when the list is not empty, walks
  it from the variable \<^verbatim>\<open>odd\<close>, which was never set.
\<close>

definition dispatcher_create_handler ::
  "('a, 'p) Dispatcher \<Rightarrow> int \<Rightarrow> string \<Rightarrow> 'a \<Rightarrow> msg_desc \<Rightarrow> 'p \<Rightarrow> ('a, 'p) Dispatcher res" where
  "dispatcher_create_handler d v name arg unpack process =
     (if v < d_size d then
        if 0 \<le> v then Inr (set_handler d (Slot (nat v)) (init_handler name arg unpack process))
        else Inl Out_of_bounds
      else if d_odd d = [] then Inl Buffer_overflow
      else Inl Uninit_read)"

definition dispatcher_set_packet_body ::
  "('a, 'p) Dispatcher \<Rightarrow> int \<Rightarrow> string \<Rightarrow> 'a \<Rightarrow> msg_desc \<Rightarrow> 'p \<Rightarrow> ('a, 'p) Dispatcher res" where
  "dispatcher_set_packet_body d v name arg unpack process =
     fbind (get_handler d v) (\<lambda>loc.
     case loc of
       None \<Rightarrow> dispatcher_create_handler d v name arg unpack process
     | Some loc \<Rightarrow> Inr (set_handler d loc (init_handler name arg unpack process)))"

definition dispatcher_set_packet_handlers ::
  "('a, 'p) Dispatcher \<Rightarrow> int \<Rightarrow> msg_desc \<Rightarrow> 'p \<Rightarrow> (bool \<times> ('a, 'p) Dispatcher) res" where
  "dispatcher_set_packet_handlers d v unpack process =
     fbind (get_handler d v) (\<lambda>loc.
     case loc of
       None \<Rightarrow> Inr (False, d)
     | Some loc \<Rightarrow>
         fbind (handler_at d loc) (\<lambda>h.
         Inr (True, set_handler d loc (h\<lparr>h_unpack := Some unpack, h_process := Some process\<rparr>))))"

text \<open>\<^verbatim>\<open>realloc\<close> to one more argument keeps the first \<open>nargs\<close>; the new one is stored last.\<close>

definition dispatcher_push_arg :: "('a, 'p) Dispatcher \<Rightarrow> int \<Rightarrow> 'a \<Rightarrow> (bool \<times> ('a, 'p) Dispatcher) res" where
  "dispatcher_push_arg d v arg =
     fbind (get_handler d v) (\<lambda>loc.
     case loc of
       None \<Rightarrow> Inr (False, d)
     | Some loc \<Rightarrow>
         fbind (handler_at d loc) (\<lambda>h.
         if h_nargs h < 0 then Inl Out_of_bounds
         else Inr (True, set_handler d loc (h\<lparr>h_nargs := h_nargs h + 1,
                h_process_args := take (nat (h_nargs h)) (h_process_args h) @ [arg]\<rparr>))))"

definition dispatcher_pop_arg :: "('a, 'p) Dispatcher \<Rightarrow> int \<Rightarrow> ('a option \<times> ('a, 'p) Dispatcher) res" where
  "dispatcher_pop_arg d v =
     fbind (get_handler d v) (\<lambda>loc.
     case loc of
       None \<Rightarrow> Inr (None, d)
     | Some loc \<Rightarrow>
         fbind (handler_at d loc) (\<lambda>h.
         let n = h_nargs h - 1 in
         if 0 \<le> n \<and> nat n < length (h_process_args h)
         then Inr (Some (h_process_args h ! nat n), set_handler d loc (h\<lparr>h_nargs := n\<rparr>))
         else Inl Out_of_bounds))"

subsection \<open>Dispatching a datagram\<close>

definition header__unpack :: "env \<Rightarrow> byte list \<Rightarrow> Header option" where
  "header__unpack E buf =
     (case pb_unpack E header__descriptor buf of Some (M_Header h) \<Rightarrow> Some h | _ \<Rightarrow> None)"

definition dispatcher_get_type :: "env \<Rightarrow> byte list \<Rightarrow> int res" where
  "dispatcher_get_type E buf = fbind (deref (header__unpack E buf)) (\<lambda>h. Inr (sint (hdr_type h)))"

definition PACKET_NAMES :: "string list" where
  "PACKET_NAMES = [''ADDR_DISCOVER'', ''ADDR_DISCOVER_REPLY'', ''DATA'', ''FS'', ''FS_REPLY'', ''STAB'',
     ''STAB_REPLY'', ''NOTIFY'', ''PING'', ''PONG'']"

definition MAX_PACKET_TYPE :: int where
  "MAX_PACKET_TYPE = int (length PACKET_NAMES)"

text \<open>
  The outcome of \<^verbatim>\<open>dispatch_packet\<close>: its return value, what it stores through \<^verbatim>\<open>process_ret\<close>, and how many
  of the decoded objects (header and message) it leaves allocated. The arguments of the trace message are evaluated whether or not it is
  printed, so \<^verbatim>\<open>PACKET_NAMES[header->type]\<close> is read for every datagram.
  It also reads \<^verbatim>\<open>buf[header->type]\<close>. A type that has passed the first access is below ten, and the array that \<^verbatim>\<open>handle_packet\<close> passes is longer than that, so this is
  at worst a byte that was not received, an unspecified value that is only printed; where the array may be shorter (the inner packet of the file client) the access is checked at the call.
\<close>

record dispatched =
  dr_known :: bool
  dr_process_ret :: "chord_error option"
  dr_leaked :: nat

definition dispatch_packet ::
  "env \<Rightarrow> ('p \<Rightarrow> 'a list \<Rightarrow> message \<Rightarrow> Node \<Rightarrow> 's \<Rightarrow> (chord_error \<times> 's) res) \<Rightarrow> ('a, 'p) Dispatcher \<Rightarrow>
   byte list \<Rightarrow> Node \<Rightarrow> 's \<Rightarrow> (dispatched \<times> 's) res" where
  "dispatch_packet E run d buf from s =
     fbind (deref (header__unpack E buf)) (\<lambda>header.
     fbind (if unat (hdr_type header) < length PACKET_NAMES then Inr () else Inl Out_of_bounds) (\<lambda>_.
     fbind (get_handler d (sint (hdr_type header))) (\<lambda>loc.
     case loc of
       None \<Rightarrow> Inr (\<lparr>dr_known = False, dr_process_ret = None, dr_leaked = 1\<rparr>, s)
     | Some loc \<Rightarrow>
         fbind (handler_at d loc) (\<lambda>handler.
         fbind (deref (h_unpack handler)) (\<lambda>unpack.
         case pb_unpack E unpack (hdr_payload header) of
           None \<Rightarrow> Inr (\<lparr>dr_known = True, dr_process_ret = None, dr_leaked = 1\<rparr>, s)
         | Some msg \<Rightarrow>
             fbind (deref (h_process handler)) (\<lambda>process.
             fbind (run process (h_process_args handler) msg from s) (\<lambda>(ret, s).
             if ret \<noteq> CHORD_NO_ERROR
             then Inr (\<lparr>dr_known = True, dr_process_ret = Some ret, dr_leaked = 2\<rparr>, s)
             else Inr (\<lparr>dr_known = True, dr_process_ret = Some ret, dr_leaked = 0\<rparr>, s))))))))"

subsection \<open>The dispatcher of a Chord server\<close>

text \<open>The functions of \<^verbatim>\<open>process.c\<close> as they are registered.\<close>

datatype process_fn =
    P_addr_discover | P_addr_discover_reply | P_data | P_fs | P_fs_reply
  | P_stab | P_stab_reply | P_notify | P_ping | P_pong

text \<open>
  Calling a registered function: \<^verbatim>\<open>args->srv\<close> is the first registered argument, the message is
  cast to the structure the function expects.
\<close>

definition call_process :: "env \<Rightarrow> process_fn \<Rightarrow> message \<Rightarrow> Node \<Rightarrow> ChordServer \<Rightarrow> handled" where
  "call_process E process msg from srv =
     (case process of
         P_addr_discover \<Rightarrow> (case msg of M_AddrDiscover m \<Rightarrow> process_addr_discover E srv m from | _ \<Rightarrow> Inl Type_confusion)
      | P_addr_discover_reply \<Rightarrow> (case msg of M_AddrDiscoverReply m \<Rightarrow> process_addr_discover_reply E srv m from | _ \<Rightarrow> Inl Type_confusion)
      | P_data \<Rightarrow> (case msg of M_Data m \<Rightarrow> process_data E srv m from | _ \<Rightarrow> Inl Type_confusion)
      | P_fs \<Rightarrow> (case msg of M_FindSuccessor m \<Rightarrow> process_fs E srv m from | _ \<Rightarrow> Inl Type_confusion)
      | P_fs_reply \<Rightarrow> (case msg of M_FindSuccessorReply m \<Rightarrow> process_fs_reply E srv m from | _ \<Rightarrow> Inl Type_confusion)
      | P_stab \<Rightarrow> (case msg of M_Stabilize m \<Rightarrow> process_stab E srv m from | _ \<Rightarrow> Inl Type_confusion)
      | P_stab_reply \<Rightarrow> (case msg of M_StabilizeReply m \<Rightarrow> process_stab_reply E srv m from | _ \<Rightarrow> Inl Type_confusion)
      | P_notify \<Rightarrow> (case msg of M_Notify m \<Rightarrow> process_notify E srv m from | _ \<Rightarrow> Inl Type_confusion)
      | P_ping \<Rightarrow> (case msg of M_Ping m \<Rightarrow> process_ping E srv m from | _ \<Rightarrow> Inl Type_confusion)
      | P_pong \<Rightarrow> (case msg of M_Pong m \<Rightarrow> process_pong E srv m from | _ \<Rightarrow> Inl Type_confusion))"

definition run_process :: "env \<Rightarrow> process_fn \<Rightarrow> unit list \<Rightarrow> message \<Rightarrow> Node \<Rightarrow> ChordServer \<Rightarrow> handled" where
  "run_process E process args msg from srv =
     (if args = [] then Inl Out_of_bounds else call_process E process msg from srv)"

type_synonym chord_dispatcher = "(unit, process_fn) Dispatcher"

definition chord_handlers :: "(packet_type \<times> string \<times> msg_desc \<times> process_fn) list" where
  "chord_handlers =
     [(CHORD_ADDR_DISCOVER, ''CHORD_ADDR_DISCOVER'', addr_discover__descriptor, P_addr_discover),
      (CHORD_ADDR_DISCOVER_REPLY, ''CHORD_ADDR_DISCOVER_REPLY'', addr_discover_reply__descriptor, P_addr_discover_reply),
      (CHORD_DATA, ''CHORD_DATA'', data__descriptor, P_data),
      (CHORD_FS, ''CHORD_FS'', find_successor__descriptor, P_fs),
      (CHORD_FS_REPLY, ''CHORD_FS_REPLY'', find_successor_reply__descriptor, P_fs_reply),
      (CHORD_STAB, ''CHORD_STAB'', stabilize__descriptor, P_stab),
      (CHORD_STAB_REPLY, ''CHORD_STAB_REPLY'', stabilize_reply__descriptor, P_stab_reply),
      (CHORD_NOTIFY, ''CHORD_NOTIFY'', notify__descriptor, P_notify),
      (CHORD_PING, ''CHORD_PING'', ping__descriptor, P_ping),
      (CHORD_PONG, ''CHORD_PONG'', pong__descriptor, P_pong)]"

fun set_packets :: "chord_dispatcher \<Rightarrow> (packet_type \<times> string \<times> msg_desc \<times> process_fn) list \<Rightarrow> chord_dispatcher res" where
  "set_packets d [] = Inr d"
| "set_packets d ((t, name, unpack, process) # rest) =
     fbind (dispatcher_set_packet_body d (packet_num t) name () unpack process) (\<lambda>d. set_packets d rest)"

text \<open>\<^verbatim>\<open>init_ticket_key\<close> with the bytes \<^verbatim>\<open>RAND_bytes\<close> delivered; the program exits when they are missing.\<close>

definition init_ticket_key :: "byte list \<Rightarrow> ChordServer \<Rightarrow> ChordServer" where
  "init_ticket_key rand srv = srv\<lparr>ticket_salt := rand, ticket_salt_len := TICKET_SALT_LEN, ticket_hash_len := TICKET_HASH_LEN\<rparr>"

definition init_discover_addr_event :: "ChordServer \<Rightarrow> ChordServer" where
  "init_discover_addr_event srv = srv\<lparr>discover_addr_event := True\<rparr>"

definition init_stabilize_event :: "ChordServer \<Rightarrow> ChordServer" where
  "init_stabilize_event srv = srv\<lparr>stab_event := False\<rparr>"

text \<open>The zeroed structure of \<^verbatim>\<open>calloc\<close>.\<close>

definition zero_server :: ChordServer where
  "zero_server = \<lparr>s_node = \<lparr>n_id = replicate 20 0, n_addr = replicate 16 0, n_port = 0\<rparr>, pred_bound = replicate 20 0,
     flist = [], num_passive_fingers = 0, to_fix_finger = 0, to_fix_backup = 0, to_ping = 0, sock = 0,
     is_v6 = False, send_func = Send_unset, well_known = [], ticket_salt = [], ticket_salt_len = 0, ticket_hash_len = 0,
     discover_addr_event = False, stab_event = False, outbox = [], rnd_calls = 0\<rparr>"

definition new_server :: "byte list \<Rightarrow> (ChordServer \<times> chord_dispatcher) res" where
  "new_server rand =
     (let srv = zero_server\<lparr>to_fix_finger := NFINGERS - 1\<rparr>;
          srv = init_stabilize_event (init_discover_addr_event (init_ticket_key rand srv));
          d = dispatcher_set_error_handlers (new_dispatcher (nat (packet_num CHORD_PONG + 1))) False True
      in fbind (set_packets d chord_handlers) (\<lambda>d. Inr (srv, d)))"

text \<open>The fields a configuration file sets, and a resolved peer, added in front of the list
  (its identifier is never set, and never used but for printing).\<close>

definition configure_server :: "bool \<Rightarrow> ushort \<Rightarrow> ChordServer \<Rightarrow> ChordServer" where
  "configure_server v6 port srv = srv\<lparr>is_v6 := v6, s_node := (s_node srv)\<lparr>n_port := port\<rparr>\<rparr>"

definition add_well_known :: "in6_addr \<Rightarrow> ushort \<Rightarrow> ChordServer \<Rightarrow> ChordServer" where
  "add_well_known addr port srv =
     srv\<lparr>well_known := \<lparr>n_id = replicate 20 0, n_addr = addr, n_port = port\<rparr> # well_known srv\<rparr>"

text \<open>
  What \<^verbatim>\<open>server_initialize_socket\<close> leaves in the server when it returns: the descriptor and the sending function of its family. The function itself, with the socket, the binding and the exit of the process when the
  address is refused, is in the theory \<open>Hosts\<close>; there it is shown that a server of IP version 6 never gets this far.
\<close>

definition server_set_socket :: "int \<Rightarrow> ChordServer \<Rightarrow> ChordServer" where
  "server_set_socket fd srv =
     srv\<lparr>sock := fd, send_func := (if is_v6 srv then Send_raw_v6 else Send_raw_v4)\<rparr>"

text \<open>
  A received datagram and its source as \<^verbatim>\<open>recvfrom\<close> reports them; \<open>None\<close> is a negative length.
  The family of the source is that of the socket.
\<close>

definition from_node :: "env \<Rightarrow> ChordServer \<Rightarrow> sockaddr \<Rightarrow> Node res" where
  "from_node E srv from_sa =
     (let (addr, port) = (case from_sa of
              Sockaddr_in6 p a \<Rightarrow> (a, htons p)
            | Sockaddr_in p a \<Rightarrow> (to_v6addr (ucast a), htons p))
      in fbind (get_address_id E addr port) (\<lambda>ident. Inr \<lparr>n_id = ident, n_addr = addr, n_port = port\<rparr>))"

definition handle_packet ::
  "env \<Rightarrow> chord_dispatcher \<Rightarrow> (sockaddr \<times> byte list) option \<Rightarrow> ChordServer \<Rightarrow> ChordServer res" where
  "handle_packet E d received srv =
     (case received of
        None \<Rightarrow> Inr srv
      | Some (from_sa, buf) \<Rightarrow>
          fbind (from_node E srv from_sa) (\<lambda>from.
          fbind (dispatch_packet E (run_process E) d buf from srv) (\<lambda>(r, srv).
          Inr srv)))"

subsection \<open>A new server\<close>

definition chord_disp :: chord_dispatcher where
  "chord_disp = \<lparr>d_handlers = map (\<lambda>(t, name, unpack, process). init_handler name () unpack process) chord_handlers,
     d_odd = [], d_size = 10, d_unpack_error = False, d_process_error = True\<rparr>"

definition fresh_server :: "byte list \<Rightarrow> ChordServer" where
  "fresh_server rand = zero_server\<lparr>to_fix_finger := 159, ticket_salt := rand, ticket_salt_len := 16, ticket_hash_len := 4,
     discover_addr_event := True\<rparr>"

lemma set_packet_slot:
  "0 \<le> v \<Longrightarrow> v < d_size d \<Longrightarrow> dispatcher_set_packet_body d v name arg unpack process =
     Inr (d\<lparr>d_handlers := (d_handlers d)[nat v := init_handler name arg unpack process]\<rparr>)"
  by (simp add: dispatcher_set_packet_body_def get_handler_def)

lemma new_server_eq: "new_server rand = Inr (fresh_server rand, chord_disp)"
proof -
  define e :: "(unit, process_fn) packet_handler" where "e = empty_handler"
  have "set_packets (dispatcher_set_error_handlers (new_dispatcher 10) False True) chord_handlers = Inr chord_disp"
    unfolding new_dispatcher_def dispatcher_set_error_handlers_def chord_handlers_def chord_disp_def e_def [symmetric]
    by (simp add: set_packet_slot numeral_eq_Suc)
  then show ?thesis
    by (simp add: new_server_def init_stabilize_event_def init_discover_addr_event_def init_ticket_key_def
        fresh_server_def zero_server_def Let_def)
qed

lemma zero_addr_unspecified [simp]: "IN6_IS_ADDR_UNSPECIFIED (replicate 16 0)"
  by (simp add: IN6_IS_ADDR_UNSPECIFIED_def)

lemma fresh_server_inv: "length rand = 16 \<Longrightarrow> srv_inv E (fresh_server rand)"
  by (simp add: srv_inv_def table_inv_def config_ok_def ids_ok_def fresh_server_def zero_server_def
      wf_id_def wf_addr_def ring_sorted_def passive_count_def range_start_def)

lemma chord_disp_handler:
  assumes "(t, name, unpack, process) \<in> set chord_handlers"
  shows "get_handler chord_disp (packet_num t) = Inr (Some (Slot (nat (packet_num t))))"
    and "handler_at chord_disp (Slot (nat (packet_num t))) = Inr (init_handler name () unpack process)"
  using assms unfolding chord_handlers_def
  by (auto simp: chord_disp_def get_handler_def chord_handlers_def numeral_eq_Suc)

subsection \<open>Dispatching keeps what every handler keeps\<close>

text \<open>
  The contract between the dispatcher and the functions registered with it: a state predicate that
  every call keeps, for acceptable senders. Then a whole dispatch keeps it, and a datagram
  that reaches no handler changes nothing.
\<close>

locale packet_processor =
  fixes run :: "'p \<Rightarrow> 'a list \<Rightarrow> message \<Rightarrow> Node \<Rightarrow> 's \<Rightarrow> (chord_error \<times> 's) res"
    and inv :: "'s \<Rightarrow> bool"
    and sender_ok :: "Node \<Rightarrow> bool"
  assumes run_keeps: "inv s \<Longrightarrow> sender_ok from \<Longrightarrow> returns (\<lambda>(ret, s'). inv s') (run p args m from s)"
begin

lemma dispatch_keeps:
  assumes "inv s" and "sender_ok from"
  shows "returns (\<lambda>(r, s'). inv s') (dispatch_packet E run d buf from s)"
  unfolding dispatch_packet_def using assms
  by (intro returns_bind_any returns_option returns_bindI [OF run_keeps]) auto

lemma dispatch_undelivered:
  assumes "dispatch_packet E run d buf from s = Inr (r, s')" and "dr_process_ret r = None"
  shows "s' = s"
  using assms
  by (auto simp: dispatch_packet_def fbind_Inr_iff split: option.splits if_splits)

end

lemma call_process_keeps:
  assumes "srv_inv E srv" and "sha1_ok E" and "wf_node E from"
  shows "keeps E (call_process E process msg from srv)"
  using assms
  by (cases process; cases msg)
    (simp_all add: call_process_def process_addr_discover_keeps process_addr_discover_reply_keeps process_data_keeps process_fs_keeps
      process_fs_reply_keeps process_stab_keeps process_stab_reply_keeps process_notify_keeps process_ping_keeps
      process_pong_keeps)

interpretation chord: packet_processor "run_process E" "\<lambda>srv. sha1_ok E \<and> srv_inv E srv" "wf_node E"
proof
  fix s "from" p args m
  assume "sha1_ok E \<and> srv_inv E s" "wf_node E from"
  then have "keeps E (call_process E p m from s)" by (simp add: call_process_keeps)
  then show "returns (\<lambda>(ret, s'). sha1_ok E \<and> srv_inv E s') (run_process E p args m from s)"
    using \<open>sha1_ok E \<and> srv_inv E s\<close> by (auto simp: run_process_def keeps_def returns_iff)
qed

definition wf_source :: "ChordServer \<Rightarrow> sockaddr \<Rightarrow> bool" where
  "wf_source srv sa \<longleftrightarrow> (case sa of Sockaddr_in6 p a \<Rightarrow> is_v6 srv \<and> wf_addr a | Sockaddr_in p a \<Rightarrow> \<not> is_v6 srv)"

lemma from_node_wf: "wf_source srv sa \<Longrightarrow> returns (wf_node E) (from_node E srv sa)"
  by (auto simp: wf_source_def from_node_def wf_node_def wf_simps split: sockaddr.splits)

lemma handle_packet_keeps:
  assumes "srv_inv E srv" and "sha1_ok E" and "\<And>sa buf. received = Some (sa, buf) \<Longrightarrow> wf_source srv sa"
  shows "returns (srv_inv E) (handle_packet E d received srv)"
proof (cases received)
  case (Some rb)
  obtain sa buf where rb: "rb = (sa, buf)" by force
  have "returns (srv_inv E) (fbind (dispatch_packet E (run_process E) d buf from srv) (\<lambda>(r, srv). Inr srv))"
    if "wf_node E from" for "from"
    using chord.dispatch_keeps [of E srv "from" E d buf] that assms(1,2) by (auto simp: returns_iff fbind_Inr_iff)
  then show ?thesis
    using from_node_wf [OF assms(3), of sa buf E] by (auto simp: handle_packet_def Some rb returns_bind intro: returns_mono)
qed (use assms in \<open>simp add: handle_packet_def\<close>)

lemma dispatch_chord_packet:
  assumes "codec_ok E" and "(t, name, descriptor_of msg, process) \<in> set chord_handlers" and "canonical msg"
  shows "dispatch_packet E (run_process E) chord_disp (packet E t msg) from srv =
    fbind (call_process E process msg from srv) (\<lambda>(ret, srv').
      Inr (\<lparr>dr_known = True, dr_process_ret = Some ret, dr_leaked = (if ret = CHORD_NO_ERROR then 0 else 2)\<rparr>, srv'))"
proof -
  let ?h = "\<lparr>hdr_has_version = True, hdr_version = 1, hdr_type = word_of_int (packet_num t) :: uint32, hdr_payload = pb_pack E msg\<rparr>"
  have "pb_unpack E header__descriptor (packet E t msg) = Some (M_Header ?h)"
    using codec_roundtrip [OF assms(1), of "M_Header ?h"] by (simp add: packet_def)
  then have h: "header__unpack E (packet E t msg) = Some ?h" by (simp add: header__unpack_def)
  have t: "unat (word_of_int (packet_num t) :: uint32) < length PACKET_NAMES" "sint (word_of_int (packet_num t) :: uint32) = packet_num t"
    by (cases t; simp add: PACKET_NAMES_def)+
  have leak: "(if ret \<noteq> CHORD_NO_ERROR then Inr (\<lparr>dr_known = True, dr_process_ret = Some ret, dr_leaked = 2\<rparr>, s)
       else Inr (\<lparr>dr_known = True, dr_process_ret = Some ret, dr_leaked = 0\<rparr>, s)) =
      Inr (\<lparr>dr_known = True, dr_process_ret = Some ret, dr_leaked = (if ret = CHORD_NO_ERROR then 0 else 2)\<rparr>, s)"
    for ret and s :: ChordServer by simp
  have args: "h_process_args (init_handler name () u p) = [()]" "h_unpack (init_handler name () u p) = Some u"
    "h_process (init_handler name () u p) = Some p" for u and p :: process_fn by (simp_all add: init_handler_def)
  show ?thesis
    unfolding dispatch_packet_def h deref_simps fbind_simps Header.simps if_P [OF t(1)] t(2) chord_disp_handler [OF assms(2)]
      option.case args codec_roundtrip [OF assms(1,3)] leak
    by (simp add: run_process_def)
qed

subsection \<open>Properties\<close>

text \<open>
  A new server starts well: with the 16 random bytes of its key, \<^verbatim>\<open>new_server\<close> does not fault, the server satisfies the
  invariant, and each of the ten packet types finds its own decoder and its own function in the dispatcher.
\<close>

theorem new_server_correct:
  assumes "length rand = 16"
  shows "\<exists>srv d. new_server rand = Inr (srv, d) \<and> srv_inv E srv \<and>
    (\<forall>(t, name, unpack, process) \<in> set chord_handlers.
       fbind (get_handler d (packet_num t)) (\<lambda>loc. fbind (deref loc) (handler_at d)) =
         Inr \<lparr>h_name = Some name, h_process_args = [()], h_nargs = 1, h_unpack = Some unpack, h_process = Some process\<rparr>)"
  using fresh_server_inv [OF assms] chord_disp_handler by (auto simp: new_server_eq init_handler_def)

lemma new_server_correct_witness:
  "\<exists>srv d. new_server (replicate 16 7) = Inr (srv, d) \<and> srv_inv demo_env srv \<and>
    (\<forall>(t, name, unpack, process) \<in> set chord_handlers.
       fbind (get_handler d (packet_num t)) (\<lambda>loc. fbind (deref loc) (handler_at d)) =
         Inr \<lparr>h_name = Some name, h_process_args = [()], h_nargs = 1, h_unpack = Some unpack, h_process = Some process\<rparr>)"
  by (rule new_server_correct) simp

text \<open>
  C18. What one server packs another one delivers: a packet of type \<open>t\<close> built from a canonical message of the type registered
  for \<open>t\<close> runs the function registered for \<open>t\<close> on exactly that message; the decoded objects are
  released unless the function reports an error, in which case both leak.
\<close>

theorem dispatch_delivers:
  assumes "codec_ok E" and "new_server rand = Inr (srv0, d)" and "(t, name, descriptor_of msg, process) \<in> set chord_handlers"
    and "canonical msg" and "pack_chord_header E t msg = Inr buf"
  shows "dispatch_packet E (run_process E) d buf from srv =
    fbind (call_process E process msg from srv) (\<lambda>(ret, srv').
      Inr (\<lparr>dr_known = True, dr_process_ret = Some ret, dr_leaked = (if ret = CHORD_NO_ERROR then 0 else 2)\<rparr>, srv'))"
proof -
  have "d = chord_disp" "buf = packet E t msg" using assms(2) chan.enc_result [OF assms(5)] by (simp_all add: new_server_eq)
  then show ?thesis using dispatch_chord_packet [OF assms(1,3,4)] by simp
qed

lemma dispatch_delivers_witness:
  "dispatch_packet demo_env (run_process demo_env) chord_disp (packet demo_env CHORD_NOTIFY (M_Notify NOTIFY__INIT)) (demo_peer 5) ring_srv =
    fbind (call_process demo_env P_notify (M_Notify NOTIFY__INIT) (demo_peer 5) ring_srv) (\<lambda>(ret, srv').
      Inr (\<lparr>dr_known = True, dr_process_ret = Some ret, dr_leaked = (if ret = CHORD_NO_ERROR then 0 else 2)\<rparr>, srv'))"
  by (rule dispatch_delivers [where rand = "replicate 16 7" and ?srv0.0 = "fresh_server (replicate 16 7)" and t = CHORD_NOTIFY and name = "''CHORD_NOTIFY''"])
    (simp_all add: new_server_eq chan.enc_total fits_small chord_handlers_def)

text \<open>
  Every datagram keeps the invariant: whatever bytes arrive, from whatever source of the socket's family, if \<^verbatim>\<open>handle_packet\<close>
  returns, the server still satisfies the invariant.
\<close>

theorem handle_packet_invariant:
  assumes "srv_inv E srv" and "sha1_ok E" and "wf_source srv sa" and "handle_packet E d (Some (sa, buf)) srv = Inr srv'"
  shows "srv_inv E srv'"
  using returnsD [OF handle_packet_keeps [OF assms(1,2)] assms(4)] assms(3) by blast

lemma handle_packet_invariant_witness:
  "\<exists>srv'. handle_packet demo_env chord_disp (Some (Sockaddr_in 0 0, packet demo_env CHORD_STAB (M_Stabilize \<lparr>stab_addr = [], stab_port = 0\<rparr>)))
     (fresh_server (replicate 16 7)) = Inr srv' \<and> srv_inv demo_env srv'"
proof -
  have "handle_packet demo_env chord_disp (Some (Sockaddr_in 0 0, packet demo_env CHORD_STAB (M_Stabilize \<lparr>stab_addr = [], stab_port = 0\<rparr>)))
     (fresh_server (replicate 16 7)) = Inr (fresh_server (replicate 16 7))"
    unfolding handle_packet_def option.case prod.case from_node_def sockaddr.case get_address_id_eq fbind_simps Let_def
    by (subst dispatch_chord_packet [where process = P_stab and name = "''CHORD_STAB''"])
      (simp_all add: chord_handlers_def call_process_def process_stab_def fresh_server_def zero_server_def)
  then show ?thesis
    using handle_packet_invariant [OF fresh_server_inv demo_env_ok(1)] by (force simp: wf_source_def fresh_server_def zero_server_def)
qed

lemma chord_disp_slot:
  assumes "n < 10"
  shows "get_handler chord_disp (int n) = Inr (Some (Slot n))"
    and "handler_at chord_disp (Slot n) = (case chord_handlers ! n of (t, name, unpack, process) \<Rightarrow> Inr (init_handler name () unpack process))"
proof -
  have "length chord_handlers = 10" by (simp add: chord_handlers_def)
  then show "get_handler chord_disp (int n) = Inr (Some (Slot n))"
    "handler_at chord_disp (Slot n) = (case chord_handlers ! n of (t, name, unpack, process) \<Rightarrow> Inr (init_handler name () unpack process))"
    using assms by (simp_all add: get_handler_def chord_disp_def case_prod_beta)
qed

text \<open>
  C25. Datagrams that are no Chord packet. Undecodable bytes make the server dereference a null header, and a
  header with a type of 10 or more makes it read past \<^verbatim>\<open>PACKET_NAMES\<close>: both faults are open to anybody who can send a datagram. Only a
  payload that does not decode under a known type is dropped harmlessly (the header leaks).
\<close>

theorem dispatch_malformed:
  "dispatch_packet E (run_process E) chord_disp buf from srv =
     (case header__unpack E buf of
        None \<Rightarrow> Inl Null_deref
      | Some h \<Rightarrow>
          if 10 \<le> hdr_type h then Inl Out_of_bounds
          else case chord_handlers ! unat (hdr_type h) of (t, name, unpack, process) \<Rightarrow>
            (case pb_unpack E unpack (hdr_payload h) of
               None \<Rightarrow> Inr (\<lparr>dr_known = True, dr_process_ret = None, dr_leaked = 1\<rparr>, srv)
             | Some msg \<Rightarrow>
                 fbind (call_process E process msg from srv) (\<lambda>(ret, srv').
                   Inr (\<lparr>dr_known = True, dr_process_ret = Some ret, dr_leaked = (if ret = CHORD_NO_ERROR then 0 else 2)\<rparr>, srv'))))"
proof (cases "header__unpack E buf")
  case None
  then show ?thesis by (simp add: dispatch_packet_def)
next
  case (Some h)
  show ?thesis
  proof (cases "10 \<le> hdr_type h")
    case True
    then have "\<not> unat (hdr_type h) < length PACKET_NAMES" by (simp add: PACKET_NAMES_def word_le_nat_alt)
    then show ?thesis using Some True by (simp add: dispatch_packet_def)
  next
    case False
    then have n: "unat (hdr_type h) < 10" by (simp add: word_le_nat_alt not_le)
    then have l: "unat (hdr_type h) < length PACKET_NAMES" by (simp add: PACKET_NAMES_def)
    have "uint (hdr_type h) < 10" using False by (simp add: word_le_def not_le)
    then have "signed_take_bit 31 (uint (hdr_type h)) = uint (hdr_type h)"
      by (intro signed_take_bit_int_eq_self) (simp_all add: order_trans [OF _ unsigned_greater_eq])
    then have s: "sint (hdr_type h) = int (unat (hdr_type h))" by (simp add: sint_uint)
    obtain t name unpack process where c: "chord_handlers ! unat (hdr_type h) = (t, name, unpack, process)"
      using prod_cases4 by blast
    have f: "(\<lambda>(ret, s). if ret \<noteq> CHORD_NO_ERROR then Inr (\<lparr>dr_known = True, dr_process_ret = Some ret, dr_leaked = 2\<rparr>, s)
         else Inr (\<lparr>dr_known = True, dr_process_ret = Some ret, dr_leaked = 0\<rparr>, s)) =
        (\<lambda>(ret, s :: ChordServer). Inr (\<lparr>dr_known = True, dr_process_ret = Some ret, dr_leaked = (if ret = CHORD_NO_ERROR then 0 else 2)\<rparr>, s))"
      by auto
    show ?thesis
      unfolding dispatch_packet_def Some deref_simps fbind_simps option.case if_P [OF l] s chord_disp_slot [OF n] c prod.case f if_not_P [OF False]
      by (simp add: init_handler_def run_process_def split: option.split)
  qed
qed

text \<open>
  The argument stack of a handler: popping right after pushing returns the pushed argument and leaves the arguments below it as
  they were.
\<close>

theorem pop_arg_push_arg:
  assumes "get_handler d v = Inr (Some loc)" and "handler_at d loc = Inr h"
    and "0 \<le> h_nargs h" and "nat (h_nargs h) \<le> length (h_process_args h)"
  shows "fbind (dispatcher_push_arg d v arg) (\<lambda>(ok, d'). dispatcher_pop_arg d' v) =
    Inr (Some arg, set_handler d loc (h\<lparr>h_process_args := take (nat (h_nargs h)) (h_process_args h) @ [arg]\<rparr>))"
proof -
  let ?h' = "h\<lparr>h_nargs := h_nargs h + 1, h_process_args := take (nat (h_nargs h)) (h_process_args h) @ [arg]\<rparr>"
  have odd: "find_odd (xs[i := (xs ! i)\<lparr>o_handler := g\<rparr>]) w k = find_odd xs w k" for xs i w k and g :: "('a, 'b) packet_handler"
    by (induction xs arbitrary: i k) (auto split: nat.splits)
  have "get_handler (set_handler d loc ?h') v = Inr (Some loc)"
    using assms(1) odd by (cases loc) (auto simp: get_handler_def split: if_splits)
  moreover have "handler_at (set_handler d loc ?h') loc = Inr ?h'"
    using assms(2) by (cases loc) (auto split: if_splits)
  moreover have "set_handler (set_handler d loc ?h') loc (?h'\<lparr>h_nargs := h_nargs h\<rparr>) = set_handler d loc (?h'\<lparr>h_nargs := h_nargs h\<rparr>)"
    using assms(2) by (cases loc) (auto split: if_splits)
  ultimately show ?thesis
    using assms by (simp add: dispatcher_push_arg_def dispatcher_pop_arg_def Let_def nth_append)
qed

lemma pop_arg_push_arg_witness:
  "fbind (dispatcher_push_arg chord_disp 3 ()) (\<lambda>(ok, d'). dispatcher_pop_arg d' 3) =
    Inr (Some (), set_handler chord_disp (Slot 3) ((init_handler ''CHORD_FS'' () find_successor__descriptor P_fs)\<lparr>h_process_args :=
      take (nat (h_nargs (init_handler ''CHORD_FS'' () find_successor__descriptor P_fs)))
        (h_process_args (init_handler ''CHORD_FS'' () find_successor__descriptor P_fs)) @ [()]\<rparr>))"
  by (rule pop_arg_push_arg) (use chord_disp_slot [of 3] in \<open>simp_all add: chord_handlers_def init_handler_def\<close>)

end
