(* ===== verification/Chord_Stabilize.thy ===== *)
theory Chord_Stabilize
  imports Chord_Dispatcher
begin

text \<open>
  The periodic work of a server: \<^verbatim>\<open>src/src/stabilize.c\<close> and \<^verbatim>\<open>src/src/join.c\<close>. A \<^verbatim>\<open>Finger *\<close> that walks
  along \<^verbatim>\<open>next\<close> and \<^verbatim>\<open>prev\<close> is the index of the finger in the list; one that is only compared is the finger it points to.
  Dereferencing past either end of the list is a null dereference.
\<close>

subsection \<open>Well-known nodes\<close>

fun send_to_all :: "(ChordServer \<Rightarrow> Node \<Rightarrow> ChordServer res) \<Rightarrow> Node list \<Rightarrow> ChordServer \<Rightarrow> ChordServer res" where
  "send_to_all send [] srv = Inr srv"
| "send_to_all send (node # nodes) srv = fbind (send srv node) (send_to_all send nodes)"

text \<open>\<^verbatim>\<open>discover_addr\<close>, the handler of the discovery timer.\<close>

definition discover_addr :: "env \<Rightarrow> ChordServer \<Rightarrow> ChordServer res" where
  "discover_addr E srv =
     (if \<not> IN6_IS_ADDR_UNSPECIFIED (s_addr srv) then Inr srv
      else send_to_all (\<lambda>srv node. send_addr_discover E srv (n_addr node) (n_port node)) (well_known srv) srv)"

definition contact_well_known :: "env \<Rightarrow> ChordServer \<Rightarrow> ChordServer res" where
  "contact_well_known E srv =
     send_to_all (\<lambda>srv node.
         fbind (send_fs E srv DEF_TTL (n_addr node) (n_port node) (s_addr srv) (s_port srv)) (\<lambda>srv.
         send_ping E srv (n_addr node) (n_port node) (get_current_time E srv)))
       (well_known srv) srv"

subsection \<open>Pinging fingers\<close>

text \<open>
  The two \<^verbatim>\<open>inet_ntop\<close> calls write the text of an IPv6 address into buffers of
  \<^verbatim>\<open>INET_ADDRSTRLEN\<close> (16) bytes, although they are told that there is room for 46.
\<close>

definition ntop_fits :: "env \<Rightarrow> in6_addr \<Rightarrow> unit res" where
  "ntop_fits E addr = (if length (inet_ntop6 E addr) + 1 \<le> 16 then Inr () else Inl Buffer_overflow)"

text \<open>
  The loop of \<^verbatim>\<open>ping\<close> over the fingers, \<open>i\<close> counting them; \<open>f_pinged\<close> is the finger that was next in
  turn. A finger is only changed or removed when the loop is at it, so the walk sees the list as it was.
\<close>

fun ping_loop :: "env \<Rightarrow> Finger list \<Rightarrow> int \<Rightarrow> chordID option \<Rightarrow> ChordServer \<Rightarrow> (chordID option \<times> ChordServer) res" where
  "ping_loop E [] i f_pinged srv = Inr (f_pinged, srv)"
| "ping_loop E (f # fs) i f_pinged srv =
     (if f_npings f \<ge> PING_THRESH then
        fbind (ntop_fits E (s_addr srv)) (\<lambda>_.
        fbind (ntop_fits E (f_addr f)) (\<lambda>_.
        ping_loop E fs (i + 1) f_pinged (remove_finger srv f)))
      else if f_npings f \<noteq> 0 \<or> to_ping srv = i then
        fbind (let srv = upd_finger (f_id f) (\<lambda>g. g\<lparr>f_npings := f_npings g + 1\<rparr>) srv
               in send_ping E srv (f_addr f) (f_port f) (get_current_time E srv)) (\<lambda>srv.
        ping_loop E fs (i + 1) (if to_ping srv = i then Some (f_id f) else f_pinged) srv)
      else ping_loop E fs (i + 1) f_pinged srv)"

definition has_next :: "ChordServer \<Rightarrow> chordID \<Rightarrow> bool" where
  "has_next srv i \<longleftrightarrow> flist srv \<noteq> [] \<and> f_id (last (flist srv)) \<noteq> i"

definition ping :: "env \<Rightarrow> ChordServer \<Rightarrow> ChordServer res" where
  "ping E srv =
     fbind (ping_loop E (flist srv) 0 None srv) (\<lambda>(f_pinged, srv).
     case f_pinged of
       None \<Rightarrow> Inr (srv\<lparr>to_ping := 0\<rparr>)
     | Some i \<Rightarrow> if has_next srv i then Inr (srv\<lparr>to_ping := to_ping srv + 1\<rparr>) else Inr (srv\<lparr>to_ping := 0\<rparr>))"

subsection \<open>Fixing fingers\<close>

definition finger_idx :: "ChordServer \<Rightarrow> nat \<Rightarrow> Finger res" where
  "finger_idx srv i = (if i < length (flist srv) then Inr (flist srv ! i) else Inl Null_deref)"

definition next_random :: "ChordServer \<Rightarrow> ChordServer" where
  "next_random srv = srv\<lparr>rnd_calls := rnd_calls srv + 1\<rparr>"

text \<open>The walk over the well-known nodes that sends to the one whose one-based number is \<open>rnd_node_idx\<close>.\<close>

fun fs_to_nth :: "env \<Rightarrow> nat \<Rightarrow> nat \<Rightarrow> Node list \<Rightarrow> ChordServer \<Rightarrow> ChordServer res" where
  "fs_to_nth E rnd_node_idx i [] srv = Inr srv"
| "fs_to_nth E rnd_node_idx i (node # nodes) srv =
     fbind (if Suc i = rnd_node_idx
            then send_fs E srv DEF_TTL (n_addr node) (n_port node) (s_addr srv) (s_port srv) else Inr srv)
       (fs_to_nth E rnd_node_idx (Suc i) nodes)"

text \<open>
  The first half of \<^verbatim>\<open>fix_fingers\<close>: step down to the next finger, or wrap around to the highest one and
  ask a random well-known node as well.
\<close>

definition advance_fix_finger :: "env \<Rightarrow> ChordServer \<Rightarrow> chordID \<Rightarrow> Finger \<Rightarrow> ChordServer res" where
  "advance_fix_finger E srv ident succ =
     (if id_is_between ident (s_id srv) (f_id succ) \<or> to_fix_finger srv = 0 then
        let srv = next_random (srv\<lparr>to_fix_finger := NFINGERS - 1\<rparr>);
            num_well_known = length (well_known srv)
        in if num_well_known > 0
           then fs_to_nth E (random E (rnd_calls srv) mod num_well_known) 0 (well_known srv) (next_random srv)
           else Inr srv
      else Inr (srv\<lparr>to_fix_finger := to_fix_finger srv - 1\<rparr>))"

definition fix_fingers :: "env \<Rightarrow> ChordServer \<Rightarrow> ChordServer res" where
  "fix_fingers E srv =
     (let succ = succ_finger srv in
      fbind (chord_id_successor (s_id srv) (to_fix_finger srv)) (\<lambda>ident.
      fbind (chord_id_successor (s_id srv) (NFINGERS - 1)) (\<lambda>to_id.
      fbind (deref succ) (\<lambda>succ.
      fbind (advance_fix_finger E srv ident succ) (\<lambda>srv.
      let f = (case closest_preceding_finger srv to_id False of None \<Rightarrow> succ | Some f \<Rightarrow> f) in
      fbind (send_fs E srv DEF_TTL (f_addr f) (f_port f) (s_addr srv) (s_port srv)) (\<lambda>srv.
      if to_fix_finger srv = NFINGERS - 1 \<and> flist srv \<noteq> []
      then send_fs E (next_random srv) DEF_TTL (f_addr f) (f_port f) (s_addr srv) (s_port srv)
      else Inr srv))))))"

text \<open>\<^verbatim>\<open>for (f = succ_finger(srv), k = 0; k < to_fix_backup && f->next; k++, f = f->next);\<close>\<close>

fun walk_next :: "ChordServer \<Rightarrow> nat \<Rightarrow> nat \<Rightarrow> nat" where
  "walk_next srv f 0 = f"
| "walk_next srv f (Suc n) = (if Suc f < length (flist srv) then walk_next srv (Suc f) n else f)"

text \<open>The loop over the predecessors: \<open>f\<close> is at index \<open>i\<close>, \<open>left\<close> iterations remain of \<^verbatim>\<open>NPREDECESSORS\<close>.\<close>

fun fix_preds :: "env \<Rightarrow> ChordServer \<Rightarrow> nat \<Rightarrow> nat \<Rightarrow> int \<Rightarrow> nat \<Rightarrow> ChordServer res" where
  "fix_preds E srv succ i k 0 = Inr srv"
| "fix_preds E srv succ 0 k (Suc left) = Inr srv"
| "fix_preds E srv succ (Suc i) k (Suc left) =
     (if length (flist srv) \<le> Suc (Suc i) then fix_preds E srv succ i (k + 1) left
      else if Suc i = succ then Inr srv
      else if k = to_fix_backup srv then
        fbind (finger_idx srv (Suc i)) (\<lambda>f.
        send_fs E (next_random srv) DEF_TTL (f_addr f) (f_port f) (s_addr srv) (s_port srv))
      else fix_preds E srv succ i (k + 1) left)"

definition index_of :: "ChordServer \<Rightarrow> Finger \<Rightarrow> nat" where
  "index_of srv f = length (takeWhile (\<lambda>g. f_id g \<noteq> f_id f) (flist srv))"

definition fix_succs_preds :: "env \<Rightarrow> ChordServer \<Rightarrow> ChordServer res" where
  "fix_succs_preds E srv =
     (case succ_finger srv of
        None \<Rightarrow> Inr srv
      | Some succ \<Rightarrow>
          let i = walk_next srv (index_of srv succ) (nat (to_fix_backup srv)) in
          fbind (finger_idx srv i) (\<lambda>f.
          if length (flist srv) \<le> Suc i then Inr (srv\<lparr>to_fix_backup := 0\<rparr>)
          else
            fbind (chord_id_successor (f_id f) 0) (\<lambda>ident.
            fbind (send_fs E srv DEF_TTL (f_addr f) (f_port f) (s_addr srv) (s_port srv)) (\<lambda>srv.
            fbind (deref (pred_finger srv)) (\<lambda>pred.
            fbind (fix_preds E srv i (index_of srv pred) 0 (nat NPREDECESSORS)) (\<lambda>srv.
            let n = to_fix_backup srv + 1
            in Inr (srv\<lparr>to_fix_backup := (if n \<ge> NSUCCESSORS then 0 else n)\<rparr>)))))))"

subsection \<open>Cleaning the finger list\<close>

text \<open>
  The inner \<^verbatim>\<open>while (1)\<close>: at index \<open>f\<close>, looking for the proper finger of \<open>ident\<close>. The flag of the result tells whether the
  whole function returns.
\<close>

fun clean_inner :: "ChordServer \<Rightarrow> Finger \<Rightarrow> chordID \<Rightarrow> nat \<Rightarrow> (bool \<times> nat \<times> ChordServer) res" where
  "clean_inner srv f_lastsucc ident 0 = Inr (True, 0, srv)"
| "clean_inner srv f_lastsucc ident (Suc i) =
     fbind (finger_idx srv (Suc i)) (\<lambda>f.
     if f_id f = f_id f_lastsucc then Inr (True, Suc i, srv)
     else
       fbind (finger_idx srv i) (\<lambda>prev.
       if id_is_between (f_id prev) ident (f_id f) \<or> id_equals (f_id prev) ident
       then clean_inner (remove_finger srv f) f_lastsucc ident i
       else Inr (False, i, srv)))"

text \<open>The outer loop, for \<^verbatim>\<open>k = n - 1\<close> down to 0.\<close>

fun clean_outer :: "ChordServer \<Rightarrow> Finger \<Rightarrow> Finger \<Rightarrow> nat \<Rightarrow> nat \<Rightarrow> ChordServer res" where
  "clean_outer srv f_lastsucc f_lastpred i 0 = Inr srv"
| "clean_outer srv f_lastsucc f_lastpred i (Suc k) =
     fbind (finger_idx srv i) (\<lambda>f.
     if f_id f = f_id f_lastsucc then Inr srv
     else
       fbind (chord_id_successor (s_id srv) (int k)) (\<lambda>ident.
       if id_is_between ident (f_id f_lastpred) (s_id srv) \<or> id_equals ident (f_id f_lastpred)
       then clean_outer srv f_lastsucc f_lastpred i k
       else if id_is_between ident (s_id srv) (f_id f_lastsucc) \<or> id_equals ident (s_id srv)
       then Inr srv
       else if id_is_between (f_id f) (s_id srv) ident
       then clean_outer srv f_lastsucc f_lastpred i k
       else
         fbind (clean_inner srv f_lastsucc ident i) (\<lambda>(stop, i, srv).
         if stop then Inr srv else clean_outer srv f_lastsucc f_lastpred i k)))"

text \<open>
  The walk from the tail over \<^verbatim>\<open>NPREDECESSORS - 1\<close> fingers; \<open>None\<close> when it meets the last successor.
\<close>

fun skip_preds :: "ChordServer \<Rightarrow> Finger \<Rightarrow> nat \<Rightarrow> nat \<Rightarrow> nat option res" where
  "skip_preds srv f_lastsucc i 0 = Inr (Some i)"
| "skip_preds srv f_lastsucc i (Suc left) =
     fbind (finger_idx srv i) (\<lambda>f.
     if f_id f = f_id f_lastsucc then Inr None
     else if i = 0 then Inl Null_deref
     else skip_preds srv f_lastsucc (i - 1) left)"

definition clean_finger_list :: "ChordServer \<Rightarrow> ChordServer res" where
  "clean_finger_list srv =
     (let n = length (flist srv); ls = nat (NSUCCESSORS - 1) in
      if n \<le> ls \<or> n \<le> Suc ls then Inr srv
      else
        fbind (finger_idx srv ls) (\<lambda>f_lastsucc.
        fbind (skip_preds srv f_lastsucc (n - 1) (nat (NPREDECESSORS - 1))) (\<lambda>r.
        case r of
          None \<Rightarrow> Inr srv
        | Some lp \<Rightarrow>
            fbind (finger_idx srv lp) (\<lambda>f_lastpred.
            if lp = 0 then Inl Null_deref
            else clean_outer srv f_lastsucc f_lastpred (lp - 1) (nat NFINGERS)))))"

subsection \<open>One round\<close>

definition CHORD_CLEAN_PERIOD :: int where
  [simp]: "CHORD_CLEAN_PERIOD = 60"

definition PERIOD_PING_PRED :: int where
  [simp]: "PERIOD_PING_PRED = 5"

text \<open>
  \<^verbatim>\<open>stabilize\<close>, the handler of the stabilization timer. \<open>idx\<close> is the static round counter of the process.
\<close>

definition stabilize :: "env \<Rightarrow> int \<Rightarrow> ChordServer \<Rightarrow> (int \<times> ChordServer) res" where
  "stabilize E idx srv =
     (if flist srv = [] then fbind (contact_well_known E srv) (\<lambda>srv. Inr (idx, srv))
      else
        fbind (ping E srv) (\<lambda>srv.
        case succ_finger srv of
          None \<Rightarrow> Inr (idx, srv)
        | Some succ \<Rightarrow>
            fbind (send_stab E srv (f_addr succ) (f_port succ) (s_addr srv) (s_port srv)) (\<lambda>srv.
            fbind (if idx mod PERIOD_PING_PRED = 0 then
                     case pred_finger srv of
                       None \<Rightarrow> Inl Assert_failed
                     | Some pred \<Rightarrow> send_ping E srv (f_addr pred) (f_port pred) (get_current_time E srv)
                   else Inr srv) (\<lambda>srv.
            fbind (fix_succs_preds E srv) (\<lambda>srv.
            fbind (fix_fingers E srv) (\<lambda>srv.
            if idx = 2 ^ 31 - 1 then Inl Signed_overflow
            else
              fbind (if idx mod CHORD_CLEAN_PERIOD = 0 then clean_finger_list srv else Inr srv) (\<lambda>srv.
              Inr (idx + 1, srv))))))))"

subsection \<open>Invariant\<close>

lemma send_inv:
  assumes "srv_inv E srv"
  shows "returns (srv_inv E) (send_fs E srv ttl a p b q)" "returns (srv_inv E) (send_ping E srv a p t)"
    "returns (srv_inv E) (send_stab E srv a p b q)" "returns (srv_inv E) (send_addr_discover E srv a p)"
  using assms sent_srv_inv [OF send_sent(4)] sent_srv_inv [OF send_sent(10)] sent_srv_inv [OF send_sent(7)]
    sent_srv_inv [OF send_sent(1)]
  by (simp_all add: returns_iff)

lemma remove_finger_srv_inv:
  assumes "srv_inv E srv" and "f \<in> set (flist srv)"
  shows "srv_inv E (remove_finger srv f)"
  using remove_finger_inv [OF srv_invD(1) [OF assms(1)] assms(2)] assms(1)
  by (auto simp: srv_inv_def remove_finger_eq [OF srv_invD(1) [OF assms(1)]] config_ok_def ids_ok_def)

lemma random_srv_inv [simp]: "srv_inv E (next_random srv) = srv_inv E srv"
  by (simp add: next_random_def srv_inv_def table_inv_def ids_ok_def config_ok_def)

lemma send_to_all_inv:
  assumes "\<And>srv node. srv_inv E srv \<Longrightarrow> returns (srv_inv E) (send srv node)"
  shows "srv_inv E srv \<Longrightarrow> returns (srv_inv E) (send_to_all send nodes srv)"
proof (induction nodes arbitrary: srv)
  case (Cons node nodes)
  then show ?case by (auto intro!: returns_bindI [OF assms])
qed simp

lemma discover_addr_inv: "srv_inv E srv \<Longrightarrow> returns (srv_inv E) (discover_addr E srv)"
  unfolding discover_addr_def by (rule returns_if) (auto intro!: send_to_all_inv send_inv)

lemma contact_well_known_inv: "srv_inv E srv \<Longrightarrow> returns (srv_inv E) (contact_well_known E srv)"
  unfolding contact_well_known_def by (rule send_to_all_inv) (auto intro!: returns_bindI [OF send_inv(1)] send_inv)

lemma upd_npings_srv_inv:
  assumes "srv_inv E srv"
  shows "srv_inv E (upd_finger i (\<lambda>g. g\<lparr>f_npings := f_npings g + 1\<rparr>) srv)"
proof -
  have "table_inv (upd_finger i (\<lambda>g. g\<lparr>f_npings := f_npings g + 1\<rparr>) srv)"
    using srv_invD(1) [OF assms] by (intro upd_finger_inv) (auto dest: table_invD(3) simp: wf_finger_def)
  then show ?thesis
    using assms by (auto simp: srv_inv_def upd_finger_def config_ok_def ids_ok_def)
qed

lemma ping_loop_inv:
  assumes "srv_inv E srv" and "set fs \<subseteq> set (flist srv)" and "distinct (map f_id fs)"
  shows "returns (\<lambda>(p, srv'). srv_inv E srv') (ping_loop E fs i p srv)"
  using assms
proof (induction E fs i p srv rule: ping_loop.induct)
  case (2 E f fs i p srv)
  have f: "f \<in> set (flist srv)" and others: "\<And>g. g \<in> set fs \<Longrightarrow> f_id g \<noteq> f_id f \<and> g \<in> set (flist srv)"
    using "2.prems"(2,3) by (auto simp: image_iff)
  show ?case
  proof (cases "f_npings f \<ge> PING_THRESH")
    case True
    have "set fs \<subseteq> set (flist (remove_finger srv f))"
      using others by (auto simp: remove_finger_eq [OF srv_invD(1) [OF "2.prems"(1)]])
    then show ?thesis
      using True "2.IH"(1) [OF True] remove_finger_srv_inv [OF "2.prems"(1) f] "2.prems"(3) by (auto intro!: returns_bind_any)
  next
    case False
    define srv1 where "srv1 = upd_finger (f_id f) (\<lambda>g. g\<lparr>f_npings := f_npings g + 1\<rparr>) srv"
    have srv1: "srv_inv E srv1" unfolding srv1_def by (rule upd_npings_srv_inv [OF "2.prems"(1)])
    have "set fs \<subseteq> set (flist srv1)" using others by (force simp: srv1_def upd_finger_def)
    then have "returns (\<lambda>srv2. srv_inv E srv2 \<and> set fs \<subseteq> set (flist srv2)) (send_ping E srv1 (f_addr f) (f_port f) t)" for t
      using srv1 sent_srv_inv [OF send_sent(10)] send_sent(10) by (fastforce simp: returns_iff sent_def)
    then show ?thesis
      using False "2.IH"(2) [OF False] "2.IH"(3) [OF False] "2.prems"(1,3) others
      by (auto simp: srv1_def [symmetric] Let_def intro!: returns_bindI)
  qed
qed simp

lemma to_ping_srv_inv [simp]: "0 \<le> k \<Longrightarrow> srv_inv E srv \<Longrightarrow> srv_inv E (srv\<lparr>to_ping := k\<rparr>)"
  by (simp add: srv_inv_def table_inv_def ids_ok_def config_ok_def)

lemma to_ping_inc_srv_inv [simp]: "srv_inv E srv \<Longrightarrow> srv_inv E (srv\<lparr>to_ping := to_ping srv + 1\<rparr>)"
  by (frule srv_invD(2)) (simp add: config_ok_def)

lemma ping_inv: "srv_inv E srv \<Longrightarrow> returns (srv_inv E) (ping E srv)"
  unfolding ping_def
  by (rule returns_bindI [OF ping_loop_inv])
    (auto dest: srv_invD(1,2) intro!: returns_option ring_sorted_distinct [OF table_invD(4)] simp: config_ok_def)

lemma counters_srv_inv:
  "srv_inv E srv \<Longrightarrow> 0 \<le> k \<Longrightarrow> k < 160 \<Longrightarrow> srv_inv E (srv\<lparr>to_fix_finger := k\<rparr>)"
  "srv_inv E srv \<Longrightarrow> 0 \<le> k \<Longrightarrow> k < 8 \<Longrightarrow> srv_inv E (srv\<lparr>to_fix_backup := k\<rparr>)"
  by (simp_all add: srv_inv_def table_inv_def ids_ok_def config_ok_def)

lemma fs_to_nth_inv: "srv_inv E srv \<Longrightarrow> returns (srv_inv E) (fs_to_nth E r i nodes srv)"
proof (induction nodes arbitrary: i srv)
  case (Cons node nodes)
  have "returns (srv_inv E) (if Suc i = r then send_fs E srv DEF_TTL (n_addr node) (n_port node) (s_addr srv) (s_port srv) else Inr srv)"
    using Cons.prems by (auto intro: send_inv)
  then show ?case unfolding fs_to_nth.simps by (rule returns_bindI) (rule Cons.IH)
qed simp

lemma advance_fix_finger_inv:
  assumes "srv_inv E srv"
  shows "returns (srv_inv E) (advance_fix_finger E srv ident succ)"
proof -
  have "0 \<le> to_fix_finger srv" "to_fix_finger srv < 160" using srv_invD(2) [OF assms] by (simp_all add: config_ok_def)
  then show ?thesis
    using assms counters_srv_inv(1) [OF assms] by (auto simp: advance_fix_finger_def Let_def intro!: fs_to_nth_inv)
qed

lemma fix_fingers_inv:
  assumes "srv_inv E srv"
  shows "returns (srv_inv E) (fix_fingers E srv)"
proof -
  have rest: "returns (srv_inv E) (fbind (send_fs E s DEF_TTL a p (s_addr s) (s_port s)) (\<lambda>srv.
      if to_fix_finger srv = NFINGERS - 1 \<and> flist srv \<noteq> []
      then send_fs E (next_random srv) DEF_TTL a p (s_addr srv) (s_port srv) else Inr srv))" if "srv_inv E s" for s a p
    by (rule returns_bindI [OF send_inv(1) [OF that]]) (auto intro!: returns_if send_inv)
  show ?thesis
    unfolding fix_fingers_def Let_def
    by (rule returns_bind_any, rule returns_bind_any, rule returns_bind_any,
        rule returns_bindI [OF advance_fix_finger_inv [OF assms]]) (rule rest)
qed

lemma fix_preds_inv: "srv_inv E srv \<Longrightarrow> returns (srv_inv E) (fix_preds E srv succ i k n)"
  by (induction E srv succ i k n rule: fix_preds.induct) (auto intro!: returns_bind_any send_inv)

lemma fix_succs_preds_inv:
  assumes "srv_inv E srv"
  shows "returns (srv_inv E) (fix_succs_preds E srv)"
proof -
  have inc: "srv_inv E (s\<lparr>to_fix_backup := (if to_fix_backup s + 1 \<ge> NSUCCESSORS then 0 else to_fix_backup s + 1)\<rparr>)"
    if "srv_inv E s" for s
    using that srv_invD(2) [OF that] by (auto intro!: counters_srv_inv simp: config_ok_def)
  have "returns (srv_inv E) (fbind (fix_preds E s i j 0 n) (\<lambda>srv. Inr (srv\<lparr>to_fix_backup :=
      (if to_fix_backup srv + 1 \<ge> NSUCCESSORS then 0 else to_fix_backup srv + 1)\<rparr>)))" if "srv_inv E s" for s i j n
    by (rule returns_bindI [OF fix_preds_inv [OF that]]) (use inc in simp)
  then have rest: "returns (srv_inv E) (fbind (send_fs E srv DEF_TTL a p (s_addr srv) (s_port srv)) (\<lambda>srv.
      fbind (deref (pred_finger srv)) (\<lambda>pred. fbind (fix_preds E srv i (index_of srv pred) 0 n) (\<lambda>srv. Inr (srv\<lparr>to_fix_backup :=
        (if to_fix_backup srv + 1 \<ge> NSUCCESSORS then 0 else to_fix_backup srv + 1)\<rparr>)))))" for a p i n
    by (intro returns_bindI [OF send_inv(1) [OF assms]] returns_bindI [OF returns_deref])
  show ?thesis
    unfolding fix_succs_preds_def Let_def using assms counters_srv_inv(2) [OF assms, of 0]
    by (intro returns_option returns_bindI [OF returns_triv] returns_if rest) simp_all
qed

subsection \<open>What cleaning keeps\<close>

lemma finger_idx_Inr [simp]: "i < length (flist srv) \<Longrightarrow> finger_idx srv i = Inr (flist srv ! i)"
  by (simp add: finger_idx_def)

lemma remove_nth:
  assumes "table_inv srv" and "i < length (flist srv)"
  shows "flist (remove_finger srv (flist srv ! i)) = take i (flist srv) @ drop (Suc i) (flist srv)"
proof -
  let ?fs = "flist srv"
  have d: "distinct (map f_id ?fs)" by (rule ring_sorted_distinct [OF table_invD(4) [OF assms(1)]])
  have split: "?fs = take i ?fs @ ?fs ! i # drop (Suc i) ?fs" by (rule id_take_nth_drop [OF assms(2)])
  have "distinct (map f_id (take i ?fs @ ?fs ! i # drop (Suc i) ?fs))" using d split by simp
  then have "f_id (?fs ! i) \<notin> f_id ` set (take i ?fs)" "f_id (?fs ! i) \<notin> f_id ` set (drop (Suc i) ?fs)" by auto
  then have "filter (\<lambda>g. f_id g \<noteq> f_id (?fs ! i)) (take i ?fs @ ?fs ! i # drop (Suc i) ?fs) = take i ?fs @ drop (Suc i) ?fs"
    by (simp add: filter_other_ids)
  then show ?thesis using split by (simp add: remove_finger_eq [OF assms(1)])
qed

lemma same_index:
  assumes "table_inv srv" and "i < length (flist srv)" and "j < length (flist srv)"
  shows "f_id (flist srv ! i) = f_id (flist srv ! j) \<longleftrightarrow> i = j"
  using nth_eq_iff_index_eq [OF ring_sorted_distinct [OF table_invD(4) [OF assms(1)]], of i j] assms(2,3) by simp

lemma clean_inner_spec:
  assumes "srv_inv E srv" and "i < length (flist srv)" and "ls \<le> i"
  shows "succeeds (\<lambda>(stop, i', srv'). srv_inv E srv' \<and> s_node srv' = s_node srv \<and> ls \<le> i' \<and> i' \<le> i \<and>
      (\<exists>mid. set mid \<subseteq> set (flist srv) \<and> flist srv' = take (Suc i') (flist srv) @ mid @ drop (Suc i) (flist srv)))
    (clean_inner srv (flist srv ! ls) ident i)"
  using assms
proof (induction i arbitrary: srv)
  case 0
  then show ?case by (auto intro!: exI [of _ "[]"])
next
  case (Suc i)
  let ?fs = "flist srv" and ?f = "flist srv ! Suc i"
  have inv: "table_inv srv" by (rule srv_invD(1) [OF Suc.prems(1)])
  have stay: "?fs = take (Suc (Suc i)) ?fs @ [] @ drop (Suc (Suc i)) ?fs" by simp
  show ?case
  proof (cases "f_id ?f = f_id (?fs ! ls)")
    case True
    then show ?thesis using Suc.prems by (auto intro!: exI [of _ "[]"])
  next
    case False
    then have ls: "ls \<le> i" using Suc.prems(3) by (cases "ls = Suc i") auto
    define srv1 where "srv1 = remove_finger srv ?f"
    have fs1: "flist srv1 = take (Suc i) ?fs @ drop (Suc (Suc i)) ?fs"
      unfolding srv1_def by (rule remove_nth [OF inv Suc.prems(2)])
    have srv1: "srv_inv E srv1" "s_node srv1 = s_node srv"
      using remove_finger_srv_inv [OF Suc.prems(1)] Suc.prems(2) table_frameD(1) [OF remove_finger_frame [OF inv]]
      by (simp_all add: srv1_def)
    have len: "i < length (flist srv1)" using Suc.prems(2) by (simp add: fs1)
    have nth: "flist srv1 ! ls = ?fs ! ls" using ls Suc.prems(2) by (simp add: fs1 nth_append)
    have rec: "succeeds (\<lambda>(stop, i', srv'). srv_inv E srv' \<and> s_node srv' = s_node srv \<and> ls \<le> i' \<and> i' \<le> Suc i \<and>
      (\<exists>mid. set mid \<subseteq> set ?fs \<and> flist srv' = take (Suc i') ?fs @ mid @ drop (Suc (Suc i)) ?fs))
      (clean_inner srv1 (?fs ! ls) ident i)"
      using Suc.IH [OF srv1(1) len ls] unfolding nth
    proof (rule succeeds_mono)
      fix r
      assume r: "case r of (stop, i', srv') \<Rightarrow> srv_inv E srv' \<and> s_node srv' = s_node srv1 \<and> ls \<le> i' \<and> i' \<le> i \<and>
        (\<exists>mid. set mid \<subseteq> set (flist srv1) \<and> flist srv' = take (Suc i') (flist srv1) @ mid @ drop (Suc i) (flist srv1))"
      obtain stop i' srv' where r_eq: "r = (stop, i', srv')" by (cases r)
      obtain mid where a: "srv_inv E srv'" "s_node srv' = s_node srv1" "ls \<le> i'" "i' \<le> i" "set mid \<subseteq> set (flist srv1)"
        "flist srv' = take (Suc i') (flist srv1) @ mid @ drop (Suc i) (flist srv1)"
        using r by (auto simp: r_eq)
      have "set (flist srv1) \<subseteq> set ?fs" unfolding fs1 using set_take_subset set_drop_subset by fastforce
      moreover have "take (Suc i') (flist srv1) = take (Suc i') ?fs" "drop (Suc i) (flist srv1) = drop (Suc (Suc i)) ?fs"
        using a(4) Suc.prems(2) by (simp_all add: fs1 min_def)
      ultimately show "case r of (stop, i', srv') \<Rightarrow> srv_inv E srv' \<and> s_node srv' = s_node srv \<and> ls \<le> i' \<and> i' \<le> Suc i \<and>
          (\<exists>mid. set mid \<subseteq> set ?fs \<and> flist srv' = take (Suc i') ?fs @ mid @ drop (Suc (Suc i)) ?fs)"
        using a srv1(2) by (auto simp: r_eq)
    qed
    have "?fs = take (Suc i) ?fs @ [?f] @ drop (Suc (Suc i)) ?fs"
      using id_take_nth_drop [OF Suc.prems(2)] by simp
    then have keep: "\<exists>mid. set mid \<subseteq> set ?fs \<and> ?fs = take (Suc i) ?fs @ mid @ drop (Suc (Suc i)) ?fs"
      using Suc.prems(2) by (intro exI [of _ "[?f]"]) simp
    show ?thesis
      using False rec keep ls Suc.prems by (simp add: srv1_def)
  qed
qed

lemma middle: "ls \<le> i \<Longrightarrow> \<exists>mid. set mid \<subseteq> set fs \<and> fs = take (Suc ls) fs @ mid @ drop (Suc i) fs"
proof -
  assume "ls \<le> i"
  then have "take (Suc i) fs = take (Suc ls) fs @ take (i - ls) (drop (Suc ls) fs)"
    using take_add [of "Suc ls" "i - ls" fs] by simp
  then have "fs = take (Suc ls) fs @ take (i - ls) (drop (Suc ls) fs) @ drop (Suc i) fs"
    by (metis append.assoc append_take_drop_id)
  then show ?thesis
    by (intro exI [of _ "take (i - ls) (drop (Suc ls) fs)"]) (auto dest!: in_set_takeD in_set_dropD)
qed

lemma clean_outer_spec:
  assumes "srv_inv E srv" and "i < length (flist srv)" and "ls \<le> i" and "k \<le> 160"
  shows "succeeds (\<lambda>srv'. srv_inv E srv' \<and>
      (\<exists>mid. set mid \<subseteq> set (flist srv) \<and> flist srv' = take (Suc ls) (flist srv) @ mid @ drop (Suc i) (flist srv)))
    (clean_outer srv (flist srv ! ls) lp i k)"
  using assms
proof (induction k arbitrary: srv i)
  case 0
  then show ?case using middle [of ls i "flist srv"] by simp
next
  case (Suc k)
  let ?fs = "flist srv"
  have stay: "\<exists>mid. set mid \<subseteq> set ?fs \<and> ?fs = take (Suc ls) ?fs @ mid @ drop (Suc i) ?fs"
    by (rule middle [OF Suc.prems(3)])
  obtain ident where ident: "chord_id_successor (s_id srv) (int k) = Inr ident"
    using chord_id_successor_Inr [of "int k" "s_id srv"] Suc.prems(4) by auto
  have IH: "succeeds (\<lambda>srv'. srv_inv E srv' \<and>
      (\<exists>mid. set mid \<subseteq> set ?fs \<and> flist srv' = take (Suc ls) ?fs @ mid @ drop (Suc i) ?fs))
    (clean_outer srv (?fs ! ls) lp i k)"
    using Suc.IH [OF Suc.prems(1-3)] Suc.prems(4) by simp
  have "succeeds (\<lambda>srv'. srv_inv E srv' \<and> (\<exists>mid. set mid \<subseteq> set ?fs \<and> flist srv' = take (Suc ls) ?fs @ mid @ drop (Suc i) ?fs))
      (if stop then Inr srv' else clean_outer srv' (?fs ! ls) lp i' k)"
    if a: "srv_inv E srv'" "ls \<le> i'" "i' \<le> i" "set mid \<subseteq> set ?fs" "flist srv' = take (Suc i') ?fs @ mid @ drop (Suc i) ?fs"
    for stop i' srv' mid
  proof -
    have len: "length (take (Suc i') ?fs) = Suc i'" using a(3) Suc.prems(2) by simp
    have split: "take (Suc i') ?fs = take (Suc ls) ?fs @ take (i' - ls) (drop (Suc ls) ?fs)"
      using a(2) take_add [of "Suc ls" "i' - ls" ?fs] by simp
    have sub: "set (take (i' - ls) (drop (Suc ls) ?fs)) \<subseteq> set ?fs" by (auto dest!: in_set_takeD in_set_dropD)
    have now: "flist srv' = take (Suc ls) ?fs @ (take (i' - ls) (drop (Suc ls) ?fs) @ mid) @ drop (Suc i) ?fs"
      using a(5) split by simp
    have nth: "flist srv' ! ls = ?fs ! ls"
      using a(2) len by (simp add: a(5) nth_append)
    have dr: "drop (Suc i') (flist srv') = mid @ drop (Suc i) ?fs" using len by (simp add: a(5))
    have tk: "take (Suc ls) (flist srv') = take (Suc ls) ?fs" using a(2) len by (simp add: a(5) min_def)
    have len': "i' < length (flist srv')" using len by (simp add: a(5) del: length_take)
    have rec: "succeeds (\<lambda>srv''. srv_inv E srv'' \<and>
        (\<exists>mid2. set mid2 \<subseteq> set (flist srv') \<and> flist srv'' = take (Suc ls) ?fs @ mid2 @ mid @ drop (Suc i) ?fs))
      (clean_outer srv' (?fs ! ls) lp i' k)"
      using Suc.IH [OF a(1) len' a(2)] Suc.prems(4) by (simp add: nth dr tk)
    have sub': "set (flist srv') \<subseteq> set ?fs" using a(4) sub by (auto simp: now dest!: in_set_takeD in_set_dropD)
    have "succeeds (\<lambda>srv'. srv_inv E srv' \<and> (\<exists>mid. set mid \<subseteq> set ?fs \<and> flist srv' = take (Suc ls) ?fs @ mid @ drop (Suc i) ?fs))
        (clean_outer srv' (?fs ! ls) lp i' k)"
      using rec
    proof (rule succeeds_mono, elim conjE exE)
      fix srv'' mid2
      assume b: "srv_inv E srv''" "set mid2 \<subseteq> set (flist srv')" "flist srv'' = take (Suc ls) ?fs @ mid2 @ mid @ drop (Suc i) ?fs"
      then show "srv_inv E srv'' \<and> (\<exists>mid. set mid \<subseteq> set ?fs \<and> flist srv'' = take (Suc ls) ?fs @ mid @ drop (Suc i) ?fs)"
        using sub' a(4) by (auto intro!: exI [of _ "mid2 @ mid"])
    qed
    moreover have "\<exists>mid. set mid \<subseteq> set ?fs \<and> flist srv' = take (Suc ls) ?fs @ mid @ drop (Suc i) ?fs"
      using now sub a(4) by (intro exI [of _ "take (i' - ls) (drop (Suc ls) ?fs) @ mid"]) simp
    ultimately show ?thesis using a(1) by simp
  qed
  then show ?case
    using Suc.prems(1,2) ident IH stay
    by (auto intro!: succeeds_bindI [OF clean_inner_spec [OF Suc.prems(1-3)]])
qed

text \<open>
  When the last kept successor is also the last kept predecessor, every power-of-two identifier lies on one of its two
  sides, so that nothing is removed.
\<close>

lemma clean_outer_same:
  assumes "table_inv srv" and "i < length (flist srv)" and "wf_id (f_id ls)" and "k \<le> 160"
  shows "clean_outer srv ls ls i k = Inr srv"
  using assms(4)
proof (induction k)
  case (Suc k)
  obtain ident where ident: "chord_id_successor (s_id srv) (int k) = Inr ident" "length ident = length (s_id srv)"
    using chord_id_successor_Inr [of "int k" "s_id srv"] Suc.prems by auto
  have wf: "wf_id (s_id srv)" "wf_id ident" using table_invD(1) [OF assms(1)] ident(2) by (simp_all add: wf_id_def)
  have "id_is_between ident (f_id ls) (s_id srv) \<or> id_equals ident (f_id ls) \<or>
      id_is_between ident (s_id srv) (f_id ls) \<or> id_equals ident (s_id srv)"
  proof (cases "f_id ls = s_id srv")
    case True
    then show ?thesis using wf by (auto simp: id_is_between_def id_equals_iff)
  next
    case False
    then show ?thesis
      using ring_off_rotate [OF wf(1) assms(3) wf(2) False] ring_off_inject [OF wf(1) wf(2) assms(3)]
        ring_off_inject [OF assms(3) wf(2,1)] wf assms(3)
      by (auto simp: id_is_between_off id_equals_iff)
  qed
  then show ?case using Suc assms(2) ident(1) by auto
qed simp

lemma clean_finger_list_spec:
  assumes "srv_inv E srv"
  shows "succeeds (\<lambda>srv'. srv_inv E srv' \<and> set (flist srv') \<subseteq> set (flist srv) \<and>
      take 8 (flist srv') = take 8 (flist srv) \<and>
      drop (length (flist srv') - 3) (flist srv') = drop (length (flist srv) - 3) (flist srv))
    (clean_finger_list srv)"
proof -
  let ?fs = "flist srv" and ?n = "length (flist srv)"
  have inv: "table_inv srv" by (rule srv_invD(1) [OF assms])
  have two: "nat (NPREDECESSORS - 1) = Suc (Suc 0)" by simp
  consider "?n \<le> 8" | "?n = 9" | "?n = 10" | "11 \<le> ?n" by linarith
  then show ?thesis
  proof cases
    case 1
    then show ?thesis using assms by (simp add: clean_finger_list_def Let_def)
  next
    case 2
    then show ?thesis
      using assms same_index [OF inv, of 8 7] by (simp add: clean_finger_list_def Let_def two del: NPREDECESSORS_def)
  next
    case 3
    have "wf_id (f_id (?fs ! 7))" using 3 by (intro wf_fingerD(1) table_invD(3) [OF inv]) simp
    then show ?thesis
      using 3 assms same_index [OF inv, of 9 7] same_index [OF inv, of 8 7] clean_outer_same [OF inv, of 6 "?fs ! 7" 160]
      by (simp add: clean_finger_list_def Let_def two del: NPREDECESSORS_def)
  next
    case 4
    define m where "m = ?n - 4"
    have m: "?n = m + 4" "7 \<le> m" using 4 by (simp_all add: m_def)
    have "skip_preds srv (?fs ! 7) (3 + m) (Suc (Suc 0)) = Inr (Some (m + 1))"
      using m same_index [OF inv, of "3 + m" 7] same_index [OF inv, of "m + 2" 7] by simp
    then have "clean_finger_list srv = clean_outer srv (?fs ! 7) (?fs ! (m + 1)) m 160"
      using m by (simp add: clean_finger_list_def Let_def two del: NPREDECESSORS_def skip_preds.simps)
    moreover have "succeeds (\<lambda>srv'. srv_inv E srv' \<and>
      (\<exists>mid. set mid \<subseteq> set ?fs \<and> flist srv' = take (Suc 7) ?fs @ mid @ drop (Suc m) ?fs))
      (clean_outer srv (?fs ! 7) (?fs ! (m + 1)) m 160)"
      using m by (intro clean_outer_spec [OF assms]) simp_all
    ultimately have "succeeds (\<lambda>srv'. srv_inv E srv' \<and>
      (\<exists>mid. set mid \<subseteq> set ?fs \<and> flist srv' = take 8 ?fs @ mid @ drop (?n - 3) ?fs)) (clean_finger_list srv)"
      using m(1) by simp
    then show ?thesis
    proof (rule succeeds_mono, elim conjE exE)
      fix srv' mid
      assume a: "srv_inv E srv'" "set mid \<subseteq> set ?fs" "flist srv' = take 8 ?fs @ mid @ drop (?n - 3) ?fs"
      have "length (flist srv') - 3 = length (take 8 ?fs @ mid)" using 4 by (simp add: a(3))
      then have "drop (length (flist srv') - 3) (flist srv') = drop (?n - 3) ?fs"
        unfolding a(3) by (metis append.assoc append_eq_conv_conj)
      moreover have "set (flist srv') \<subseteq> set ?fs" using a(2) by (auto simp: a(3) dest!: in_set_takeD in_set_dropD)
      ultimately show "srv_inv E srv' \<and> set (flist srv') \<subseteq> set ?fs \<and> take 8 (flist srv') = take 8 ?fs \<and>
          drop (length (flist srv') - 3) (flist srv') = drop (?n - 3) ?fs"
        using a(1,3) 4 by simp
    qed
  qed
qed

lemma clean_inv: "srv_inv E srv \<Longrightarrow> returns (srv_inv E) (clean_finger_list srv)"
  using clean_finger_list_spec by (fastforce simp: returns_iff succeeds_iff)

lemma stabilize_inv:
  assumes "srv_inv E srv"
  shows "returns (\<lambda>(idx', srv'). srv_inv E srv') (stabilize E idx srv)"
proof -
  have last: "returns (\<lambda>(idx', srv'). srv_inv E srv') (if idx = 2 ^ 31 - 1 then Inl Signed_overflow else
      fbind (if b then clean_finger_list s else Inr s) (\<lambda>srv. Inr (idx + 1, srv)))" if "srv_inv E s" for b s
    using clean_inv [OF that] that by (auto intro!: returns_bindI [of "srv_inv E"])
  have png: "returns (srv_inv E) (if b then case pred_finger s of None \<Rightarrow> Inl Assert_failed
      | Some pred \<Rightarrow> send_ping E s (f_addr pred) (f_port pred) (get_current_time E s) else Inr s)" if "srv_inv E s" for b s
    using send_inv(2) [OF that] that by (auto intro!: returns_option)
  show ?thesis
    unfolding stabilize_def
    by (intro returns_if returns_bindI [OF contact_well_known_inv [OF assms]] returns_bindI [OF ping_inv [OF assms]] returns_option)
      (auto intro!: returns_bindI [OF send_inv(3)] returns_bindI [OF png] returns_bindI [OF fix_succs_preds_inv]
        returns_bindI [OF fix_fingers_inv] last [simplified])
qed

subsection \<open>What a round of pings does\<close>

text \<open>The list after the round, given the number that is next in turn: who did not answer five times goes, who owes an answer or is next in turn
  is pinged once more.\<close>

fun pinged :: "int \<Rightarrow> int \<Rightarrow> Finger list \<Rightarrow> Finger list" where
  "pinged turn i [] = []"
| "pinged turn i (f # fs) =
     (if f_npings f \<ge> 5 then pinged turn (i + 1) fs
      else (if f_npings f \<noteq> 0 \<or> turn = i then f\<lparr>f_npings := f_npings f + 1\<rparr> else f) # pinged turn (i + 1) fs)"

text \<open>Who is pinged, in the order of the list, and the packets: each carries a new ticket for its receiver and the time it is sent.\<close>

fun ping_targets :: "int \<Rightarrow> int \<Rightarrow> Finger list \<Rightarrow> Node list" where
  "ping_targets turn i [] = []"
| "ping_targets turn i (f # fs) =
     (if f_npings f < 5 \<and> (f_npings f \<noteq> 0 \<or> turn = i) then [f_node f] else []) @ ping_targets turn (i + 1) fs"

definition ping_message :: "env \<Rightarrow> ChordServer \<Rightarrow> Node \<Rightarrow> message" where
  "ping_message E srv n = (let t = get_current_time E srv in
     M_Ping \<lparr>ping_has_ticket = True, ping_ticket = ticket_for E srv (ping_params (n_addr n) (n_port n) t), ping_time = t\<rparr>)"

fun pings_to :: "env \<Rightarrow> ChordServer \<Rightarrow> Node list \<Rightarrow> ChordServer" where
  "pings_to E srv [] = srv"
| "pings_to E srv (n # ns) = pings_to E (post E srv (n_addr n) (n_port n) CHORD_PING (ping_message E srv n)) ns"

lemma pings_to_cong:
  assumes "outbox srv' = outbox srv" "sock srv' = sock srv" "send_func srv' = send_func srv" "ticket_salt srv' = ticket_salt srv" "ticket_hash_len srv' = ticket_hash_len srv"
  shows "outbox (pings_to E srv' ns) = outbox (pings_to E srv ns)"
  using assms
proof (induction ns arbitrary: srv srv')
  case (Cons n ns)
  have "dest_of E srv' (n_addr n) (n_port n) = dest_of E srv (n_addr n) (n_port n)" "ping_message E srv' n = ping_message E srv n"
    using Cons.prems by (simp_all add: dest_of_def ping_message_def ticket_for_def get_current_time_def)
  then show ?case unfolding pings_to.simps by (intro Cons.IH) (use Cons.prems in \<open>simp_all add: post_def\<close>)
qed simp

lemma pings_to_outbox: "\<exists>ds. outbox (pings_to E srv ns) = outbox srv @ ds \<and> length ds = length ns"
proof (induction ns arbitrary: srv)
  case (Cons n ns)
  obtain ds where "outbox (pings_to E (post E srv (n_addr n) (n_port n) CHORD_PING (ping_message E srv n)) ns) =
      outbox (post E srv (n_addr n) (n_port n) CHORD_PING (ping_message E srv n)) @ ds" "length ds = length ns" using Cons.IH by blast
  then show ?case by (auto simp: post_def)
qed simp

text \<open>The finger whose turn it is, if it is pinged.\<close>

fun turn_finger :: "int \<Rightarrow> int \<Rightarrow> Finger list \<Rightarrow> Finger option" where
  "turn_finger turn i [] = None"
| "turn_finger turn i (f # fs) = (if turn = i then (if f_npings f < 5 then Some f else None) else turn_finger turn (i + 1) fs)"

lemma turn_finger_past: "turn < i \<Longrightarrow> turn_finger turn i fs = None"
  by (induction fs arbitrary: i) auto

definition pingable :: "env \<Rightarrow> ChordServer \<Rightarrow> bool" where
  "pingable E srv \<longleftrightarrow> (\<forall>f \<in> set (flist srv). can_send srv (f_addr f) \<and> ntop_fits E (f_addr f) = Inr ()) \<and>
     ntop_fits E (s_addr srv) = Inr ()"

lemma ping_loop_spec:
  assumes "env_ok E" and "srv_inv E srv" and "flist srv = ds @ fs" and "send_func srv = sf" and "s_node srv = nd"
    and "\<forall>f \<in> set fs. (sf = Send_raw_v6 \<or> sf = Send_raw_v4 \<and> V4_MAPPED (f_addr f)) \<and> ntop_fits E (f_addr f) = Inr ()"
    and "ntop_fits E (n_addr nd) = Inr ()"
  shows "succeeds (\<lambda>(p', srv'). srv_inv E srv' \<and> flist srv' = ds @ pinged (to_ping srv) i fs \<and> to_ping srv' = to_ping srv \<and>
      p' = (case turn_finger (to_ping srv) i fs of None \<Rightarrow> p | Some f \<Rightarrow> Some (f_id f)) \<and>
      outbox srv' = outbox (pings_to E srv (ping_targets (to_ping srv) i fs))) (ping_loop E fs i p srv)"
  using assms
proof (induction fs arbitrary: ds i p srv)
  case (Cons f fs)
  have inv: "table_inv srv" by (rule srv_invD(1) [OF Cons.prems(2)])
  have f: "f \<in> set (flist srv)" "flist srv ! length ds = f" "length ds < length (flist srv)"
    using Cons.prems(3) by (simp_all add: nth_append)
  have d: "f_id g \<noteq> f_id f" if "g \<in> set ds \<union> set fs" for g
    using ring_sorted_distinct [OF table_invD(4) [OF inv]] that Cons.prems(3) by (auto simp: image_iff)
  have cs: "can_send srv (f_addr f)" using Cons.prems(4,6) by (auto simp: can_send_def)
  have past: "turn_finger (to_ping srv) (i + 1) fs = None" if "to_ping srv = i" using that by (simp add: turn_finger_past)
  show ?case
  proof (cases "f_npings f \<ge> 5")
    case True
    define srv1 where "srv1 = remove_finger srv f"
    note frame = table_frameD [OF remove_finger_frame [OF inv], of f]
    have "flist srv1 = ds @ fs" using remove_nth [OF inv f(3)] f(2) Cons.prems(3) by (simp add: srv1_def)
    moreover have "srv_inv E srv1" unfolding srv1_def by (rule remove_finger_srv_inv [OF Cons.prems(2) f(1)])
    moreover have sel: "send_func srv1 = send_func srv" "s_node srv1 = s_node srv" "to_ping srv1 = to_ping srv" "outbox srv1 = outbox srv"
      "sock srv1 = sock srv" "ticket_salt srv1 = ticket_salt srv" "ticket_hash_len srv1 = ticket_hash_len srv"
      using frame by (simp_all add: srv1_def)
    ultimately have "succeeds (\<lambda>(p', srv'). srv_inv E srv' \<and> flist srv' = ds @ pinged (to_ping srv) (i + 1) fs \<and> to_ping srv' = to_ping srv \<and>
        p' = (case turn_finger (to_ping srv) (i + 1) fs of None \<Rightarrow> p | Some f \<Rightarrow> Some (f_id f)) \<and>
        outbox srv' = outbox (pings_to E srv1 (ping_targets (to_ping srv) (i + 1) fs))) (ping_loop E fs (i + 1) p srv1)"
      using Cons.IH [OF Cons.prems(1), of srv1 ds "i + 1" p] Cons.prems(4-7) by simp
    moreover have "outbox (pings_to E srv1 ns) = outbox (pings_to E srv ns)" for ns using sel by (intro pings_to_cong) simp_all
    ultimately show ?thesis using True Cons.prems(5,6,7) past by (auto simp: srv1_def [symmetric])
  next
    case False
    show ?thesis
    proof (cases "f_npings f \<noteq> 0 \<or> to_ping srv = i")
      case True
      define f1 where "f1 = f\<lparr>f_npings := f_npings f + 1\<rparr>"
      define srv1 where "srv1 = upd_finger (f_id f) (\<lambda>g. g\<lparr>f_npings := f_npings g + 1\<rparr>) srv"
      have fs1: "flist srv1 = (ds @ [f1]) @ fs"
      proof -
        have "map (\<lambda>g. if f_id g = f_id f then g\<lparr>f_npings := f_npings g + 1\<rparr> else g) xs = xs" if "set xs \<subseteq> set ds \<union> set fs" for xs
          using d that by (intro map_idI) auto
        from this [of ds] this [of fs] show ?thesis by (simp add: srv1_def f1_def upd_finger_def Cons.prems(3))
      qed
      have sel: "send_func srv1 = send_func srv" "s_node srv1 = s_node srv" "to_ping srv1 = to_ping srv" "outbox srv1 = outbox srv"
        "sock srv1 = sock srv" "ticket_salt srv1 = ticket_salt srv" "ticket_hash_len srv1 = ticket_hash_len srv"
        by (simp_all add: srv1_def upd_finger_def)
      have inv1: "srv_inv E srv1" unfolding srv1_def by (rule upd_npings_srv_inv [OF Cons.prems(2)])
      define srv2 where "srv2 = post E srv1 (f_addr f) (f_port f) CHORD_PING (ping_message E srv1 (f_node f))"
      have sp: "send_ping E srv1 (f_addr f) (f_port f) (get_current_time E srv1) = Inr srv2"
        using send_ping_total [OF Cons.prems(1) srv_invD(2) [OF inv1], of "f_addr f" "f_port f" "get_current_time E srv1"] cs sel(1)
        by (simp add: can_send_def srv2_def ping_message_def Let_def)
      have inv2: "srv_inv E srv2" using inv1 sent_srv_inv [OF sent_post] by (simp add: srv2_def)
      have sel2: "flist srv2 = (ds @ [f1]) @ fs" "send_func srv2 = sf" "s_node srv2 = nd" "to_ping srv2 = to_ping srv"
        using fs1 sel Cons.prems(4,5) by (simp_all add: srv2_def)
      have same: "outbox (pings_to E srv2 ns) = outbox (pings_to E srv (f_node f # ns))" for ns
        using pings_to_cong [OF sel(4,5,1,6,7), of E "f_node f # ns"] by (simp add: srv2_def)
      have "succeeds (\<lambda>(p', srv'). srv_inv E srv' \<and> flist srv' = (ds @ [f1]) @ pinged (to_ping srv) (i + 1) fs \<and> to_ping srv' = to_ping srv \<and>
          p' = (case turn_finger (to_ping srv) (i + 1) fs of None \<Rightarrow> q | Some f \<Rightarrow> Some (f_id f)) \<and>
          outbox srv' = outbox (pings_to E srv2 (ping_targets (to_ping srv) (i + 1) fs))) (ping_loop E fs (i + 1) q srv2)" for q
        using Cons.IH [OF Cons.prems(1) inv2 sel2(1-3), of "i + 1" q] Cons.prems(6,7) sel2(4) by simp
      from this [of "Some (f_id f)"] this [of p] show ?thesis
        using False True sp past sel2(4) by (auto simp: srv1_def [symmetric] f1_def Let_def same simp del: pings_to.simps)
    next
      case False': False
      have "succeeds (\<lambda>(p', srv'). srv_inv E srv' \<and> flist srv' = (ds @ [f]) @ pinged (to_ping srv) (i + 1) fs \<and> to_ping srv' = to_ping srv \<and>
          p' = (case turn_finger (to_ping srv) (i + 1) fs of None \<Rightarrow> p | Some f \<Rightarrow> Some (f_id f)) \<and>
          outbox srv' = outbox (pings_to E srv (ping_targets (to_ping srv) (i + 1) fs))) (ping_loop E fs (i + 1) p srv)"
        using Cons.IH [OF Cons.prems(1,2), of "ds @ [f]" "i + 1" p] Cons.prems(3-7) by simp
      then show ?thesis using False False' by simp
    qed
  qed
qed simp

text \<open>
  C19. A round of pings. On a server that satisfies the invariant, can send to the addresses of its fingers, and whose own and whose fingers' addresses fit as text into the short
  buffers of \<^verbatim>\<open>ping\<close>, the round succeeds. Exactly the fingers with five unanswered pings are dropped, in place; those that owe an answer or are next in turn count one more. Each of these,
  in the order of the list, is sent one ping with a new ticket for its address and the current time, and nothing else is sent. The turn passes to the next finger if the one in turn was pinged and is not the last, and back to
  the first otherwise.
\<close>

theorem ping_round:
  assumes "env_ok E" and "srv_inv E srv" and "pingable E srv"
  shows "\<exists>srv'. ping E srv = Inr srv' \<and> srv_inv E srv' \<and> flist srv' = pinged (to_ping srv) 0 (flist srv) \<and>
    outbox srv' = outbox (pings_to E srv (ping_targets (to_ping srv) 0 (flist srv))) \<and>
    to_ping srv' = (case turn_finger (to_ping srv) 0 (flist srv) of
       None \<Rightarrow> 0 | Some f \<Rightarrow> if f_id (last (flist srv')) = f_id f then 0 else to_ping srv + 1)"
proof -
  have "succeeds (\<lambda>(p', srv'). srv_inv E srv' \<and> flist srv' = [] @ pinged (to_ping srv) 0 (flist srv) \<and> to_ping srv' = to_ping srv \<and>
      p' = (case turn_finger (to_ping srv) 0 (flist srv) of None \<Rightarrow> None | Some f \<Rightarrow> Some (f_id f)) \<and>
      outbox srv' = outbox (pings_to E srv (ping_targets (to_ping srv) 0 (flist srv)))) (ping_loop E (flist srv) 0 None srv)"
    using assms(3) by (intro ping_loop_spec [OF assms(1,2)]) (auto simp: pingable_def can_send_def)
  then obtain p' srv' where loop: "ping_loop E (flist srv) 0 None srv = Inr (p', srv')" "srv_inv E srv'"
      "flist srv' = pinged (to_ping srv) 0 (flist srv)" "to_ping srv' = to_ping srv"
      "p' = (case turn_finger (to_ping srv) 0 (flist srv) of None \<Rightarrow> None | Some f \<Rightarrow> Some (f_id f))"
      "outbox srv' = outbox (pings_to E srv (ping_targets (to_ping srv) 0 (flist srv)))"
    by (auto simp: succeeds_iff)
  have "pinged t i fs \<noteq> []" if "turn_finger t i fs = Some f" for t i fs f using that by (induction fs arbitrary: i) (auto split: if_splits)
  then have "flist srv' \<noteq> []" if "turn_finger (to_ping srv) 0 (flist srv) = Some f" for f using that loop(3) by simp
  moreover have "srv_inv E (srv'\<lparr>to_ping := 0\<rparr>)" "srv_inv E (srv'\<lparr>to_ping := to_ping srv' + 1\<rparr>)"
    using loop(2) by (simp_all add: srv_inv_def table_inv_def ids_ok_def config_ok_def)
  ultimately show ?thesis using loop by (auto simp: ping_def has_next_def split: option.splits)
qed

lemma ping_round_witness:
  "\<exists>srv'. ping demo_env ring_srv = Inr srv' \<and> srv_inv demo_env srv' \<and> flist srv' = pinged (to_ping ring_srv) 0 (flist ring_srv) \<and>
    outbox srv' = outbox (pings_to demo_env ring_srv (ping_targets (to_ping ring_srv) 0 (flist ring_srv)))"
  using ping_round [of demo_env ring_srv] by (auto simp: pingable_def ntop_fits_def)

text \<open>
  Cleaning the table. On a server that satisfies the invariant \<^verbatim>\<open>clean_finger_list\<close> always returns; it only removes fingers, and
  never one of the first eight (the backup successors) or one of the last three (the backup predecessors).
\<close>

theorem clean_finger_list_keeps:
  assumes "srv_inv E srv"
  shows "\<exists>srv'. clean_finger_list srv = Inr srv' \<and> srv_inv E srv' \<and> set (flist srv') \<subseteq> set (flist srv) \<and>
    take 8 (flist srv') = take 8 (flist srv) \<and>
    drop (length (flist srv') - 3) (flist srv') = drop (length (flist srv) - 3) (flist srv)"
  using clean_finger_list_spec [OF assms] by (auto simp: succeeds_iff)

lemma clean_finger_list_keeps_witness:
  "\<exists>srv'. clean_finger_list ring_srv = Inr srv' \<and> srv_inv demo_env srv' \<and> set (flist srv') \<subseteq> set (flist ring_srv) \<and>
    take 8 (flist srv') = take 8 (flist ring_srv) \<and>
    drop (length (flist srv') - 3) (flist srv') = drop (length (flist ring_srv) - 3) (flist ring_srv)"
  by (rule clean_finger_list_keeps) (rule ring_srv_inv)

end
