(* ===== verification/Chord_Machine.thy ===== *)
theory Chord_Machine
  imports Chord_Stabilize
begin

text \<open>
  A server as a state machine: the event loop of the process calls \<^verbatim>\<open>handle_packet\<close> for every datagram, \<^verbatim>\<open>stabilize\<close> and
  \<^verbatim>\<open>discover_addr\<close> when their timers are armed. The clocks may show anything at every event. A step exists
  only for events that are handled without a fault, so the theorems on reachable states hold for every run up to its
  first fault.
\<close>

subsection \<open>Fallible machines\<close>

text \<open>
  The contract of an event loop: the initial states satisfy the invariant and every handler that returns keeps it. All
  reachable states then satisfy it.
\<close>

inductive reach :: "('s \<Rightarrow> bool) \<Rightarrow> ('e \<Rightarrow> 's \<Rightarrow> 's res) \<Rightarrow> ('s \<Rightarrow> 'e \<Rightarrow> bool) \<Rightarrow> 's \<Rightarrow> bool"
  for init :: "'s \<Rightarrow> bool" and handle :: "'e \<Rightarrow> 's \<Rightarrow> 's res" and enabled :: "'s \<Rightarrow> 'e \<Rightarrow> bool" where
  reach_init: "init s \<Longrightarrow> reach init handle enabled s"
| reach_step: "reach init handle enabled s \<Longrightarrow> enabled s e \<Longrightarrow> handle e s = Inr s' \<Longrightarrow> reach init handle enabled s'"

locale fallible_machine =
  fixes init :: "'s \<Rightarrow> bool"
    and handle :: "'e \<Rightarrow> 's \<Rightarrow> 's res"
    and enabled :: "'s \<Rightarrow> 'e \<Rightarrow> bool"
    and inv :: "'s \<Rightarrow> bool"
  assumes init_inv: "init s \<Longrightarrow> inv s"
    and handle_inv: "inv s \<Longrightarrow> enabled s e \<Longrightarrow> returns inv (handle e s)"
begin

lemma reach_inv: "reach init handle enabled s \<Longrightarrow> inv s"
proof (induction rule: reach.induct)
  case (reach_init s)
  then show ?case by (rule init_inv)
next
  case (reach_step s e s')
  then show ?case using handle_inv [of s e] by simp
qed

end

subsection \<open>The server's event loop\<close>

record clock =
  clk_pack :: "nat \<Rightarrow> int"
  clk_verify :: "nat \<Rightarrow> int"
  clk_wall :: "nat \<Rightarrow> ulong"

definition with_clock :: "env \<Rightarrow> clock \<Rightarrow> env" where
  "with_clock E c = E\<lparr>time_pack := clk_pack c, time_verify := clk_verify c, wall_time := clk_wall c\<rparr>"

datatype event =
    Ev_packet clock "(sockaddr \<times> byte list) option"
  | Ev_stabilize clock
  | Ev_discover clock

text \<open>The state of the process: the static round counter of \<^verbatim>\<open>stabilize\<close> and the server.\<close>

type_synonym chord_state = "int \<times> ChordServer"

fun chord_handle :: "env \<Rightarrow> chord_dispatcher \<Rightarrow> event \<Rightarrow> chord_state \<Rightarrow> chord_state res" where
  "chord_handle E d (Ev_packet c received) (idx, srv) =
     fbind (handle_packet (with_clock E c) d received srv) (\<lambda>srv. Inr (idx, srv))"
| "chord_handle E d (Ev_stabilize c) (idx, srv) = stabilize (with_clock E c) idx srv"
| "chord_handle E d (Ev_discover c) (idx, srv) =
     fbind (discover_addr (with_clock E c) srv) (\<lambda>srv. Inr (idx, srv))"

fun chord_enabled :: "chord_state \<Rightarrow> event \<Rightarrow> bool" where
  "chord_enabled (idx, srv) (Ev_packet c received) =
     (case received of None \<Rightarrow> True | Some (sa, buf) \<Rightarrow> wf_source srv sa)"
| "chord_enabled (idx, srv) (Ev_stabilize c) = stab_event srv"
| "chord_enabled (idx, srv) (Ev_discover c) = discover_addr_event srv"

text \<open>A server as the configuration file describes it, with its socket. Both families are allowed, although a server of IP version 6 does not survive the binding of its socket (theory \<open>Hosts\<close>).\<close>

definition started_server :: "bool \<Rightarrow> ushort \<Rightarrow> (in6_addr \<times> ushort) list \<Rightarrow> int \<Rightarrow> ChordServer \<Rightarrow> ChordServer" where
  "started_server v6 port peers fd srv =
     server_set_socket fd (fold (\<lambda>(a, p). add_well_known a p) peers (configure_server v6 port srv))"

definition chord_init :: "chord_dispatcher \<Rightarrow> chord_state \<Rightarrow> bool" where
  "chord_init d s \<longleftrightarrow> (\<exists>rand srv0 v6 port peers fd. length rand = TICKET_SALT_LEN \<and> new_server rand = Inr (srv0, d) \<and>
     s = (0, started_server v6 port peers fd srv0))"

subsection \<open>The invariant of the loop\<close>

lemma with_clock_sel [simp]: "sha1 (with_clock E c) = sha1 E" "sha1_ok (with_clock E c) = sha1_ok E"
  by (simp_all add: with_clock_def sha1_ok_def)

lemma srv_inv_clock [simp]: "srv_inv (with_clock E c) srv = srv_inv E srv"
  by (simp add: srv_inv_def ids_ok_def addr_id_def)

lemma started_server_inv:
  assumes "length rand = 16"
  shows "srv_inv E (started_server v6 port peers fd (fresh_server rand))"
proof -
  have "\<exists>wk. fold (\<lambda>(a, p). add_well_known a p) peers srv = srv\<lparr>well_known := wk\<rparr>" for srv
  proof (induction peers arbitrary: srv)
    case Nil
    show ?case by (rule exI [of _ "well_known srv"]) simp
  next
    case (Cons ap peers)
    obtain a p where ap: "ap = (a, p)" by force
    show ?case using Cons.IH [of "add_well_known a p srv"] by (auto simp: ap add_well_known_def)
  qed
  then obtain wk where "fold (\<lambda>(a, p). add_well_known a p) peers (configure_server v6 port (fresh_server rand)) =
      (configure_server v6 port (fresh_server rand))\<lparr>well_known := wk\<rparr>" by blast
  then show ?thesis
    using assms
    by (simp add: started_server_def server_set_socket_def configure_server_def srv_inv_def table_inv_def config_ok_def
        ids_ok_def fresh_server_def zero_server_def wf_id_def wf_addr_def ring_sorted_def passive_count_def range_start_def)
qed

interpretation chord_loop: fallible_machine "chord_init d" "chord_handle E d" chord_enabled
    "\<lambda>s. sha1_ok E \<longrightarrow> srv_inv E (snd s)"
proof
  fix s
  show "chord_init d s \<Longrightarrow> sha1_ok E \<longrightarrow> srv_inv E (snd s)"
    by (auto simp: chord_init_def new_server_eq started_server_inv)
next
  fix s :: chord_state and e
  assume inv: "sha1_ok E \<longrightarrow> srv_inv E (snd s)" and en: "chord_enabled s e"
  show "returns (\<lambda>s. sha1_ok E \<longrightarrow> srv_inv E (snd s)) (chord_handle E d e s)"
  proof (cases "sha1_ok E")
    case True
    obtain idx srv where s: "s = (idx, srv)" by force
    have srv: "srv_inv (with_clock E c) srv" for c using inv True by (simp add: s)
    have sha: "sha1_ok (with_clock E c)" for c using True by simp
    show ?thesis
    proof (cases e)
      case (Ev_packet c received)
      have "returns (srv_inv (with_clock E c)) (handle_packet (with_clock E c) d received srv)"
        by (rule handle_packet_keeps [OF srv sha]) (use en in \<open>auto simp: s Ev_packet\<close>)
      then show ?thesis by (auto simp: s Ev_packet returns_bind intro: returns_mono)
    next
      case (Ev_stabilize c)
      then show ?thesis using stabilize_inv [OF srv [of c], of idx] by (auto simp: s returns_iff)
    next
      case (Ev_discover c)
      then show ?thesis using discover_addr_inv [OF srv [of c]] by (auto simp: s returns_bind intro: returns_mono)
    qed
  next
    case False
    then show ?thesis by (simp add: returns_triv)
  qed
qed

text \<open>
  C1. The invariant of the server: in every state that a server, started from any configuration, reaches by handling
  datagrams and timers, the finger table is in ring order without duplicates, the count of passive fingers is exact, the range
  starts at the predecessor, every finger's identifier is the hash of its address, and the counters are in range.
\<close>

theorem reachable_srv_inv:
  assumes "sha1_ok E" and "reach (chord_init d) (chord_handle E d) chord_enabled (idx, srv)"
  shows "srv_inv E srv"
  using chord_loop.reach_inv [OF assms(2)] assms(1) by simp

lemma chord_init_demo: "chord_init chord_disp (0, started_server False 4000 [(demo_addr 2, 4000)] 3 (fresh_server (replicate 16 7)))"
  unfolding chord_init_def by (intro exI [of _ "replicate 16 7"] exI [of _ "fresh_server (replicate 16 7)"] exI [of _ False]
      exI [of _ 4000] exI [of _ "[(demo_addr 2, 4000)]"] exI [of _ 3]) (simp add: new_server_eq)

lemma reachable_srv_inv_witness:
  "srv_inv demo_env (started_server False 4000 [(demo_addr 2, 4000)] 3 (fresh_server (replicate 16 7)))"
  by (rule reachable_srv_inv [where d = chord_disp and idx = 0]) (auto intro: reach_init chord_init_demo)

text \<open>
  The bound on unverified peers: however many datagrams arrive, a reachable server never keeps more than
  \<^verbatim>\<open>MAX_PASSIVE_FINGERS\<close> fingers that have not answered a ping, and its counter of them is exact.
\<close>

theorem reachable_passive_bound:
  assumes "sha1_ok E" and "reach (chord_init d) (chord_handle E d) chord_enabled (idx, srv)"
  shows "length (filter is_passive (flist srv)) \<le> 20 \<and> num_passive_fingers srv = int (length (filter is_passive (flist srv)))"
proof -
  have "table_inv srv" using chord_loop.reach_inv [OF assms(2)] assms(1) srv_invD(1) by simp
  then show ?thesis using table_invD(5,6) [of srv] by (simp add: passive_count_def)
qed

lemma reachable_passive_bound_witness:
  "length (filter is_passive (flist (started_server False 4000 [(demo_addr 2, 4000)] 3 (fresh_server (replicate 16 7))))) \<le> 20 \<and>
   num_passive_fingers (started_server False 4000 [(demo_addr 2, 4000)] 3 (fresh_server (replicate 16 7))) =
     int (length (filter is_passive (flist (started_server False 4000 [(demo_addr 2, 4000)] 3 (fresh_server (replicate 16 7))))))"
  by (rule reachable_passive_bound [where E = demo_env and d = chord_disp and idx = 0]) (auto intro: reach_init chord_init_demo)

end
