(* ===== verification/Chord_Ring.thy ===== *)
theory Chord_Ring
  imports Chord_Machine
begin

text \<open>
  Several servers together. A ring is a list of servers on IPv4 sockets, the only ones that the program can bind; a datagram is carried to the server whose address is its destination,
  which handles it with \<^verbatim>\<open>handle_packet\<close>. A ring is settled when every server has among its active fingers the next node before it
  and the next node after it, and every active finger is the current address of a server of the ring: the state that stabilization works towards.

  The theory shows that the servers of a settled ring divide the identifiers among them, and that a data packet handed to any of them is relayed,
  by the bytes on the wire, to the one server that is responsible for its identifier.
\<close>

subsection \<open>Servers and their network\<close>

definition addr_of :: "ChordServer \<Rightarrow> sockaddr" where
  "addr_of s = Sockaddr_in (htons (s_port s)) (v4_part (s_addr s))"

definition server_at :: "ChordServer list \<Rightarrow> sockaddr \<Rightarrow> ChordServer option" where
  "server_at S sa = find (\<lambda>s. addr_of s = sa) S"

text \<open>
  One datagram and what follows from it: the server at the destination handles it; the first datagram it sends in turn is carried on.
  The result is where the chain ends, with the bytes that arrived there, or nothing when nobody has the address. The fuel bounds the number of hops.
\<close>

primrec relay ::
  "nat \<Rightarrow> env \<Rightarrow> chord_dispatcher \<Rightarrow> ChordServer list \<Rightarrow> sockaddr \<Rightarrow> sockaddr \<Rightarrow> byte list \<Rightarrow> (sockaddr \<times> byte list) option res" where
  "relay 0 E d S src dst buf = Inl Out_of_fuel"
| "relay (Suc n) E d S src dst buf =
     (case server_at S dst of
        None \<Rightarrow> Inr None
      | Some srv \<Rightarrow>
          fbind (handle_packet E d (Some (src, buf)) srv) (\<lambda>srv'.
          case drop (length (outbox srv)) (outbox srv') of
            [] \<Rightarrow> Inr (Some (dst, buf))
          | dg # _ \<Rightarrow> relay n E d S dst (dg_dest dg) (dg_bytes dg)))"

text \<open>A server that runs on an IPv4 socket and knows its address, which is an IPv4-mapped one.\<close>

definition online :: "ChordServer \<Rightarrow> bool" where
  "online s \<longleftrightarrow> V4_MAPPED (s_addr s) \<and> \<not> is_v6 s \<and> send_func s = Send_raw_v4"

definition ready :: "ChordServer \<Rightarrow> bool" where
  "ready s \<longleftrightarrow> table_inv s \<and> online s \<and> s_id s \<notin> f_id ` set (flist s)"

definition settled :: "ChordServer list \<Rightarrow> bool" where
  "settled S \<longleftrightarrow>
     distinct (map s_id S) \<and> distinct (map addr_of S) \<and>
     (\<forall>s \<in> set S. ready s \<and>
       (\<forall>f \<in> set (flist s). is_active f \<longrightarrow> (\<exists>t \<in> set S. s_node t = f_node f)) \<and>
       (\<forall>t \<in> set S. s_id t \<noteq> s_id s \<longrightarrow>
          (\<exists>f \<in> set (flist s). is_active f \<and> ring_off (s_id s) (f_id f) \<le> ring_off (s_id s) (s_id t)) \<and>
          (\<exists>f \<in> set (flist s). is_active f \<and> ring_off (s_id s) (s_id t) \<le> ring_off (s_id s) (f_id f))))"

lemma mapped_specified: "V4_MAPPED a \<Longrightarrow> \<not> IN6_IS_ADDR_UNSPECIFIED a"
  by (auto simp: V4_MAPPED_def IN6_IS_ADDR_UNSPECIFIED_def)

lemma onlineD: "online s \<Longrightarrow> \<not> IN6_IS_ADDR_UNSPECIFIED (s_addr s)" "online s \<Longrightarrow> send_func s = Send_raw_v4" "online s \<Longrightarrow> V4_MAPPED a \<Longrightarrow> can_send s a"
  by (auto simp: online_def mapped_specified can_send_def)

lemma dest_of_v4: "wf_addr a \<Longrightarrow> send_func s = Send_raw_v4 \<Longrightarrow> dest_of E s a p = Sockaddr_in (htons p) (v4_part a)"
  by (simp add: dest_of_def to_v4addr_part)

subsection \<open>Distances on the ring\<close>

lemma ring_off_farther:
  assumes "wf_id s" and "wf_id y" and "wf_id x" and "s \<noteq> y"
  shows "ring_off s y < ring_off s x \<longleftrightarrow> ring_off y x < ring_off s x"
  using assms(1-3) [THEN id_val_less] id_val_inject [OF assms(1,2)] assms(4) by (auto simp: ring_off_eq assms split: if_splits)

lemma ring_off_beyond:
  assumes "wf_id s" and "wf_id t" and "wf_id u" and "wf_id x" and "ring_off s x \<le> ring_off s t" and "ring_off s t < ring_off s u"
  shows "ring_off u x < ring_off t x"
  using assms(1-4) [THEN id_val_less] assms(5,6) by (auto simp: ring_off_eq assms(1-4) split: if_splits)

lemma settledD:
  assumes "settled S" and "s \<in> set S"
  shows "ready s" "table_inv s" "wf_id (s_id s)" "s_id s \<notin> f_id ` set (flist s)"
    "f \<in> set (flist s) \<Longrightarrow> is_active f \<Longrightarrow> \<exists>t \<in> set S. s_node t = f_node f"
    "t \<in> set S \<Longrightarrow> s_id t = s_id s \<longleftrightarrow> t = s"
    "server_at S (addr_of s) = Some s"
proof -
  show r: "ready s" and "f \<in> set (flist s) \<Longrightarrow> is_active f \<Longrightarrow> \<exists>t \<in> set S. s_node t = f_node f"
    using assms by (auto simp: settled_def)
  show "table_inv s" "wf_id (s_id s)" "s_id s \<notin> f_id ` set (flist s)" using r by (auto simp: ready_def dest: table_invD(1))
  show "t \<in> set S \<Longrightarrow> s_id t = s_id s \<longleftrightarrow> t = s" using assms by (auto simp: settled_def distinct_map dest: inj_onD)
  have "t = s" if "t \<in> set S" "addr_of t = addr_of s" for t
    using that assms by (auto simp: settled_def distinct_map dest: inj_onD)
  then show "server_at S (addr_of s) = Some s"
    using assms(2) unfolding server_at_def by (cases "find (\<lambda>t. addr_of t = addr_of s) S") (auto simp: find_None_iff dest: find_Some_in)
qed

text \<open>In a settled ring the fingers bound the distances of all other nodes.\<close>

lemma settled_near:
  assumes "settled S" and "s \<in> set S" and "t \<in> set S" and "t \<noteq> s"
  shows "\<exists>f \<in> set (flist s). is_active f \<and> ring_off (s_id s) (f_id f) \<le> ring_off (s_id s) (s_id t)"
    and "\<exists>f \<in> set (flist s). is_active f \<and> ring_off (s_id s) (s_id t) \<le> ring_off (s_id s) (f_id f)"
  using assms settledD(6) [OF assms(1,2,3)] by (auto simp: settled_def)

lemma local_farthest:
  assumes "settled S" and "s \<in> set S" and "wf_id x"
  shows "chord_id_is_local s x \<longleftrightarrow> (\<forall>t \<in> set S. t \<noteq> s \<longrightarrow> ring_off (s_id t) x < ring_off (s_id s) x)"
proof -
  note d = settledD [OF assms(1,2)]
  have far: "ring_off (s_id s) (s_id t) < ring_off (s_id s) x \<longleftrightarrow> ring_off (s_id t) x < ring_off (s_id s) x" if "t \<in> set S" "t \<noteq> s" for t
    using ring_off_farther [OF d(3) settledD(3) [OF assms(1) that(1)] assms(3)] d(6) [OF that(1)] that(2) by metis
  have "(\<forall>f \<in> set (flist s). is_active f \<longrightarrow> ring_off (s_id s) (f_id f) < ring_off (s_id s) x) \<longleftrightarrow>
      (\<forall>t \<in> set S. t \<noteq> s \<longrightarrow> ring_off (s_id s) (s_id t) < ring_off (s_id s) x)"
  proof (intro iffI ballI impI)
    fix t assume "\<forall>f \<in> set (flist s). is_active f \<longrightarrow> ring_off (s_id s) (f_id f) < ring_off (s_id s) x" "t \<in> set S" "t \<noteq> s"
    then show "ring_off (s_id s) (s_id t) < ring_off (s_id s) x" using settled_near(2) [OF assms(1,2), of t] by (meson le_less_trans)
  next
    fix f assume all: "\<forall>t \<in> set S. t \<noteq> s \<longrightarrow> ring_off (s_id s) (s_id t) < ring_off (s_id s) x" and f: "f \<in> set (flist s)" "is_active f"
    then obtain t where t: "t \<in> set S" "s_node t = f_node f" using d(5) by blast
    then have "s_id t = f_id f" "t \<noteq> s" using d(4) f(1) by auto
    then show "ring_off (s_id s) (f_id f) < ring_off (s_id s) x" using all t(1) by metis
  qed
  then show ?thesis using chord_id_is_local_ring [OF d(2) assms(3) d(4)] far by auto
qed

text \<open>There is one server farthest from an identifier, counted clockwise.\<close>

lemma ring_off_source_inject:
  assumes "wf_id s" and "wf_id t" and "wf_id x"
  shows "ring_off s x = ring_off t x \<longleftrightarrow> s = t"
  using assms [THEN id_val_less] id_val_inject [OF assms(1,2)] by (auto simp: ring_off_eq assms split: if_splits)

lemma unique_owner:
  assumes "settled S" and "S \<noteq> []" and "wf_id x"
  shows "\<exists>!s. s \<in> set S \<and> chord_id_is_local s x"
proof -
  let ?d = "\<lambda>s. ring_off (s_id s) x"
  have inj: "?d s = ?d t \<longleftrightarrow> s = t" if "s \<in> set S" "t \<in> set S" for s t
    using ring_off_source_inject [OF settledD(3) [OF assms(1) that(1)] settledD(3) [OF assms(1) that(2)] assms(3)] settledD(6) [OF assms(1) that(2,1)] by metis
  have "Max (?d ` set S) \<in> ?d ` set S" using assms(2) by (intro Max_in) auto
  then obtain m where m: "m \<in> set S" "Max (?d ` set S) = ?d m" by auto
  have le: "?d t \<le> ?d m" if "t \<in> set S" for t using that m(2) Max_ge [of "?d ` set S" "?d t"] by simp
  show ?thesis
  proof (rule ex1I [of _ m])
    have "?d t < ?d m" if "t \<in> set S" "t \<noteq> m" for t using le [OF that(1)] inj [OF that(1) m(1)] that(2) by simp
    then show "m \<in> set S \<and> chord_id_is_local m x" using m(1) by (simp add: local_farthest [OF assms(1) m(1) assms(3)])
    show "s = m" if "s \<in> set S \<and> chord_id_is_local s x" for s
      using that local_farthest [OF assms(1) _ assms(3), of s] m(1) le [of s] by (auto dest!: bspec [of _ _ m])
  qed
qed

text \<open>The node after an identifier is responsible for it.\<close>

lemma next_node_local:
  assumes "settled S" and "s \<in> set S" and "t \<in> set S" and "t \<noteq> s" and "wf_id x"
    and "ring_off (s_id s) x \<le> ring_off (s_id s) (s_id t)"
    and "\<And>v. v \<in> set S \<Longrightarrow> v \<noteq> s \<Longrightarrow> ring_off (s_id s) (s_id t) \<le> ring_off (s_id s) (s_id v)"
  shows "chord_id_is_local t x"
  unfolding local_farthest [OF assms(1,3,5)]
proof (intro ballI impI)
  fix v assume v: "v \<in> set S" "v \<noteq> t"
  note wf = settledD(3) [OF assms(1)] and ids = settledD(6) [OF assms(1)]
  show "ring_off (s_id v) x < ring_off (s_id t) x"
  proof (cases "v = s")
    case True
    then show ?thesis
      using ring_off_rotate [OF wf [OF assms(3)] wf [OF assms(2)] assms(5)] ring_off_farther [OF wf [OF assms(3)] wf [OF assms(2)] assms(5)]
        assms(4,6) ids [OF assms(2,3)] by auto
  next
    case False
    have "ring_off (s_id s) (s_id t) \<noteq> ring_off (s_id s) (s_id v)"
      using ring_off_inject [OF wf [OF assms(2)] wf [OF assms(3)] wf [OF v(1)]] ids [OF assms(3) v(1)] v(2) by auto
    then show ?thesis
      using ring_off_beyond [OF wf [OF assms(2)] wf [OF assms(3)] wf [OF v(1)] assms(5,6)] assms(7) [OF v(1) False] by simp
  qed
qed

text \<open>One decision of the router in a settled ring.\<close>

lemma settled_hop:
  assumes "settled S" and "s \<in> set S" and "wf_id x" and "\<not> chord_id_is_local s x"
  obtains t l where "t \<in> set S" "next_route_node s x False = (s_node t, l)" "l \<longrightarrow> chord_id_is_local t x"
    "\<not> l \<longrightarrow> ring_off (s_id t) x < ring_off (s_id s) x"
proof -
  note d = settledD [OF assms(1,2)]
  obtain u where u: "u \<in> set S" "u \<noteq> s" using assms(4) local_farthest [OF assms(1-3)] by blast
  obtain sf where sf: "succ_finger s = Some sf"
    using settled_near(1) [OF assms(1,2) u] by (cases "succ_finger s") (auto simp: succ_finger_def find_None_iff)
  obtain f where f: "f \<in> set (flist s)" "is_active f" "fst (next_route_node s x False) = f_node f"
    and step: "if ring_off (s_id s) x \<le> ring_off (s_id s) (f_id sf) then f = sf \<and> snd (next_route_node s x False)
       else \<not> snd (next_route_node s x False) \<and> id_is_between (f_id f) (s_id s) x"
    using next_route_node_step [OF d(2) assms(3) sf] by (auto split: if_splits)
  obtain t where t: "t \<in> set S" "s_node t = f_node f" using d(5) [OF f(1,2)] by blast
  then have id: "s_id t = f_id f" "t \<noteq> s" using d(4) f(1) by auto
  note wf = settledD(3) [OF assms(1) t(1)]
  have least: "ring_off (s_id s) (f_id sf) \<le> ring_off (s_id s) (s_id v)" if "v \<in> set S" "v \<noteq> s" for v
    using settled_near(1) [OF assms(1,2) that] sf ring.find_least [of "s_id s" "flist s"] table_invD(4) [OF d(2)]
    by (auto simp: succ_finger_def ring_sorted_def intro: le_trans)
  show ?thesis
  proof (rule that [of t "snd (next_route_node s x False)"])
    show "next_route_node s x False = (s_node t, snd (next_route_node s x False))" using f(3) t(2) by (simp add: prod_eq_iff)
    show "\<not> snd (next_route_node s x False) \<longrightarrow> ring_off (s_id t) x < ring_off (s_id s) x"
      using step id ring_off_farther [OF d(3) wf assms(3)] settledD(6) [OF assms(1,2) t(1)] assms(3) d(3) wf
      by (simp add: id_is_between_off split: if_splits)
    show "snd (next_route_node s x False) \<longrightarrow> chord_id_is_local t x"
      using next_node_local [OF assms(1,2) t(1) id(2) assms(3)] step id(1) least by (auto split: if_splits)
  qed (rule t)
qed

subsection \<open>A data packet on its way\<close>

definition data_packet :: "env \<Rightarrow> chordID \<Rightarrow> byte list \<Rightarrow> uint32 \<Rightarrow> bool \<Rightarrow> byte list" where
  "data_packet E x data ttl l = packet E CHORD_DATA
     (M_Data \<lparr>dat_id = x, dat_has_ttl = True, dat_ttl = ttl, dat_has_last = True, dat_last = l, dat_data = data\<rparr>)"

lemma handle_data:
  assumes "codec_ok E"
  shows "handle_packet E chord_disp (Some (sa, data_packet E x data ttl l)) srv =
    fbind (process_data E srv \<lparr>dat_id = x, dat_has_ttl = True, dat_ttl = ttl, dat_has_last = True, dat_last = l, dat_data = data\<rparr> nd) (\<lambda>(ret, srv'). Inr srv')"
proof -
  let ?m = "\<lparr>dat_id = x, dat_has_ttl = True, dat_ttl = ttl, dat_has_last = True, dat_last = l, dat_data = data\<rparr>"
  have any: "process_data E srv ?m from = process_data E srv ?m nd" for "from" by (simp add: process_data_def)
  have "dispatch_packet E (run_process E) chord_disp (data_packet E x data ttl l) from srv = fbind (process_data E srv ?m nd) (\<lambda>(ret, srv').
      Inr (\<lparr>dr_known = True, dr_process_ret = Some ret, dr_leaked = (if ret = CHORD_NO_ERROR then 0 else 2)\<rparr>, srv'))" for "from"
    unfolding data_packet_def
    by (subst dispatch_chord_packet [OF assms, where process = P_data and name = "''CHORD_DATA''"])
      (simp_all add: chord_handlers_def call_process_def any [of "from"])
  then show ?thesis
    by (cases "process_data E srv ?m nd") (auto simp: handle_packet_def from_node_def get_address_id_eq split: prod.splits sockaddr.splits)
qed

lemma word_ge_2: "(2 :: uint32) \<le> ttl \<Longrightarrow> ttl - 1 \<noteq> 0"
  by (auto simp: word_le_nat_alt)

lemma relay_stops:
  assumes "codec_ok E" and "settled S" and "s \<in> set S" and "wf_id x" and "2 \<le> ttl" and "chord_id_is_local s x"
  shows "relay (Suc n) E chord_disp S src (addr_of s) (data_packet E x data ttl l) = Inr (Some (addr_of s, data_packet E x data ttl l))"
proof -
  note d = settledD [OF assms(2,3)]
  have "\<not> IN6_IS_ADDR_UNSPECIFIED (s_addr s)" using d(1) by (simp add: ready_def onlineD)
  then show ?thesis
    using assms(4,6) word_ge_2 [OF assms(5)] by (simp add: d(7) handle_data [OF assms(1), where nd = "s_node s"] process_data_def wf_id_def)
qed

lemma relay_forwards:
  assumes "env_ok E" and "codec_ok E" and "settled S" and "s \<in> set S" and "wf_id x" and "2 \<le> ttl" and "ttl \<le> 256" and "\<not> chord_id_is_local s x"
    and "length data \<le> 65000" and "t \<in> set S" and "next_route_node s x l = (s_node t, l')"
  shows "relay (Suc n) E chord_disp S src (addr_of s) (data_packet E x data ttl l) =
    relay n E chord_disp S (addr_of s) (addr_of t) (data_packet E x data (ttl - 1) l')"
proof -
  note d = settledD [OF assms(3,4)]
  have r: "\<not> IN6_IS_ADDR_UNSPECIFIED (s_addr s)" "can_send s (s_addr t)" "send_func s = Send_raw_v4" "wf_addr (s_addr t)"
    using d(1) settledD(1) [OF assms(3,10)] table_invD(2) [OF settledD(2) [OF assms(3,10)]] by (auto simp: ready_def onlineD online_def)
  let ?m = "\<lparr>dat_id = x, dat_has_ttl = True, dat_ttl = ttl, dat_has_last = True, dat_last = l, dat_data = data\<rparr>"
  have "process_data E s ?m nd = Inr (CHORD_NO_ERROR, post E s (s_addr t) (s_port t) CHORD_DATA
      (M_Data \<lparr>dat_id = x, dat_has_ttl = True, dat_ttl = ttl - 1, dat_has_last = True, dat_last = l', dat_data = data\<rparr>))" for nd
    using process_data_step [OF assms(1), of ?m s "s_node t" l'] assms(5-9,11) r by (simp add: wf_id_def)
  then show ?thesis
    by (simp add: d(7) handle_data [OF assms(2), where nd = "s_node s"] post_def dest_of_v4 [OF r(4,3)])
      (simp add: addr_of_def data_packet_def)
qed

text \<open>The nodes between a server and the identifier; every hop leaves at least one of them behind.\<close>

definition ahead :: "ChordServer list \<Rightarrow> chordID \<Rightarrow> ChordServer \<Rightarrow> nat" where
  "ahead S x s = card {u \<in> set S. ring_off (s_id u) x < ring_off (s_id s) x}"

lemma ahead_less: "t \<in> set S \<Longrightarrow> ring_off (s_id t) x < ring_off (s_id s) x \<Longrightarrow> ahead S x t < ahead S x s"
  unfolding ahead_def by (rule psubset_card_mono) auto

lemma ahead_bound:
  assumes "settled S" and "s \<in> set S" and "wf_id x" and "\<not> chord_id_is_local s x"
  shows "ahead S x s + 2 \<le> length S"
proof -
  obtain t where t: "t \<in> set S" "t \<noteq> s" "\<not> ring_off (s_id t) x < ring_off (s_id s) x" using local_farthest [OF assms(1-3)] assms(4) by blast
  have "{u \<in> set S. ring_off (s_id u) x < ring_off (s_id s) x} \<subseteq> set S - {s, t}" using t(3) by auto
  then have "ahead S x s \<le> card (set S - {s, t})" unfolding ahead_def by (intro card_mono) auto
  also have "\<dots> = card (set S) - 2" using t assms(2) by (subst card_Diff_subset) auto
  finally show ?thesis
    using t(1,2) assms(2) card_length [of S] card_mono [of "set S" "{s, t}"] by simp
qed

lemma relay_reaches:
  assumes "env_ok E" and "codec_ok E" and "settled S" and "wf_id x" and "length data \<le> 65000"
    and "s \<in> set S" and "\<not> chord_id_is_local s x" and "ahead S x s + 2 \<le> n" and "ahead S x s + 3 \<le> unat ttl" and "ttl \<le> 256"
  shows "\<exists>t ttl' l'. t \<in> set S \<and> chord_id_is_local t x \<and> 2 \<le> ttl' \<and>
    relay n E chord_disp S src (addr_of s) (data_packet E x data ttl False) = Inr (Some (addr_of t, data_packet E x data ttl' l'))"
  using assms(6-10)
proof (induction n arbitrary: s ttl src)
  case (Suc n)
  obtain t l where t: "t \<in> set S" "next_route_node s x False = (s_node t, l)" "l \<longrightarrow> chord_id_is_local t x"
    "\<not> l \<longrightarrow> ring_off (s_id t) x < ring_off (s_id s) x"
    using settled_hop [OF assms(3) Suc.prems(1) assms(4) Suc.prems(2)] by metis
  have big: "2 \<le> ttl" using Suc.prems(4) by (simp add: word_le_nat_alt)
  then have un: "unat (ttl - 1) = unat ttl - 1" by (intro unat_minus_one) auto
  then have ttl: "2 \<le> ttl - 1" "ttl - 1 \<le> 256" using Suc.prems(4,5) by (simp_all add: word_le_nat_alt)
  note step = relay_forwards [OF assms(1-3) Suc.prems(1) assms(4) big Suc.prems(5,2) assms(5) t(1,2)]
  show ?case
  proof (cases "chord_id_is_local t x")
    case True
    then obtain m where "n = Suc m" using Suc.prems(3) by (cases n) auto
    then show ?thesis using step relay_stops [OF assms(2,3) t(1) assms(4) ttl(1) True] t(1) True ttl(1) by auto
  next
    case False
    then have "\<not> l" "ahead S x t < ahead S x s" using t ahead_less [OF t(1)] by auto
    then show ?thesis using step Suc.IH [OF t(1) False, of "ttl - 1"] Suc.prems(3,4) un ttl(2) by simp
  qed
qed simp

text \<open>
  C11. The servers of a settled ring divide the identifiers among them. A settled ring is a list of running IPv4 servers that know their addresses, with different identifiers and addresses, each with a well-formed table
  whose active fingers are servers of the ring and include one at least as near as the next server after it and one at least as far as the last server before it. In it, for every identifier exactly one server holds the identifier to be local.
  So no identifier is without a node, and no two nodes accept the same data.
\<close>

theorem ring_partition:
  assumes "settled S" and "S \<noteq> []" and "wf_id x"
  shows "\<exists>!s. s \<in> set S \<and> chord_id_is_local s x"
  using assms by (rule unique_owner)

text \<open>
  C2. A data packet reaches its destination. In a settled ring of \<open>N\<close> IPv4 servers, a data packet for any identifier with at most 65000 bytes of data and without the flag of a last hop, handed as bytes to any of the
  servers with a time to live above \<open>N\<close> (and at most 256, where the forwarded byte would wrap), is relayed without a fault in at most \<open>N\<close> handled
  datagrams to the server that is responsible for the identifier, with the identifier and the data unchanged and the time to live not expired.
\<close>

theorem data_packet_delivered:
  assumes "env_ok E" and "codec_ok E" and "new_server rand = Inr (srv0, d)" and "settled S" and "s \<in> set S" and "wf_id x"
    and "length data \<le> 65000" and "length S < unat ttl" and "ttl \<le> 256"
  shows "\<exists>t ttl' l'. t \<in> set S \<and> chord_id_is_local t x \<and> (\<forall>u \<in> set S. chord_id_is_local u x \<longrightarrow> u = t) \<and> 2 \<le> ttl' \<and>
    relay (length S) E d S src (addr_of s) (data_packet E x data ttl False) = Inr (Some (addr_of t, data_packet E x data ttl' l'))"
proof -
  have S: "S \<noteq> []" using assms(5) by auto
  have d: "d = chord_disp" using assms(3) by (simp add: new_server_eq)
  have uni: "\<forall>u \<in> set S. chord_id_is_local u x \<longrightarrow> u = t" if "t \<in> set S" "chord_id_is_local t x" for t
    using unique_owner [OF assms(4) S assms(6)] that by blast
  show ?thesis
  proof (cases "chord_id_is_local s x")
    case True
    obtain n where n: "length S = Suc n" using S by (cases S) auto
    then have "2 \<le> ttl" using assms(8) by (simp add: word_le_nat_alt)
    then have "relay (length S) E d S src (addr_of s) (data_packet E x data ttl False) = Inr (Some (addr_of s, data_packet E x data ttl False))"
      using relay_stops [OF assms(2,4,5,6) _ True] by (simp only: n d)
    then show ?thesis using uni [OF assms(5) True] True assms(5) \<open>2 \<le> ttl\<close> by blast
  next
    case False
    note b = ahead_bound [OF assms(4,5,6) False]
    then have "ahead S x s + 3 \<le> unat ttl" using assms(8) by simp
    then obtain t ttl' l' where "t \<in> set S" "chord_id_is_local t x" "2 \<le> ttl'"
      "relay (length S) E d S src (addr_of s) (data_packet E x data ttl False) = Inr (Some (addr_of t, data_packet E x data ttl' l'))"
      unfolding d using relay_reaches [OF assms(1,2,4,6,7,5) False b _ assms(9), of src] by metis
    then show ?thesis using uni by blast
  qed
qed

subsection \<open>A ring of two\<close>

definition pair_srv :: "byte \<Rightarrow> byte \<Rightarrow> ChordServer" where
  "pair_srv a b = demo_srv\<lparr>s_node := demo_peer a, flist := [demo_peer_finger b F_ACTIVE], pred_bound := n_id (demo_peer b)\<rparr>"

definition pair_ring :: "ChordServer list" where
  "pair_ring = [pair_srv 1 2, pair_srv 2 1]"

lemma pair_ring_settled [simp]: "settled pair_ring"
proof -
  have "table_inv (pair_srv a b)" for a b
    by (simp add: table_inv_def pair_srv_def demo_srv_def ring_sorted_def passive_count_def range_start_def)
  moreover have "addr_id demo_env (demo_addr 1) 4000 \<noteq> addr_id demo_env (demo_addr 2) 4000" by (simp add: demo_peer_id)
  ultimately show ?thesis
    by (simp add: settled_def pair_ring_def ready_def online_def addr_of_def pair_srv_def v4_part_inject) (simp add: demo_srv_def)
qed

lemma ring_partition_witness: "\<exists>!s. s \<in> set pair_ring \<and> chord_id_is_local s (demo_id 40)"
  by (rule ring_partition) (simp_all add: pair_ring_def [THEN arg_cong, of "\<lambda>S. S = []"])

lemma data_packet_delivered_witness:
  "\<exists>t ttl' l'. t \<in> set pair_ring \<and> chord_id_is_local t (demo_id 40) \<and> 2 \<le> ttl' \<and>
    relay 2 demo_env chord_disp pair_ring (addr_of (pair_srv 2 1)) (addr_of (pair_srv 1 2)) (data_packet demo_env (demo_id 40) [1, 2, 3] 10 False) =
      Inr (Some (addr_of t, data_packet demo_env (demo_id 40) [1, 2, 3] ttl' l'))"
proof -
  have "length pair_ring = 2" "pair_srv 1 2 \<in> set pair_ring" by (simp_all add: pair_ring_def)
  then show ?thesis
    using data_packet_delivered [of demo_env "replicate 16 7" "fresh_server (replicate 16 7)" chord_disp pair_ring "pair_srv 1 2" "demo_id 40" "[1, 2, 3]" 10
      "addr_of (pair_srv 2 1)"]
    by (simp add: env_ok_def new_server_eq del: relay.simps) blast
qed

end
