(* ===== verification/Chord_Handshake.thy ===== *)
theory Chord_Handshake
  imports Chord_Ring
begin

text \<open>
  The exchange that makes a finger active, between two servers and over the wire: a ping with a ticket of the sender, the pong that returns
  the ticket, and the activation of the answering node. The clocks of the two machines are independent.
\<close>

lemma from_node_peer:
  assumes "srv_inv E a" and "online a"
  shows "from_node E srv (addr_of a) = Inr (s_node a)" and "wf_node E (s_node a)"
proof -
  have wf: "wf_addr (s_addr a)" using table_invD(2) [OF srv_invD(1) [OF assms(1)]] .
  have "to_v6addr (ucast (v4_part (s_addr a))) = s_addr a" using to_v6addr_part [OF wf] assms(2) by (simp add: online_def)
  then show "from_node E srv (addr_of a) = Inr (s_node a)" "wf_node E (s_node a)"
    using assms(1) wf onlineD(1) [OF assms(2)] by (simp_all add: from_node_def addr_of_def srv_inv_def wf_node_def)
qed

subsection \<open>Answering a ping\<close>

lemma handle_packet_run:
  assumes "codec_ok E" and "(t, name, descriptor_of msg, process) \<in> set chord_handlers" and "canonical msg" and "from_node E srv sa = Inr nd"
  shows "handle_packet E chord_disp (Some (sa, packet E t msg)) srv = fbind (call_process E process msg nd srv) (\<lambda>(ret, srv'). Inr srv')"
  using assms(4) by (cases "call_process E process msg nd srv") (auto simp: handle_packet_def dispatch_chord_packet [OF assms(1-3)])

lemma handle_ping:
  assumes "codec_ok E" and "from_node E srv sa = Inr nd" and "ping_has_ticket m"
  shows "handle_packet E chord_disp (Some (sa, packet E CHORD_PING (M_Ping m))) srv = fbind (process_ping E srv m nd) (\<lambda>(ret, srv'). Inr srv')"
  by (subst handle_packet_run [OF assms(1), where process = P_ping and name = "''CHORD_PING''", OF _ _ assms(2)])
    (use assms(3) in \<open>simp_all add: chord_handlers_def call_process_def\<close>)

lemma handle_pong:
  assumes "codec_ok E" and "from_node E srv sa = Inr nd" and "pong_has_ticket m"
  shows "handle_packet E chord_disp (Some (sa, packet E CHORD_PONG (M_Pong m))) srv = fbind (process_pong E srv m nd) (\<lambda>(ret, srv'). Inr srv')"
  by (subst handle_packet_run [OF assms(1), where process = P_pong and name = "''CHORD_PONG''", OF _ _ assms(2)])
    (use assms(3) in \<open>simp_all add: chord_handlers_def call_process_def\<close>)

lemma process_ping_answers:
  assumes "env_ok E" and "srv_inv E b" and "\<not> IN6_IS_ADDR_UNSPECIFIED (s_addr b)" and "can_send b (n_addr nd)" and "wf_node E nd"
    and "\<not> (n_addr nd = s_addr b \<and> n_port nd = s_port b)" and "length (ping_ticket m) \<le> 65000"
  shows "\<exists>b1. process_ping E b m nd = Inr (CHORD_NO_ERROR, b1) \<and> finger_at b1 (n_id nd) \<noteq> None \<and>
    last (outbox b1) = Datagram (sock b) (dest_of E b (n_addr nd) (n_port nd))
       (packet E CHORD_PONG (M_Pong \<lparr>pong_has_ticket = True, pong_ticket = ping_ticket m, pong_time = ping_time m\<rparr>))"
proof -
  have sha: "sha1_ok E" using assms(1) by (simp add: env_ok_def)
  have nd: "wf_addr (n_addr nd)" "wf_id (n_id nd)" "n_id nd = addr_id E (n_addr nd) (n_port nd)" using assms(5) sha by (auto simp: wf_node_def)
  obtain fo fn b0 where ins: "insert_finger b (n_id nd) (n_addr nd) (n_port nd) = Inr (fo, fn, b0)" "table_inv b0" "table_frame b b0"
      "fo \<noteq> None" "fn \<noteq> None" "\<And>f. fo = Some f \<Longrightarrow> f \<in> set (flist b0) \<and> f_id f = n_id nd \<and> f_addr f = n_addr nd"
    using insert_finger_ok [OF srv_invD(1) [OF assms(2)] nd(2,1), of "n_port nd"] assms(6) by metis
  have inv: "srv_inv E b0" using insert_finger_srv_inv(1) [OF assms(2) sha assms(3) nd(1)] ins(1) nd(3) by metis
  have at: "finger_at b0 (n_id nd) \<noteq> None" using finger_at_eq [OF ins(2), of "n_id nd"] ins(4,6) by blast
  have send: "can_send b0 (n_addr nd)" "send_func b0 = send_func b" "sock b0 = sock b" using table_frameD [OF ins(3)] assms(4) by (auto simp: can_send_def)
  define b' where "b' = (if the fn \<and> (case pred_finger b0 of None \<Rightarrow> True | Some pred \<Rightarrow> id_is_between (n_id nd) (f_id pred) (s_id b0))
    then post E b0 (n_addr nd) (n_port nd) CHORD_PING (M_Ping \<lparr>ping_has_ticket = True,
      ping_ticket = ticket_for E b0 (ping_params (n_addr nd) (n_port nd) (get_current_time E b0)), ping_time = get_current_time E b0\<rparr>) else b0)"
  have b': "can_send b' (n_addr nd)" "dest_of E b' (n_addr nd) (n_port nd) = dest_of E b (n_addr nd) (n_port nd)" "sock b' = sock b"
    "finger_at b' (n_id nd) \<noteq> None"
    using send at by (auto simp: b'_def post_def can_send_def dest_of_def finger_at_def)
  have "process_ping E b m nd = fbind (send_pong E b' (ping_ticket m) (n_addr nd) (n_port nd) (ping_time m)) (\<lambda>srv. Inr (CHORD_NO_ERROR, srv))"
    using assms(3) ins(1,5) send_ping_total [OF assms(1) srv_invD(2) [OF inv] send(1)]
    by (auto simp: process_ping_def read_var_def b'_def Let_def)
  then show ?thesis
    using send_pong_total [OF assms(1,7) b'(1)] b'(2-4) by (intro exI [of _ "post E b' (n_addr nd) (n_port nd) CHORD_PONG (M_Pong \<lparr>pong_has_ticket = True, pong_ticket = ping_ticket m, pong_time = ping_time m\<rparr>)"])
      (simp_all add: post_def finger_at_def)
qed

text \<open>
  C6. The handshake over the wire, between two different IPv4 servers that know their addresses and satisfy their invariant, the first with plausible round-trip times. One pings the other; the bytes of the ping arrive, the other
  server knows the sender afterwards and its last datagram is a pong to the sender's address; when the bytes of that pong arrive before the ticket times out and the clock of the sender has not gone backwards, the sender holds the
  other server as an active finger with no unanswered pings. Nothing is assumed of the other server's clock.
\<close>

theorem ping_pong_handshake:
  assumes "env_ok E" and "codec_ok E" and "new_server rand = Inr (srv0, d)" and "srv_inv E a" and "srv_inv E b"
    and "online a" and "online b" and "\<not> (s_addr b = s_addr a \<and> s_port b = s_port a)" and "rtts_ok a"
    and "0 \<le> time_pack E (length (outbox a))" and "time_pack E (length (outbox a)) < 2 ^ 32"
    and "time_verify E (Suc (length (outbox a))) \<le> time_pack E (length (outbox a)) + TICKET_TIMEOUT"
    and "0 \<le> sint (wall_time E (Suc (length (outbox a))) - t)" and "sint (wall_time E (Suc (length (outbox a))) - t) < 2 ^ 62"
  shows "\<exists>a1 b1 a2 f. send_ping E a (s_addr b) (s_port b) t = Inr a1 \<and> dg_dest (last (outbox a1)) = addr_of b \<and>
    handle_packet (with_clock E c) d (Some (addr_of a, dg_bytes (last (outbox a1)))) b = Inr b1 \<and>
    finger_at b1 (s_id a) \<noteq> None \<and> dg_dest (last (outbox b1)) = addr_of a \<and>
    handle_packet E d (Some (addr_of b, dg_bytes (last (outbox b1)))) a1 = Inr a2 \<and>
    srv_inv E a2 \<and> finger_at a2 (s_id b) = Some f \<and> is_active f \<and> f_npings f = 0 \<and> f_addr f = s_addr b"
proof -
  let ?C = "with_clock E c" and ?tk = "ticket_for E a (ping_params (s_addr b) (s_port b) t)"
  let ?ping = "\<lparr>ping_has_ticket = True, ping_ticket = ?tk, ping_time = t\<rparr>" and ?pong = "\<lparr>pong_has_ticket = True, pong_ticket = ?tk, pong_time = t\<rparr>"
  have C: "env_ok ?C" "codec_ok ?C" "srv_inv ?C a" "srv_inv ?C b" "packet ?C = packet E"
    using assms(1,2,4,5) by (auto simp: env_ok_def codec_ok_def codec_size_def with_clock_def packet_def fun_eq_iff srv_inv_def ids_ok_def addr_id_def sha1_ok_def)
  have d: "d = chord_disp" using assms(3) by (simp add: new_server_eq)
  note on = onlineD [OF assms(6)] onlineD [OF assms(7)]
  have sends: "can_send a (s_addr b)" "can_send b (s_addr a)" using on(3) [of "s_addr b"] on(6) [of "s_addr a"] assms(6,7) by (simp_all add: online_def)
  have dest: "dest_of X a (s_addr b) (s_port b) = addr_of b" "dest_of X b (s_addr a) (s_port a) = addr_of a" for X
    using dest_of_v4 [of _ a X] dest_of_v4 [of _ b X] table_invD(2) [OF srv_invD(1) [OF assms(4)]] table_invD(2) [OF srv_invD(1) [OF assms(5)]] on(2,5)
    by (simp_all add: addr_of_def)
  have len: "length ?tk \<le> 65000"
    by (rule order_trans [OF length_ticket_for [OF _ srv_invD(2) [OF assms(4)]]]) (use assms(1) in \<open>simp_all add: env_ok_def\<close>)
  let ?a1 = "post E a (s_addr b) (s_port b) CHORD_PING (M_Ping ?ping)"
  have ping: "send_ping E a (s_addr b) (s_port b) t = Inr ?a1" by (rule send_ping_total [OF assms(1) srv_invD(2) [OF assms(4)] sends(1)])
  obtain b1 where b1: "process_ping ?C b ?ping (s_node a) = Inr (CHORD_NO_ERROR, b1)" "finger_at b1 (s_id a) \<noteq> None"
    "last (outbox b1) = Datagram (sock b) (addr_of a) (packet E CHORD_PONG (M_Pong ?pong))"
    using process_ping_answers [OF C(1,4) on(4) sends(2) from_node_peer(2) [OF C(3) assms(6)], of ?ping] assms(8) len C(5) by (auto simp: dest)
  have a1: "srv_inv E ?a1" "rtts_ok ?a1" "s_node ?a1 = s_node a" "outbox ?a1 = outbox a @ [Datagram (sock a) (addr_of b) (packet E CHORD_PING (M_Ping ?ping))]"
    "same_key a ?a1"
    using assms(4,9) by (auto simp: post_def srv_inv_def table_inv_def config_ok_def ids_ok_def rtts_ok_def dest same_key_def)
  have "verify_ticket E ?a1 ?tk ''c6sl'' [VA_int (packet_num CHORD_PING), VA_addr (s_addr b), VA_int (uint (s_port b)), VA_ulong t] = Inr True"
    by (rule issued_ticket_verifies [OF assms(2) _ srv_invD(2) [OF assms(4)] a1(5) vpack_hash_params(2)]) (use assms(1,10-12) a1(4) in \<open>simp_all add: env_ok_def\<close>)
  then have ver: "verify_ticket E ?a1 (pong_ticket ?pong) ''c6sl'' [VA_int (packet_num CHORD_PING), VA_addr (s_addr b), VA_int (uint (s_port b)),
      VA_ulong (pong_time ?pong)] = Inr True" by (simp only: Pong.simps)
  have now: "0 \<le> sint (get_current_time E ?a1 - pong_time ?pong)" "sint (get_current_time E ?a1 - pong_time ?pong) < 2 ^ 62"
    using assms(13,14) a1(4) by (simp_all add: get_current_time_def)
  have other: "sha1_ok E" "\<not> IN6_IS_ADDR_UNSPECIFIED (s_addr ?a1)" "\<not> (s_addr b = s_addr ?a1 \<and> s_port b = s_port ?a1)"
    using assms(1,8) on(1) a1(3) by (simp_all add: env_ok_def)
  obtain a2 f where a2: "process_pong E ?a1 ?pong (s_node b) = Inr (CHORD_NO_ERROR, a2)" "srv_inv E a2" "finger_at a2 (s_id b) = Some f"
    "is_active f" "f_npings f = 0" "f_addr f = s_addr b"
    by (rule process_pong_accepts [OF a1(1) other(1) from_node_peer(2) [OF assms(5,7)] other(2,3) a1(2) now ver])
  show ?thesis
    using ping b1 a1(4) a2 handle_ping [OF C(2) from_node_peer(1) [OF C(3) assms(6)], of ?ping b]
      handle_pong [OF assms(2) from_node_peer(1) [OF assms(5,7)], of ?pong ?a1] C(5) d
    by (intro exI [of _ ?a1] exI [of _ b1] exI [of _ a2] exI [of _ f]) simp
qed

lemma pair_srv_inv: "srv_inv demo_env (pair_srv a b)"
  by (simp add: srv_inv_def table_inv_def config_ok_def ids_ok_def pair_srv_def demo_srv_def ring_sorted_def passive_count_def range_start_def)

lemma pair_srv_sel [simp]:
  "s_node (pair_srv a b) = demo_peer a" "send_func (pair_srv a b) = Send_raw_v4" "online (pair_srv a b)" "outbox (pair_srv a b) = []" "rtts_ok (pair_srv a b)"
  by (simp_all add: pair_srv_def demo_srv_def rtts_ok_def online_def)

lemma ping_pong_handshake_witness:
  "\<exists>a1 b1 a2 f. send_ping demo_env (pair_srv 1 3) (demo_addr 2) 4000 4999000 = Inr a1 \<and> dg_dest (last (outbox a1)) = addr_of (pair_srv 2 3) \<and>
    handle_packet (with_clock demo_env \<lparr>clk_pack = \<lambda>_. 0, clk_verify = \<lambda>_. 0, clk_wall = \<lambda>_. 0\<rparr>) chord_disp
      (Some (addr_of (pair_srv 1 3), dg_bytes (last (outbox a1)))) (pair_srv 2 3) = Inr b1 \<and>
    finger_at b1 (s_id (pair_srv 1 3)) \<noteq> None \<and> dg_dest (last (outbox b1)) = addr_of (pair_srv 1 3) \<and>
    handle_packet demo_env chord_disp (Some (addr_of (pair_srv 2 3), dg_bytes (last (outbox b1)))) a1 = Inr a2 \<and>
    srv_inv demo_env a2 \<and> finger_at a2 (s_id (pair_srv 2 3)) = Some f \<and> is_active f \<and> f_npings f = 0 \<and> f_addr f = demo_addr 2"
  using ping_pong_handshake [OF _ _ new_server_eq [of "replicate 16 7"] pair_srv_inv pair_srv_inv, of 1 3 2 3 4999000
      "\<lparr>clk_pack = \<lambda>_. 0, clk_verify = \<lambda>_. 0, clk_wall = \<lambda>_. 0\<rparr>"]
  by (simp add: env_ok_def)

end
