(* ===== verification/Chord_Safety.thy ===== *)
theory Chord_Safety
  imports Chord_Handshake
begin

text \<open>
  When a datagram cannot bring a server down. The handlers assume things of the messages they are given: the lengths of the byte fields, ports in range, that a
  message does not name the server itself where an out-parameter is read without having been set, a successor, a plausible round-trip time. \<open>safe_for\<close> lists these
  assumptions, message by message; the theory shows that they are all there are: on a server that satisfies its invariant and can send to every address it knows,
  every message that meets them is handled without a fault. A server on an IPv4 socket, the only kind that the program can start, can send to IPv4-mapped addresses only: that the addresses in a packet are such is one of the
  assumptions, and a packet without any authentication that violates it ends the process.
\<close>

subsection \<open>What the handlers assume\<close>

text \<open>A server that can send to itself and to its fingers.\<close>

definition sendable :: "ChordServer \<Rightarrow> bool" where
  "sendable srv \<longleftrightarrow> send_func srv \<noteq> Send_unset \<and> (\<not> IN6_IS_ADDR_UNSPECIFIED (s_addr srv) \<longrightarrow> can_send srv (s_addr srv)) \<and>
     (\<forall>f \<in> set (flist srv). can_send srv (f_addr f))"

fun safe_for :: "env \<Rightarrow> ChordServer \<Rightarrow> Node \<Rightarrow> message \<Rightarrow> bool" where
  "safe_for E srv nd (M_AddrDiscover m) = (length (ad_ticket m) \<le> 65000)"
| "safe_for E srv nd (M_AddrDiscoverReply m) = (16 \<le> length (adr_addr m) \<and> can_send srv (take 16 (adr_addr m)))"
| "safe_for E srv nd (M_Data m) = (20 \<le> length (dat_id m) \<and> length (dat_data m) \<le> 65000)"
| "safe_for E srv nd (M_FindSuccessor m) = (16 \<le> length (fs_addr m) \<and> can_send srv (take 16 (fs_addr m)) \<and> length (fs_ticket m) \<le> 65000)"
| "safe_for E srv nd (M_FindSuccessorReply m) = (16 \<le> length (fsr_addr m) \<and> can_send srv (take 16 (fsr_addr m)) \<and> unat (fsr_port m) < 65536)"
| "safe_for E srv nd (M_Stabilize m) = (16 \<le> length (stab_addr m) \<and> can_send srv (take 16 (stab_addr m)))"
| "safe_for E srv nd (M_StabilizeReply m) = (16 \<le> length (stabr_addr m) \<and> can_send srv (take 16 (stabr_addr m)) \<and> unat (stabr_port m) < 65536 \<and> succ_finger srv \<noteq> None)"
| "safe_for E srv nd (M_Notify m) = (\<not> (n_addr nd = s_addr srv \<and> n_port nd = s_port srv))"
| "safe_for E srv nd (M_Ping m) = (\<not> (n_addr nd = s_addr srv \<and> n_port nd = s_port srv) \<and> length (ping_ticket m) \<le> 65000)"
| "safe_for E srv nd (M_Pong m) = (rtts_ok srv \<and> 0 \<le> sint (get_current_time E srv - pong_time m) \<and> sint (get_current_time E srv - pong_time m) < 2 ^ 62)"
| "safe_for E srv nd _ = False"

definition returned :: "'a res \<Rightarrow> bool" where
  "returned r \<longleftrightarrow> (\<exists>x. r = Inr x)"

lemma returned_simps [simp]: "returned (Inr x)" "\<not> returned (Inl e)"
  by (simp_all add: returned_def)

lemma returned_bind: "r = Inr x \<Longrightarrow> returned (f x) \<Longrightarrow> returned (fbind r f)"
  by simp

subsection \<open>The handlers one by one\<close>

lemma vpack_hash_formats:
  fixes p :: ushort and t :: ulong
  shows
  "\<exists>ps. vpack_hash E [] ''c6s'' [VA_int (packet_num CHORD_ADDR_DISCOVER), VA_addr a, VA_int (uint p)] = Inr ps"
  "\<exists>ps. vpack_hash E [] ''c6sl'' [VA_int (packet_num CHORD_PING), VA_addr a, VA_int (uint p), VA_ulong t] = Inr ps"
  "\<exists>ps. vpack_hash E [] ''c'' [VA_int (packet_num CHORD_FS)] = Inr ps"
  using vpack_hash_params [of E] by blast+

lemma verify_ticket_returns:
  assumes "sha1_ok E" and "pb_free_null E" and "config_ok srv" and "\<exists>ps. vpack_hash E [] fmt args = Inr ps"
  shows "\<exists>b. verify_ticket E srv ticket fmt args = Inr b"
proof -
  obtain ps where "vpack_hash E [] fmt args = Inr ps" using assms(4) by blast
  then have "vpack_hash E c fmt args = Inr (c @ ps)" for c using vpack_hash_ctx [of E c fmt args] by simp
  then show ?thesis
    using assms(1-3) by (auto simp: verify_ticket_def verify_ticket_impl_def pack_hash_def memcpy_def config_ok_def split: option.splits message.splits)
qed

lemma sendable_frame:
  assumes "sendable srv" and "send_func srv' = send_func srv" and "s_addr srv' = s_addr srv" and "\<And>g. g \<in> set (flist srv') \<Longrightarrow> f_addr g = a \<or> f_addr g \<in> f_addr ` set (flist srv)" and "can_send srv a"
  shows "sendable srv'" and "can_send srv' = can_send srv"
proof -
  show same: "can_send srv' = can_send srv" using assms(2) by (simp add: can_send_def fun_eq_iff)
  have "can_send srv (f_addr g)" if "g \<in> set (flist srv')" for g using assms(1,5) assms(4) [OF that] by (auto simp: sendable_def)
  then show "sendable srv'" using assms(1-3) by (auto simp: sendable_def same)
qed

lemma sendable_sent: "sent srv srv' \<Longrightarrow> sendable srv' = sendable srv" "sent srv srv' \<Longrightarrow> can_send srv' = can_send srv"
  by (auto simp: sent_def sendable_def can_send_def fun_eq_iff)

lemma sendable_fingers:
  assumes "sendable srv"
  shows "succ_finger srv = Some f \<Longrightarrow> can_send srv (f_addr f)" "pred_finger srv = Some f \<Longrightarrow> can_send srv (f_addr f)" "finger_at srv i = Some f \<Longrightarrow> can_send srv (f_addr f)"
    "\<not> IN6_IS_ADDR_UNSPECIFIED (s_addr srv) \<Longrightarrow> can_send srv (n_addr (closest_preceding_node srv x b))"
    "\<not> IN6_IS_ADDR_UNSPECIFIED (s_addr srv) \<Longrightarrow> next_route_node srv x b = (np, l) \<Longrightarrow> can_send srv (n_addr np)"
proof -
  have f: "g \<in> set (flist srv) \<Longrightarrow> can_send srv (f_addr g)" for g using assms by (simp add: sendable_def)
  show 1: "succ_finger srv = Some f \<Longrightarrow> can_send srv (f_addr f)" and 2: "pred_finger srv = Some f \<Longrightarrow> can_send srv (f_addr f)" and
    "finger_at srv i = Some f \<Longrightarrow> can_send srv (f_addr f)" for f i
    using f by (auto simp: succ_finger_def pred_finger_def finger_at_def dest: find_Some_in find_rev_Some_in)
  show 4: "\<not> IN6_IS_ADDR_UNSPECIFIED (s_addr srv) \<Longrightarrow> can_send srv (n_addr (closest_preceding_node srv x b))" for x b
    using assms f by (auto simp: closest_preceding_node_def closest_preceding_finger_def sendable_def split: option.splits dest: find_rev_Some_in)
  show "\<not> IN6_IS_ADDR_UNSPECIFIED (s_addr srv) \<Longrightarrow> next_route_node srv x b = (np, l) \<Longrightarrow> can_send srv (n_addr np)"
    using 1 2 4 by (auto simp: next_route_node_def split: option.splits if_splits)
qed

lemma insert_finger_returns:
  assumes "srv_inv E srv" and "sha1_ok E" and "\<not> IN6_IS_ADDR_UNSPECIFIED (s_addr srv)" and "wf_addr a" and "i = addr_id E a p"
  obtains fo fn srv1 where "insert_finger srv i a p = Inr (fo, fn, srv1)" "srv_inv E srv1" "can_send srv1 = can_send srv" "sendable srv \<Longrightarrow> can_send srv a \<Longrightarrow> sendable srv1"
    "active_ids srv1 = active_ids srv" "fn = None \<longleftrightarrow> a = s_addr srv \<and> p = s_port srv" "\<And>f. fo = Some f \<Longrightarrow> f \<in> set (flist srv1)"
proof -
  have i: "wf_id i" using assms(2,5) by simp
  obtain fo fn srv1 where ins: "insert_finger srv i a p = Inr (fo, fn, srv1)" "fn = None \<longleftrightarrow> a = s_addr srv \<and> p = s_port srv"
    using insert_finger_ok [OF srv_invD(1) [OF assms(1)] i assms(4), of p] by metis
  note inv = insert_finger_srv_inv [OF assms(1-4), of p fo fn srv1, folded assms(5), OF ins(1)]
  have fr: "send_func srv1 = send_func srv" "s_addr srv1 = s_addr srv" using table_frameD [OF inv(2)] by simp_all
  have new: "g \<in> set (flist srv1) \<Longrightarrow> f_addr g = a \<or> f_addr g \<in> f_addr ` set (flist srv)" for g
    using insert_finger_new_set [OF srv_invD(1) [OF assms(1)] i assms(4) ins(1), of g] by auto
  have keeps: "sendable srv1" if "sendable srv" "can_send srv a" using sendable_frame(1) [OF that(1) fr _ that(2)] new by blast
  have same: "can_send srv1 = can_send srv" using fr(1) by (simp add: can_send_def fun_eq_iff)
  show ?thesis
    using keeps by (intro that [OF ins(1) inv(1) same _ insert_finger_active_ids [OF srv_invD(1) [OF assms(1)] i assms(4) ins(1)] ins(2)]) (auto intro: inv(3))
qed

lemma send_ping_returns: "env_ok E \<Longrightarrow> srv_inv E srv \<Longrightarrow> can_send srv a \<Longrightarrow> \<exists>srv'. send_ping E srv a p t = Inr srv' \<and> sent srv srv'"
  using send_ping_total srv_invD(2) sent_post by fastforce

text \<open>A handler that returns and leaves a server that can still send to everyone it knows.\<close>

definition fine :: "handled \<Rightarrow> bool" where
  "fine r \<longleftrightarrow> (\<exists>err srv'. r = Inr (err, srv') \<and> sendable srv')"

lemma fine_simps [simp]: "fine (Inr (err, srv)) \<longleftrightarrow> sendable srv" "\<not> fine (Inl e)"
  by (simp_all add: fine_def)

lemma fine_send: "r = Inr srv' \<Longrightarrow> sent srv srv' \<Longrightarrow> sendable srv \<Longrightarrow> fine (fbind r (\<lambda>srv. Inr (err, srv)))"
  by (simp add: sendable_sent)

lemma ping_new_fine:
  "env_ok E \<Longrightarrow> srv_inv E srv \<Longrightarrow> sendable srv \<Longrightarrow> can_send srv a \<Longrightarrow> fine (fbind (if b then send_ping E srv a p t else Inr srv) (\<lambda>srv. Inr (e, srv)))"
  using send_ping_returns [of E srv a p t] by (auto simp: sendable_sent)

lemma process_addr_discover_returns:
  assumes "env_ok E" and "sendable srv" and "wf_node E nd" and "can_send srv (n_addr nd)" and "length (ad_ticket m) \<le> 65000"
  shows "fine (process_addr_discover E srv m nd)"
  using send_addr_discover_reply_total [OF assms(1,5) _ assms(4), of "n_port nd"] assms(2,3) sendable_sent(1) [OF sent_post]
  by (simp add: process_addr_discover_def wf_node_def)

lemma process_addr_discover_reply_returns:
  assumes "env_ok E" and "pb_free_null E" and "srv_inv E srv" and "sendable srv" and "16 \<le> length (adr_addr m)" and "can_send srv (take 16 (adr_addr m))"
  shows "fine (process_addr_discover_reply E srv m nd)"
  using verify_ticket_returns [OF env_okD(1) [OF assms(1)] assms(2) srv_invD(2) [OF assms(3)] vpack_hash_formats(1), of "adr_ticket m" "n_addr nd" "n_port nd"] assms(4-6)
  by (auto simp: process_addr_discover_reply_def v6_addr_set_def memcpy_def Let_def chord_update_range_def sendable_def can_send_def)

lemma process_data_returns:
  assumes "env_ok E" and "sendable srv" and "20 \<le> length (dat_id m)" and "length (dat_data m) \<le> 65000"
  shows "fine (process_data E srv m nd)"
proof -
  have len: "unat (word_of_nat (length (dat_data m)) :: ushort) = length (dat_data m)" using assms(4) by (simp add: unat_of_nat take_bit_eq_mod)
  have "fine (fbind (send_data E srv l ttl np (take 20 (dat_id m)) (word_of_nat (length (dat_data m))) (dat_data m)) (\<lambda>srv. Inr (err, srv)))"
    if "can_send srv (n_addr np)" for l ttl np err
    using send_data_total [OF assms(1), of "take 20 (dat_id m)" "word_of_nat (length (dat_data m))" "dat_data m" srv np l ttl] assms that sendable_sent(1) [OF sent_post]
    by (simp add: wf_id_def len)
  then show ?thesis
    using assms(2,3) sendable_fingers(5) [OF assms(2)] by (auto simp: process_data_def memcpy_def Let_def split: prod.splits)
qed

lemma process_fs_returns:
  assumes "env_ok E" and "srv_inv E srv" and "sendable srv" and "16 \<le> length (fs_addr m)" and "can_send srv (take 16 (fs_addr m))" and "length (fs_ticket m) \<le> 65000"
  shows "fine (process_fs E srv m nd)"
proof -
  have wf: "wf_addr (s_addr srv)" using table_invD(2) srv_invD(1) [OF assms(2)] by blast
  have sf: "wf_addr (f_addr f)" if "succ_finger srv = Some f" for f
    using that table_invD(3) [OF srv_invD(1) [OF assms(2)]] wf_fingerD(2) by (auto simp: succ_finger_def dest: find_Some_in)
  have "wf_addr (take 16 (fs_addr m))" using assms(4) by (simp add: wf_addr_def)
  then show ?thesis
    using send_fs_reply_total [OF assms(1,6) wf assms(5)] send_fs_reply_total [OF assms(1,6) sf assms(5)] send_fs_forward_total [OF assms(1,6)] assms(3,4)
      sendable_fingers(4) [OF assms(3)] sendable_sent(1) [OF sent_post]
    by (auto simp: process_fs_def v6_addr_set_def memcpy_def Let_def split: option.splits)
qed

lemma ucast_short_back: "unat (w :: uint32) < 65536 \<Longrightarrow> (ucast (ucast w :: ushort) :: uint32) = w"
  by (simp add: word_unat_eq_iff unsigned_ucast_eq take_bit_eq_mod unat_mod_distrib)

lemma process_fs_reply_returns:
  assumes "env_ok E" and "pb_free_null E" and "srv_inv E srv" and "sendable srv" and "16 \<le> length (fsr_addr m)" and "can_send srv (take 16 (fsr_addr m))" and "unat (fsr_port m) < 65536"
  shows "fine (process_fs_reply E srv m nd)"
proof (cases "IN6_IS_ADDR_UNSPECIFIED (s_addr srv)")
  case False
  let ?a = "take 16 (fsr_addr m)" and ?p = "ucast (fsr_port m) :: ushort"
  have wf: "wf_addr ?a" using assms(5) by (simp add: wf_addr_def)
  have port: "(ucast ?p :: uint32) = fsr_port m" using assms(7) by (rule ucast_short_back)
  obtain b where b: "verify_ticket E srv (fsr_ticket m) ''c'' [VA_int (packet_num CHORD_FS)] = Inr b"
    using verify_ticket_returns [OF env_okD(1) [OF assms(1)] assms(2) srv_invD(2) [OF assms(3)] vpack_hash_formats(3)] by blast
  obtain fo fn srv1 where ins: "insert_finger srv (addr_id E ?a ?p) ?a ?p = Inr (fo, fn, srv1)" "srv_inv E srv1" "can_send srv1 = can_send srv" "sendable srv1"
    "fn = None \<longleftrightarrow> ?a = s_addr srv \<and> ?p = s_port srv"
    using insert_finger_returns [OF assms(3) env_okD(1) [OF assms(1)] False wf refl] assms(4,6) by metis
  have "v6_addr_equals (s_addr srv) ?a \<and> ucast (s_port srv) = fsr_port m" if "fn = None"
    using that ins(5) port table_invD(2) [OF srv_invD(1) [OF assms(3)]] wf by (auto simp: v6_addr_equals_iff)
  then show ?thesis
    using False assms(4,5) b ins(1) ping_new_fine [OF assms(1) ins(2,4), of ?a] ins(3) assms(6) by (cases fn) (auto simp: process_fs_reply_def memcpy_def)
qed (use assms(4) in \<open>simp add: process_fs_reply_def\<close>)

lemma pred_finger_kept:
  assumes "table_inv srv" and "table_inv srv1" and "active_ids srv1 = active_ids srv" and "pred_finger srv = Some p"
  shows "\<exists>q. finger_at srv1 (f_id p) = Some q \<and> q \<in> set (flist srv1)"
proof -
  have "map_option f_id (pred_finger srv1) = Some (f_id p)" using pred_finger_active_ids [of srv] pred_finger_active_ids [of srv1] assms(3,4) by simp
  then obtain q where "pred_finger srv1 = Some q" "f_id q = f_id p" by (cases "pred_finger srv1") auto
  then show ?thesis using finger_at_eq [OF assms(2)] by (auto simp: pred_finger_def dest: find_rev_Some_in)
qed

lemma process_stab_returns:
  assumes "env_ok E" and "srv_inv E srv" and "sendable srv" and "16 \<le> length (stab_addr m)" and "can_send srv (take 16 (stab_addr m))"
  shows "fine (process_stab E srv m nd)"
proof (cases "IN6_IS_ADDR_UNSPECIFIED (s_addr srv)")
  case False
  let ?a = "take 16 (stab_addr m)" and ?p = "ucast (stab_port m) :: ushort"
  have wf: "wf_addr ?a" using assms(4) by (simp add: wf_addr_def)
  obtain fo fn srv1 where ins: "insert_finger srv (addr_id E ?a ?p) ?a ?p = Inr (fo, fn, srv1)" "srv_inv E srv1" "can_send srv1 = can_send srv" "sendable srv1"
    "active_ids srv1 = active_ids srv"
    using insert_finger_returns [OF assms(2) env_okD(1) [OF assms(1)] False wf refl] assms(3,5) by metis
  have "fine (fbind (send_stab_reply E srv1 ?a ?p (f_addr q) (f_port q)) (\<lambda>srv. Inr (err, srv)))" if "q \<in> set (flist srv1)" for q err
    using send_stab_reply_total [OF assms(1) wf_fingerD(2) [OF table_invD(3) [OF srv_invD(1) [OF ins(2)] that]]] ins(3,4) assms(5) sendable_sent(1) [OF sent_post] by simp
  then show ?thesis
    using False assms(4) ins(1,4) pred_finger_kept [OF srv_invD(1) [OF assms(2)] srv_invD(1) [OF ins(2)] ins(5)]
    by (cases "pred_finger srv") (fastforce simp: process_stab_def memcpy_def)+
qed (use assms(3) in \<open>simp add: process_stab_def\<close>)

lemma process_stab_reply_returns:
  assumes "env_ok E" and "srv_inv E srv" and "sendable srv" and "16 \<le> length (stabr_addr m)" and "can_send srv (take 16 (stabr_addr m))" and "unat (stabr_port m) < 65536"
    and "succ_finger srv \<noteq> None"
  shows "fine (process_stab_reply E srv m nd)"
proof (cases "IN6_IS_ADDR_UNSPECIFIED (s_addr srv)")
  case False
  let ?a = "take 16 (stabr_addr m)" and ?p = "ucast (stabr_port m) :: ushort"
  have wf: "wf_addr ?a" using assms(4) by (simp add: wf_addr_def)
  have port: "(ucast ?p :: uint32) = stabr_port m" using assms(6) by (rule ucast_short_back)
  obtain fo fn srv1 where ins: "insert_finger srv (addr_id E ?a ?p) ?a ?p = Inr (fo, fn, srv1)" "srv_inv E srv1" "can_send srv1 = can_send srv" "sendable srv1"
    "active_ids srv1 = active_ids srv" "fn = None \<longleftrightarrow> ?a = s_addr srv \<and> ?p = s_port srv"
    using insert_finger_returns [OF assms(2) env_okD(1) [OF assms(1)] False wf refl] assms(3,5) by metis
  have self: "v6_addr_equals (s_addr srv) ?a \<and> ucast (s_port srv) = stabr_port m" if "fn = None"
    using that ins(6) port table_invD(2) [OF srv_invD(1) [OF assms(2)]] wf by (auto simp: v6_addr_equals_iff)
  have "map_option f_id (succ_finger srv1) = map_option f_id (succ_finger srv)" using succ_finger_active_ids ins(5) by metis
  then obtain sf where sf: "succ_finger srv1 = Some sf" using assms(7) by (cases "succ_finger srv1") auto
  have "fine (fbind (if b then send_ping E (post E srv1 x q t msg) ?a r u else Inr (post E srv1 x q t msg)) (\<lambda>srv. Inr (e, srv)))" for b x q t msg r u e
    using ins(2-4) assms(5) by (intro ping_new_fine [OF assms(1)]) (simp_all add: sendable_sent [OF sent_post])
  then show ?thesis
    using False assms(3,4) ins(1,2) sf self send_notify_total [OF assms(1) sendable_fingers(1) [OF ins(4) sf]]
    by (cases fn) (auto simp: process_stab_reply_def memcpy_def)
qed (use assms(3) in \<open>simp add: process_stab_reply_def\<close>)

lemma sender_inserted:
  assumes "env_ok E" and "srv_inv E srv" and "sendable srv" and "\<not> IN6_IS_ADDR_UNSPECIFIED (s_addr srv)" and "wf_node E nd" and "can_send srv (n_addr nd)"
    and "\<not> (n_addr nd = s_addr srv \<and> n_port nd = s_port srv)"
  obtains fo b srv1 where "insert_finger srv (n_id nd) (n_addr nd) (n_port nd) = Inr (fo, Some b, srv1)" "srv_inv E srv1" "sendable srv1" "can_send srv1 = can_send srv"
proof -
  have nd: "wf_addr (n_addr nd)" "n_id nd = addr_id E (n_addr nd) (n_port nd)" using assms(5) by (auto simp: wf_node_def)
  obtain fo fn srv1 where ins: "insert_finger srv (n_id nd) (n_addr nd) (n_port nd) = Inr (fo, fn, srv1)" "srv_inv E srv1" "sendable srv1" "can_send srv1 = can_send srv"
    "fn \<noteq> None" using insert_finger_returns [OF assms(2) env_okD(1) [OF assms(1)] assms(4) nd] assms(3,6,7) by metis
  then show ?thesis using that by (cases fn) auto
qed

lemma process_notify_returns:
  assumes "env_ok E" and "srv_inv E srv" and "sendable srv" and "wf_node E nd" and "can_send srv (n_addr nd)" and "\<not> (n_addr nd = s_addr srv \<and> n_port nd = s_port srv)"
  shows "fine (process_notify E srv m nd)"
proof (cases "IN6_IS_ADDR_UNSPECIFIED (s_addr srv)")
  case False
  obtain fo b srv1 where "insert_finger srv (n_id nd) (n_addr nd) (n_port nd) = Inr (fo, Some b, srv1)" "srv_inv E srv1" "sendable srv1" "can_send srv1 = can_send srv"
    using sender_inserted [OF assms(1-3) False assms(4-6)] by metis
  then show ?thesis using False assms(5) ping_new_fine [OF assms(1), of srv1 "n_addr nd"] by (auto simp: process_notify_def)
qed (use assms(3) in \<open>simp add: process_notify_def\<close>)

lemma process_ping_returns:
  assumes "env_ok E" and "srv_inv E srv" and "sendable srv" and "wf_node E nd" and "can_send srv (n_addr nd)" and "\<not> (n_addr nd = s_addr srv \<and> n_port nd = s_port srv)"
    and "length (ping_ticket m) \<le> 65000"
  shows "fine (process_ping E srv m nd)"
proof (cases "IN6_IS_ADDR_UNSPECIFIED (s_addr srv)")
  case False
  obtain fo b srv1 where ins: "insert_finger srv (n_id nd) (n_addr nd) (n_port nd) = Inr (fo, Some b, srv1)" "srv_inv E srv1" "sendable srv1" "can_send srv1 = can_send srv"
    using sender_inserted [OF assms(1-3) False assms(4-6)] by metis
  have ping: "\<exists>srv2. (if c then send_ping E srv1 (n_addr nd) (n_port nd) t else Inr srv1) = Inr srv2 \<and> sent srv1 srv2" for c t
    using send_ping_returns [OF assms(1) ins(2), of "n_addr nd"] ins(4) assms(5) by simp
  have "fine (fbind (send_pong E srv2 (ping_ticket m) (n_addr nd) (n_port nd) (ping_time m)) (\<lambda>srv. Inr (e, srv)))" if "sent srv1 srv2" for srv2 e
    using send_pong_total [OF assms(1,7), of srv2 "n_addr nd"] sendable_sent [OF that] ins(3,4) assms(5) sendable_sent(1) [OF sent_post] by simp
  then have "fine (fbind (if c then send_ping E srv1 (n_addr nd) (n_port nd) t else Inr srv1) (\<lambda>srv. fbind (send_pong E srv (ping_ticket m) (n_addr nd) (n_port nd) (ping_time m)) (\<lambda>srv. Inr (e, srv))))" for c t e
    using ping [of c t] by (elim exE conjE) (simp only: fbind_simps)
  then show ?thesis using False ins(1) by (simp add: process_ping_def Let_def)
qed (use assms(3) in \<open>simp add: process_ping_def\<close>)

lemma pong_refresh_sendable:
  assumes "table_inv srv" and "f \<in> set (flist srv)" and "sendable srv" and "pong_refresh E srv m f = Inr srv'"
  shows "sendable srv'"
proof -
  obtain rtt where "srv' = activated (upd_finger (f_id f) (refreshed rtt) srv) f" using assms(4) pong_refresh_eq [OF assms(1,2), of E m] by (auto simp: fbind_Inr_iff)
  then have "send_func srv' = send_func srv" "s_addr srv' = s_addr srv" and "map f_addr (flist srv') = map f_addr (flist srv)"
    by (simp_all add: activated_def upd_finger_def refreshed_def Let_def)
  moreover from this(3) have "f_addr ` set (flist srv') = f_addr ` set (flist srv)" by (metis list.set_map)
  ultimately show ?thesis using sendable_frame(1) [OF assms(3), of srv' "f_addr f"] assms(2,3) by (auto simp: sendable_def)
qed

lemma process_pong_sendable:
  assumes "env_ok E" and "srv_inv E srv" and "sendable srv" and "wf_node E nd" and "can_send srv (n_addr nd)" and "process_pong E srv m nd = Inr (err, srv')"
  shows "sendable srv'"
proof (cases "srv' = srv")
  case False
  then have known: "\<not> IN6_IS_ADDR_UNSPECIFIED (s_addr srv)" using assms(6) by (auto simp: process_pong_def)
  have nd: "wf_addr (n_addr nd)" "n_id nd = addr_id E (n_addr nd) (n_port nd)" using assms(4) by (auto simp: wf_node_def)
  obtain fo fn srv1 where ins: "insert_finger srv (n_id nd) (n_addr nd) (n_port nd) = Inr (fo, fn, srv1)" "srv_inv E srv1" "sendable srv1" "\<And>f. fo = Some f \<Longrightarrow> f \<in> set (flist srv1)"
    using insert_finger_returns [OF assms(2) env_okD(1) [OF assms(1)] known nd] assms(3,5) by metis
  then show ?thesis
    using assms(6) False known pong_refresh_sendable [OF srv_invD(1) [OF ins(2)] ins(4) ins(3)]
    by (auto simp: process_pong_def fbind_Inr_iff split: if_splits option.splits)
qed (use assms(3) in simp)

lemma process_pong_returns:
  assumes "env_ok E" and "pb_free_null E" and "srv_inv E srv" and "sendable srv" and "wf_node E nd" and "can_send srv (n_addr nd)" and "rtts_ok srv"
    and "0 \<le> sint (get_current_time E srv - pong_time m)" and "sint (get_current_time E srv - pong_time m) < 2 ^ 62"
  shows "fine (process_pong E srv m nd)"
proof -
  obtain b where b: "verify_ticket E srv (pong_ticket m) ''c6sl'' [VA_int (packet_num CHORD_PING), VA_addr (n_addr nd), VA_int (uint (n_port nd)),
      VA_ulong (pong_time m)] = Inr b"
    using verify_ticket_returns [OF env_okD(1) [OF assms(1)] assms(2) srv_invD(2) [OF assms(3)] vpack_hash_formats(2)] by blast
  have own: "insert_finger srv i (s_addr srv) (s_port srv) = Inr (None, None, srv)" for i
    using table_invD(2) [OF srv_invD(1) [OF assms(3)]] by (simp add: insert_finger_def v6_addr_equals_iff)
  have "\<exists>err srv'. process_pong E srv m nd = Inr (err, srv')"
  proof (cases "IN6_IS_ADDR_UNSPECIFIED (s_addr srv) \<or> n_addr nd = s_addr srv \<and> n_port nd = s_port srv \<or> \<not> b")
    case True
    then show ?thesis using b own by (auto simp: process_pong_def)
  next
    case False
    then show ?thesis using process_pong_accepts [OF assms(3) env_okD(1) [OF assms(1)] assms(5) _ _ assms(7-9)] b by metis
  qed
  then show ?thesis using process_pong_sendable [OF assms(1,3-6)] by (auto simp: fine_def)
qed

subsection \<open>Every datagram\<close>

lemma call_process_returns:
  assumes "env_ok E" and "pb_free_null E" and "srv_inv E srv" and "sendable srv" and "wf_node E nd" and "can_send srv (n_addr nd)"
    and "(t, name, descriptor_of msg, process) \<in> set chord_handlers" and "safe_for E srv nd msg"
  shows "fine (call_process E process msg nd srv)"
  using assms(7,8)
  by (cases msg)
    (auto simp: chord_handlers_def call_process_def
      intro: process_addr_discover_returns [OF assms(1,4-6)] process_addr_discover_reply_returns [OF assms(1-4)] process_data_returns [OF assms(1,4)]
        process_fs_returns [OF assms(1,3,4)] process_fs_reply_returns [OF assms(1-4)] process_stab_returns [OF assms(1,3,4)]
        process_stab_reply_returns [OF assms(1,3,4)] process_notify_returns [OF assms(1,3-6)] process_ping_returns [OF assms(1,3-6)]
        process_pong_returns [OF assms(1-6)])


lemma sender_can_send: "srv_inv E srv \<Longrightarrow> sendable srv \<Longrightarrow> wf_source srv sa \<Longrightarrow> from_node E srv sa = Inr nd \<Longrightarrow> can_send srv (n_addr nd)"
  using srv_invD(2) [of E srv] by (cases sa) (auto simp: wf_source_def from_node_def config_ok_def sendable_def can_send_def split: if_splits)

text \<open>
  C12. A server survives every sound message: take a server that satisfies the invariant and can send to itself and to its fingers (\<open>sendable\<close>: on an IPv4 socket, their
  addresses are IPv4-mapped). When the bytes of a canonical message arrive under the type it is registered for, and the message meets what its handler
  assumes (\<open>safe_for\<close>), \<^verbatim>\<open>handle_packet\<close> returns, and the server satisfies the invariant and can send to itself and to its fingers afterwards. The codec is one
  that accepts a \<^verbatim>\<open>NULL\<close> message when freeing.
\<close>

theorem sound_packet_handled:
  assumes "env_ok E" and "codec_ok E" and "pb_free_null E" and "new_server rand = Inr (srv0, d)" and "srv_inv E srv" and "sendable srv"
    and "(t, name, descriptor_of msg, process) \<in> set chord_handlers" and "canonical msg" and "wf_source srv sa"
    and "from_node E srv sa = Inr nd" and "safe_for E srv nd msg"
  shows "\<exists>srv'. handle_packet E d (Some (sa, packet E t msg)) srv = Inr srv' \<and> srv_inv E srv' \<and> sendable srv'"
proof -
  have d: "d = chord_disp" using assms(4) by (simp add: new_server_eq)
  have "wf_node E nd" using from_node_wf [OF assms(9), of E] assms(10) by simp
  then obtain ret srv' where fin: "call_process E process msg nd srv = Inr (ret, srv')" "sendable srv'"
    using call_process_returns [OF assms(1,3,5,6) _ sender_can_send [OF assms(5,6,9,10)] assms(7,11)] by (auto simp: fine_def)
  then have run: "handle_packet E d (Some (sa, packet E t msg)) srv = Inr srv'"
    using handle_packet_run [OF assms(2,7,8,10)] d by simp
  then show ?thesis
    using returnsD [OF handle_packet_keeps [OF assms(5) env_okD(1) [OF assms(1)], of "Some (sa, packet E t msg)" d] run] assms(9) fin(2) by simp
qed

lemma pair_srv_sendable: "sendable (pair_srv a b)"
  by (simp add: sendable_def pair_srv_def demo_srv_def can_send_def)

lemma pair_srv_v4: "is_v6 (pair_srv a b) = False" "send_func (pair_srv a b) = Send_raw_v4" "s_node (pair_srv a b) = demo_peer a" "flist (pair_srv a b) = [demo_peer_finger b F_ACTIVE]"
  by (simp_all add: pair_srv_def demo_srv_def)

lemma sound_packet_handled_witness:
  "\<exists>srv'. handle_packet demo_env chord_disp (Some (addr_of (pair_srv 3 1), packet demo_env CHORD_STAB_REPLY
      (M_StabilizeReply \<lparr>stabr_addr = demo_addr 4, stabr_port = 4000\<rparr>))) (pair_srv 1 2) = Inr srv' \<and> srv_inv demo_env srv' \<and> sendable srv'"
proof (rule sound_packet_handled)
  show "from_node demo_env (pair_srv 1 2) (addr_of (pair_srv 3 1)) = Inr (demo_peer 3)"
    using from_node_peer(1) [OF pair_srv_inv [of 3 1]] by (simp add: online_def pair_srv_v4)
  show "new_server (replicate 16 7) = Inr (fresh_server (replicate 16 7), chord_disp)" by (rule new_server_eq)
  show "(CHORD_STAB_REPLY, ''CHORD_STAB_REPLY'', descriptor_of (M_StabilizeReply \<lparr>stabr_addr = demo_addr 4, stabr_port = 4000\<rparr>), P_stab_reply) \<in> set chord_handlers"
    by (simp add: chord_handlers_def)
qed (simp_all add: pair_srv_inv pair_srv_sendable wf_source_def addr_of_def pair_srv_v4 can_send_def succ_finger_def)

subsection \<open>An address that an IPv4 server cannot send to\<close>

text \<open>
  C13. A packet that needs no ticket ends an IPv4 server: on a server whose socket is IPv4, that knows its address and has a predecessor, a \<^verbatim>\<open>STAB\<close> packet, from anyone,
  with sixteen bytes of address that are not an IPv4-mapped address is not refused; the reply is addressed to those bytes, and the assertion of \<^verbatim>\<open>send_raw_v4\<close> fails.
\<close>

theorem unmapped_stab_aborts:
  assumes "env_ok E" and "codec_ok E" and "new_server rand = Inr (srv0, d)" and "srv_inv E srv" and "send_func srv = Send_raw_v4"
    and "\<not> IN6_IS_ADDR_UNSPECIFIED (s_addr srv)" and "pred_finger srv = Some p" and "length (stab_addr m) = 16" and "\<not> V4_MAPPED (stab_addr m)"
    and "wf_source srv sa"
  shows "handle_packet E d (Some (sa, packet E CHORD_STAB (M_Stabilize m))) srv = Inl Assert_failed"
proof -
  let ?a = "stab_addr m" and ?p = "ucast (stab_port m) :: ushort"
  have d: "d = chord_disp" using assms(3) by (simp add: new_server_eq)
  have wf: "wf_addr ?a" "take 16 ?a = ?a" using assms(8) by (simp_all add: wf_addr_def)
  obtain nd where nd: "from_node E srv sa = Inr nd" using assms(10) by (cases sa) (simp_all add: from_node_def)
  obtain fo fn srv1 where ins: "insert_finger srv (addr_id E ?a ?p) ?a ?p = Inr (fo, fn, srv1)" "srv_inv E srv1" "can_send srv1 = can_send srv"
    "active_ids srv1 = active_ids srv"
    using insert_finger_returns [OF assms(4) env_okD(1) [OF assms(1)] assms(6) wf(1) refl] by metis
  then obtain q where q: "finger_at srv1 (f_id p) = Some q" "q \<in> set (flist srv1)"
    using pred_finger_kept [OF srv_invD(1) [OF assms(4)] srv_invD(1) [OF ins(2)] ins(4) assms(7)] by blast
  have "can_send srv1 ?a = False" "send_func srv1 = Send_raw_v4"
    using ins(3) assms(5,9) insert_finger_srv_inv(2) [OF assms(4) env_okD(1) [OF assms(1)] assms(6) wf(1) ins(1)] by (simp_all add: can_send_def table_frameD)
  moreover have "fits E (M_StabilizeReply \<lparr>stabr_addr = f_addr q, stabr_port = ucast (f_port q)\<rparr>)"
    using wf_fingerD(2) [OF table_invD(3) [OF srv_invD(1) [OF ins(2)] q(2)]] fits_small [OF env_okD(2) [OF assms(1)]] by (simp add: wf_addr_def)
  ultimately have "send_stab_reply E srv1 ?a ?p (f_addr q) (f_port q) = Inl Assert_failed"
    by (simp add: send_stab_reply_def pack_stab_reply_def STABILIZE_REPLY__INIT_def chan.enc_total send_packet_eq)
  then have "process_stab E srv m nd = Inl Assert_failed"
    using assms(6-8) ins(1) q(1) wf(2) by (simp add: process_stab_def memcpy_def)
  then show ?thesis
    unfolding d by (subst handle_packet_run [OF assms(2), where process = P_stab and name = "''CHORD_STAB''", OF _ _ nd])
      (simp_all add: chord_handlers_def call_process_def)
qed

lemma unmapped_stab_aborts_witness:
  "handle_packet demo_env chord_disp (Some (addr_of (pair_srv 3 1), packet demo_env CHORD_STAB
      (M_Stabilize \<lparr>stab_addr = replicate 16 1, stab_port = 4000\<rparr>))) (pair_srv 1 2) = Inl Assert_failed"
proof (rule unmapped_stab_aborts)
  show "new_server (replicate 16 7) = Inr (fresh_server (replicate 16 7), chord_disp)" by (rule new_server_eq)
  show "pred_finger (pair_srv 1 2) = Some (demo_peer_finger 2 F_ACTIVE)" by (simp add: pred_finger_def pair_srv_v4)
qed (simp_all add: pair_srv_inv wf_source_def addr_of_def pair_srv_v4 V4_MAPPED_def eval_nat_numeral)

subsection \<open>Replies are authenticated\<close>

text \<open>The replies that carry back a ticket of this server: the ticket, and the bytes that the hash in it must cover for this sender and this reply.\<close>

fun reply_ticket :: "Node \<Rightarrow> message \<Rightarrow> (byte list \<times> byte list) option" where
  "reply_ticket nd (M_AddrDiscoverReply m) = Some (adr_ticket m, discover_params (n_addr nd) (n_port nd))"
| "reply_ticket nd (M_FindSuccessorReply m) = Some (fsr_ticket m, [3])"
| "reply_ticket nd (M_Pong m) = Some (pong_ticket m, ping_params (n_addr nd) (n_port nd) (pong_time m))"
| "reply_ticket nd _ = None"

definition authentic :: "env \<Rightarrow> ChordServer \<Rightarrow> byte list \<Rightarrow> byte list \<Rightarrow> bool" where
  "authentic E srv ticket params \<longleftrightarrow> (case pb_unpack E ticket__descriptor ticket of
     Some (M_Ticket tk) \<Rightarrow> time_verify E (length (outbox srv)) - TICKET_TIMEOUT \<le> uint (tkt_time tk) \<and>
       tkt_hash tk = take (ticket_hash_len srv) (ticket_digest E (ticket_salt srv) (tkt_time tk) params)
   | _ \<Rightarrow> False)"

lemma verify_ticket_authentic:
  assumes "sha1_ok E" and "config_ok srv" and "vpack_hash E [] fmt args = Inr params"
  shows "verify_ticket E srv ticket fmt args = Inr True \<longleftrightarrow> authentic E srv ticket params"
  using assms(2) by (simp add: verify_ticket_def verify_ticket_Inr_True [OF _ _ assms(1,3)] config_ok_def authentic_def split: option.splits message.splits)

text \<open>
  C14. Only an authentic reply has an effect: when the bytes of an \<^verbatim>\<open>ADDR_DISCOVER_REPLY\<close>, an \<^verbatim>\<open>FS_REPLY\<close> or a \<^verbatim>\<open>PONG\<close> change a server in any way (its address, its fingers, its timers,
  what it has sent), whether it knows its address or not, then the ticket in them is one that has not expired and whose hash is the truncated digest of the server's secret, the time in the ticket, and the packet type, for an \<^verbatim>\<open>ADDR_DISCOVER_REPLY\<close> and a
  \<^verbatim>\<open>PONG\<close> also the address and port the datagram came from, and for a \<^verbatim>\<open>PONG\<close> the time in the reply. Only a server without an address is changed by an \<^verbatim>\<open>ADDR_DISCOVER_REPLY\<close>, and only one with an address by the other two.
\<close>

theorem reply_authenticated:
  assumes "sha1_ok E" and "codec_ok E" and "new_server rand = Inr (srv0, d)" and "srv_inv E srv"
    and "(t, name, descriptor_of msg, process) \<in> set chord_handlers" and "canonical msg" and "from_node E srv sa = Inr nd"
    and "reply_ticket nd msg = Some (ticket, params)"
    and "handle_packet E d (Some (sa, packet E t msg)) srv = Inr srv'" and "srv' \<noteq> srv"
  shows "authentic E srv ticket params \<and> (IN6_IS_ADDR_UNSPECIFIED (s_addr srv) \<longleftrightarrow> t = CHORD_ADDR_DISCOVER_REPLY)"
proof -
  have "d = chord_disp" using assms(3) by (simp add: new_server_eq)
  then obtain ret where run: "call_process E process msg nd srv = Inr (ret, srv')"
    using assms(9) handle_packet_run [OF assms(2,5-7)] by (auto simp: fbind_Inr_iff)
  note valid = verify_ticket_authentic [OF assms(1) srv_invD(2) [OF assms(4)] vpack_hash_params(1)]
    verify_ticket_authentic [OF assms(1) srv_invD(2) [OF assms(4)] vpack_hash_params(2)]
    verify_ticket_authentic [OF assms(1) srv_invD(2) [OF assms(4)] vpack_hash_params(3)]
  show ?thesis
  proof (cases msg)
    case (M_AddrDiscoverReply m)
    then show ?thesis using assms(5,8,10) run valid(1)
      by (auto simp: chord_handlers_def call_process_def process_addr_discover_reply_def fbind_Inr_iff split: if_splits)
  next
    case (M_FindSuccessorReply m)
    then show ?thesis using assms(5,8,10) run valid(3)
      by (auto simp: chord_handlers_def call_process_def process_fs_reply_def fbind_Inr_iff split: if_splits)
  next
    case (M_Pong m)
    then show ?thesis using assms(5,8,10) run valid(2)
      by (auto simp: chord_handlers_def call_process_def process_pong_def fbind_Inr_iff split: if_splits)
  qed (use assms(8) in simp_all)
qed


lemma reply_authenticated_witness:
  "authentic demo_env new_srv (adr_ticket demo_adr) (discover_params (demo_addr 2) 4000) \<and> (IN6_IS_ADDR_UNSPECIFIED (s_addr new_srv) \<longleftrightarrow> CHORD_ADDR_DISCOVER_REPLY = CHORD_ADDR_DISCOVER_REPLY)"
proof -
  let ?m = "M_AddrDiscoverReply demo_adr" and ?sa = "addr_of (pair_srv 2 1)"
  let ?srv' = "let a = take 16 (adr_addr demo_adr); i = addr_id demo_env a (s_port new_srv)
       in new_srv\<lparr>s_node := \<lparr>n_id = i, n_addr = a, n_port = s_port new_srv\<rparr>, pred_bound := i, discover_addr_event := False, stab_event := True\<rparr>"
  have nd: "from_node demo_env new_srv ?sa = Inr (demo_peer 2)"
    using from_node_peer(1) [OF pair_srv_inv [of 2 1]] by (simp add: online_def pair_srv_v4)
  have h: "(CHORD_ADDR_DISCOVER_REPLY, ''CHORD_ADDR_DISCOVER_REPLY'', descriptor_of ?m, P_addr_discover_reply) \<in> set chord_handlers" by (simp add: chord_handlers_def)
  have can: "canonical ?m" by (simp add: demo_adr_def)
  have "process_addr_discover_reply demo_env new_srv demo_adr (demo_peer 2) = Inr (CHORD_NO_ERROR, ?srv')"
  proof (subst addr_discover_reply_once)
    show "verify_ticket demo_env new_srv (adr_ticket demo_adr) ''c6s'' [VA_int (packet_num CHORD_ADDR_DISCOVER), VA_addr (n_addr (demo_peer 2)),
        VA_int (uint (n_port (demo_peer 2)))] = Inr True"
      unfolding demo_adr_def AddrDiscoverReply.simps by (rule issued_ticket_verifies) (simp_all add: discover_params_def)
  qed (simp_all add: demo_adr_def)
  then have run: "handle_packet demo_env chord_disp (Some (?sa, packet demo_env CHORD_ADDR_DISCOVER_REPLY ?m)) new_srv = Inr ?srv'"
    using handle_packet_run [OF _ h can nd] by (simp add: call_process_def)
  have "s_addr ?srv' \<noteq> s_addr new_srv" by (simp add: demo_adr_def demo_addr_def Let_def eval_nat_numeral)
  then have change: "?srv' \<noteq> new_srv" by metis
  have inv: "srv_inv demo_env new_srv" by (simp add: srv_inv_def config_ok_def ids_ok_def table_inv_def wf_addr_def wf_id_def ring_sorted_def passive_count_def range_start_def new_srv_def lone_srv_def demo_srv_def)
  show ?thesis
    by (rule reply_authenticated [OF _ _ new_server_eq [of "replicate 16 7"] inv h can nd _ run change]) simp_all
qed

end
