(* ===== verification/Chord_Network.thy ===== *)
theory Chord_Network
  imports Chord_Safety
begin

text \<open>
  A network of servers on IPv4 sockets, the only kind the program can start (theory \<open>Hosts\<close>), that run from their start: every server handles its timers and the datagrams that arrive, and
  the wire may lose, repeat, delay and reorder the datagrams of any server as it likes. Nobody outside the network sends.

  The theory shows that the members stay among themselves: every address a server learns, from whatever packet, is the address of a
  member, its own address is the one the others see it under, and every datagram it sends is a well-formed packet to a member.
\<close>

subsection \<open>Members and their packets\<close>

type_synonym endpoint = "in6_addr \<times> ushort"

abbreviation endpoint_of :: "Node \<Rightarrow> endpoint" where
  "endpoint_of n \<equiv> (n_addr n, n_port n)"

definition members :: "endpoint set \<Rightarrow> bool" where
  "members K \<longleftrightarrow> (\<forall>(a, p) \<in> K. wf_addr a \<and> V4_MAPPED a)"

text \<open>The socket address of a member, which is also the source that its datagrams arrive with.\<close>

definition sockaddr_of :: "endpoint \<Rightarrow> sockaddr" where
  "sockaddr_of e = Sockaddr_in (htons (snd e)) (v4_part (fst e))"

text \<open>
  What a packet from \<open>src\<close> to \<open>to\<close> may hold: the receiver's own address or the address of a member, tickets and data of a moderate size. Pings and
  notifications are not sent to oneself.
\<close>

fun sound_msg :: "endpoint set \<Rightarrow> endpoint \<Rightarrow> endpoint \<Rightarrow> message \<Rightarrow> bool" where
  "sound_msg K src to (M_AddrDiscover m) = (length (ad_ticket m) \<le> 65000)"
| "sound_msg K src to (M_AddrDiscoverReply m) = (adr_addr m = fst to)"
| "sound_msg K src to (M_Data m) = (length (dat_id m) = 20 \<and> length (dat_data m) \<le> 65000)"
| "sound_msg K src to (M_FindSuccessor m) = ((fs_addr m, ucast (fs_port m)) \<in> K \<and> length (fs_ticket m) \<le> 65000)"
| "sound_msg K src to (M_FindSuccessorReply m) = ((fsr_addr m, ucast (fsr_port m)) \<in> K \<and> unat (fsr_port m) < 65536)"
| "sound_msg K src to (M_Stabilize m) = ((stab_addr m, ucast (stab_port m)) \<in> K)"
| "sound_msg K src to (M_StabilizeReply m) = ((stabr_addr m, ucast (stabr_port m)) \<in> K \<and> unat (stabr_port m) < 65536)"
| "sound_msg K src to (M_Notify m) = (src \<noteq> to)"
| "sound_msg K src to (M_Ping m) = (src \<noteq> to \<and> length (ping_ticket m) \<le> 65000)"
| "sound_msg K src to _ = True"

definition handler_registered :: "packet_type \<Rightarrow> message \<Rightarrow> bool" where
  "handler_registered t msg \<longleftrightarrow> (\<exists>name process. (t, name, descriptor_of msg, process) \<in> set chord_handlers)"

definition wire_ok :: "env \<Rightarrow> endpoint set \<Rightarrow> endpoint \<Rightarrow> datagram \<Rightarrow> bool" where
  "wire_ok E K src dg \<longleftrightarrow> (\<exists>to \<in> K. \<exists>t msg. dg_dest dg = sockaddr_of to \<and> dg_bytes dg = packet E t msg \<and>
     handler_registered t msg \<and> canonical msg \<and> sound_msg K src to msg)"

text \<open>
  The invariant of one member: its own address is unknown or the right one, it knows only members and has sent only well-formed packets to
  members. The flag demands that the address is known.
\<close>

definition member_ok :: "env \<Rightarrow> endpoint set \<Rightarrow> endpoint \<Rightarrow> bool \<Rightarrow> ChordServer \<Rightarrow> bool" where
  "member_ok E K e joined srv \<longleftrightarrow>
     sha1_ok E \<and> members K \<and> e \<in> K \<and> srv_inv E srv \<and> \<not> is_v6 srv \<and> send_func srv = Send_raw_v4 \<and> s_port srv = snd e \<and>
     (IN6_IS_ADDR_UNSPECIFIED (s_addr srv) \<or> s_addr srv = fst e) \<and>
     (joined \<or> stab_event srv \<longrightarrow> \<not> IN6_IS_ADDR_UNSPECIFIED (s_addr srv)) \<and>
     (\<forall>f \<in> set (flist srv). endpoint_of (f_node f) \<in> K - {e}) \<and> (\<forall>n \<in> set (well_known srv). endpoint_of n \<in> K - {e}) \<and>
     (\<forall>dg \<in> set (outbox srv). wire_ok E K e dg)"

lemma member_okD:
  assumes "member_ok E K e j srv"
  shows "sha1_ok E" "members K" "e \<in> K" "srv_inv E srv" "table_inv srv" "s_port srv = snd e"
    "f \<in> set (flist srv) \<Longrightarrow> endpoint_of (f_node f) \<in> K - {e}" "n \<in> set (well_known srv) \<Longrightarrow> endpoint_of n \<in> K - {e}"
  using assms by (auto simp: member_ok_def dest: srv_invD(1))

lemma member_wf: "members K \<Longrightarrow> (a, p) \<in> K \<Longrightarrow> wf_addr a"
  by (auto simp: members_def)

lemma member_mapped: "members K \<Longrightarrow> (a, p) \<in> K \<Longrightarrow> V4_MAPPED a"
  by (auto simp: members_def)

lemma member_len: "members K \<Longrightarrow> (a, p) \<in> K \<Longrightarrow> length a = 16"
  by (auto simp: members_def wf_addr_def)

lemma member_self: "member_ok E K e True srv \<Longrightarrow> endpoint_of (s_node srv) \<in> K"
  by (cases e) (auto simp: member_ok_def)

lemma member_joined:
  "member_ok E K e True srv \<longleftrightarrow> member_ok E K e j srv \<and> \<not> IN6_IS_ADDR_UNSPECIFIED (s_addr srv)"
  by (auto simp: member_ok_def)

lemma member_finger:
  assumes "member_ok E K e j srv"
  shows "succ_finger srv = Some f \<Longrightarrow> endpoint_of (f_node f) \<in> K - {e}" "pred_finger srv = Some f \<Longrightarrow> endpoint_of (f_node f) \<in> K - {e}"
    "closest_preceding_finger srv x b = Some f \<Longrightarrow> endpoint_of (f_node f) \<in> K - {e}"
    "finger_at srv i = Some f \<Longrightarrow> endpoint_of (f_node f) \<in> K - {e}"
  unfolding succ_finger_def pred_finger_def closest_preceding_finger_def finger_at_def
  by (rule member_okD(7) [OF assms], use find_Some_in in fastforce)+

lemma member_closest: "member_ok E K e True srv \<Longrightarrow> endpoint_of (closest_preceding_node srv x b) \<in> K"
  using member_finger(3) [of E K e True srv x b] by (auto simp: closest_preceding_node_def member_self split: option.splits)

lemma member_next: "member_ok E K e True srv \<Longrightarrow> next_route_node srv x b = (np, l) \<Longrightarrow> endpoint_of np \<in> K"
  using member_finger(1,2) [of E K e True srv] by (auto simp: next_route_node_def member_closest split: option.splits if_splits)

subsection \<open>Sending\<close>

lemma member_post:
  assumes "member_ok E K e j srv" and "(a, p) \<in> K" and "handler_registered t m" and "canonical m" and "sound_msg K e (a, p) m"
  shows "member_ok E K e j (post E srv a p t m)"
proof -
  have "wire_ok E K e (Datagram (sock srv) (dest_of E srv a p) (packet E t m))"
    unfolding wire_ok_def by (rule bexI [OF _ assms(2)]) (use assms member_wf [OF member_okD(2) [OF assms(1)] assms(2)] in \<open>auto simp: dest_of_v4 sockaddr_of_def member_ok_def\<close>)
  then show ?thesis using assms(1) by (auto simp: member_ok_def)
qed

lemma handler_registered_simps [simp]:
  "handler_registered CHORD_ADDR_DISCOVER (M_AddrDiscover m1)" "handler_registered CHORD_ADDR_DISCOVER_REPLY (M_AddrDiscoverReply m2)"
  "handler_registered CHORD_DATA (M_Data m3)" "handler_registered CHORD_FS (M_FindSuccessor m4)" "handler_registered CHORD_FS_REPLY (M_FindSuccessorReply m5)"
  "handler_registered CHORD_STAB (M_Stabilize m6)" "handler_registered CHORD_STAB_REPLY (M_StabilizeReply m7)" "handler_registered CHORD_NOTIFY (M_Notify m8)"
  "handler_registered CHORD_PING (M_Ping m9)" "handler_registered CHORD_PONG (M_Pong m10)"
  by (simp_all add: handler_registered_def chord_handlers_def)

text \<open>The bytes of a packet determine its type and message.\<close>

lemma packet_inject:
  assumes "codec_ok E" and "handler_registered t m" and "handler_registered t' m'" and "canonical m" and "canonical m'" and "packet E t m = packet E t' m'"
  shows "t = t' \<and> m = m'"
proof -
  let ?h = "\<lambda>t m. \<lparr>hdr_has_version = True, hdr_version = 1, hdr_type = word_of_int (packet_num t) :: uint32, hdr_payload = pb_pack E m\<rparr>"
  have "pb_unpack E header__descriptor (packet E t m) = Some (M_Header (?h t m))" for t m
    using codec_roundtrip [OF assms(1), of "M_Header (?h t m)"] by (simp add: packet_def)
  then have h: "?h t m = ?h t' m'" using assms(6) by (metis message.inject(1) option.inject)
  then have "(word_of_int (packet_num t) :: uint32) = word_of_int (packet_num t')" and load: "pb_pack E m = pb_pack E m'" by simp_all
  then have t: "t = t'" by (cases t; cases t'; simp)
  have desc: "descriptor_of m = descriptor_of m'" using assms(2,3) unfolding t by (cases t') (simp_all add: handler_registered_def chord_handlers_def)
  have "Some m = Some m'" using codec_roundtrip [OF assms(1,4)] codec_roundtrip [OF assms(1,5)] unfolding desc load by (rule box_equals [OF refl])
  then show ?thesis using t by blast
qed

lemma transmit_member:
  assumes "member_ok E K e j srv" and "(a, p) \<in> K" and "handler_registered t m" and "canonical m" and "sound_msg K e (a, p) m"
  shows "returns (member_ok E K e j) (fbind (pack_chord_header E t m) (send_packet E srv a p))"
  using member_post [OF assms] by (auto simp: returns_iff dest!: transmit_result)

lemma ucast_port [simp]: "(ucast (ucast (q :: ushort) :: uint32) :: ushort) = q"
  by (rule bit_word_eqI) (auto simp: bit_ucast_iff)

lemma port_bound [simp]: "unat (ucast (q :: ushort) :: uint32) < 65536"
proof -
  have "unat q < 65536" by (rule order_less_le_trans [OF unsigned_less]) simp
  then show ?thesis by (simp add: unsigned_ucast_eq take_bit_eq_mod)
qed

lemma pack_ticket_bound: "returns (\<lambda>tk. length tk \<le> 1024) (pack_ticket E srv fmt args)"
  unfolding pack_ticket_def by (rule returns_bind_any) simp

lemma send_member:
  assumes "member_ok E K e j srv" and "(a, p) \<in> K"
  shows "returns (member_ok E K e j) (send_addr_discover E srv a p)" "returns (member_ok E K e j) (send_addr_discover_reply E srv tk a p)"
    "returns (member_ok E K e j) (send_pong E srv tk a p t)"
    "(b, q) \<in> K \<Longrightarrow> returns (member_ok E K e j) (send_fs E srv ttl a p b q)"
    "(b, q) \<in> K \<Longrightarrow> length tk \<le> 65000 \<Longrightarrow> returns (member_ok E K e j) (send_fs_forward E srv tk ttl a p b q)"
    "(b, q) \<in> K \<Longrightarrow> returns (member_ok E K e j) (send_fs_reply E srv tk a p b q)"
    "(b, q) \<in> K \<Longrightarrow> returns (member_ok E K e j) (send_stab E srv a p b q)"
    "(b, q) \<in> K \<Longrightarrow> returns (member_ok E K e j) (send_stab_reply E srv a p b q)"
  unfolding send_addr_discover_def pack_addr_discover_def send_addr_discover_reply_def pack_addr_discover_reply_def send_pong_def pack_pong_def
    send_fs_def send_fs_forward_def pack_fs_def send_fs_reply_def pack_fs_reply_def send_stab_def pack_stab_def send_stab_reply_def pack_stab_reply_def
  using assms by (auto intro!: returns_bindI [OF pack_ticket_bound] transmit_member)

lemma send_other_member:
  assumes "member_ok E K e j srv" and "(a, p) \<in> K - {e}"
  shows "returns (member_ok E K e j) (send_ping E srv a p t)" "returns (member_ok E K e j) (send_notify E srv a p)"
  unfolding send_ping_def pack_ping_def send_notify_def pack_notify_def
  using assms by (auto intro!: returns_bindI [OF pack_ticket_bound] transmit_member)

lemma send_data_member:
  assumes "member_ok E K e j srv" and "endpoint_of np \<in> K" and "length i = 20" and "length data \<le> 65000"
  shows "returns (member_ok E K e j) (send_data E srv l ttl np i n data)"
  unfolding send_data_def pack_data_def fbind_assoc
  by (rule returns_bindI [OF returns_memcpy]) (use assms in \<open>auto intro!: transmit_member\<close>)

subsection \<open>Handlers\<close>

definition sender :: "env \<Rightarrow> endpoint set \<Rightarrow> endpoint \<Rightarrow> Node \<Rightarrow> bool" where
  "sender E K src nd \<longleftrightarrow> wf_node E nd \<and> endpoint_of nd = src \<and> src \<in> K"

lemma insert_finger_member:
  assumes "member_ok E K e True srv" and "(a, p) \<in> K"
  shows "returns (\<lambda>(fo, fn, srv1). member_ok E K e True srv1 \<and> (\<forall>f. fo = Some f \<longrightarrow> f \<in> set (flist srv1)))
    (insert_finger srv (addr_id E a p) a p)"
proof -
  have srv: "srv_inv E srv" "sha1_ok E" "\<not> IN6_IS_ADDR_UNSPECIFIED (s_addr srv)" using assms(1) by (auto simp: member_ok_def)
  have a: "wf_addr a" by (rule member_wf [OF member_okD(2) [OF assms(1)] assms(2)])
  have "member_ok E K e True srv1" if ins: "insert_finger srv (addr_id E a p) a p = Inr (fo, fn, srv1)" for fo fn srv1
  proof (cases "(a, p) = e")
    case True
    then have "srv1 = srv" using assms(1) ins a by (auto simp: member_ok_def insert_finger_def v6_addr_equals_iff)
    then show ?thesis using assms(1) by simp
  next
    case False
    have "endpoint_of (f_node g) \<in> K - {e}" if "g \<in> set (flist srv1)" for g
      using insert_finger_new_set [OF srv_invD(1) [OF srv(1)] wf_addr_id [OF srv(2)] a ins that] member_okD(7) [OF assms(1)] assms(2) False by force
    then show ?thesis
      using insert_finger_srv_inv(1) [OF srv a ins] table_frameD [OF insert_finger_srv_inv(2) [OF srv a ins]] assms(1) by (auto simp: member_ok_def)
  qed
  then show ?thesis using insert_finger_srv_inv(3) [OF srv a] by (auto simp: returns_iff)
qed

abbreviation stays :: "env \<Rightarrow> endpoint set \<Rightarrow> endpoint \<Rightarrow> handled \<Rightarrow> bool" where
  "stays E K e \<equiv> returns (\<lambda>(err, srv). member_ok E K e False srv)"

lemma member_weaken: "member_ok E K e True srv \<Longrightarrow> member_ok E K e False srv"
  by (simp add: member_joined [of E K e srv False])

lemma finish_member: "returns (member_ok E K e j) m \<Longrightarrow> stays E K e (fbind m (\<lambda>srv. Inr (err, srv)))"
  by (cases m; cases j) (auto dest: member_weaken)

lemma not_self:
  assumes "member_ok E K e True srv" and "(a, ucast q) \<in> K" and "ucast (ucast q :: ushort) = (q :: uint32)"
  shows "(v6_addr_equals (s_addr srv) a \<and> ucast (s_port srv) = q) \<or> (a, ucast q) \<in> K - {e}"
  using assms v6_addr_equals_iff [OF member_wf member_wf, OF _ assms(2) _ assms(2)] by (auto simp: member_ok_def)

lemma join_member:
  assumes "member_ok E K e False srv" and "IN6_IS_ADDR_UNSPECIFIED (s_addr srv)"
  shows "member_ok E K e False (srv\<lparr>s_node := (s_node srv)\<lparr>n_addr := fst e, n_id := addr_id E (fst e) (s_port srv)\<rparr>,
     pred_bound := addr_id E (fst e) (s_port srv), discover_addr_event := False, stab_event := True\<rparr>)"
proof -
  have e: "wf_addr (fst e)" "\<not> IN6_IS_ADDR_UNSPECIFIED (fst e)" using assms(1) member_wf [of K "fst e" "snd e"] member_mapped [of K "fst e" "snd e"] mapped_specified by (auto simp: member_ok_def)
  show ?thesis
    using assms e by (simp add: member_ok_def srv_inv_def table_inv_def config_ok_def ids_ok_def ring_sorted_def range_start_def passive_count_def)
qed

lemma process_addr_discover_member:
  "member_ok E K e False srv \<Longrightarrow> sender E K src nd \<Longrightarrow> stays E K e (process_addr_discover E srv m nd)"
  by (auto simp: process_addr_discover_def sender_def intro: finish_member [OF send_member(2)])

lemma process_addr_discover_reply_member:
  assumes "member_ok E K e False srv" and "sound_msg K src e (M_AddrDiscoverReply m)"
  shows "stays E K e (process_addr_discover_reply E srv m nd)"
proof -
  have len: "length (fst e) = 16" using assms(1) by (auto simp: member_ok_def members_def wf_addr_def)
  show ?thesis
    unfolding process_addr_discover_reply_def
    by (rule returns_bind_any) (use assms len join_member [OF assms(1)] in \<open>auto simp: v6_addr_set_def chord_update_range_def Let_def\<close>)
qed

lemma process_data_member:
  assumes "member_ok E K e False srv" and "sound_msg K src e (M_Data m)"
  shows "stays E K e (process_data E srv m nd)"
proof (cases "IN6_IS_ADDR_UNSPECIFIED (s_addr srv)")
  case False
  then have j: "member_ok E K e True srv" using assms(1) member_joined by blast
  show ?thesis
    unfolding process_data_def Let_def
    by (intro returns_bindI [OF returns_memcpy] returns_if)
      (use assms j in \<open>auto intro!: finish_member send_data_member member_next split: prod.splits\<close>)
qed (use assms in \<open>auto simp: process_data_def intro!: returns_bind_any\<close>)

lemma process_fs_member:
  assumes "member_ok E K e False srv" and "sound_msg K src e (M_FindSuccessor m)"
  shows "stays E K e (process_fs E srv m nd)"
proof (cases "IN6_IS_ADDR_UNSPECIFIED (s_addr srv)")
  case False
  then have j: "member_ok E K e True srv" using assms(1) member_joined by blast
  have m: "(fs_addr m, ucast (fs_port m)) \<in> K" "length (fs_ticket m) \<le> 65000" using assms(2) by simp_all
  have len: "length (fs_addr m) = 16" using member_len [OF member_okD(2) [OF j] m(1)] .
  show ?thesis
    unfolding process_fs_def Let_def v6_addr_set_def memcpy_exact [OF len] fbind_simps get_address_id_eq using False assms(1)
    by (auto intro!: finish_member [where j = True] returns_option returns_if send_member [OF j] member_finger(1) [OF j, THEN DiffD1]
        member_closest [OF j] member_self [OF j] m)
qed (use assms(1) in \<open>simp add: process_fs_def\<close>)

lemma ping_new_member:
  "member_ok E K e j srv \<Longrightarrow> b \<longrightarrow> (a, p) \<in> K - {e} \<Longrightarrow> returns (member_ok E K e j) (if b then send_ping E srv a p t else Inr srv)"
  by (simp add: send_other_member)

lemma process_fs_reply_member:
  assumes "member_ok E K e False srv" and "sound_msg K src e (M_FindSuccessorReply m)"
  shows "stays E K e (process_fs_reply E srv m nd)"
proof (cases "IN6_IS_ADDR_UNSPECIFIED (s_addr srv)")
  case False
  then have j: "member_ok E K e True srv" using assms(1) member_joined by blast
  have m: "(fsr_addr m, ucast (fsr_port m)) \<in> K" "ucast (ucast (fsr_port m) :: ushort) = fsr_port m" using assms(2) ucast_short_back by simp_all
  have len: "length (fsr_addr m) = 16" using member_len [OF member_okD(2) [OF j] m(1)] .
  show ?thesis
    unfolding process_fs_reply_def memcpy_exact [OF len] fbind_simps get_address_id_eq if_not_P [OF False]
    by (intro returns_bind_any [where m = "verify_ticket E srv tk fmt args" for tk fmt args] returns_if returns_bindI [OF insert_finger_member [OF j m(1)]])
      (use assms(1) not_self [OF j m] in \<open>auto intro!: returns_bindI [OF returns_read_var] finish_member [where j = True] ping_new_member\<close>)
qed (use assms(1) in \<open>simp add: process_fs_reply_def\<close>)

lemma process_stab_member:
  assumes "member_ok E K e False srv" and "sound_msg K src e (M_Stabilize m)"
  shows "stays E K e (process_stab E srv m nd)"
proof (cases "IN6_IS_ADDR_UNSPECIFIED (s_addr srv)")
  case False
  then have j: "member_ok E K e True srv" using assms(1) member_joined by blast
  have m: "(stab_addr m, ucast (stab_port m)) \<in> K" using assms(2) by simp
  have len: "length (stab_addr m) = 16" using member_len [OF member_okD(2) [OF j] m] .
  show ?thesis
    unfolding process_stab_def Let_def memcpy_exact [OF len] fbind_simps get_address_id_eq if_not_P [OF False] using m
    by (auto intro!: returns_bindI [OF insert_finger_member [OF j]] finish_member [where j = True] returns_option
        returns_bindI [OF returns_deref] send_member dest: member_finger(4))
qed (use assms(1) in \<open>simp add: process_stab_def\<close>)

lemma process_stab_reply_member:
  assumes "member_ok E K e False srv" and "sound_msg K src e (M_StabilizeReply m)"
  shows "stays E K e (process_stab_reply E srv m nd)"
proof (cases "IN6_IS_ADDR_UNSPECIFIED (s_addr srv)")
  case False
  then have j: "member_ok E K e True srv" using assms(1) member_joined by blast
  have m: "(stabr_addr m, ucast (stabr_port m)) \<in> K" "ucast (ucast (stabr_port m) :: ushort) = stabr_port m" using assms(2) ucast_short_back by simp_all
  have len: "length (stabr_addr m) = 16" using member_len [OF member_okD(2) [OF j] m(1)] .
  show ?thesis
    unfolding process_stab_reply_def memcpy_exact [OF len] fbind_simps get_address_id_eq if_not_P [OF False]
    by (intro returns_if returns_bindI [OF insert_finger_member [OF j m(1)]])
      (use assms(1) not_self [OF j m] in \<open>auto intro!: returns_bindI [OF returns_deref] returns_bindI [OF send_other_member(2)] returns_bindI [OF returns_read_var]
        finish_member [where j = True] ping_new_member dest: member_finger(1)\<close>)
qed (use assms(1) in \<open>simp add: process_stab_reply_def\<close>)

lemma process_notify_member:
  assumes "member_ok E K e False srv" and "sender E K src nd" and "sound_msg K src e (M_Notify m)"
  shows "stays E K e (process_notify E srv m nd)"
proof (cases "IN6_IS_ADDR_UNSPECIFIED (s_addr srv)")
  case False
  then have j: "member_ok E K e True srv" using assms(1) member_joined by blast
  show ?thesis
    unfolding process_notify_def if_not_P [OF False] using assms(2,3)
    by (auto simp: sender_def wf_node_def intro!: returns_bindI [OF insert_finger_member [OF j]] returns_bindI [OF returns_read_var]
        finish_member [where j = True] ping_new_member)
qed (use assms(1) in \<open>simp add: process_notify_def\<close>)

lemma process_ping_member:
  assumes "member_ok E K e False srv" and "sender E K src nd" and "sound_msg K src e (M_Ping m)"
  shows "stays E K e (process_ping E srv m nd)"
proof (cases "IN6_IS_ADDR_UNSPECIFIED (s_addr srv)")
  case False
  then have j: "member_ok E K e True srv" using assms(1) member_joined by blast
  show ?thesis
    unfolding process_ping_def Let_def if_not_P [OF False] using assms(2,3)
    by (auto simp: sender_def wf_node_def intro!: returns_bindI [OF insert_finger_member [OF j]] returns_bindI [OF returns_read_var]
        returns_bindI [OF ping_new_member] finish_member [where j = True] send_member)
qed (use assms(1) in \<open>simp add: process_ping_def\<close>)

lemma pong_refresh_member:
  assumes "member_ok E K e True srv" and "f \<in> set (flist srv)"
  shows "returns (member_ok E K e True) (pong_refresh E srv m f)"
proof -
  have "member_ok E K e True (activated (upd_finger (f_id f) (refreshed rtt) srv) f)" for rtt
    using assms activated_srv_inv [OF member_okD(4) [OF assms(1)] assms(2), of rtt]
    by (auto simp: member_ok_def activated_def upd_finger_def Let_def)
  then show ?thesis unfolding pong_refresh_eq [OF member_okD(5) [OF assms(1)] assms(2)] by (intro returns_bind_any) simp
qed

lemma process_pong_member:
  assumes "member_ok E K e False srv" and "sender E K src nd"
  shows "stays E K e (process_pong E srv m nd)"
proof (cases "IN6_IS_ADDR_UNSPECIFIED (s_addr srv)")
  case False
  then have j: "member_ok E K e True srv" using assms(1) member_joined by blast
  show ?thesis
    unfolding process_pong_def if_not_P [OF False] using assms
    by (auto simp: sender_def wf_node_def member_weaken intro!: returns_bindI [OF insert_finger_member [OF j]] returns_option
        returns_bind_any [where m = "verify_ticket E srv tk fmt args" for tk fmt args] finish_member [where j = True] pong_refresh_member)
qed (use assms(1) in \<open>simp add: process_pong_def\<close>)

lemma call_process_member:
  assumes "member_ok E K e False srv" and "sender E K src nd" and "sound_msg K src e msg"
  shows "stays E K e (call_process E process msg nd srv)"
  using assms
  by (cases process; cases msg)
    (auto simp del: sound_msg.simps simp: call_process_def process_addr_discover_member process_addr_discover_reply_member process_data_member process_fs_member
      process_fs_reply_member process_stab_member process_stab_reply_member process_notify_member process_ping_member process_pong_member)

subsection \<open>Timers\<close>

lemma remove_finger_member:
  assumes "member_ok E K e j srv" and "f \<in> set (flist srv)"
  shows "member_ok E K e j (remove_finger srv f)"
  using remove_finger_srv_inv [OF member_okD(4) [OF assms(1)] assms(2)] assms(1)
  by (auto simp: member_ok_def remove_finger_eq [OF member_okD(5) [OF assms(1)]])

lemma upd_npings_member:
  "member_ok E K e j srv \<Longrightarrow> member_ok E K e j (upd_finger i (\<lambda>g. g\<lparr>f_npings := f_npings g + 1\<rparr>) srv)"
  using upd_npings_srv_inv [of E srv i] by (auto simp: member_ok_def upd_finger_def)

lemma counters_member:
  "member_ok E K e j srv \<Longrightarrow> 0 \<le> k \<Longrightarrow> k < 160 \<Longrightarrow> member_ok E K e j (srv\<lparr>to_fix_finger := k\<rparr>)"
  "member_ok E K e j srv \<Longrightarrow> 0 \<le> k \<Longrightarrow> k < 8 \<Longrightarrow> member_ok E K e j (srv\<lparr>to_fix_backup := k\<rparr>)"
  "member_ok E K e j srv \<Longrightarrow> 0 \<le> k \<Longrightarrow> member_ok E K e j (srv\<lparr>to_ping := k\<rparr>)"
  "member_ok E K e j (next_random srv) = member_ok E K e j srv"
  by (auto simp: member_ok_def counters_srv_inv next_random_def srv_inv_def table_inv_def config_ok_def ids_ok_def)

lemma member_counters:
  assumes "member_ok E K e j srv"
  shows "0 \<le> to_fix_finger srv" "to_fix_finger srv < 160" "0 \<le> to_fix_backup srv + 1" "0 \<le> to_ping srv + 1"
  using srv_invD(2) [OF member_okD(4) [OF assms]] by (simp_all add: config_ok_def)

lemma finger_idx_member: "member_ok E K e j srv \<Longrightarrow> returns (\<lambda>f. f \<in> set (flist srv) \<and> endpoint_of (f_node f) \<in> K) (finger_idx srv i)"
  using member_okD(7) [of E K e j srv "flist srv ! i"] by (auto simp: finger_idx_def)

lemma send_to_all_member:
  assumes "\<And>srv node. member_ok E K e j srv \<Longrightarrow> endpoint_of node \<in> K - {e} \<Longrightarrow> returns (member_ok E K e j) (send srv node)"
  shows "member_ok E K e j srv \<Longrightarrow> (\<And>n. n \<in> set nodes \<Longrightarrow> endpoint_of n \<in> K - {e}) \<Longrightarrow> returns (member_ok E K e j) (send_to_all send nodes srv)"
proof (induction nodes arbitrary: srv)
  case (Cons node nodes)
  show ?case unfolding send_to_all.simps by (rule returns_bindI [OF assms]) (use Cons in auto)
qed simp

lemma discover_addr_member: "member_ok E K e j srv \<Longrightarrow> returns (member_ok E K e j) (discover_addr E srv)"
  unfolding discover_addr_def by (rule returns_if) (auto intro!: send_to_all_member send_member dest: member_okD(8))

lemma contact_well_known_member: "member_ok E K e True srv \<Longrightarrow> returns (member_ok E K e True) (contact_well_known E srv)"
  unfolding contact_well_known_def
  by (rule send_to_all_member) (auto intro!: returns_bindI [OF send_member(4)] send_other_member member_self dest: member_okD(8))

lemma ping_loop_member:
  assumes "member_ok E K e j srv" and "set fs \<subseteq> set (flist srv)" and "distinct (map f_id fs)"
  shows "returns (\<lambda>(p, srv'). member_ok E K e j srv') (ping_loop E fs i p srv)"
  using assms
proof (induction E fs i p srv rule: ping_loop.induct)
  case (2 E f fs i p srv)
  have f: "f \<in> set (flist srv)" and others: "\<And>g. g \<in> set fs \<Longrightarrow> f_id g \<noteq> f_id f \<and> g \<in> set (flist srv)"
    using "2.prems"(2,3) by (auto simp: image_iff)
  have K: "(f_addr f, f_port f) \<in> K - {e}" using member_okD(7) [OF "2.prems"(1) f] .
  show ?case
  proof (cases "f_npings f \<ge> PING_THRESH")
    case True
    have "set fs \<subseteq> set (flist (remove_finger srv f))"
      using others by (auto simp: remove_finger_eq [OF member_okD(5) [OF "2.prems"(1)]])
    then show ?thesis
      using True "2.IH"(1) [OF True] remove_finger_member [OF "2.prems"(1) f] "2.prems"(3) by (auto intro!: returns_bind_any)
  next
    case False
    define srv1 where "srv1 = upd_finger (f_id f) (\<lambda>g. g\<lparr>f_npings := f_npings g + 1\<rparr>) srv"
    have srv1: "member_ok E K e j srv1" unfolding srv1_def by (rule upd_npings_member [OF "2.prems"(1)])
    have "set fs \<subseteq> set (flist srv1)" using others by (force simp: srv1_def upd_finger_def)
    then have "returns (\<lambda>srv2. member_ok E K e j srv2 \<and> set fs \<subseteq> set (flist srv2)) (send_ping E srv1 (f_addr f) (f_port f) t)" for t
      using send_other_member(1) [OF srv1 K] send_sent(10) by (fastforce simp: returns_iff sent_def)
    then show ?thesis
      using False "2.IH"(2) [OF False] "2.IH"(3) [OF False] "2.prems"(1,3) others
      by (auto simp: srv1_def [symmetric] Let_def intro!: returns_bindI)
  qed
qed simp

lemma ping_member: "member_ok E K e j srv \<Longrightarrow> returns (member_ok E K e j) (ping E srv)"
  unfolding ping_def
  by (rule returns_bindI [OF ping_loop_member])
    (auto intro!: returns_option ring_sorted_distinct [OF table_invD(4)] counters_member dest: member_okD(5) member_counters(4))

lemma fs_to_nth_member:
  "member_ok E K e True srv \<Longrightarrow> (\<And>n. n \<in> set nodes \<Longrightarrow> endpoint_of n \<in> K) \<Longrightarrow> returns (member_ok E K e True) (fs_to_nth E r i nodes srv)"
proof (induction nodes arbitrary: i srv)
  case (Cons node nodes)
  have "returns (member_ok E K e True) (if Suc i = r then send_fs E srv DEF_TTL (n_addr node) (n_port node) (s_addr srv) (s_port srv) else Inr srv)"
    using Cons.prems member_self [OF Cons.prems(1)] by (auto intro!: send_member)
  then show ?case unfolding fs_to_nth.simps by (rule returns_bindI) (use Cons in auto)
qed simp

lemma advance_fix_finger_member:
  assumes "member_ok E K e True srv"
  shows "returns (member_ok E K e True) (advance_fix_finger E srv ident succ)"
proof -
  have wrap: "member_ok E K e True (next_random (srv\<lparr>to_fix_finger := NFINGERS - 1\<rparr>))" using assms by (simp add: counters_member)
  show ?thesis
    unfolding advance_fix_finger_def Let_def
    by (intro returns_if fs_to_nth_member) (use wrap assms member_counters [OF assms] member_okD(8) [OF wrap] in \<open>auto simp: counters_member\<close>)
qed

lemma send_fs_self: "member_ok E K e True srv \<Longrightarrow> (a, p) \<in> K \<Longrightarrow> returns (member_ok E K e True) (send_fs E srv ttl a p (s_addr srv) (s_port srv))"
  by (simp add: send_member(4) member_self)

lemma send_fs_random:
  "member_ok E K e True srv \<Longrightarrow> (a, p) \<in> K \<Longrightarrow> returns (member_ok E K e True) (send_fs E (next_random srv) ttl a p (s_addr srv) (s_port srv))"
  by (simp add: send_member(4) member_self counters_member)

lemma fix_fingers_member:
  assumes "member_ok E K e True srv"
  shows "returns (member_ok E K e True) (fix_fingers E srv)"
proof -
  have rest: "returns (member_ok E K e True) (fbind (send_fs E s DEF_TTL a p (s_addr s) (s_port s)) (\<lambda>srv.
      if to_fix_finger srv = NFINGERS - 1 \<and> flist srv \<noteq> []
      then send_fs E (next_random srv) DEF_TTL a p (s_addr srv) (s_port srv) else Inr srv))"
    if "member_ok E K e True s" "(a, p) \<in> K" for s a p
    by (rule returns_bindI [OF send_fs_self [OF that]]) (auto intro!: returns_if send_fs_random that)
  have to: "endpoint_of (f_node (case closest_preceding_finger s x False of None \<Rightarrow> succ | Some f \<Rightarrow> f)) \<in> K"
    if "member_ok E K e True s" "succ_finger srv = Some succ" for s x succ
    using member_finger(3) [OF that(1)] member_finger(1) [OF assms that(2)] by (auto split: option.split)
  show ?thesis
    unfolding fix_fingers_def Let_def
    by (rule returns_bind_any, rule returns_bind_any, rule returns_bindI [OF returns_deref],
        rule returns_bindI [OF advance_fix_finger_member [OF assms]]) (use rest to in auto)
qed

lemma fix_preds_member: "member_ok E K e True srv \<Longrightarrow> returns (member_ok E K e True) (fix_preds E srv succ i k n)"
  by (induction E srv succ i k n rule: fix_preds.induct) (auto intro!: returns_bindI [OF finger_idx_member] send_fs_random member_okD(7) [THEN DiffD1])

lemma fix_succs_preds_member:
  assumes "member_ok E K e True srv"
  shows "returns (member_ok E K e True) (fix_succs_preds E srv)"
proof -
  have "returns (member_ok E K e True) (fbind (fix_preds E s i j 0 n) (\<lambda>srv. Inr (srv\<lparr>to_fix_backup :=
      (if to_fix_backup srv + 1 \<ge> NSUCCESSORS then 0 else to_fix_backup srv + 1)\<rparr>)))" if "member_ok E K e True s" for s i j n
    by (rule returns_bindI [OF fix_preds_member [OF that]]) (auto intro!: counters_member dest: member_counters(3))
  then have rest: "returns (member_ok E K e True) (fbind (send_fs E srv DEF_TTL a p (s_addr srv) (s_port srv)) (\<lambda>srv.
      fbind (deref (pred_finger srv)) (\<lambda>pred. fbind (fix_preds E srv i (index_of srv pred) 0 n) (\<lambda>srv. Inr (srv\<lparr>to_fix_backup :=
        (if to_fix_backup srv + 1 \<ge> NSUCCESSORS then 0 else to_fix_backup srv + 1)\<rparr>)))))" if "(a, p) \<in> K" for a p i n
    by (intro returns_bindI [OF send_fs_self [OF assms that]] returns_bindI [OF returns_deref])
  show ?thesis
    unfolding fix_succs_preds_def Let_def using assms counters_member(2) [OF assms, of 0]
    by (intro returns_option returns_bindI [OF finger_idx_member [OF assms]] returns_bindI [OF returns_triv] returns_if rest) simp_all
qed

lemma clean_inner_member:
  "member_ok E K e j srv \<Longrightarrow> returns (\<lambda>(stop, i, srv'). member_ok E K e j srv') (clean_inner srv ls ident i)"
proof (induction i arbitrary: srv)
  case (Suc i)
  show ?case
    unfolding clean_inner.simps
    by (intro returns_bindI [OF finger_idx_member [OF Suc.prems, of "Suc i"]] returns_bind_any [where m = "finger_idx srv i"] returns_if)
      (use Suc in \<open>auto intro: remove_finger_member\<close>)
qed simp

lemma clean_outer_member: "member_ok E K e j srv \<Longrightarrow> returns (member_ok E K e j) (clean_outer srv ls lp i k)"
proof (induction k arbitrary: srv i)
  case (Suc k)
  show ?case
    unfolding clean_outer.simps
    by (intro returns_bind_any [where m = "finger_idx srv i"] returns_bind_any [where m = "chord_id_successor x y" for x y] returns_if
        returns_bindI [OF clean_inner_member [OF Suc.prems]]) (use Suc in auto)
qed simp

lemma clean_member: "member_ok E K e j srv \<Longrightarrow> returns (member_ok E K e j) (clean_finger_list srv)"
  unfolding clean_finger_list_def Let_def
  by (intro returns_if returns_bind_any returns_option) (auto simp: clean_outer_member)

lemma stabilize_member:
  assumes "member_ok E K e True srv"
  shows "returns (\<lambda>(idx', srv'). member_ok E K e True srv') (stabilize E idx srv)"
proof -
  have last: "returns (\<lambda>(idx', srv'). member_ok E K e True srv') (if idx = 2 ^ 31 - 1 then Inl Signed_overflow else
      fbind (if b then clean_finger_list s else Inr s) (\<lambda>srv. Inr (idx + 1, srv)))" if "member_ok E K e True s" for b s
    using clean_member [OF that] that by (auto intro!: returns_bindI [of "member_ok E K e True"])
  have png: "returns (member_ok E K e True) (if b then case pred_finger s of None \<Rightarrow> Inl Assert_failed
      | Some pred \<Rightarrow> send_ping E s (f_addr pred) (f_port pred) (get_current_time E s) else Inr s)" if "member_ok E K e True s" for b s
    using send_other_member(1) [OF that member_finger(2) [OF that]] that by (auto intro!: returns_option)
  show ?thesis
    unfolding stabilize_def
    by (intro returns_if returns_bindI [OF contact_well_known_member [OF assms]] returns_bindI [OF ping_member [OF assms]] returns_option)
      (auto intro!: returns_bindI [OF send_member(7)] returns_bindI [OF png] returns_bindI [OF fix_succs_preds_member]
        returns_bindI [OF fix_fingers_member] last [simplified] member_self dest: member_finger(1))
qed

subsection \<open>The network\<close>

text \<open>
  The state of the network: the process of every member. The datagrams on the wire are those in the outboxes; \<open>Net_deliver\<close> carries the
  \<open>n\<close>th datagram that \<open>src\<close> ever sent to whoever has its destination address, and may do so any number of times, at any time, or never.
\<close>

type_synonym network = "endpoint \<Rightarrow> chord_state"

datatype net_event =
    Net_deliver clock endpoint nat
  | Net_stabilize clock endpoint
  | Net_discover clock endpoint

definition dest_endpoint :: "datagram \<Rightarrow> endpoint option" where
  "dest_endpoint dg = (case dg_dest dg of Sockaddr_in p a \<Rightarrow> Some (to_v6addr (ucast a), htons p) | Sockaddr_in6 p a \<Rightarrow> None)"

definition run_member :: "env \<Rightarrow> chord_dispatcher \<Rightarrow> endpoint \<Rightarrow> event \<Rightarrow> network \<Rightarrow> network res" where
  "run_member E d e ev net = fbind (chord_handle E d ev (net e)) (\<lambda>s. Inr (net(e := s)))"

fun net_handle :: "env \<Rightarrow> chord_dispatcher \<Rightarrow> net_event \<Rightarrow> network \<Rightarrow> network res" where
  "net_handle E d (Net_deliver c src n) net =
     (let dg = outbox (snd (net src)) ! n in
      case dest_endpoint dg of
        None \<Rightarrow> Inr net
      | Some to \<Rightarrow> run_member E d to (Ev_packet c (Some (sockaddr_of src, dg_bytes dg))) net)"
| "net_handle E d (Net_stabilize c e) net = run_member E d e (Ev_stabilize c) net"
| "net_handle E d (Net_discover c e) net = run_member E d e (Ev_discover c) net"

fun net_enabled :: "endpoint set \<Rightarrow> network \<Rightarrow> net_event \<Rightarrow> bool" where
  "net_enabled K net (Net_deliver c src n) \<longleftrightarrow> src \<in> K \<and> n < length (outbox (snd (net src)))"
| "net_enabled K net (Net_stabilize c e) \<longleftrightarrow> e \<in> K \<and> chord_enabled (net e) (Ev_stabilize c)"
| "net_enabled K net (Net_discover c e) \<longleftrightarrow> e \<in> K \<and> chord_enabled (net e) (Ev_discover c)"

text \<open>At the start every member is a new server with its port and some of the other members as its well-known nodes.\<close>

definition net_init :: "endpoint set \<Rightarrow> network \<Rightarrow> bool" where
  "net_init K net \<longleftrightarrow> (\<forall>e \<in> K. \<exists>rand peers fd. length rand = TICKET_SALT_LEN \<and> set peers \<subseteq> K - {e} \<and>
     net e = (0, started_server False (snd e) peers fd (fresh_server rand)))"

definition net_inv :: "env \<Rightarrow> endpoint set \<Rightarrow> network \<Rightarrow> bool" where
  "net_inv E K net \<longleftrightarrow> (\<forall>e \<in> K. member_ok E K e False (snd (net e)))"

lemma packet_clock [simp]: "packet (with_clock E c) = packet E" "codec_ok (with_clock E c) = codec_ok E" "addr_id (with_clock E c) = addr_id E"
  by (simp_all add: packet_def with_clock_def codec_ok_def addr_id_def fun_eq_iff)

lemma clock_env: "codec_size (with_clock E c) = codec_size E" "pb_free_null (with_clock E c) = pb_free_null E"
  by (simp_all add: codec_size_def with_clock_def)

lemma member_clock [simp]: "member_ok (with_clock E c) = member_ok E"
  by (simp add: member_ok_def wire_ok_def fun_eq_iff)

lemma fold_well_known:
  "fold (\<lambda>(a, p). add_well_known a p) peers srv =
     srv\<lparr>well_known := rev (map (\<lambda>(a, p). \<lparr>n_id = replicate 20 0, n_addr = a, n_port = p\<rparr>) peers) @ well_known srv\<rparr>"
  by (induction peers arbitrary: srv) (auto simp: add_well_known_def)

lemma started_member:
  assumes "sha1_ok E" and "members K" and "e \<in> K" and "length rand = 16" and "set peers \<subseteq> K - {e}"
  shows "member_ok E K e False (started_server False (snd e) peers fd (fresh_server rand))"
  using assms started_server_inv [OF assms(4), of E False "snd e" peers fd]
  by (auto simp: member_ok_def started_server_def server_set_socket_def configure_server_def fold_well_known fresh_server_def zero_server_def)

lemma from_member: "members K \<Longrightarrow> src \<in> K \<Longrightarrow> from_node E srv (sockaddr_of src) = Inr \<lparr>n_id = addr_id E (fst src) (snd src), n_addr = fst src, n_port = snd src\<rparr>"
  by (cases src) (simp add: from_node_def sockaddr_of_def to_v6addr_part member_wf member_mapped)

lemma dest_endpoint_member: "members K \<Longrightarrow> to \<in> K \<Longrightarrow> dg_dest dg = sockaddr_of to \<Longrightarrow> dest_endpoint dg = Some to"
  by (cases to) (simp add: dest_endpoint_def sockaddr_of_def to_v6addr_part member_wf member_mapped)

lemma deliver_member:
  assumes "codec_ok E" and "member_ok E K to False srv" and "src \<in> K" and "handler_registered t msg" and "canonical msg" and "sound_msg K src to msg"
  shows "returns (member_ok E K to False) (handle_packet E chord_disp (Some (sockaddr_of src, packet E t msg)) srv)"
proof -
  obtain name process where reg: "(t, name, descriptor_of msg, process) \<in> set chord_handlers" using assms(4) by (auto simp: handler_registered_def)
  define nd where "nd = \<lparr>n_id = addr_id E (fst src) (snd src), n_addr = fst src, n_port = snd src\<rparr>"
  have nd: "from_node E srv (sockaddr_of src) = Inr nd" using from_member [OF member_okD(2) [OF assms(2)] assms(3)] by (simp add: nd_def)
  have "sender E K src nd" using member_wf [OF member_okD(2) [OF assms(2)], of "fst src" "snd src"] assms(3) by (simp add: sender_def nd_def wf_node_def)
  from call_process_member [OF assms(2) this assms(6), of process] show ?thesis
    unfolding handle_packet_run [OF assms(1) reg assms(5) nd] by (cases "call_process E process msg nd srv") auto
qed

lemma run_member_inv:
  assumes "net_inv E K net" and "returns (\<lambda>s. member_ok E K e False (snd s)) (chord_handle E d ev (net e))"
  shows "returns (net_inv E K) (run_member E d e ev net)"
  unfolding run_member_def by (rule returns_bindI [OF assms(2)]) (use assms(1) in \<open>simp add: net_inv_def\<close>)

lemma net_handle_inv:
  assumes "codec_ok E" and "net_inv E K net" and "net_enabled K net ev"
  shows "returns (net_inv E K) (net_handle E chord_disp ev net)"
proof -
  define idx srv where "idx = (\<lambda>e. fst (net e))" and "srv = (\<lambda>e. snd (net e))"
  have net: "net e = (idx e, srv e)" for e by (simp add: idx_def srv_def)
  have ok: "e \<in> K \<Longrightarrow> member_ok E K e False (srv e)" for e using assms(2) by (force simp: net_inv_def net)
  show ?thesis
  proof (cases ev)
    case (Net_deliver c src n)
    let ?dg = "outbox (srv src) ! n"
    have src: "src \<in> K" "?dg \<in> set (outbox (srv src))" using assms(3) by (simp_all add: Net_deliver net)
    then have "wire_ok E K src ?dg" using ok [OF src(1)] by (simp add: member_ok_def)
    then obtain to t msg where w: "to \<in> K" "dg_dest ?dg = sockaddr_of to" "dg_bytes ?dg = packet E t msg"
      "handler_registered t msg" "canonical msg" "sound_msg K src to msg" by (auto simp: wire_ok_def)
    have "returns (member_ok E K to False) (handle_packet (with_clock E c) chord_disp
        (Some (sockaddr_of src, packet E t msg)) (srv to))"
      using deliver_member [of "with_clock E c", OF _ _ src(1) w(4-6)] ok [OF w(1)] assms(1) by simp
    then show ?thesis
      using dest_endpoint_member [OF member_okD(2) [OF ok [OF src(1)]] w(1,2)] w(3) by (auto simp: Net_deliver net returns_bind intro!: run_member_inv [OF assms(2)] elim: returns_mono)
  next
    case (Net_stabilize c e)
    have e: "e \<in> K" "stab_event (srv e)" using assms(3) by (simp_all add: Net_stabilize net)
    then have "member_ok E K e True (srv e)" using ok [OF e(1)] by (auto simp: member_ok_def)
    then show ?thesis
      using stabilize_member [of "with_clock E c" K e "srv e" "idx e"]
      by (auto simp: Net_stabilize net member_weaken intro!: run_member_inv [OF assms(2)] elim!: returns_mono)
  next
    case (Net_discover c e)
    then show ?thesis
      using discover_addr_member [of "with_clock E c" K e False "srv e"] ok [of e] assms(3) by (auto simp: net returns_bind intro!: run_member_inv [OF assms(2)] elim!: returns_mono)
  qed
qed

interpretation net: fallible_machine "net_init K" "net_handle E chord_disp" "net_enabled K"
    "\<lambda>net. sha1_ok E \<and> codec_ok E \<and> members K \<longrightarrow> net_inv E K net"
proof
  fix s
  show "net_init K s \<Longrightarrow> sha1_ok E \<and> codec_ok E \<and> members K \<longrightarrow> net_inv E K s"
    unfolding net_init_def net_inv_def by (metis started_member snd_conv TICKET_SALT_LEN_def)
next
  fix s e
  assume "sha1_ok E \<and> codec_ok E \<and> members K \<longrightarrow> net_inv E K s" "net_enabled K s e"
  then show "returns (\<lambda>net. sha1_ok E \<and> codec_ok E \<and> members K \<longrightarrow> net_inv E K net) (net_handle E chord_disp e s)"
    using net_handle_inv [of E K s e] by (cases "sha1_ok E \<and> codec_ok E \<and> members K") (auto simp: returns_triv elim: returns_mono)
qed

subsection \<open>What the members know\<close>

definition endpoint_node :: "env \<Rightarrow> endpoint \<Rightarrow> Node" where
  "endpoint_node E e = \<lparr>n_id = addr_id E (fst e) (snd e), n_addr = fst e, n_port = snd e\<rparr>"

lemma member_finger_node:
  assumes "member_ok E K e j srv" and "f \<in> set (flist srv)"
  shows "\<exists>to \<in> K - {e}. f_node f = endpoint_node E to"
  using member_okD(7) [OF assms] srv_invD(3) [OF member_okD(4) [OF assms(1)]] assms(2)
  by (intro bexI [of _ "endpoint_of (f_node f)"]) (auto simp: endpoint_node_def ids_ok_def)

lemma member_table_bound:
  assumes "member_ok E K e j srv" and "finite K"
  shows "length (flist srv) < card K"
proof -
  let ?g = "\<lambda>f. endpoint_of (f_node f)"
  have ids: "distinct (map f_id (flist srv))" by (rule ring_sorted_distinct [OF table_invD(4) [OF member_okD(5) [OF assms(1)]]])
  have eq: "map f_id (flist srv) = map (\<lambda>(a, p). addr_id E a p) (map ?g (flist srv))"
    using srv_invD(3) [OF member_okD(4) [OF assms(1)]] by (simp add: ids_ok_def)
  have "distinct (map ?g (flist srv))" by (rule distinct_map [THEN iffD1, THEN conjunct1, OF ids [unfolded eq]])
  from distinct_card [OF this] have "length (flist srv) = card (?g ` set (flist srv))" by simp
  also have "\<dots> \<le> card (K - {e})" by (intro card_mono image_subsetI member_okD(7) [OF assms(1)]) (use assms(2) in simp)
  also have "\<dots> < card K" using assms(2) member_okD(3) [OF assms(1)] by (intro psubset_card_mono) auto
  finally show ?thesis .
qed

text \<open>Two servers that know each other; the first has asked the second for its address.\<close>

definition demo_e1 :: endpoint where
  "demo_e1 = (demo_addr 1, 4000)"

definition demo_e2 :: endpoint where
  "demo_e2 = (demo_addr 2, 4000)"

definition demo_K :: "endpoint set" where
  "demo_K = {demo_e1, demo_e2}"

definition demo_clock :: clock where
  "demo_clock = \<lparr>clk_pack = \<lambda>_. 1700000000, clk_verify = \<lambda>_. 1700000005, clk_wall = \<lambda>_. 5000000\<rparr>"

definition demo_start :: "endpoint \<Rightarrow> ChordServer" where
  "demo_start e = started_server False (snd e) [if e = demo_e1 then demo_e2 else demo_e1] 3 (fresh_server (replicate 16 7))"

definition demo_net :: network where
  "demo_net e = (0, demo_start e)"

definition demo_discover :: message where
  "demo_discover = M_AddrDiscover \<lparr>ad_has_ticket = True, ad_ticket = ticket_for demo_env (demo_start demo_e1) (discover_params (fst demo_e2) (snd demo_e2))\<rparr>"

definition demo_net1 :: network where
  "demo_net1 = demo_net(demo_e1 := (0, post demo_env (demo_start demo_e1) (fst demo_e2) (snd demo_e2) CHORD_ADDR_DISCOVER demo_discover))"

lemma demo_e_distinct [simp]: "demo_e1 \<noteq> demo_e2" "demo_e2 \<noteq> demo_e1"
  by (simp_all add: demo_e1_def demo_e2_def demo_addr_def)

lemma demo_members: "members demo_K"
  by (simp add: members_def demo_K_def demo_e1_def demo_e2_def wf_addr_def)

lemma demo_clock_env [simp]: "with_clock demo_env demo_clock = demo_env"
  by (simp add: with_clock_def demo_clock_def demo_env_def)

lemma demo_net_init: "net_init demo_K demo_net"
  unfolding net_init_def demo_net_def demo_start_def
proof
  fix e
  assume "e \<in> demo_K"
  then show "\<exists>rand peers fd. length rand = TICKET_SALT_LEN \<and> set peers \<subseteq> demo_K - {e} \<and>
      (0 :: int, started_server False (snd e) [if e = demo_e1 then demo_e2 else demo_e1] 3 (fresh_server (replicate 16 7))) =
      (0, started_server False (snd e) peers fd (fresh_server rand))"
    by (intro exI [of _ "replicate 16 7"] exI [of _ "[if e = demo_e1 then demo_e2 else demo_e1]"] exI [of _ 3]) (auto simp: demo_K_def)
qed

lemma demo_net1_reach: "reach (net_init demo_K) (net_handle demo_env chord_disp) (net_enabled demo_K) demo_net1"
proof (rule reach_step [where s = demo_net and e = "Net_discover demo_clock demo_e1"])
  show "reach (net_init demo_K) (net_handle demo_env chord_disp) (net_enabled demo_K) demo_net" by (rule reach_init) (rule demo_net_init)
  let ?srv = "demo_start demo_e1"
  have srv: "member_ok demo_env demo_K demo_e1 False ?srv"
    unfolding demo_start_def by (rule started_member [OF _ demo_members]) (auto simp: demo_K_def)
  have sel: "well_known ?srv = [\<lparr>n_id = replicate 20 0, n_addr = fst demo_e2, n_port = snd demo_e2\<rparr>]" "s_addr ?srv = replicate 16 0" "discover_addr_event ?srv"
    by (simp_all add: demo_start_def started_server_def server_set_socket_def configure_server_def add_well_known_def fresh_server_def zero_server_def
        case_prod_beta)
  show "net_enabled demo_K demo_net (Net_discover demo_clock demo_e1)" using sel(3) by (simp add: demo_net_def demo_K_def)
  have "send_addr_discover demo_env ?srv (fst demo_e2) (snd demo_e2) = Inr (post demo_env ?srv (fst demo_e2) (snd demo_e2) CHORD_ADDR_DISCOVER demo_discover)"
    unfolding demo_discover_def by (rule send_addr_discover_total [OF demo_env_env_ok]) (use srv in \<open>auto simp: member_ok_def can_send_def demo_e2_def dest: srv_invD(2)\<close>)
  then have "discover_addr demo_env ?srv = Inr (post demo_env ?srv (fst demo_e2) (snd demo_e2) CHORD_ADDR_DISCOVER demo_discover)"
    using sel by (simp add: discover_addr_def)
  then show "net_handle demo_env chord_disp (Net_discover demo_clock demo_e1) demo_net = Inr demo_net1"
    by (simp add: run_member_def demo_net_def demo_net1_def)
qed

text \<open>
  C3. A network of IPv4 servers that nobody else sends to, whose well-known nodes are other members, stays closed: however the wire loses, repeats, delays and reorders datagrams and whatever the clocks show, in every reachable state
  a member's own address is unknown or the right one, each of its fingers is another member under its proper identifier, so that the finger table
  is smaller than the network, and everything it sent is addressed to a member.
\<close>

theorem closed_network:
  assumes "sha1_ok E" and "codec_ok E" and "members K" and "finite K"
    and "reach (net_init K) (net_handle E chord_disp) (net_enabled K) net" and "e \<in> K" and "srv = snd (net e)"
  shows "(IN6_IS_ADDR_UNSPECIFIED (s_addr srv) \<or> s_node srv = endpoint_node E e) \<and> (\<forall>f \<in> set (flist srv). \<exists>to \<in> K - {e}. f_node f = endpoint_node E to) \<and>
    length (flist srv) < card K \<and> (\<forall>dg \<in> set (outbox srv). \<exists>to \<in> K. dest_endpoint dg = Some to)"
proof (intro conjI ballI)
  have ok: "member_ok E K e False srv" using net.reach_inv [OF assms(5)] assms(1-3,6,7) by (auto simp: net_inv_def)
  show "IN6_IS_ADDR_UNSPECIFIED (s_addr srv) \<or> s_node srv = endpoint_node E e"
    using ok by (auto simp: member_ok_def srv_inv_def endpoint_node_def split: if_splits)
  show "\<exists>to \<in> K - {e}. f_node f = endpoint_node E to" if "f \<in> set (flist srv)" for f using member_finger_node [OF ok that] .
  show "length (flist srv) < card K" by (rule member_table_bound [OF ok assms(4)])
  show "\<exists>to \<in> K. dest_endpoint dg = Some to" if "dg \<in> set (outbox srv)" for dg
    using ok that dest_endpoint_member [OF assms(3)] by (auto simp: member_ok_def wire_ok_def)
qed

lemma closed_network_witness:
  "(IN6_IS_ADDR_UNSPECIFIED (s_addr (snd (demo_net1 demo_e1))) \<or> s_node (snd (demo_net1 demo_e1)) = endpoint_node demo_env demo_e1) \<and>
   list_all (\<lambda>f. f_node f = endpoint_node demo_env demo_e2) (flist (snd (demo_net1 demo_e1))) \<and> length (flist (snd (demo_net1 demo_e1))) < 2 \<and>
   list_all (\<lambda>dg. dest_endpoint dg = Some demo_e1 \<or> dest_endpoint dg = Some demo_e2) (outbox (snd (demo_net1 demo_e1)))"
  using closed_network [OF _ _ demo_members _ demo_net1_reach, of demo_e1 "snd (demo_net1 demo_e1)"] demo_e_distinct
  by (auto simp: demo_K_def list_all_iff)

subsection \<open>Deliveries do no harm\<close>

text \<open>
  The two conditions that are left to luck: a stabilization reply finds a successor (the one that was asked may have been removed since), and the time a pong
  returns is not later than now nor absurdly old.
\<close>

fun timely :: "env \<Rightarrow> ChordServer \<Rightarrow> message \<Rightarrow> bool" where
  "timely E srv (M_StabilizeReply m) = (succ_finger srv \<noteq> None)"
| "timely E srv (M_Pong m) = (rtts_ok srv \<and> 0 \<le> sint (get_current_time E srv - pong_time m) \<and> sint (get_current_time E srv - pong_time m) < 2 ^ 62)"
| "timely E srv _ = True"

lemma member_sendable: "member_ok E K e j srv \<Longrightarrow> sendable srv"
  using member_mapped [of K "fst e" "snd e"] member_mapped [of K] by (fastforce simp: member_ok_def sendable_def can_send_def)

lemma sound_safe:
  assumes "member_ok E K e False srv" and "sender E K src nd" and "sound_msg K src e msg" and "handler_registered t msg" and "timely E srv msg"
  shows "safe_for E srv nd msg"
proof -
  have len: "length a = 16" if "(a, p) \<in> K" for a p using member_len [OF member_okD(2) [OF assms(1)] that] .
  have e: "length (fst e) = 16" "e = (s_addr srv, s_port srv) \<or> IN6_IS_ADDR_UNSPECIFIED (s_addr srv)"
    using len [of "fst e" "snd e"] assms(1) by (auto simp: member_ok_def)
  have can: "can_send srv a" if "(a, p) \<in> K" for a p using member_mapped [OF member_okD(2) [OF assms(1)] that] assms(1) by (simp add: member_ok_def can_send_def)
  have "can_send srv (fst e)" using can [of "fst e" "snd e"] member_okD(3) [OF assms(1)] by simp
  moreover have "\<not> IN6_IS_ADDR_UNSPECIFIED (n_addr nd)" using mapped_specified [OF member_mapped [OF member_okD(2) [OF assms(1)], of _ "n_port nd"]] assms(2) by (auto simp: sender_def)
  ultimately show ?thesis using assms(2-5) len can e by (cases msg) (auto simp: sender_def handler_registered_def chord_handlers_def)
qed

text \<open>
  C5. In a network of IPv4 servers that nobody else sends to, whose well-known nodes are other members, no delivery takes a member down: in every reachable state each datagram that any member ever sent is a packet to a member, and handing it to that member, now,
  again or never before, is handled without a fault, provided that a stabilization reply finds a successor and that a pong carries a plausible time and finds plausible round-trip records; the codec accepts a \<^verbatim>\<open>NULL\<close> message when freeing.
\<close>

theorem network_delivery:
  assumes "env_ok E" and "codec_ok E" and "pb_free_null E" and "members K"
    and "reach (net_init K) (net_handle E chord_disp) (net_enabled K) net" and "src \<in> K" and "n < length (outbox (snd (net src)))"
    and "dg = outbox (snd (net src)) ! n"
  shows "\<exists>to \<in> K. \<exists>t msg. dest_endpoint dg = Some to \<and> dg_bytes dg = packet E t msg \<and> handler_registered t msg \<and> canonical msg \<and>
    (timely (with_clock E c) (snd (net to)) msg \<longrightarrow> (\<exists>net'. net_handle E chord_disp (Net_deliver c src n) net = Inr net'))"
proof -
  have inv: "net_inv E K net" using net.reach_inv [OF assms(5)] assms(1,2,4) by (simp add: env_ok_def)
  have "wire_ok E K src dg" using inv assms(6-8) by (auto simp: net_inv_def member_ok_def)
  then obtain to t msg where w: "to \<in> K" "dg_dest dg = sockaddr_of to" "dg_bytes dg = packet E t msg"
      "handler_registered t msg" "canonical msg" "sound_msg K src to msg" by (auto simp: wire_ok_def)
  let ?C = "with_clock E c" and ?srv = "snd (net to)" and ?sa = "sockaddr_of src"
  obtain name process where reg: "(t, name, descriptor_of msg, process) \<in> set chord_handlers" using w(4) by (auto simp: handler_registered_def)
  have ok: "member_ok E K to False ?srv" using inv w(1) by (simp add: net_inv_def)
  have C: "env_ok ?C" "codec_ok ?C" "pb_free_null ?C" using assms(1-3) by (simp_all add: env_ok_def clock_env)
  have nd: "from_node ?C ?srv ?sa = Inr (endpoint_node E src)" using from_member [OF assms(4,6), of ?C] by (simp add: endpoint_node_def)
  have snd: "sender ?C K src (endpoint_node E src)"
    using member_wf [OF assms(4), of "fst src" "snd src"] assms(6) by (simp add: sender_def endpoint_node_def wf_node_def)
  have "\<exists>net'. net_handle E chord_disp (Net_deliver c src n) net = Inr net'" if "timely ?C ?srv msg"
  proof -
    have "safe_for ?C ?srv (endpoint_node E src) msg" by (rule sound_safe [OF _ snd w(6,4) that]) (use ok in simp)
    moreover have "can_send ?srv (n_addr (endpoint_node E src))" using member_mapped [OF assms(4), of "fst src" "snd src"] assms(6) ok by (simp add: member_ok_def can_send_def endpoint_node_def)
    ultimately have "fine (call_process ?C process msg (endpoint_node E src) ?srv)"
      using call_process_returns [OF C(1,3) _ member_sendable _ _ reg, of ?srv E K to False] ok snd by (simp add: member_okD(4) sender_def)
    then obtain ret srv' where "call_process ?C process msg (endpoint_node E src) ?srv = Inr (ret, srv')" by (auto simp: fine_def)
    then have "handle_packet ?C chord_disp (Some (?sa, dg_bytes dg)) ?srv = Inr srv'"
      using handle_packet_run [OF C(2) reg w(5) nd] w(3) by simp
    then show ?thesis using dest_endpoint_member [OF assms(4) w(1,2)] assms(8) by (cases "net to") (simp add: run_member_def)
  qed
  then show ?thesis using w dest_endpoint_member [OF assms(4) w(1,2)] by (intro bexI [of _ to] exI [of _ t] exI [of _ msg]) simp_all
qed

lemma demo_start_sel [simp]: "outbox (demo_start e) = []" "sock (demo_start e) = 3" "send_func (demo_start e) = Send_raw_v4"
  by (simp_all add: demo_start_def started_server_def server_set_socket_def configure_server_def case_prod_beta add_well_known_def
      fresh_server_def zero_server_def)

lemma network_delivery_witness:
  "\<exists>net'. net_handle demo_env chord_disp (Net_deliver demo_clock demo_e1 0) demo_net1 = Inr net'"
proof -
  let ?dg = "outbox (snd (demo_net1 demo_e1)) ! 0"
  have one: "outbox (snd (demo_net1 demo_e1)) = [Datagram 3 (dest_of demo_env (demo_start demo_e1) (fst demo_e2) (snd demo_e2)) (packet demo_env CHORD_ADDR_DISCOVER demo_discover)]"
    by (simp add: demo_net1_def)
  then have len: "0 < length (outbox (snd (demo_net1 demo_e1)))" by simp
  have e1: "demo_e1 \<in> demo_K" by (simp add: demo_K_def)
  obtain to t msg where w: "dg_bytes ?dg = packet demo_env t msg" "handler_registered t msg" "canonical msg"
    "timely (with_clock demo_env demo_clock) (snd (demo_net1 to)) msg \<longrightarrow>
       (\<exists>net'. net_handle demo_env chord_disp (Net_deliver demo_clock demo_e1 0) demo_net1 = Inr net')"
    using network_delivery [OF demo_env_env_ok demo_env_ok(2) demo_env_sel(4) demo_members demo_net1_reach e1 len refl] by blast
  have known: "handler_registered CHORD_ADDR_DISCOVER demo_discover" "canonical demo_discover" "timely E srv demo_discover" for E srv
    by (simp_all add: demo_discover_def)
  have "packet demo_env t msg = packet demo_env CHORD_ADDR_DISCOVER demo_discover" unfolding w(1) [symmetric] one by simp
  then have "msg = demo_discover" using packet_inject [OF demo_env_ok(2) w(2) known(1) w(3) known(2)] by blast
  then show ?thesis using w(4) known(3) by blast
qed

end
