(* ===== verification/Chord_Config.thy ===== *)
theory Chord_Config
  imports Chord_Machine
begin

text \<open>
  How the process starts: the sections of the configuration file, resolution of the peers' names (\<^verbatim>\<open>resolve_v6name\<close> of \<^verbatim>\<open>hosts.c\<close>), and the list of servers of
  \<^verbatim>\<open>server_initialize_list_from_file\<close>. The parsed values of libconfuse are the argument; \<^verbatim>\<open>inet_pton\<close> and
  \<^verbatim>\<open>getaddrinfo\<close> are parameters. The sockets that the client opens for the servers are in the theory \<open>Hosts\<close>.
\<close>

subsection \<open>Names\<close>

text \<open>\<^verbatim>\<open>getaddrinfo\<close> gives an error or a list of addresses.\<close>

record resolver =
  inet_pton6 :: "string \<Rightarrow> in6_addr option"
  inet_pton4 :: "string \<Rightarrow> uint32 option"
  getaddrinfo :: "string \<Rightarrow> sockaddr list option"

definition resolve_v6name :: "resolver \<Rightarrow> string \<Rightarrow> in6_addr option res" where
  "resolve_v6name N name =
     (case inet_pton6 N name of
        Some v6addr \<Rightarrow> Inr (Some v6addr)
      | None \<Rightarrow>
          (case inet_pton4 N name of
             Some v4addr \<Rightarrow> Inr (Some (to_v6addr (ucast v4addr)))
           | None \<Rightarrow>
               (case getaddrinfo N name of
                  None \<Rightarrow> Inr None
                | Some [] \<Rightarrow> Inl Null_deref
                | Some (Sockaddr_in p a # _) \<Rightarrow> Inr (Some (to_v6addr (ucast a)))
                | Some (Sockaddr_in6 p a # _) \<Rightarrow> Inr (Some a))))"

subsection \<open>Sections\<close>

record server_opts =
  so_ip_version :: int
  so_port :: int

text \<open>The address of a peer is a string option without a default: where the section has none, \<^verbatim>\<open>cfg_getstr\<close> gives \<^verbatim>\<open>NULL\<close>.\<close>

record peer_opts =
  po_address :: "string option"
  po_port :: int

text \<open>The peers that resolve are added in front of the list of the server; the others are skipped. The address is not compared with \<^verbatim>\<open>NULL\<close> before \<^verbatim>\<open>inet_pton\<close> reads it.\<close>

primrec add_peers :: "resolver \<Rightarrow> peer_opts list \<Rightarrow> ChordServer \<Rightarrow> ChordServer res" where
  "add_peers N [] srv = Inr srv"
| "add_peers N (peer # peers) srv =
     fbind (deref (po_address peer)) (\<lambda>addr_str.
     fbind (resolve_v6name N addr_str) (\<lambda>addr.
     add_peers N peers (case addr of None \<Rightarrow> srv | Some a \<Rightarrow> add_well_known a (word_of_int (po_port peer)) srv)))"

text \<open>\<open>rands\<close> are the random keys, one for each server; a server is added in front of the list.\<close>

primrec server_initialize_list_from_file ::
  "resolver \<Rightarrow> peer_opts list \<Rightarrow> server_opts list \<Rightarrow> (nat \<Rightarrow> byte list) \<Rightarrow> nat \<Rightarrow> (ChordServer \<times> chord_dispatcher) list \<Rightarrow>
   (ChordServer \<times> chord_dispatcher) list res" where
  "server_initialize_list_from_file N peers [] rands i srv_list = Inr srv_list"
| "server_initialize_list_from_file N peers (server # servers) rands i srv_list =
     fbind (new_server (rands i)) (\<lambda>(srv, d).
     fbind (add_peers N peers (configure_server (so_ip_version server = 6) (word_of_int (so_port server)) srv)) (\<lambda>srv.
     server_initialize_list_from_file N peers servers rands (Suc i) ((srv, d) # srv_list)))"

subsection \<open>The servers that start\<close>

text \<open>What is assumed of the resolver: a successful answer of \<^verbatim>\<open>getaddrinfo\<close> is not empty.\<close>

definition resolver_ok :: "resolver \<Rightarrow> bool" where
  "resolver_ok N \<longleftrightarrow> (\<forall>name. getaddrinfo N name \<noteq> Some [])"

definition resolved :: "resolver \<Rightarrow> peer_opts \<Rightarrow> (in6_addr \<times> ushort) option" where
  "resolved N peer = (case po_address peer of None \<Rightarrow> None
     | Some name \<Rightarrow> (case resolve_v6name N name of Inr (Some a) \<Rightarrow> Some (a, word_of_int (po_port peer)) | _ \<Rightarrow> None))"

definition addressed :: "peer_opts list \<Rightarrow> bool" where
  "addressed peers \<longleftrightarrow> (\<forall>peer \<in> set peers. po_address peer \<noteq> None)"

lemma resolve_total: "resolver_ok N \<Longrightarrow> \<exists>r. resolve_v6name N name = Inr r"
  unfolding resolve_v6name_def resolver_ok_def by (auto split: option.splits list.splits sockaddr.splits)

lemma add_peers_eq:
  assumes "resolver_ok N"
  shows "add_peers N peers srv =
    (if addressed peers then Inr (fold (\<lambda>(a, p). add_well_known a p) (List.map_filter (resolved N) peers) srv) else Inl Null_deref)"
proof (induction peers arbitrary: srv)
  case (Cons peer peers)
  show ?case
  proof (cases "po_address peer")
    case (Some name)
    obtain r where r: "resolve_v6name N name = Inr r" using resolve_total [OF assms] by blast
    have "resolved N peer = map_option (\<lambda>a. (a, word_of_int (po_port peer))) r" using Some r by (cases r) (simp_all add: resolved_def)
    moreover have "addressed (peer # peers) = addressed peers" using Some by (simp add: addressed_def)
    ultimately show ?thesis using Cons.IH Some r by (cases r) (simp_all add: List.map_filter_simps)
  qed (simp add: addressed_def)
qed (simp add: addressed_def List.map_filter_simps)

lemma well_known_fold:
  "well_known (fold (\<lambda>(a, p). add_well_known a p) aps srv) = map (\<lambda>(a, p). \<lparr>n_id = replicate 20 0, n_addr = a, n_port = p\<rparr>) (rev aps) @ well_known srv"
  by (induction aps arbitrary: srv) (auto simp: add_well_known_def)

lemma configured_fold [simp]:
  "s_node (fold (\<lambda>(a, p). add_well_known a p) aps srv) = s_node srv" "is_v6 (fold (\<lambda>(a, p). add_well_known a p) aps srv) = is_v6 srv"
  by (induction aps arbitrary: srv) (auto simp: add_well_known_def)

text \<open>The server of a section.\<close>

definition section_server :: "resolver \<Rightarrow> peer_opts list \<Rightarrow> byte list \<Rightarrow> server_opts \<Rightarrow> ChordServer" where
  "section_server N peers rand server = fold (\<lambda>(a, p). add_well_known a p) (List.map_filter (resolved N) peers)
     (configure_server (so_ip_version server = 6) (word_of_int (so_port server)) (fresh_server rand))"

text \<open>Without a section for a server the peers are never looked at.\<close>

lemma initialize_list_eq:
  assumes "resolver_ok N"
  shows "server_initialize_list_from_file N peers servers rands i srv_list =
    (if servers = [] \<or> addressed peers
     then Inr (rev (map (\<lambda>(k, server). (section_server N peers (rands k) server, chord_disp)) (enumerate i servers)) @ srv_list)
     else Inl Null_deref)"
  by (induction servers arbitrary: i srv_list)
    (auto simp: new_server_eq add_peers_eq [OF assms] section_server_def)

lemma section_server_sel:
  "s_port (section_server N peers rand server) = word_of_int (so_port server)" "is_v6 (section_server N peers rand server) = (so_ip_version server = 6)"
  "map (\<lambda>n. (n_addr n, n_port n)) (well_known (section_server N peers rand server)) = rev (List.map_filter (resolved N) peers)"
proof -
  have "(\<lambda>n. (n_addr n, n_port n)) \<circ> (\<lambda>(a, p). \<lparr>n_id = replicate 20 0, n_addr = a, n_port = p\<rparr>) = id" by (auto simp: fun_eq_iff)
  then show "s_port (section_server N peers rand server) = word_of_int (so_port server)" "is_v6 (section_server N peers rand server) = (so_ip_version server = 6)"
    "map (\<lambda>n. (n_addr n, n_port n)) (well_known (section_server N peers rand server)) = rev (List.map_filter (resolved N) peers)"
    by (auto simp: section_server_def configure_server_def fresh_server_def zero_server_def well_known_fold)
qed

definition demo_resolver :: resolver where
  "demo_resolver = \<lparr>inet_pton6 = \<lambda>_. None, inet_pton4 = \<lambda>_. None,
     getaddrinfo = \<lambda>name. if name = ''peer'' then Some [Sockaddr_in6 0 (demo_addr 2)] else None\<rparr>"

end
