(* ===== verification/Crc32.thy ===== *)
theory Crc32
  imports Tangent_Prelude
begin

unbundle bit_operations_syntax

text \<open>
  The checksum behind the logging library's string hash (\<^verbatim>\<open>crc32\<close> of \<^verbatim>\<open>logger/hashmap.c\<close>): the
  table of 256 words as the file has it, and the bit-by-bit polynomial division that the table
  abbreviates. Strings are their bytes before the terminating zero.
\<close>

type_synonym cstring = "byte list"

definition crc32_tab :: "ulong list" where
  "crc32_tab = [
     0x00000000, 0x77073096, 0xee0e612c, 0x990951ba, 0x076dc419, 0x706af48f, 0xe963a535, 0x9e6495a3,
     0x0edb8832, 0x79dcb8a4, 0xe0d5e91e, 0x97d2d988, 0x09b64c2b, 0x7eb17cbd, 0xe7b82d07, 0x90bf1d91,
     0x1db71064, 0x6ab020f2, 0xf3b97148, 0x84be41de, 0x1adad47d, 0x6ddde4eb, 0xf4d4b551, 0x83d385c7,
     0x136c9856, 0x646ba8c0, 0xfd62f97a, 0x8a65c9ec, 0x14015c4f, 0x63066cd9, 0xfa0f3d63, 0x8d080df5,
     0x3b6e20c8, 0x4c69105e, 0xd56041e4, 0xa2677172, 0x3c03e4d1, 0x4b04d447, 0xd20d85fd, 0xa50ab56b,
     0x35b5a8fa, 0x42b2986c, 0xdbbbc9d6, 0xacbcf940, 0x32d86ce3, 0x45df5c75, 0xdcd60dcf, 0xabd13d59,
     0x26d930ac, 0x51de003a, 0xc8d75180, 0xbfd06116, 0x21b4f4b5, 0x56b3c423, 0xcfba9599, 0xb8bda50f,
     0x2802b89e, 0x5f058808, 0xc60cd9b2, 0xb10be924, 0x2f6f7c87, 0x58684c11, 0xc1611dab, 0xb6662d3d,
     0x76dc4190, 0x01db7106, 0x98d220bc, 0xefd5102a, 0x71b18589, 0x06b6b51f, 0x9fbfe4a5, 0xe8b8d433,
     0x7807c9a2, 0x0f00f934, 0x9609a88e, 0xe10e9818, 0x7f6a0dbb, 0x086d3d2d, 0x91646c97, 0xe6635c01,
     0x6b6b51f4, 0x1c6c6162, 0x856530d8, 0xf262004e, 0x6c0695ed, 0x1b01a57b, 0x8208f4c1, 0xf50fc457,
     0x65b0d9c6, 0x12b7e950, 0x8bbeb8ea, 0xfcb9887c, 0x62dd1ddf, 0x15da2d49, 0x8cd37cf3, 0xfbd44c65,
     0x4db26158, 0x3ab551ce, 0xa3bc0074, 0xd4bb30e2, 0x4adfa541, 0x3dd895d7, 0xa4d1c46d, 0xd3d6f4fb,
     0x4369e96a, 0x346ed9fc, 0xad678846, 0xda60b8d0, 0x44042d73, 0x33031de5, 0xaa0a4c5f, 0xdd0d7cc9,
     0x5005713c, 0x270241aa, 0xbe0b1010, 0xc90c2086, 0x5768b525, 0x206f85b3, 0xb966d409, 0xce61e49f,
     0x5edef90e, 0x29d9c998, 0xb0d09822, 0xc7d7a8b4, 0x59b33d17, 0x2eb40d81, 0xb7bd5c3b, 0xc0ba6cad,
     0xedb88320, 0x9abfb3b6, 0x03b6e20c, 0x74b1d29a, 0xead54739, 0x9dd277af, 0x04db2615, 0x73dc1683,
     0xe3630b12, 0x94643b84, 0x0d6d6a3e, 0x7a6a5aa8, 0xe40ecf0b, 0x9309ff9d, 0x0a00ae27, 0x7d079eb1,
     0xf00f9344, 0x8708a3d2, 0x1e01f268, 0x6906c2fe, 0xf762575d, 0x806567cb, 0x196c3671, 0x6e6b06e7,
     0xfed41b76, 0x89d32be0, 0x10da7a5a, 0x67dd4acc, 0xf9b9df6f, 0x8ebeeff9, 0x17b7be43, 0x60b08ed5,
     0xd6d6a3e8, 0xa1d1937e, 0x38d8c2c4, 0x4fdff252, 0xd1bb67f1, 0xa6bc5767, 0x3fb506dd, 0x48b2364b,
     0xd80d2bda, 0xaf0a1b4c, 0x36034af6, 0x41047a60, 0xdf60efc3, 0xa867df55, 0x316e8eef, 0x4669be79,
     0xcb61b38c, 0xbc66831a, 0x256fd2a0, 0x5268e236, 0xcc0c7795, 0xbb0b4703, 0x220216b9, 0x5505262f,
     0xc5ba3bbe, 0xb2bd0b28, 0x2bb45a92, 0x5cb36a04, 0xc2d7ffa7, 0xb5d0cf31, 0x2cd99e8b, 0x5bdeae1d,
     0x9b64c2b0, 0xec63f226, 0x756aa39c, 0x026d930a, 0x9c0906a9, 0xeb0e363f, 0x72076785, 0x05005713,
     0x95bf4a82, 0xe2b87a14, 0x7bb12bae, 0x0cb61b38, 0x92d28e9b, 0xe5d5be0d, 0x7cdcefb7, 0x0bdbdf21,
     0x86d3d2d4, 0xf1d4e242, 0x68ddb3f8, 0x1fda836e, 0x81be16cd, 0xf6b9265b, 0x6fb077e1, 0x18b74777,
     0x88085ae6, 0xff0f6a70, 0x66063bca, 0x11010b5c, 0x8f659eff, 0xf862ae69, 0x616bffd3, 0x166ccf45,
     0xa00ae278, 0xd70dd2ee, 0x4e048354, 0x3903b3c2, 0xa7672661, 0xd06016f7, 0x4969474d, 0x3e6e77db,
     0xaed16a4a, 0xd9d65adc, 0x40df0b66, 0x37d83bf0, 0xa9bcae53, 0xdebb9ec5, 0x47b2cf7f, 0x30b5ffe9,
     0xbdbdf21c, 0xcabac28a, 0x53b39330, 0x24b4a3a6, 0xbad03605, 0xcdd70693, 0x54de5729, 0x23d967bf,
     0xb3667a2e, 0xc4614ab8, 0x5d681b02, 0x2a6f2b94, 0xb40bbe37, 0xc30c8ea1, 0x5a05df1b, 0x2d02ef8d]"

definition crc32 :: "cstring \<Rightarrow> uint32 \<Rightarrow> ulong" where
  "crc32 s len =
     foldl (\<lambda>crc32val b. crc32_tab ! unat ((crc32val XOR ucast b) AND 0xff) XOR drop_bit 8 crc32val) 0 (take (unat len) s)"

text \<open>
  The reference: one bit of the reflected polynomial division by \<open>0xedb88320\<close>, and eight of them.
\<close>

definition crc_bit :: "ulong \<Rightarrow> ulong" where
  "crc_bit c = (if bit c 0 then 0xedb88320 XOR drop_bit 1 c else drop_bit 1 c)"

definition crc_byte :: "ulong \<Rightarrow> ulong" where
  "crc_byte c = (crc_bit ^^ 8) c"

definition crc32_bits :: "byte list \<Rightarrow> ulong" where
  "crc32_bits s = foldl (\<lambda>c b. crc_byte (c XOR ucast b)) 0 s"

lemma crc_bit_xor: "crc_bit (a XOR b) = crc_bit a XOR crc_bit b"
  by (auto simp: crc_bit_def bit_xor_iff drop_bit_xor ac_simps)

lemma crc_bit_funpow_xor: "(crc_bit ^^ n) (a XOR b) = (crc_bit ^^ n) a XOR (crc_bit ^^ n) b"
  by (induction n) (simp_all add: crc_bit_xor)

lemma crc_byte_xor: "crc_byte (a XOR b) = crc_byte a XOR crc_byte b"
  by (simp add: crc_byte_def crc_bit_funpow_xor)

lemma crc_byte_unfold: "crc_byte c = crc_bit (crc_bit (crc_bit (crc_bit (crc_bit (crc_bit (crc_bit (crc_bit c)))))))"
proof -
  have "(8::nat) = Suc (Suc (Suc (Suc (Suc (Suc (Suc (Suc 0)))))))" by simp
  then show ?thesis by (simp only: crc_byte_def funpow.simps o_def id_def)
qed

lemma crc_byte_pow:
  "crc_byte 1 = 0x77073096" "crc_byte 2 = 0xee0e612c" "crc_byte 4 = 0x076dc419" "crc_byte 8 = 0x0edb8832"
  "crc_byte 16 = 0x1db71064" "crc_byte 32 = 0x3b6e20c8" "crc_byte 64 = 0x76dc4190" "crc_byte 128 = 0xedb88320"
  by (simp_all add: crc_byte_unfold crc_bit_def)

lemma word_of_nat_add_pow:
  assumes "i < 2 ^ k" and "k < 64"
  shows "(word_of_nat i + 2 ^ k :: ulong) = 2 ^ k XOR word_of_nat i"
proof -
  have "\<not> bit i k" using assms(1) by (simp add: bit_iff_odd)
  then have "\<not> bit (word_of_nat i :: ulong) k" by (simp add: bit_simps)
  then have "word_of_nat i AND 2 ^ k = (0 :: ulong)" by (simp add: and_exp_eq_0_iff_not_bit)
  then show ?thesis by (simp add: disjunctive_add_eq_xor xor.commute)
qed

lemma crc_byte_double:
  assumes "k < 64"
  shows "map (\<lambda>i. crc_byte (word_of_nat i)) [0..<2 ^ Suc k] =
    map (\<lambda>i. crc_byte (word_of_nat i)) [0..<2 ^ k] @
    map (\<lambda>i. crc_byte (2 ^ k) XOR crc_byte (word_of_nat i)) [0..<2 ^ k]"
proof -
  have "[0..<2 ^ Suc k] = [0..<2 ^ k] @ map (\<lambda>i. i + 2 ^ k) [0..<2 ^ k]"
    by (simp add: map_add_upt upt_add_eq_append [of 0 "2 ^ k" "2 ^ k", simplified, symmetric] mult_2)
  then show ?thesis using assms by (simp add: word_of_nat_add_pow crc_byte_xor)
qed

lemma crc_byte_0: "crc_byte 0 = 0"
  by (simp add: crc_byte_unfold crc_bit_def)

lemma crc32_tab_eq: "map (\<lambda>i. crc_byte (word_of_nat i)) [0..<256] = crc32_tab"
proof -
  define t where "t k = map (\<lambda>i. crc_byte (word_of_nat i)) [0..<2 ^ k]" for k :: nat
  have t: "t 0 = [0]" "\<And>k. k < 64 \<Longrightarrow> t (Suc k) = t k @ map (\<lambda>x. crc_byte (2 ^ k) XOR x) (t k)"
    using crc_byte_double by (simp_all add: t_def crc_byte_0)
  have "t (Suc (Suc (Suc (Suc 0)))) = take 16 crc32_tab" by (simp add: t crc_byte_pow crc32_tab_def)
  then have "t (Suc (Suc (Suc (Suc (Suc (Suc (Suc (Suc 0)))))))) = crc32_tab"
    by (simp add: t(2) crc_byte_pow crc32_tab_def)
  moreover have "Suc (Suc (Suc (Suc (Suc (Suc (Suc (Suc 0))))))) = 8" by simp
  ultimately show ?thesis by (simp add: t_def)
qed

lemma crc_bit_drop: "(crc_bit ^^ n) (push_bit n x) = drop_bit n (push_bit n x)" 
proof (induction n arbitrary: x)
  case (Suc n)
  have "push_bit (Suc n) x = push_bit n (push_bit 1 x)" by simp
  then have "(crc_bit ^^ Suc n) (push_bit (Suc n) x) = crc_bit (drop_bit n (push_bit n (push_bit 1 x)))"
    using Suc by simp
  also have "\<dots> = drop_bit 1 (drop_bit n (push_bit n (push_bit 1 x)))"
    by (simp add: crc_bit_def bit_simps bit_0)
  finally show ?case by simp
qed simp

lemma crc_byte_split: "crc_byte c = crc_byte (c AND 0xff) XOR drop_bit 8 c"
proof -
  have m: "(0xff :: ulong) = mask 8" by (simp add: mask_eq_exp_minus_1)
  have "c = (c AND 0xff) XOR push_bit 8 (drop_bit 8 c)"
    unfolding m by (rule bit_word_eqI) (auto simp: bit_simps)
  then have "crc_byte c = crc_byte (c AND 0xff) XOR crc_byte (push_bit 8 (drop_bit 8 c))"
    using crc_byte_xor by metis
  also have "crc_byte (push_bit 8 (drop_bit 8 c)) = drop_bit 8 (push_bit 8 (drop_bit 8 c))"
    by (simp only: crc_byte_def crc_bit_drop)
  also have "\<dots> = drop_bit 8 c" by (rule bit_word_eqI) (auto simp: bit_simps dest: bit_imp_le_length)
  finally show ?thesis .
qed

lemma crc32_tab_nth: "crc32_tab ! unat (x AND 0xff) = crc_byte (x AND 0xff)" for x :: ulong
proof -
  have "x AND 0xff \<le> 0xff" by (rule word_and_le1)
  then have "unat (x AND 0xff) < 256" by (simp add: word_le_nat_alt)
  then have "map (\<lambda>i. crc_byte (word_of_nat i)) [0..<256] ! unat (x AND 0xff) = crc_byte (x AND 0xff)" by simp
  then show ?thesis by (simp only: crc32_tab_eq)
qed

lemma drop_bit_8_byte: "drop_bit 8 (c XOR ucast b) = drop_bit 8 c" for c :: ulong and b :: byte
  by (rule bit_word_eqI) (auto simp: bit_simps dest: bit_imp_le_length)

lemma crc32_step:
  "crc32_tab ! unat ((c XOR ucast b) AND 0xff) XOR drop_bit 8 c = crc_byte (c XOR ucast b)" for b :: byte
  by (metis crc32_tab_nth crc_byte_split drop_bit_8_byte)

lemma less_pow32_iff: "c < 2 ^ 32 \<longleftrightarrow> (\<forall>n. bit c n \<longrightarrow> n < 32)" for c :: ulong
proof -
  have len: "bit c n \<Longrightarrow> n < 64" for n using bit_imp_le_length [of c n] by simp
  have "c < 2 ^ 32 \<longleftrightarrow> take_bit 32 (unat c) = unat c" by (simp add: word_less_nat_alt take_bit_nat_eq_self_iff)
  also have "\<dots> \<longleftrightarrow> take_bit 32 c = c" by (metis unsigned_take_bit_eq word_unat_eq_iff)
  also have "\<dots> \<longleftrightarrow> (\<forall>n. bit c n \<longrightarrow> n < 32)" using len by (auto simp: bit_eq_iff bit_take_bit_iff)
  finally show ?thesis .
qed

lemma xor_bound: "a < 2 ^ 32 \<Longrightarrow> b < 2 ^ 32 \<Longrightarrow> a XOR b < 2 ^ 32" for a b :: ulong
  unfolding less_pow32_iff by (auto simp: bit_xor_iff)

lemma crc_bit_bound:
  assumes "c < 2 ^ 32"
  shows "crc_bit c < 2 ^ 32"
proof -
  have "drop_bit 1 c < 2 ^ 32"
    using assms unfolding less_pow32_iff by (auto simp: bit_drop_bit_eq)
  moreover have "(0xedb88320 :: ulong) < 2 ^ 32" by simp
  ultimately show ?thesis unfolding crc_bit_def by (simp only: xor_bound split: if_split) simp
qed

lemma crc_byte_bound: "c < 2 ^ 32 \<Longrightarrow> crc_byte c < 2 ^ 32"
  by (simp only: crc_byte_unfold crc_bit_bound)

lemma ucast_byte_bound: "(ucast b :: ulong) < 2 ^ 32" for b :: byte
  unfolding less_pow32_iff by (auto simp: bit_simps dest: bit_imp_le_length)

lemma crc32_bits_bound: "crc32_bits s < 2 ^ 32"
proof (induction s rule: rev_induct)
  case (snoc b s)
  show ?case using crc_byte_bound [OF xor_bound [OF snoc ucast_byte_bound]] by (simp add: crc32_bits_def)
qed (simp add: crc32_bits_def)

lemma crc32_eq_bits: "crc32 s len = crc32_bits (take (unat len) s)"
  by (simp add: crc32_def crc32_bits_def crc32_step)

text \<open>
  C29. The table-driven checksum is the cyclic redundancy check: for every string and length, the loop over the table computes the
  reflected polynomial division bit by bit, and its result fits in 32 bits although the accumulator has 64.
\<close>

theorem crc32_bitwise:
  "crc32 s len = foldl (\<lambda>c b. (crc_bit ^^ 8) (c XOR ucast b)) 0 (take (unat len) s) \<and> crc32 s len < 2 ^ 32"
  using crc32_bits_bound [of "take (unat len) s"]
  by (simp only: crc32_eq_bits) (simp add: crc32_bits_def crc_byte_def [abs_def])

end
