(* ===== verification/Hashmap.thy ===== *)
theory Hashmap
  imports Crc32
begin

unbundle bit_operations_syntax

text \<open>
  The string hash map of the logging library (\<^verbatim>\<open>logger/hashmap.c\<close>): open addressing with windows of eight slots, a table that
  doubles whenever a key finds no place, and a hash built from a table-driven CRC.

  Strings are their bytes before the terminating zero. Stored keys are pointers in the code; the callers never change
  a string they have stored. \<^verbatim>\<open>any_t\<close> is a pointer, \<open>None\<close> the null pointer. Whether \<^verbatim>\<open>calloc\<close> finds memory for a
  table of \<open>n\<close> entries is a parameter of the operations.

  \<^verbatim>\<open>hashmap_put\<close> and \<^verbatim>\<open>hashmap_rehash\<close> call each other and nothing in the code bounds how often: the model unfolds
  the recursion a given number of times (\<open>fuel\<close>), and the theorem on \<open>hashmap_put\<close> shows how much is enough.
\<close>

subsection \<open>The table\<close>

record 'v hashmap_element =
  he_key :: "cstring option"
  he_in_use :: int
  he_data :: "'v option"

record 'v hashmap_map =
  hm_table_size :: int
  hm_size :: int
  hm_data :: "'v hashmap_element list"

definition INITIAL_SIZE :: int where
  "INITIAL_SIZE = 256"

definition MAX_CHAIN_LENGTH :: nat where
  "MAX_CHAIN_LENGTH = 8"

definition MAP_MISSING :: int where
  "MAP_MISSING = -3"

definition MAP_FULL :: int where
  "MAP_FULL = -2"

definition MAP_OMEM :: int where
  "MAP_OMEM = -1"

definition MAP_OK :: int where
  "MAP_OK = 0"

text \<open>An entry that \<^verbatim>\<open>calloc\<close> zeroed.\<close>

definition zero_element :: "'v hashmap_element" where
  "zero_element = \<lparr>he_key = None, he_in_use = 0, he_data = None\<rparr>"

text \<open>\<open>malloc_ok\<close>: there is memory for the header; \<open>calloc_ok n\<close>: there is memory for \<open>n\<close> entries.\<close>

definition hashmap_new :: "bool \<Rightarrow> (int \<Rightarrow> bool) \<Rightarrow> 'v hashmap_map option" where
  "hashmap_new malloc_ok calloc_ok =
     (if \<not> malloc_ok then None
      else if \<not> calloc_ok INITIAL_SIZE then None
      else Some \<lparr>hm_table_size = INITIAL_SIZE, hm_size = 0, hm_data = replicate (nat INITIAL_SIZE) zero_element\<rparr>)"

definition slot :: "'v hashmap_map \<Rightarrow> int \<Rightarrow> 'v hashmap_element res" where
  "slot m i = (if 0 \<le> i \<and> nat i < length (hm_data m) then Inr (hm_data m ! nat i) else Inl Out_of_bounds)"

text \<open>The hash of a string: its checksum through Jenkins' mix, in 64 bits, and Knuth's multiplication.\<close>

definition hash_mix :: "cstring \<Rightarrow> ulong" where
  "hash_mix keystring =
     (let key = crc32 keystring (word_of_nat (length keystring));
          key = key + push_bit 12 key;
          key = key XOR drop_bit 22 key;
          key = key + push_bit 4 key;
          key = key XOR drop_bit 9 key;
          key = key + push_bit 10 key;
          key = key XOR drop_bit 2 key;
          key = key + push_bit 7 key;
          key = key XOR drop_bit 12 key
      in drop_bit 3 key * 2654435761)"

definition hashmap_hash_int :: "'v hashmap_map \<Rightarrow> cstring \<Rightarrow> int" where
  "hashmap_hash_int m keystring = uint (ucast (hash_mix keystring mod word_of_int (hm_table_size m)) :: uint32)"

fun hash_probe :: "'v hashmap_map \<Rightarrow> cstring \<Rightarrow> nat \<Rightarrow> int \<Rightarrow> int res" where
  "hash_probe m key 0 cur = Inr MAP_FULL"
| "hash_probe m key (Suc i) cur =
     fbind (slot m cur) (\<lambda>e.
     if he_in_use e = 0 then Inr cur
     else if he_in_use e = 1 then
       fbind (deref (he_key e)) (\<lambda>k.
       if k = key then Inr cur else hash_probe m key i ((cur + 1) mod hm_table_size m))
     else hash_probe m key i ((cur + 1) mod hm_table_size m))"

definition hashmap_hash :: "'v hashmap_map \<Rightarrow> cstring \<Rightarrow> int res" where
  "hashmap_hash m key =
     (if hm_size m \<ge> hm_table_size m div 2 then Inr MAP_FULL
      else hash_probe m key MAX_CHAIN_LENGTH (hashmap_hash_int m key))"

text \<open>
  \<open>put\<close> is the call of \<^verbatim>\<open>hashmap_put\<close>. The old table is released only after the loop has ended normally.
\<close>

fun rehash_loop ::
  "('v hashmap_map \<Rightarrow> cstring \<Rightarrow> 'v option \<Rightarrow> (int \<times> 'v hashmap_map) res) \<Rightarrow> 'v hashmap_element list \<Rightarrow>
   'v hashmap_map \<Rightarrow> (int \<times> 'v hashmap_map) res" where
  "rehash_loop put [] m = Inr (MAP_OK, m)"
| "rehash_loop put (e # cur) m =
     (if he_in_use e = 0 then rehash_loop put cur m
      else
        fbind (deref (he_key e)) (\<lambda>key.
        fbind (put m key (he_data e)) (\<lambda>(status, m).
        if status \<noteq> MAP_OK then Inr (status, m) else rehash_loop put cur m)))"

definition hashmap_rehash ::
  "('v hashmap_map \<Rightarrow> cstring \<Rightarrow> 'v option \<Rightarrow> (int \<times> 'v hashmap_map) res) \<Rightarrow> (int \<Rightarrow> bool) \<Rightarrow>
   'v hashmap_map \<Rightarrow> (int \<times> 'v hashmap_map) res" where
  "hashmap_rehash put calloc_ok m =
     (let n = 2 * hm_table_size m in
      if n \<ge> 2 ^ 31 then Inl Signed_overflow
      else if \<not> calloc_ok n then Inr (MAP_OMEM, m)
      else rehash_loop put (hm_data m)
             (m\<lparr>hm_data := replicate (nat n) zero_element, hm_table_size := n, hm_size := 0\<rparr>))"

primrec hashmap_put ::
  "nat \<Rightarrow> (int \<Rightarrow> bool) \<Rightarrow> 'v hashmap_map \<Rightarrow> cstring \<Rightarrow> 'v option \<Rightarrow> (int \<times> 'v hashmap_map) res" where
  "hashmap_put 0 calloc_ok m key val = Inl Out_of_fuel"
| "hashmap_put (Suc fuel) calloc_ok m key val =
     fbind (hashmap_hash m key) (\<lambda>index.
     if index = MAP_FULL then
       fbind (hashmap_rehash (hashmap_put fuel calloc_ok) calloc_ok m) (\<lambda>(status, m).
       if status = MAP_OMEM then Inr (MAP_OMEM, m) else hashmap_put fuel calloc_ok m key val)
     else if 0 \<le> index \<and> nat index < length (hm_data m) then
       Inr (MAP_OK, m\<lparr>hm_data := (hm_data m)[nat index := \<lparr>he_key = Some key, he_in_use = 1, he_data = val\<rparr>],
                     hm_size := hm_size m + 1\<rparr>)
     else Inl Out_of_bounds)"

fun get_probe :: "'v hashmap_map \<Rightarrow> cstring \<Rightarrow> nat \<Rightarrow> int \<Rightarrow> int option res" where
  "get_probe m key 0 cur = Inr None"
| "get_probe m key (Suc i) cur =
     fbind (slot m cur) (\<lambda>e.
     if he_in_use e = 1 then
       fbind (deref (he_key e)) (\<lambda>k.
       if k = key then Inr (Some cur) else get_probe m key i ((cur + 1) mod hm_table_size m))
     else get_probe m key i ((cur + 1) mod hm_table_size m))"

text \<open>The status and what is stored through \<^verbatim>\<open>arg\<close>.\<close>

definition hashmap_get :: "'v hashmap_map \<Rightarrow> cstring \<Rightarrow> (int \<times> 'v option) res" where
  "hashmap_get m key =
     fbind (get_probe m key MAX_CHAIN_LENGTH (hashmap_hash_int m key)) (\<lambda>r.
     case r of
       None \<Rightarrow> Inr (MAP_MISSING, None)
     | Some cur \<Rightarrow> fbind (slot m cur) (\<lambda>e. Inr (MAP_OK, he_data e)))"

text \<open>\<open>f\<close> is the callback: it takes its state, which \<^verbatim>\<open>item\<close> points to, and the data.\<close>

fun iterate_loop :: "('s \<Rightarrow> 'v option \<Rightarrow> int \<times> 's) \<Rightarrow> 'v hashmap_element list \<Rightarrow> 's \<Rightarrow> int \<times> 's" where
  "iterate_loop f [] item = (MAP_OK, item)"
| "iterate_loop f (e # es) item =
     (if he_in_use e \<noteq> 0 then
        let (status, item) = f item (he_data e) in
        if status \<noteq> MAP_OK then (status, item) else iterate_loop f es item
      else iterate_loop f es item)"

definition hashmap_length :: "'v hashmap_map option \<Rightarrow> int" where
  "hashmap_length m = (case m of None \<Rightarrow> 0 | Some m \<Rightarrow> hm_size m)"

definition hashmap_iterate :: "'v hashmap_map \<Rightarrow> ('s \<Rightarrow> 'v option \<Rightarrow> int \<times> 's) \<Rightarrow> 's \<Rightarrow> int \<times> 's" where
  "hashmap_iterate m f item =
     (if hashmap_length (Some m) \<le> 0 then (MAP_MISSING, item)
      else iterate_loop f (take (nat (hm_table_size m)) (hm_data m)) item)"

definition hashmap_remove :: "'v hashmap_map \<Rightarrow> cstring \<Rightarrow> (int \<times> 'v hashmap_map) res" where
  "hashmap_remove m key =
     fbind (get_probe m key MAX_CHAIN_LENGTH (hashmap_hash_int m key)) (\<lambda>r.
     case r of
       None \<Rightarrow> Inr (MAP_MISSING, m)
     | Some cur \<Rightarrow>
         Inr (MAP_OK, m\<lparr>hm_data := (hm_data m)[nat cur := zero_element], hm_size := hm_size m - 1\<rparr>))"

subsection \<open>Where a key is found\<close>

text \<open>The place of the \<open>j\<close>-th probe for a key.\<close>

definition place :: "'v hashmap_map \<Rightarrow> cstring \<Rightarrow> nat \<Rightarrow> nat" where
  "place m key j = nat ((hashmap_hash_int m key + int j) mod hm_table_size m)"

definition holds :: "'v hashmap_map \<Rightarrow> nat \<Rightarrow> cstring \<Rightarrow> bool" where
  "holds m i key \<longleftrightarrow> i < length (hm_data m) \<and> he_in_use (hm_data m ! i) = 1 \<and> he_key (hm_data m ! i) = Some key"

definition wf_element :: "'v hashmap_element \<Rightarrow> bool" where
  "wf_element e \<longleftrightarrow> he_in_use e = 0 \<or> he_in_use e = 1 \<and> he_key e \<noteq> None"

definition wf_table :: "'v hashmap_map \<Rightarrow> bool" where
  "wf_table m \<longleftrightarrow> 8 \<le> hm_table_size m \<and> hm_table_size m < 2 ^ 31 \<and> length (hm_data m) = nat (hm_table_size m) \<and>
     (\<forall>e \<in> set (hm_data m). wf_element e)"

text \<open>No key is stored twice, and every entry can be reached by probing.\<close>

definition once :: "'v hashmap_map \<Rightarrow> bool" where
  "once m \<longleftrightarrow> (\<forall>i i' key. holds m i key \<longrightarrow> holds m i' key \<longrightarrow> i = i') \<and>
     (\<forall>i key. holds m i key \<longrightarrow> (\<exists>j < MAX_CHAIN_LENGTH. i = place m key j))"

text \<open>No entry has a free slot before it in its window: true as long as nothing is removed.\<close>

definition dense :: "'v hashmap_map \<Rightarrow> bool" where
  "dense m \<longleftrightarrow> (\<forall>i key. holds m i key \<longrightarrow> (\<exists>j < MAX_CHAIN_LENGTH. i = place m key j \<and>
     (\<forall>j' < j. he_in_use (hm_data m ! place m key j') = 1)))"

text \<open>The finite map that a table stands for.\<close>

definition hm_map :: "'v hashmap_map \<Rightarrow> cstring \<Rightarrow> 'v option option" where
  "hm_map m key = map_option he_data (find (\<lambda>e. he_in_use e = 1 \<and> he_key e = Some key) (hm_data m))"

lemma hash_int_bounds:
  assumes "wf_table m"
  shows "0 \<le> hashmap_hash_int m key" "hashmap_hash_int m key < hm_table_size m"
proof -
  have m: "8 \<le> hm_table_size m" "hm_table_size m < 2 ^ 31" using assms by (simp_all add: wf_table_def)
  have "uint (ucast (w mod word_of_int (hm_table_size m)) :: uint32) < hm_table_size m" for w :: ulong
  proof -
    have "uint (word_of_int (hm_table_size m) :: ulong) = hm_table_size m"
      using m by (simp add: unsigned_of_int take_bit_int_eq_self)
    then have "uint (w mod word_of_int (hm_table_size m)) < hm_table_size m"
      using m by (simp add: uint_mod)
    then show ?thesis using m by (simp add: unsigned_ucast_eq take_bit_int_eq_self)
  qed
  then show "0 \<le> hashmap_hash_int m key" "hashmap_hash_int m key < hm_table_size m"
    by (simp_all add: hashmap_hash_int_def)
qed

lemma place_less: "wf_table m \<Longrightarrow> place m key j < length (hm_data m)"
  by (auto simp: place_def wf_table_def)

lemma place_0: "wf_table m \<Longrightarrow> nat (hashmap_hash_int m key) = place m key 0"
  using hash_int_bounds [of m key] by (simp add: place_def)

text \<open>The two probing loops are searches over the window.\<close>

definition takes :: "cstring \<Rightarrow> 'v hashmap_element \<Rightarrow> bool" where
  "takes key e \<longleftrightarrow> he_in_use e = 0 \<or> he_in_use e = 1 \<and> he_key e = Some key"

lemma slot_place: "wf_table m \<Longrightarrow> slot m ((hashmap_hash_int m key + int j) mod hm_table_size m) = Inr (hm_data m ! place m key j)"
  using place_less [of m key j] by (auto simp: slot_def place_def wf_table_def)

lemma next_place: "((h + int j) mod n + 1) mod n = (h + int (Suc j)) mod n" for h n :: int
  by (simp add: mod_simps ac_simps)

lemma wf_table_nth: "wf_table m \<Longrightarrow> wf_element (hm_data m ! place m key j)"
  using place_less [of m key j] by (simp add: wf_table_def)

lemma hash_probe_eq:
  assumes "wf_table m"
  shows "hash_probe m key n ((hashmap_hash_int m key + int j) mod hm_table_size m) =
    Inr (case find (\<lambda>j. takes key (hm_data m ! place m key j)) [j..<j + n] of
           None \<Rightarrow> MAP_FULL | Some j \<Rightarrow> int (place m key j))"
proof (induction n arbitrary: j)
  case (Suc n)
  have p: "int (place m key j) = (hashmap_hash_int m key + int j) mod hm_table_size m"
    using assms by (simp add: place_def wf_table_def)
  have "[j..<j + Suc n] = j # [Suc j..<Suc j + n]" by (simp add: upt_conv_Cons)
  then show ?case
    using wf_table_nth [OF assms, of key j] Suc [of "Suc j"]
    by (auto simp: slot_place [OF assms] next_place wf_element_def takes_def p)
qed simp

lemma get_probe_eq:
  assumes "wf_table m"
  shows "get_probe m key n ((hashmap_hash_int m key + int j) mod hm_table_size m) =
    Inr (map_option (\<lambda>j. int (place m key j)) (find (\<lambda>j. holds m (place m key j) key) [j..<j + n]))"
proof (induction n arbitrary: j)
  case (Suc n)
  have p: "int (place m key j) = (hashmap_hash_int m key + int j) mod hm_table_size m"
    using assms by (simp add: place_def wf_table_def)
  have "[j..<j + Suc n] = j # [Suc j..<Suc j + n]" by (simp add: upt_conv_Cons)
  then show ?case
    using wf_table_nth [OF assms, of key j] Suc [of "Suc j"] place_less [OF assms, of key j]
    by (auto simp: slot_place [OF assms] next_place wf_element_def holds_def p)
qed simp

lemma hash_int_mod: "wf_table m \<Longrightarrow> (hashmap_hash_int m key + int 0) mod hm_table_size m = hashmap_hash_int m key"
  using hash_int_bounds [of m key] by simp

lemma hash_probe_0:
  assumes "wf_table m"
  shows "hash_probe m key n (hashmap_hash_int m key) =
    Inr (case find (\<lambda>j. takes key (hm_data m ! place m key j)) [0..<n] of
           None \<Rightarrow> MAP_FULL | Some j \<Rightarrow> int (place m key j))"
  using hash_probe_eq [OF assms, of key n 0] hash_int_mod [OF assms, of key] by simp

lemma get_probe_0:
  assumes "wf_table m"
  shows "get_probe m key n (hashmap_hash_int m key) =
    Inr (map_option (\<lambda>j. int (place m key j)) (find (\<lambda>j. holds m (place m key j) key) [0..<n]))"
  using get_probe_eq [OF assms, of key n 0] hash_int_mod [OF assms, of key] by simp

lemma hm_map_iff:
  assumes "once m"
  shows "hm_map m key = Some v \<longleftrightarrow> (\<exists>i. holds m i key \<and> he_data (hm_data m ! i) = v)"
proof
  assume "hm_map m key = Some v"
  then show "\<exists>i. holds m i key \<and> he_data (hm_data m ! i) = v"
    by (auto simp: hm_map_def find_Some_iff holds_def)
next
  assume "\<exists>i. holds m i key \<and> he_data (hm_data m ! i) = v"
  then obtain i where i: "holds m i key" "he_data (hm_data m ! i) = v" by blast
  then have "find (\<lambda>e. he_in_use e = 1 \<and> he_key e = Some key) (hm_data m) \<noteq> None"
    by (auto simp: find_None_iff holds_def)
  then obtain i' where "holds m i' key" "find (\<lambda>e. he_in_use e = 1 \<and> he_key e = Some key) (hm_data m) = Some (hm_data m ! i')"
    by (auto simp: find_Some_iff holds_def)
  moreover have "i' = i" using assms calculation(1) i(1) by (auto simp: once_def)
  ultimately show "hm_map m key = Some v" using i(2) by (simp add: hm_map_def)
qed

lemma hm_map_None: "once m \<Longrightarrow> hm_map m key = None \<longleftrightarrow> (\<forall>i. \<not> holds m i key)"
  using hm_map_iff [of m key] by (metis not_None_eq)

lemma get_probe_holds:
  assumes "wf_table m" and "once m"
  shows "get_probe m key MAX_CHAIN_LENGTH (hashmap_hash_int m key) =
    Inr (if \<exists>i. holds m i key then Some (int (THE i. holds m i key)) else None)"
proof -
  have the: "(THE i. holds m i key) = i" if "holds m i key" for i
    using assms(2) that unfolding once_def by blast
  show ?thesis
  proof (cases "find (\<lambda>j. holds m (place m key j) key) [0..<MAX_CHAIN_LENGTH]")
    case None
    then have "\<not> holds m i key" for i using assms(2) by (force simp: find_None_iff once_def)
    then show ?thesis using None get_probe_0 [OF assms(1), of key MAX_CHAIN_LENGTH] by simp
  next
    case (Some j)
    then have "holds m (place m key j) key" by (auto simp: find_Some_iff)
    then show ?thesis using Some get_probe_0 [OF assms(1), of key MAX_CHAIN_LENGTH] the by auto
  qed
qed

subsection \<open>Storing\<close>

definition hm_inv :: "'v hashmap_map \<Rightarrow> bool" where
  "hm_inv m \<longleftrightarrow> wf_table m \<and> once m \<and> dense m"

definition store :: "'v hashmap_map \<Rightarrow> nat \<Rightarrow> cstring \<Rightarrow> 'v option \<Rightarrow> 'v hashmap_map" where
  "store m c key val = m\<lparr>hm_data := (hm_data m)[c := \<lparr>he_key = Some key, he_in_use = 1, he_data = val\<rparr>],
     hm_size := hm_size m + 1\<rparr>"

lemma place_cong: "hm_table_size m' = hm_table_size m \<Longrightarrow> place m' = place m"
  by (intro ext) (simp only: place_def hashmap_hash_int_def)

lemma store_sel [simp]: "hm_table_size (store m c key val) = hm_table_size m" "place (store m c key val) = place m"
  by (simp add: store_def, intro place_cong) (simp add: store_def)

lemma store_holds:
  assumes "c < length (hm_data m)"
  shows "holds (store m c key val) i k \<longleftrightarrow> (if i = c then k = key else holds m i k)"
  using assms by (auto simp: store_def holds_def nth_list_update)

lemma store_in_use: "c < length (hm_data m) \<Longrightarrow> he_in_use (hm_data m ! i) = 1 \<Longrightarrow> he_in_use (hm_data (store m c key val) ! i) = 1"
  by (cases "i = c") (simp_all add: store_def)

text \<open>The place that \<^verbatim>\<open>hashmap_hash\<close> finds: the first of the window that is free or has the key.\<close>

definition first_place :: "'v hashmap_map \<Rightarrow> cstring \<Rightarrow> nat \<Rightarrow> bool" where
  "first_place m key j \<longleftrightarrow> j < MAX_CHAIN_LENGTH \<and> takes key (hm_data m ! place m key j) \<and>
     (\<forall>j' < j. \<not> takes key (hm_data m ! place m key j'))"

lemma first_place_only:
  assumes "hm_inv m" and "first_place m key j" and "holds m i key"
  shows "i = place m key j"
proof -
  have once: "holds m i' key \<Longrightarrow> i' = i" for i' using assms(1,3) unfolding hm_inv_def once_def by blast
  obtain j2 where j2: "j2 < MAX_CHAIN_LENGTH" "i = place m key j2" "\<And>j'. j' < j2 \<Longrightarrow> he_in_use (hm_data m ! place m key j') = 1"
    using assms(1,3) unfolding hm_inv_def dense_def by blast
  have "\<not> j2 < j" using assms(2,3) j2(2) by (auto simp: first_place_def holds_def takes_def)
  moreover have "i = place m key j" if "j < j2"
  proof -
    have "holds m (place m key j) key"
      using assms(1,2) j2(3) [OF that] by (auto simp: first_place_def takes_def holds_def hm_inv_def place_less)
    then show ?thesis using once by simp
  qed
  ultimately show ?thesis using j2(2) by (cases j j2 rule: linorder_cases) auto
qed

lemma store_once:
  assumes "hm_inv m" and "first_place m key j"
  shows "once (store m (place m key j) key val)"
proof -
  have c: "place m key j < length (hm_data m)" using assms(1) by (simp add: hm_inv_def place_less)
  have "once m" using assms(1) by (simp add: hm_inv_def)
  then show ?thesis
    using first_place_only [OF assms] assms(2) unfolding once_def store_holds [OF c] store_sel
    by (auto simp: first_place_def split: if_splits)
qed

lemma store_dense:
  assumes "hm_inv m" and "first_place m key j"
  shows "dense (store m (place m key j) key val)"
  unfolding dense_def
proof (intro allI impI)
  fix i k
  let ?c = "place m key j" and ?s = "store m (place m key j) key val"
  have wf: "wf_table m" and c: "?c < length (hm_data m)" using assms(1) by (simp_all add: hm_inv_def place_less)
  assume h: "holds ?s i k"
  show "\<exists>j2 < MAX_CHAIN_LENGTH. i = place ?s k j2 \<and> (\<forall>j' < j2. he_in_use (hm_data ?s ! place ?s k j') = 1)"
  proof (cases "i = ?c")
    case True
    then have "k = key" using h store_holds [OF c] by simp
    moreover have "he_in_use (hm_data m ! place m key j') = 1" if "j' < j" for j'
      using assms(2) that wf_table_nth [OF wf, of key j'] by (auto simp: first_place_def takes_def wf_element_def)
    ultimately show ?thesis using True assms(2) store_in_use [OF c] by (auto simp: first_place_def)
  next
    case False
    then have "holds m i k" using h store_holds [OF c] by simp
    then show ?thesis using assms(1) store_in_use [OF c] unfolding hm_inv_def dense_def store_sel by blast
  qed
qed

lemma store_wf: "wf_table m \<Longrightarrow> wf_table (store m c key val)"
  by (auto simp: wf_table_def store_def wf_element_def dest!: subsetD [OF set_update_subset_insert])

lemma store_inv: "hm_inv m \<Longrightarrow> first_place m key j \<Longrightarrow> hm_inv (store m (place m key j) key val)"
  by (simp add: store_once store_dense store_wf hm_inv_def [of "store m (place m key j) key val"]) (simp add: hm_inv_def store_wf)

lemma store_map:
  assumes "hm_inv m" and "first_place m key j"
  shows "hm_map (store m (place m key j) key val) = (hm_map m)(key \<mapsto> val)"
proof
  fix k
  let ?c = "place m key j" and ?s = "store m (place m key j) key val"
  have c: "?c < length (hm_data m)" using assms(1) by (simp add: hm_inv_def place_less)
  have once: "once m" "once ?s" using assms store_once by (auto simp: hm_inv_def)
  have "hm_map ?s k = Some v \<longleftrightarrow> ((hm_map m)(key \<mapsto> val)) k = Some v" for v
  proof (cases "k = key")
    case True
    have "he_data (hm_data ?s ! ?c) = val" "holds ?s ?c key" using c store_holds [OF c] by (simp_all add: store_def)
    moreover have "holds ?s i key \<Longrightarrow> i = ?c" for i
      using first_place_only [OF assms] store_holds [OF c, of key val i key] by (auto split: if_splits)
    ultimately show ?thesis using True hm_map_iff [OF once(2), of k v] by (metis fun_upd_same option.inject)
  next
    case False
    have "\<not> holds m ?c k" using assms(2) False by (auto simp: first_place_def takes_def holds_def)
    then have "holds ?s i k \<and> he_data (hm_data ?s ! i) = v \<longleftrightarrow> holds m i k \<and> he_data (hm_data m ! i) = v" for i
      using False store_holds [OF c, of key val i k] by (cases "i = ?c") (auto simp: store_def)
    then show ?thesis using False by (simp add: hm_map_iff once)
  qed
  then show "hm_map ?s k = ((hm_map m)(key \<mapsto> val)) k" by (metis option.exhaust)
qed

text \<open>Two small tables: an empty one, and one with the key \<^verbatim>\<open>"a"\<close>.\<close>

definition empty_map :: "bool hashmap_map" where
  "empty_map = \<lparr>hm_table_size = 256, hm_size = 0, hm_data = replicate 256 zero_element\<rparr>"

definition demo_map :: "bool hashmap_map" where
  "demo_map = store empty_map (place empty_map [97] 0) [97] (Some True)"

subsection \<open>The operations on the map\<close>

lemma zero_table_inv:
  assumes "8 \<le> hm_table_size m" and "hm_table_size m < 2 ^ 31" and "hm_data m = replicate (nat (hm_table_size m)) zero_element"
  shows "hm_inv m" and "hm_map m = Map.empty"
proof -
  have h: "\<not> holds m i key" for i key by (simp add: holds_def zero_element_def assms)
  show "hm_inv m" using assms(1,2) unfolding hm_inv_def once_def dense_def
    by (simp add: h) (simp add: wf_table_def wf_element_def zero_element_def assms)
  then show "hm_map m = Map.empty" using hm_map_None [of m] h by (auto simp: hm_inv_def)
qed

lemma hashmap_hash_cases:
  assumes "hm_inv m"
  shows "hashmap_hash m key = Inr MAP_FULL \<or> (\<exists>j. hashmap_hash m key = Inr (int (place m key j)) \<and> first_place m key j)"
proof (cases "find (\<lambda>j. takes key (hm_data m ! place m key j)) [0..<MAX_CHAIN_LENGTH]")
  case None
  then show ?thesis using assms by (simp add: hashmap_hash_def hash_probe_0 hm_inv_def)
next
  case (Some j)
  then have "first_place m key j" by (auto simp: find_Some_iff first_place_def)
  then show ?thesis using Some assms by (auto simp: hashmap_hash_def hash_probe_0 hm_inv_def)
qed

text \<open>What a call of \<^verbatim>\<open>hashmap_put\<close> on a table of at least \<open>T\<close> entries promises, when no table exceeds \<open>L\<close>.\<close>

definition puts_ok ::
  "int \<Rightarrow> int \<Rightarrow> ('v hashmap_map \<Rightarrow> cstring \<Rightarrow> 'v option \<Rightarrow> (int \<times> 'v hashmap_map) res) \<Rightarrow> bool" where
  "puts_ok T L put \<longleftrightarrow> (\<forall>m key val. hm_inv m \<longrightarrow> T \<le> hm_table_size m \<longrightarrow> hm_table_size m \<le> L \<longrightarrow>
     succeeds (\<lambda>(st, m'). hm_inv m' \<and> hm_table_size m \<le> hm_table_size m' \<and> hm_table_size m' \<le> L \<and>
       (st = MAP_OK \<and> hm_map m' = (hm_map m)(key \<mapsto> val) \<or> st = MAP_OMEM)) (put m key val))"

lemma puts_okD:
  assumes "puts_ok T L put" and "hm_inv m" and "T \<le> hm_table_size m" and "hm_table_size m \<le> L"
  shows "\<exists>st m'. put m key val = Inr (st, m') \<and> hm_inv m' \<and> hm_table_size m \<le> hm_table_size m' \<and> hm_table_size m' \<le> L \<and>
    (st = MAP_OK \<and> hm_map m' = (hm_map m)(key \<mapsto> val) \<or> st = MAP_OMEM)"
proof -
  have "succeeds (\<lambda>(st, m'). hm_inv m' \<and> hm_table_size m \<le> hm_table_size m' \<and> hm_table_size m' \<le> L \<and>
       (st = MAP_OK \<and> hm_map m' = (hm_map m)(key \<mapsto> val) \<or> st = MAP_OMEM)) (put m key val)"
    using assms by (simp add: puts_ok_def)
  then show ?thesis by (auto simp: succeeds_iff)
qed

definition add_element :: "(cstring \<Rightarrow> 'v option option) \<Rightarrow> 'v hashmap_element \<Rightarrow> cstring \<Rightarrow> 'v option option" where
  "add_element f e = (if he_in_use e = 0 then f else f(the (he_key e) \<mapsto> he_data e))"

lemma rehash_loop_ok:
  assumes "puts_ok T L put" and "hm_inv m" and "T \<le> hm_table_size m" and "hm_table_size m \<le> L"
    and "\<forall>e \<in> set es. wf_element e"
  shows "succeeds (\<lambda>(st, m'). hm_inv m' \<and> hm_table_size m \<le> hm_table_size m' \<and> hm_table_size m' \<le> L \<and>
    (st = MAP_OK \<and> hm_map m' = foldl add_element (hm_map m) es \<or> st = MAP_OMEM)) (rehash_loop put es m)"
  using assms(2-)
proof (induction es arbitrary: m)
  case (Cons e es)
  show ?case
  proof (cases "he_in_use e = 0")
    case True
    then show ?thesis using Cons by (simp add: add_element_def)
  next
    case False
    then obtain key where key: "he_key e = Some key" using Cons.prems by (auto simp: wf_element_def)
    have "succeeds (\<lambda>(st, m'). hm_inv m' \<and> hm_table_size m \<le> hm_table_size m' \<and> hm_table_size m' \<le> L \<and>
       (st = MAP_OK \<and> hm_map m' = (hm_map m)(key \<mapsto> he_data e) \<or> st = MAP_OMEM)) (put m key (he_data e))"
      using assms(1) Cons.prems unfolding puts_ok_def by blast
    then show ?thesis using False key
    proof (simp, elim succeeds_bindI, clarsimp split del: if_split, goal_cases)
      case (1 st m')
      show ?case
      proof (cases "st = MAP_OK")
        case True
        then have "foldl add_element (hm_map m) (e # es) = foldl add_element (hm_map m') es"
          using 1 by (auto simp: add_element_def MAP_OK_def MAP_OMEM_def)
        then show ?thesis using True 1 Cons.prems Cons.IH [of m'] by (auto elim!: succeeds_mono)
      next
        case False
        then show ?thesis using 1 by simp
      qed
    qed
  qed
qed simp

lemma foldl_add_element:
  assumes "\<And>i i'. i < length es \<Longrightarrow> i' < length es \<Longrightarrow> he_in_use (es ! i) = 1 \<Longrightarrow> he_in_use (es ! i') = 1 \<Longrightarrow>
      he_key (es ! i) = he_key (es ! i') \<Longrightarrow> i = i'"
    and "\<forall>e \<in> set es. wf_element e"
  shows "foldl add_element Map.empty es key =
    map_option he_data (find (\<lambda>e. he_in_use e = 1 \<and> he_key e = Some key) es)"
  using assms
proof (induction es rule: rev_induct)
  case (snoc e es)
  let ?P = "\<lambda>e. he_in_use e = 1 \<and> he_key e = Some key"
  have IH: "foldl add_element Map.empty es key = map_option he_data (find ?P es)"
  proof (rule snoc.IH)
    fix i i' assume "i < length es" "i' < length es" "he_in_use (es ! i) = 1" "he_in_use (es ! i') = 1" "he_key (es ! i) = he_key (es ! i')"
    then show "i = i'" using snoc.prems(1) [of i i'] by (simp add: nth_append)
  qed (use snoc.prems(2) in simp)
  have app: "find ?P (es @ [e]) = (case find ?P es of None \<Rightarrow> find ?P [e] | r \<Rightarrow> r)"
    by (induction es) auto
  show ?case
  proof (cases "?P e")
    case True
    have "find ?P es = None"
    proof (rule ccontr)
      assume "find ?P es \<noteq> None"
      then obtain i where "i < length es" "?P (es ! i)" by (auto simp: find_Some_iff)
      then show False using snoc.prems(1) [of i "length es"] True by (simp add: nth_append)
    qed
    then show ?thesis using True app by (simp add: add_element_def)
  next
    case False
    then have "add_element f e key = f key" for f
      using snoc.prems(2) by (auto simp: add_element_def wf_element_def)
    then show ?thesis using False IH app by (auto split: option.splits)
  qed
qed simp

lemma rehashed_map:
  assumes "hm_inv m"
  shows "foldl add_element Map.empty (hm_data m) = hm_map m"
proof
  fix key
  have "i = i'" if "i < length (hm_data m)" "i' < length (hm_data m)" "he_in_use (hm_data m ! i) = 1" "he_in_use (hm_data m ! i') = 1"
    "he_key (hm_data m ! i) = he_key (hm_data m ! i')" for i i'
  proof -
    note h = that
    have "wf_element (hm_data m ! i)" using assms that(1) by (simp add: hm_inv_def wf_table_def)
    then obtain k where "he_key (hm_data m ! i) = Some k" using h(3) by (auto simp: wf_element_def)
    then have "holds m i k" "holds m i' k" using h by (simp_all add: holds_def)
    then show ?thesis using assms unfolding hm_inv_def once_def by blast
  qed
  then show "foldl add_element Map.empty (hm_data m) key = hm_map m key"
    unfolding hm_map_def using assms by (intro foldl_add_element) (auto simp: hm_inv_def wf_table_def)
qed

lemma hashmap_rehash_ok:
  assumes "puts_ok (2 * hm_table_size m) L put" and "hm_inv m" and "\<And>n. calloc_ok n \<Longrightarrow> n \<le> L"
    and "hm_table_size m \<le> L" and "L < 2 ^ 30"
  shows "succeeds (\<lambda>(st, m'). hm_inv m' \<and> hm_table_size m' \<le> L \<and>
    (st = MAP_OK \<and> 2 * hm_table_size m \<le> hm_table_size m' \<and> hm_map m' = hm_map m \<or> st = MAP_OMEM \<and> hm_table_size m \<le> hm_table_size m'))
    (hashmap_rehash put calloc_ok m)"
proof (cases "calloc_ok (2 * hm_table_size m)")
  case True
  let ?m = "m\<lparr>hm_data := replicate (nat (2 * hm_table_size m)) zero_element, hm_table_size := 2 * hm_table_size m, hm_size := 0\<rparr>"
  have wf: "wf_table m" using assms(2) by (simp add: hm_inv_def)
  then have z: "hm_inv ?m" "hm_map ?m = Map.empty"
    using assms(4,5) zero_table_inv [of ?m] by (simp_all add: wf_table_def)
  have "succeeds (\<lambda>(st, m'). hm_inv m' \<and> hm_table_size ?m \<le> hm_table_size m' \<and> hm_table_size m' \<le> L \<and>
    (st = MAP_OK \<and> hm_map m' = foldl add_element (hm_map ?m) (hm_data m) \<or> st = MAP_OMEM)) (rehash_loop put (hm_data m) ?m)"
    using assms(1) z(1) assms(3) [OF True] wf by (intro rehash_loop_ok) (auto simp: wf_table_def)
  moreover have "hashmap_rehash put calloc_ok m = rehash_loop put (hm_data m) ?m"
    using True assms(4,5) by (simp add: hashmap_rehash_def Let_def)
  ultimately show ?thesis using wf by (auto simp: z(2) rehashed_map [OF assms(2)] wf_table_def elim!: succeeds_mono)
next
  case False
  then show ?thesis using assms by (simp add: hashmap_rehash_def)
qed

lemma hashmap_put_ok:
  assumes "\<And>n. calloc_ok n \<Longrightarrow> n \<le> L" and "L < 2 ^ 30" and "8 \<le> T" and "L < T * 2 ^ fuel"
  shows "puts_ok T L (hashmap_put fuel calloc_ok)"
  using assms(3,4)
proof (induction fuel arbitrary: T)
  case 0
  then show ?case by (simp add: puts_ok_def)
next
  case (Suc fuel)
  show ?case unfolding puts_ok_def
  proof (intro allI impI)
    fix m :: "'a hashmap_map" and key val
    assume m: "hm_inv m" "T \<le> hm_table_size m" "hm_table_size m \<le> L"
    have "T * (2 * 2 ^ fuel) \<le> hm_table_size m * (2 * 2 ^ fuel)" by (rule mult_right_mono [OF m(2)]) simp
    moreover have "L < T * (2 * 2 ^ fuel)" using Suc.prems(2) by simp
    ultimately have "L < 2 * hm_table_size m * 2 ^ fuel" by (simp only: ac_simps)
    then have IH: "puts_ok (2 * hm_table_size m) L (hashmap_put fuel calloc_ok :: 'a hashmap_map \<Rightarrow> _)"
      using Suc.prems(1) m(2) by (intro Suc.IH) auto
    show "succeeds (\<lambda>(st, m'). hm_inv m' \<and> hm_table_size m \<le> hm_table_size m' \<and> hm_table_size m' \<le> L \<and>
       (st = MAP_OK \<and> hm_map m' = (hm_map m)(key \<mapsto> val) \<or> st = MAP_OMEM)) (hashmap_put (Suc fuel) calloc_ok m key val)"
      using hashmap_hash_cases [OF m(1), of key]
    proof
      assume full: "hashmap_hash m key = Inr MAP_FULL"
      obtain st m' where rh: "hashmap_rehash (hashmap_put fuel calloc_ok) calloc_ok m = Inr (st, m')" and m': "hm_inv m'" "hm_table_size m' \<le> L"
        "st = MAP_OK \<and> 2 * hm_table_size m \<le> hm_table_size m' \<and> hm_map m' = hm_map m \<or> st = MAP_OMEM \<and> hm_table_size m \<le> hm_table_size m'"
        using hashmap_rehash_ok [where calloc_ok = calloc_ok, OF IH m(1) assms(1) m(3) assms(2)] by (auto simp: succeeds_iff)
      show ?thesis
      proof (cases "st = MAP_OMEM")
        case True
        then show ?thesis using full rh m' m(2,3) by (auto simp: MAP_OK_def MAP_OMEM_def)
      next
        case False
        then have big: "2 * hm_table_size m \<le> hm_table_size m'" "hm_map m' = hm_map m" using m'(3) by auto
        have "hashmap_put (Suc fuel) calloc_ok m key val = hashmap_put fuel calloc_ok m' key val" using False full rh by simp
        moreover have "hm_table_size m \<le> hm_table_size m'" using big(1) Suc.prems(1) m(2) by simp
        ultimately show ?thesis using IH m'(1,2) big unfolding puts_ok_def by (fastforce elim!: succeeds_mono)
      qed
    next
      assume "\<exists>j. hashmap_hash m key = Inr (int (place m key j)) \<and> first_place m key j"
      then obtain j where j: "hashmap_hash m key = Inr (int (place m key j))" "first_place m key j" by blast
      have "place m key j < length (hm_data m)" using m(1) by (simp add: hm_inv_def place_less)
      then have "hashmap_put (Suc fuel) calloc_ok m key val = Inr (MAP_OK, store m (place m key j) key val)"
        using j(1) by (simp add: MAP_FULL_def store_def)
      then show ?thesis using store_inv [OF m(1) j(2)] store_map [OF m(1) j(2)] m(3) by simp
    qed
  qed
qed

lemma empty_map: "hm_inv empty_map" "hm_map empty_map = Map.empty"
  by (rule zero_table_inv; simp add: empty_map_def)+

lemma zero_first_place:
  assumes "wf_table m" and "hm_data m = replicate (nat (hm_table_size m)) zero_element"
  shows "first_place m key 0"
  using place_less [OF assms(1), of key 0] assms(2)
  by (simp add: first_place_def takes_def MAX_CHAIN_LENGTH_def zero_element_def)

lemma demo_map: "hm_inv demo_map" "hm_map demo_map = [[97] \<mapsto> Some True]"
proof -
  have "first_place empty_map [97] 0"
    using empty_map(1) by (intro zero_first_place) (simp_all add: hm_inv_def empty_map_def)
  then show "hm_inv demo_map" "hm_map demo_map = [[97] \<mapsto> Some True]"
    by (simp_all add: demo_map_def store_inv store_map empty_map)
qed

text \<open>
  C28. The hash map stores what it is given, and storing ends: on a table without removed entries, if \<^verbatim>\<open>calloc\<close> refuses tables of more than
  \<open>L\<close> entries, then with fuel for the doublings up to \<open>L\<close> \<^verbatim>\<open>hashmap_put\<close> returns, keeps the invariant, and either reports that memory
  is out or has added exactly the binding of the key, however often it had to rehash.
\<close>

theorem hashmap_put_correct:
  assumes "hm_inv m" and "\<And>n. calloc_ok n \<Longrightarrow> n \<le> L" and "hm_table_size m \<le> L" and "L < 2 ^ 30"
    and "L < hm_table_size m * 2 ^ fuel"
  shows "\<exists>st m'. hashmap_put fuel calloc_ok m key val = Inr (st, m') \<and> hm_inv m' \<and>
    (st = MAP_OK \<and> hm_map m' = (hm_map m)(key \<mapsto> val) \<or> st = MAP_OMEM)"
proof -
  have "8 \<le> hm_table_size m" using assms(1) by (simp add: hm_inv_def wf_table_def)
  then have "puts_ok (hm_table_size m) L (hashmap_put fuel calloc_ok :: 'a hashmap_map \<Rightarrow> _)"
    using assms by (intro hashmap_put_ok)
  then show ?thesis using puts_okD [OF _ assms(1) order_refl assms(3)] by blast
qed

lemma hashmap_put_correct_witness:
  "\<exists>st m'. hashmap_put 2 (\<lambda>n. n \<le> 512) demo_map [98] None = Inr (st, m') \<and> hm_inv m' \<and>
    (st = MAP_OK \<and> hm_map m' = [[97] \<mapsto> Some True, [98] \<mapsto> None] \<or> st = MAP_OMEM)"
  using hashmap_put_correct [OF demo_map(1), of "\<lambda>n. n \<le> 512" 512 2 "[98]" None]
  by (simp add: demo_map(2)) (simp add: demo_map_def empty_map_def)

lemma hashmap_get_holds:
  assumes "hm_inv m"
  shows "hashmap_get m key = Inr (case hm_map m key of None \<Rightarrow> (MAP_MISSING, None) | Some val \<Rightarrow> (MAP_OK, val))"
proof -
  have once: "wf_table m" "once m" using assms by (simp_all add: hm_inv_def)
  show ?thesis
  proof (cases "\<exists>i. holds m i key")
    case True
    then obtain i where i: "holds m i key" by blast
    then have "(THE i. holds m i key) = i" using once(2) unfolding once_def by blast
    moreover have "hm_map m key = Some (he_data (hm_data m ! i))" using i hm_map_iff [OF once(2)] by blast
    ultimately show ?thesis
      using i by (auto simp: hashmap_get_def get_probe_holds [OF once] slot_def holds_def)
  next
    case False
    then have "hm_map m key = None" by (simp add: hm_map_None once)
    then show ?thesis using False by (simp add: hashmap_get_def get_probe_holds [OF once])
  qed
qed

text \<open>
  A lookup returns what the map holds: on every table that was filled by \<^verbatim>\<open>hashmap_put\<close>, \<^verbatim>\<open>hashmap_get\<close> does not fault and answers with the
  stored pointer, or with \<^verbatim>\<open>MAP_MISSING\<close> and a null pointer.
\<close>

theorem hashmap_get_correct:
  assumes "hm_inv m"
  shows "hashmap_get m key = Inr (case hm_map m key of None \<Rightarrow> (MAP_MISSING, None) | Some val \<Rightarrow> (MAP_OK, val))"
  using assms by (rule hashmap_get_holds)

lemma hashmap_get_correct_witness:
  "hashmap_get demo_map [97] = Inr (MAP_OK, Some True) \<and> hashmap_get demo_map [98] = Inr (MAP_MISSING, None)"
  by (simp add: hashmap_get_correct [OF demo_map(1)] demo_map(2))

text \<open>
  Removing a key forgets it: on such a table \<^verbatim>\<open>hashmap_remove\<close> does not fault, reports whether the key was there, and the table
  then stands for the same map without the key; no key is stored twice.
\<close>

theorem hashmap_remove_correct:
  assumes "hm_inv m"
  shows "\<exists>m'. hashmap_remove m key = Inr (if hm_map m key = None then MAP_MISSING else MAP_OK, m') \<and>
    wf_table m' \<and> once m' \<and> hm_map m' = (hm_map m)(key := None)"
proof (cases "\<exists>i. holds m i key")
  case True
  then obtain i where i: "holds m i key" by blast
  let ?m = "m\<lparr>hm_data := (hm_data m)[i := zero_element], hm_size := hm_size m - 1\<rparr>"
  have once: "wf_table m" "once m" using assms by (simp_all add: hm_inv_def)
  have "(THE i. holds m i key) = i" using i once(2) unfolding once_def by blast
  then have rem: "hashmap_remove m key = Inr (MAP_OK, ?m)" using True by (simp add: hashmap_remove_def get_probe_holds [OF once])
  have pl: "place ?m = place m" by (rule place_cong) simp
  have holds: "holds ?m i' k \<longleftrightarrow> i' \<noteq> i \<and> holds m i' k" for i' k
    using i by (cases "i' = i") (auto simp: holds_def zero_element_def)
  have data: "i' \<noteq> i \<Longrightarrow> hm_data ?m ! i' = hm_data m ! i'" for i' by simp
  have once': "once ?m" using once(2) unfolding once_def holds pl by blast
  have "wf_table ?m"
    using once(1) by (auto simp: wf_table_def wf_element_def zero_element_def dest!: subsetD [OF set_update_subset_insert])
  moreover have "hm_map ?m k = ((hm_map m)(key := None)) k" for k
  proof -
    have "i' \<noteq> i \<and> holds m i' k \<longleftrightarrow> k \<noteq> key \<and> holds m i' k" for i'
      using i once(2) unfolding once_def by (metis holds_def option.inject)
    then have "hm_map ?m k = Some v \<longleftrightarrow> k \<noteq> key \<and> hm_map m k = Some v" for v
      unfolding hm_map_iff [OF once'] hm_map_iff [OF once(2)] holds by (metis data)
    then show ?thesis by (cases "k = key"; cases "hm_map m k"; cases "hm_map ?m k") auto
  qed
  moreover have "hm_map m key \<noteq> None" using True by (simp add: hm_map_None [OF once(2)])
  ultimately show ?thesis using rem once' by auto
next
  case False
  have once: "wf_table m" "once m" using assms by (simp_all add: hm_inv_def)
  then have "hm_map m key = None" using False by (simp add: hm_map_None)
  then show ?thesis using False once by (auto simp: hashmap_remove_def get_probe_holds [OF once])
qed

lemma hashmap_remove_correct_witness:
  "\<exists>m'. hashmap_remove demo_map [97] = Inr (MAP_OK, m') \<and> wf_table m' \<and> once m' \<and> hm_map m' = Map.empty"
  using hashmap_remove_correct [OF demo_map(1), of "[97]"] by (auto simp: demo_map(2))

subsection \<open>The map as an interface\<close>

text \<open>
  What a client of the map relies on: lookups follow an abstract map, storing returns, and a store that
  reports success has changed the abstract map at its key and nowhere else.
\<close>

locale string_map =
  fixes inv :: "'m \<Rightarrow> bool"
    and lookup :: "'m \<Rightarrow> 'k \<Rightarrow> 'v option"
    and get :: "'m \<Rightarrow> 'k \<Rightarrow> 'v option res"
    and put :: "'m \<Rightarrow> 'k \<Rightarrow> 'v \<Rightarrow> (bool \<times> 'm) res"
  assumes get_lookup: "inv m \<Longrightarrow> get m key = Inr (lookup m key)"
    and put_returns: "inv m \<Longrightarrow> \<exists>ok m'. put m key v = Inr (ok, m') \<and> inv m' \<and> (ok \<longrightarrow> lookup m' = (lookup m)(key \<mapsto> v))"
begin

lemma put_inv: "inv m \<Longrightarrow> put m key v = Inr (ok, m') \<Longrightarrow> inv m'"
  using put_returns [of m key v] by auto

lemma get_put: "inv m \<Longrightarrow> put m key v = Inr (True, m') \<Longrightarrow> get m' key' = Inr (if key' = key then Some v else lookup m key')"
  using put_returns [of m key v] get_lookup [of m' key'] by auto

lemma put_succeeds: "inv m \<Longrightarrow> succeeds (\<lambda>(ok, m'). inv m' \<and> (ok \<longrightarrow> lookup m' = (lookup m)(key \<mapsto> v))) (put m key v)"
  using put_returns [of m key v] by (auto simp: succeeds_iff)

end

text \<open>The unfolding of \<^verbatim>\<open>hashmap_put\<close> that the clients use: enough for the 21 doublings from 256 entries to \<open>2 ^ 29\<close>, with room to spare.\<close>

definition PUT_FUEL :: nat where
  "PUT_FUEL = 31"

text \<open>The tables that a program with less than \<open>2 ^ 29\<close> table entries of memory can have.\<close>

definition small_memory :: "(int \<Rightarrow> bool) \<Rightarrow> bool" where
  "small_memory calloc_ok \<longleftrightarrow> (\<forall>n. calloc_ok n \<longrightarrow> n \<le> 2 ^ 29)"

interpretation hm: string_map
  "\<lambda>m. small_memory calloc_ok \<and> hm_inv m \<and> hm_table_size m \<le> 2 ^ 29" hm_map
  "\<lambda>m key. fbind (hashmap_get m key) (\<lambda>(st, v). Inr (if st = MAP_OK then Some v else None))"
  "\<lambda>m key v. fbind (hashmap_put PUT_FUEL calloc_ok m key v) (\<lambda>(st, m). Inr (st = MAP_OK, m))"
proof
  fix m :: "'a hashmap_map" and key
  assume "small_memory calloc_ok \<and> hm_inv m \<and> hm_table_size m \<le> 2 ^ 29"
  then show "fbind (hashmap_get m key) (\<lambda>(st, v). Inr (if st = MAP_OK then Some v else None)) = Inr (hm_map m key)"
    by (simp add: hashmap_get_holds MAP_OK_def MAP_MISSING_def split: option.splits)
next
  fix m :: "'a hashmap_map" and key v
  assume m: "small_memory calloc_ok \<and> hm_inv m \<and> hm_table_size m \<le> 2 ^ 29"
  have "8 \<le> hm_table_size m" using m by (simp add: hm_inv_def wf_table_def)
  moreover have "(2 :: int) ^ 29 < 8 * 2 ^ PUT_FUEL" by (simp add: PUT_FUEL_def)
  ultimately have "puts_ok 8 (2 ^ 29) (hashmap_put PUT_FUEL calloc_ok :: 'a hashmap_map \<Rightarrow> _)"
    using m by (intro hashmap_put_ok) (simp_all add: small_memory_def)
  then show "\<exists>ok m'. fbind (hashmap_put PUT_FUEL calloc_ok m key v) (\<lambda>(st, m). Inr (st = MAP_OK, m)) = Inr (ok, m') \<and>
      (small_memory calloc_ok \<and> hm_inv m' \<and> hm_table_size m' \<le> 2 ^ 29) \<and> (ok \<longrightarrow> hm_map m' = (hm_map m)(key \<mapsto> v))"
    using m \<open>8 \<le> hm_table_size m\<close> puts_okD [of 8 "2 ^ 29" "hashmap_put PUT_FUEL calloc_ok" m key v]
    by (auto simp: MAP_OK_def MAP_OMEM_def)
qed

end
