(* ===== verification/Message_Descriptors.thy ===== *)
theory Message_Descriptors
  imports Chord_Messages "HOL-Library.Multiset"
begin

text \<open>
  The generated tables of \<^verbatim>\<open>messages.pb-c.c\<close> and of the file client's \<^verbatim>\<open>d_messages.pb-c.c\<close>: for each message the descriptors of its fields, the indices of the fields by name and by
  number, and the message descriptor, as the file has them. The offsets are those the C compiler assigns to the
  members of the structures of \<^verbatim>\<open>messages.pb-c.h\<close>; they depend on the sizes of three types of the protobuf-c library, which are
  a parameter of the model.
\<close>

subsection \<open>The layout of the structures\<close>

text \<open>The types of the members, and the sizes of those that the library declares.\<close>

datatype ctype = C_base | C_boolean | C_uint32 | C_uint64 | C_binary

record abi =
  abi_base :: nat
  abi_boolean :: nat
  abi_binary :: nat

definition abi_ok :: "abi \<Rightarrow> bool" where
  "abi_ok A \<longleftrightarrow> 0 < abi_base A \<and> 0 < abi_boolean A \<and> 0 < abi_binary A"

text \<open>The sizes on the platform of the build: a pointer, a count and a pointer; an \<^verbatim>\<open>int\<close>; a length and a pointer.\<close>

definition lp64 :: abi where
  "lp64 = \<lparr>abi_base = 24, abi_boolean = 4, abi_binary = 16\<rparr>"

fun csize :: "abi \<Rightarrow> ctype \<Rightarrow> nat" where
  "csize A C_base = abi_base A"
| "csize A C_boolean = abi_boolean A"
| "csize A C_uint32 = 4"
| "csize A C_uint64 = 8"
| "csize A C_binary = abi_binary A"

fun calign :: "abi \<Rightarrow> ctype \<Rightarrow> nat" where
  "calign A C_base = 8"
| "calign A C_boolean = abi_boolean A"
| "calign A C_uint32 = 4"
| "calign A C_uint64 = 8"
| "calign A C_binary = 8"

fun struct_members :: "msg_desc \<Rightarrow> (string \<times> ctype) list" where
  "struct_members header__descriptor =
     [(''base'', C_base), (''has_version'', C_boolean), (''version'', C_uint32), (''type'', C_uint32), (''payload'', C_binary)]"
| "struct_members ticket__descriptor =
     [(''base'', C_base), (''time'', C_uint32), (''hash'', C_binary)]"
| "struct_members addr_discover__descriptor =
     [(''base'', C_base), (''has_ticket'', C_boolean), (''ticket'', C_binary)]"
| "struct_members addr_discover_reply__descriptor =
     [(''base'', C_base), (''has_ticket'', C_boolean), (''ticket'', C_binary), (''addr'', C_binary)]"
| "struct_members data__descriptor =
     [(''base'', C_base), (''id'', C_binary), (''has_ttl'', C_boolean), (''ttl'', C_uint32), (''has_last'', C_boolean), (''last'', C_boolean), (''data'', C_binary)]"
| "struct_members find_successor__descriptor =
     [(''base'', C_base), (''has_ticket'', C_boolean), (''ticket'', C_binary), (''has_ttl'', C_boolean), (''ttl'', C_uint32), (''addr'', C_binary), (''port'', C_uint32)]"
| "struct_members find_successor_reply__descriptor =
     [(''base'', C_base), (''has_ticket'', C_boolean), (''ticket'', C_binary), (''addr'', C_binary), (''port'', C_uint32)]"
| "struct_members stabilize__descriptor =
     [(''base'', C_base), (''addr'', C_binary), (''port'', C_uint32)]"
| "struct_members stabilize_reply__descriptor =
     [(''base'', C_base), (''addr'', C_binary), (''port'', C_uint32)]"
| "struct_members notify__descriptor =
     [(''base'', C_base)]"
| "struct_members ping__descriptor =
     [(''base'', C_base), (''has_ticket'', C_boolean), (''ticket'', C_binary), (''time'', C_uint64)]"
| "struct_members pong__descriptor =
     [(''base'', C_base), (''has_ticket'', C_boolean), (''ticket'', C_binary), (''time'', C_uint64)]"
| "struct_members client_request__descriptor =
     [(''base'', C_base), (''name'', C_binary)]"
| "struct_members client_request_reply__descriptor =
     [(''base'', C_base), (''name'', C_binary), (''code'', C_uint32)]"
| "struct_members query__descriptor =
     [(''base'', C_base), (''reply_addr'', C_binary), (''reply_port'', C_uint32), (''name'', C_binary)]"
| "struct_members query_reply_success__descriptor =
     [(''base'', C_base), (''name'', C_binary)]"
| "struct_members query_reply_failure__descriptor =
     [(''base'', C_base), (''name'', C_binary)]"
| "struct_members push__descriptor =
     [(''base'', C_base), (''reply_addr'', C_binary), (''reply_port'', C_uint32), (''name'', C_binary)]"
| "struct_members push_reply__descriptor =
     [(''base'', C_base), (''name'', C_binary)]"

definition round_up :: "nat \<Rightarrow> nat \<Rightarrow> nat" where
  "round_up n a = (n + a - 1) div a * a"

text \<open>Name, offset and size of each member, the first one placed at or after \<open>off\<close>.\<close>

fun layout :: "abi \<Rightarrow> nat \<Rightarrow> (string \<times> ctype) list \<Rightarrow> (string \<times> nat \<times> nat) list" where
  "layout A off [] = []"
| "layout A off ((n, t) # ms) =
     (let o' = round_up off (calign A t) in (n, o', csize A t) # layout A (o' + csize A t) ms)"

fun end_of :: "(string \<times> nat \<times> nat) list \<Rightarrow> nat \<Rightarrow> nat" where
  "end_of [] off = off"
| "end_of ((n, o', s) # ls) off = end_of ls (o' + s)"

definition offsetof :: "abi \<Rightarrow> msg_desc \<Rightarrow> string \<Rightarrow> nat" where
  "offsetof A d n = fst (the (map_of (layout A 0 (struct_members d)) n))"

definition sizeof :: "abi \<Rightarrow> msg_desc \<Rightarrow> nat" where
  "sizeof A d = round_up (end_of (layout A 0 (struct_members d)) 0) 8"

subsection \<open>The tables\<close>

text \<open>The types, labels and wire types that the sources name.\<close>

datatype ProtobufCType =
    TYPE_INT32 | TYPE_SINT32 | TYPE_SFIXED32 | TYPE_INT64 | TYPE_SINT64 | TYPE_SFIXED64
  | TYPE_UINT32 | TYPE_FIXED32 | TYPE_UINT64 | TYPE_FIXED64 | TYPE_FLOAT | TYPE_DOUBLE
  | TYPE_BOOL | TYPE_ENUM | TYPE_STRING | TYPE_BYTES | TYPE_MESSAGE

datatype ProtobufCLabel = LABEL_REQUIRED | LABEL_OPTIONAL | LABEL_REPEATED

datatype ProtobufCWireType = WIRE_VARINT | WIRE_64BIT | WIRE_LENGTH_PREFIXED | WIRE_START_GROUP | WIRE_END_GROUP | WIRE_32BIT

text \<open>What a default value is: a number, a truth value, or a string or message at an address.\<close>

datatype default_value = P_word32 uint32 | P_bool bool | P_addr nat

text \<open>\<open>fd_descriptor\<close> is the name of the described enumeration or message; no message of the program has such a field.\<close>

record ProtobufCFieldDescriptor =
  fd_name :: string
  fd_id :: nat
  fd_label :: ProtobufCLabel
  fd_type :: ProtobufCType
  fd_quantifier_offset :: nat
  fd_offset :: nat
  fd_descriptor :: "string option"
  fd_default_value :: "default_value option"
  fd_packed :: bool

record ProtobufCMessageDescriptor =
  md_name :: string
  md_short_name :: string
  md_c_name :: string
  md_package_name :: string
  md_sizeof_message :: nat
  md_n_fields :: nat
  md_fields :: "ProtobufCFieldDescriptor list"
  md_fields_sorted_by_name :: "nat list"
  md_n_field_ranges :: nat
  md_field_ranges :: "(nat \<times> nat) list"

definition header__field_descriptors :: "abi \<Rightarrow> ProtobufCFieldDescriptor list" where
  "header__field_descriptors A =
     [\<lparr>fd_name = ''version'', fd_id = 1, fd_label = LABEL_OPTIONAL, fd_type = TYPE_UINT32,
        fd_quantifier_offset = offsetof A header__descriptor ''has_version'', fd_offset = offsetof A header__descriptor ''version'',
        fd_descriptor = None, fd_default_value = None, fd_packed = False\<rparr>,
      \<lparr>fd_name = ''type'', fd_id = 2, fd_label = LABEL_REQUIRED, fd_type = TYPE_UINT32,
        fd_quantifier_offset = 0, fd_offset = offsetof A header__descriptor ''type'',
        fd_descriptor = None, fd_default_value = None, fd_packed = False\<rparr>,
      \<lparr>fd_name = ''payload'', fd_id = 3, fd_label = LABEL_REQUIRED, fd_type = TYPE_BYTES,
        fd_quantifier_offset = 0, fd_offset = offsetof A header__descriptor ''payload'',
        fd_descriptor = None, fd_default_value = None, fd_packed = False\<rparr>]"

definition header__field_indices_by_name :: "nat list" where
  "header__field_indices_by_name = [2, 1, 0]"

definition header__number_ranges :: "(nat \<times> nat) list" where
  "header__number_ranges = [(1, 0), (0, 3)]"

definition header_message_descriptor :: "abi \<Rightarrow> ProtobufCMessageDescriptor" where
  "header_message_descriptor A =
     \<lparr>md_name = ''Header'', md_short_name = ''Header'', md_c_name = ''Header'', md_package_name = '''',
       md_sizeof_message = sizeof A header__descriptor, md_n_fields = 3, md_fields = header__field_descriptors A,
       md_fields_sorted_by_name = header__field_indices_by_name, md_n_field_ranges = 1, md_field_ranges = header__number_ranges\<rparr>"

definition ticket__field_descriptors :: "abi \<Rightarrow> ProtobufCFieldDescriptor list" where
  "ticket__field_descriptors A =
     [\<lparr>fd_name = ''time'', fd_id = 1, fd_label = LABEL_REQUIRED, fd_type = TYPE_UINT32,
        fd_quantifier_offset = 0, fd_offset = offsetof A ticket__descriptor ''time'',
        fd_descriptor = None, fd_default_value = None, fd_packed = False\<rparr>,
      \<lparr>fd_name = ''hash'', fd_id = 2, fd_label = LABEL_REQUIRED, fd_type = TYPE_BYTES,
        fd_quantifier_offset = 0, fd_offset = offsetof A ticket__descriptor ''hash'',
        fd_descriptor = None, fd_default_value = None, fd_packed = False\<rparr>]"

definition ticket__field_indices_by_name :: "nat list" where
  "ticket__field_indices_by_name = [1, 0]"

definition ticket__number_ranges :: "(nat \<times> nat) list" where
  "ticket__number_ranges = [(1, 0), (0, 2)]"

definition ticket_message_descriptor :: "abi \<Rightarrow> ProtobufCMessageDescriptor" where
  "ticket_message_descriptor A =
     \<lparr>md_name = ''Ticket'', md_short_name = ''Ticket'', md_c_name = ''Ticket'', md_package_name = '''',
       md_sizeof_message = sizeof A ticket__descriptor, md_n_fields = 2, md_fields = ticket__field_descriptors A,
       md_fields_sorted_by_name = ticket__field_indices_by_name, md_n_field_ranges = 1, md_field_ranges = ticket__number_ranges\<rparr>"

definition addr_discover__field_descriptors :: "abi \<Rightarrow> ProtobufCFieldDescriptor list" where
  "addr_discover__field_descriptors A =
     [\<lparr>fd_name = ''ticket'', fd_id = 1, fd_label = LABEL_OPTIONAL, fd_type = TYPE_BYTES,
        fd_quantifier_offset = offsetof A addr_discover__descriptor ''has_ticket'', fd_offset = offsetof A addr_discover__descriptor ''ticket'',
        fd_descriptor = None, fd_default_value = None, fd_packed = False\<rparr>]"

definition addr_discover__field_indices_by_name :: "nat list" where
  "addr_discover__field_indices_by_name = [0]"

definition addr_discover__number_ranges :: "(nat \<times> nat) list" where
  "addr_discover__number_ranges = [(1, 0), (0, 1)]"

definition addr_discover_message_descriptor :: "abi \<Rightarrow> ProtobufCMessageDescriptor" where
  "addr_discover_message_descriptor A =
     \<lparr>md_name = ''AddrDiscover'', md_short_name = ''AddrDiscover'', md_c_name = ''AddrDiscover'', md_package_name = '''',
       md_sizeof_message = sizeof A addr_discover__descriptor, md_n_fields = 1, md_fields = addr_discover__field_descriptors A,
       md_fields_sorted_by_name = addr_discover__field_indices_by_name, md_n_field_ranges = 1, md_field_ranges = addr_discover__number_ranges\<rparr>"

definition addr_discover_reply__field_descriptors :: "abi \<Rightarrow> ProtobufCFieldDescriptor list" where
  "addr_discover_reply__field_descriptors A =
     [\<lparr>fd_name = ''ticket'', fd_id = 1, fd_label = LABEL_OPTIONAL, fd_type = TYPE_BYTES,
        fd_quantifier_offset = offsetof A addr_discover_reply__descriptor ''has_ticket'', fd_offset = offsetof A addr_discover_reply__descriptor ''ticket'',
        fd_descriptor = None, fd_default_value = None, fd_packed = False\<rparr>,
      \<lparr>fd_name = ''addr'', fd_id = 2, fd_label = LABEL_REQUIRED, fd_type = TYPE_BYTES,
        fd_quantifier_offset = 0, fd_offset = offsetof A addr_discover_reply__descriptor ''addr'',
        fd_descriptor = None, fd_default_value = None, fd_packed = False\<rparr>]"

definition addr_discover_reply__field_indices_by_name :: "nat list" where
  "addr_discover_reply__field_indices_by_name = [1, 0]"

definition addr_discover_reply__number_ranges :: "(nat \<times> nat) list" where
  "addr_discover_reply__number_ranges = [(1, 0), (0, 2)]"

definition addr_discover_reply_message_descriptor :: "abi \<Rightarrow> ProtobufCMessageDescriptor" where
  "addr_discover_reply_message_descriptor A =
     \<lparr>md_name = ''AddrDiscoverReply'', md_short_name = ''AddrDiscoverReply'', md_c_name = ''AddrDiscoverReply'', md_package_name = '''',
       md_sizeof_message = sizeof A addr_discover_reply__descriptor, md_n_fields = 2, md_fields = addr_discover_reply__field_descriptors A,
       md_fields_sorted_by_name = addr_discover_reply__field_indices_by_name, md_n_field_ranges = 1, md_field_ranges = addr_discover_reply__number_ranges\<rparr>"

definition data__field_descriptors :: "abi \<Rightarrow> ProtobufCFieldDescriptor list" where
  "data__field_descriptors A =
     [\<lparr>fd_name = ''id'', fd_id = 1, fd_label = LABEL_REQUIRED, fd_type = TYPE_BYTES,
        fd_quantifier_offset = 0, fd_offset = offsetof A data__descriptor ''id'',
        fd_descriptor = None, fd_default_value = None, fd_packed = False\<rparr>,
      \<lparr>fd_name = ''ttl'', fd_id = 2, fd_label = LABEL_OPTIONAL, fd_type = TYPE_UINT32,
        fd_quantifier_offset = offsetof A data__descriptor ''has_ttl'', fd_offset = offsetof A data__descriptor ''ttl'',
        fd_descriptor = None, fd_default_value = Some (P_word32 32), fd_packed = False\<rparr>,
      \<lparr>fd_name = ''last'', fd_id = 3, fd_label = LABEL_OPTIONAL, fd_type = TYPE_BOOL,
        fd_quantifier_offset = offsetof A data__descriptor ''has_last'', fd_offset = offsetof A data__descriptor ''last'',
        fd_descriptor = None, fd_default_value = Some (P_bool False), fd_packed = False\<rparr>,
      \<lparr>fd_name = ''data'', fd_id = 4, fd_label = LABEL_REQUIRED, fd_type = TYPE_BYTES,
        fd_quantifier_offset = 0, fd_offset = offsetof A data__descriptor ''data'',
        fd_descriptor = None, fd_default_value = None, fd_packed = False\<rparr>]"

definition data__field_indices_by_name :: "nat list" where
  "data__field_indices_by_name = [3, 0, 2, 1]"

definition data__number_ranges :: "(nat \<times> nat) list" where
  "data__number_ranges = [(1, 0), (0, 4)]"

definition data_message_descriptor :: "abi \<Rightarrow> ProtobufCMessageDescriptor" where
  "data_message_descriptor A =
     \<lparr>md_name = ''Data'', md_short_name = ''Data'', md_c_name = ''Data'', md_package_name = '''',
       md_sizeof_message = sizeof A data__descriptor, md_n_fields = 4, md_fields = data__field_descriptors A,
       md_fields_sorted_by_name = data__field_indices_by_name, md_n_field_ranges = 1, md_field_ranges = data__number_ranges\<rparr>"

definition find_successor__field_descriptors :: "abi \<Rightarrow> ProtobufCFieldDescriptor list" where
  "find_successor__field_descriptors A =
     [\<lparr>fd_name = ''ticket'', fd_id = 1, fd_label = LABEL_OPTIONAL, fd_type = TYPE_BYTES,
        fd_quantifier_offset = offsetof A find_successor__descriptor ''has_ticket'', fd_offset = offsetof A find_successor__descriptor ''ticket'',
        fd_descriptor = None, fd_default_value = None, fd_packed = False\<rparr>,
      \<lparr>fd_name = ''ttl'', fd_id = 2, fd_label = LABEL_OPTIONAL, fd_type = TYPE_UINT32,
        fd_quantifier_offset = offsetof A find_successor__descriptor ''has_ttl'', fd_offset = offsetof A find_successor__descriptor ''ttl'',
        fd_descriptor = None, fd_default_value = None, fd_packed = False\<rparr>,
      \<lparr>fd_name = ''addr'', fd_id = 3, fd_label = LABEL_REQUIRED, fd_type = TYPE_BYTES,
        fd_quantifier_offset = 0, fd_offset = offsetof A find_successor__descriptor ''addr'',
        fd_descriptor = None, fd_default_value = None, fd_packed = False\<rparr>,
      \<lparr>fd_name = ''port'', fd_id = 4, fd_label = LABEL_REQUIRED, fd_type = TYPE_UINT32,
        fd_quantifier_offset = 0, fd_offset = offsetof A find_successor__descriptor ''port'',
        fd_descriptor = None, fd_default_value = None, fd_packed = False\<rparr>]"

definition find_successor__field_indices_by_name :: "nat list" where
  "find_successor__field_indices_by_name = [2, 3, 0, 1]"

definition find_successor__number_ranges :: "(nat \<times> nat) list" where
  "find_successor__number_ranges = [(1, 0), (0, 4)]"

definition find_successor_message_descriptor :: "abi \<Rightarrow> ProtobufCMessageDescriptor" where
  "find_successor_message_descriptor A =
     \<lparr>md_name = ''FindSuccessor'', md_short_name = ''FindSuccessor'', md_c_name = ''FindSuccessor'', md_package_name = '''',
       md_sizeof_message = sizeof A find_successor__descriptor, md_n_fields = 4, md_fields = find_successor__field_descriptors A,
       md_fields_sorted_by_name = find_successor__field_indices_by_name, md_n_field_ranges = 1, md_field_ranges = find_successor__number_ranges\<rparr>"

definition find_successor_reply__field_descriptors :: "abi \<Rightarrow> ProtobufCFieldDescriptor list" where
  "find_successor_reply__field_descriptors A =
     [\<lparr>fd_name = ''ticket'', fd_id = 1, fd_label = LABEL_OPTIONAL, fd_type = TYPE_BYTES,
        fd_quantifier_offset = offsetof A find_successor_reply__descriptor ''has_ticket'', fd_offset = offsetof A find_successor_reply__descriptor ''ticket'',
        fd_descriptor = None, fd_default_value = None, fd_packed = False\<rparr>,
      \<lparr>fd_name = ''addr'', fd_id = 2, fd_label = LABEL_REQUIRED, fd_type = TYPE_BYTES,
        fd_quantifier_offset = 0, fd_offset = offsetof A find_successor_reply__descriptor ''addr'',
        fd_descriptor = None, fd_default_value = None, fd_packed = False\<rparr>,
      \<lparr>fd_name = ''port'', fd_id = 3, fd_label = LABEL_REQUIRED, fd_type = TYPE_UINT32,
        fd_quantifier_offset = 0, fd_offset = offsetof A find_successor_reply__descriptor ''port'',
        fd_descriptor = None, fd_default_value = None, fd_packed = False\<rparr>]"

definition find_successor_reply__field_indices_by_name :: "nat list" where
  "find_successor_reply__field_indices_by_name = [1, 2, 0]"

definition find_successor_reply__number_ranges :: "(nat \<times> nat) list" where
  "find_successor_reply__number_ranges = [(1, 0), (0, 3)]"

definition find_successor_reply_message_descriptor :: "abi \<Rightarrow> ProtobufCMessageDescriptor" where
  "find_successor_reply_message_descriptor A =
     \<lparr>md_name = ''FindSuccessorReply'', md_short_name = ''FindSuccessorReply'', md_c_name = ''FindSuccessorReply'', md_package_name = '''',
       md_sizeof_message = sizeof A find_successor_reply__descriptor, md_n_fields = 3, md_fields = find_successor_reply__field_descriptors A,
       md_fields_sorted_by_name = find_successor_reply__field_indices_by_name, md_n_field_ranges = 1, md_field_ranges = find_successor_reply__number_ranges\<rparr>"

definition stabilize__field_descriptors :: "abi \<Rightarrow> ProtobufCFieldDescriptor list" where
  "stabilize__field_descriptors A =
     [\<lparr>fd_name = ''addr'', fd_id = 1, fd_label = LABEL_REQUIRED, fd_type = TYPE_BYTES,
        fd_quantifier_offset = 0, fd_offset = offsetof A stabilize__descriptor ''addr'',
        fd_descriptor = None, fd_default_value = None, fd_packed = False\<rparr>,
      \<lparr>fd_name = ''port'', fd_id = 2, fd_label = LABEL_REQUIRED, fd_type = TYPE_UINT32,
        fd_quantifier_offset = 0, fd_offset = offsetof A stabilize__descriptor ''port'',
        fd_descriptor = None, fd_default_value = None, fd_packed = False\<rparr>]"

definition stabilize__field_indices_by_name :: "nat list" where
  "stabilize__field_indices_by_name = [0, 1]"

definition stabilize__number_ranges :: "(nat \<times> nat) list" where
  "stabilize__number_ranges = [(1, 0), (0, 2)]"

definition stabilize_message_descriptor :: "abi \<Rightarrow> ProtobufCMessageDescriptor" where
  "stabilize_message_descriptor A =
     \<lparr>md_name = ''Stabilize'', md_short_name = ''Stabilize'', md_c_name = ''Stabilize'', md_package_name = '''',
       md_sizeof_message = sizeof A stabilize__descriptor, md_n_fields = 2, md_fields = stabilize__field_descriptors A,
       md_fields_sorted_by_name = stabilize__field_indices_by_name, md_n_field_ranges = 1, md_field_ranges = stabilize__number_ranges\<rparr>"

definition stabilize_reply__field_descriptors :: "abi \<Rightarrow> ProtobufCFieldDescriptor list" where
  "stabilize_reply__field_descriptors A =
     [\<lparr>fd_name = ''addr'', fd_id = 1, fd_label = LABEL_REQUIRED, fd_type = TYPE_BYTES,
        fd_quantifier_offset = 0, fd_offset = offsetof A stabilize_reply__descriptor ''addr'',
        fd_descriptor = None, fd_default_value = None, fd_packed = False\<rparr>,
      \<lparr>fd_name = ''port'', fd_id = 2, fd_label = LABEL_REQUIRED, fd_type = TYPE_UINT32,
        fd_quantifier_offset = 0, fd_offset = offsetof A stabilize_reply__descriptor ''port'',
        fd_descriptor = None, fd_default_value = None, fd_packed = False\<rparr>]"

definition stabilize_reply__field_indices_by_name :: "nat list" where
  "stabilize_reply__field_indices_by_name = [0, 1]"

definition stabilize_reply__number_ranges :: "(nat \<times> nat) list" where
  "stabilize_reply__number_ranges = [(1, 0), (0, 2)]"

definition stabilize_reply_message_descriptor :: "abi \<Rightarrow> ProtobufCMessageDescriptor" where
  "stabilize_reply_message_descriptor A =
     \<lparr>md_name = ''StabilizeReply'', md_short_name = ''StabilizeReply'', md_c_name = ''StabilizeReply'', md_package_name = '''',
       md_sizeof_message = sizeof A stabilize_reply__descriptor, md_n_fields = 2, md_fields = stabilize_reply__field_descriptors A,
       md_fields_sorted_by_name = stabilize_reply__field_indices_by_name, md_n_field_ranges = 1, md_field_ranges = stabilize_reply__number_ranges\<rparr>"

definition notify__field_descriptors :: "abi \<Rightarrow> ProtobufCFieldDescriptor list" where
  "notify__field_descriptors A =
     []"

definition notify__field_indices_by_name :: "nat list" where
  "notify__field_indices_by_name = []"

definition notify_message_descriptor :: "abi \<Rightarrow> ProtobufCMessageDescriptor" where
  "notify_message_descriptor A =
     \<lparr>md_name = ''Notify'', md_short_name = ''Notify'', md_c_name = ''Notify'', md_package_name = '''',
       md_sizeof_message = sizeof A notify__descriptor, md_n_fields = 0, md_fields = notify__field_descriptors A,
       md_fields_sorted_by_name = notify__field_indices_by_name, md_n_field_ranges = 0, md_field_ranges = []\<rparr>"

definition ping__field_descriptors :: "abi \<Rightarrow> ProtobufCFieldDescriptor list" where
  "ping__field_descriptors A =
     [\<lparr>fd_name = ''ticket'', fd_id = 1, fd_label = LABEL_OPTIONAL, fd_type = TYPE_BYTES,
        fd_quantifier_offset = offsetof A ping__descriptor ''has_ticket'', fd_offset = offsetof A ping__descriptor ''ticket'',
        fd_descriptor = None, fd_default_value = None, fd_packed = False\<rparr>,
      \<lparr>fd_name = ''time'', fd_id = 2, fd_label = LABEL_REQUIRED, fd_type = TYPE_FIXED64,
        fd_quantifier_offset = 0, fd_offset = offsetof A ping__descriptor ''time'',
        fd_descriptor = None, fd_default_value = None, fd_packed = False\<rparr>]"

definition ping__field_indices_by_name :: "nat list" where
  "ping__field_indices_by_name = [0, 1]"

definition ping__number_ranges :: "(nat \<times> nat) list" where
  "ping__number_ranges = [(1, 0), (0, 2)]"

definition ping_message_descriptor :: "abi \<Rightarrow> ProtobufCMessageDescriptor" where
  "ping_message_descriptor A =
     \<lparr>md_name = ''Ping'', md_short_name = ''Ping'', md_c_name = ''Ping'', md_package_name = '''',
       md_sizeof_message = sizeof A ping__descriptor, md_n_fields = 2, md_fields = ping__field_descriptors A,
       md_fields_sorted_by_name = ping__field_indices_by_name, md_n_field_ranges = 1, md_field_ranges = ping__number_ranges\<rparr>"

definition pong__field_descriptors :: "abi \<Rightarrow> ProtobufCFieldDescriptor list" where
  "pong__field_descriptors A =
     [\<lparr>fd_name = ''ticket'', fd_id = 1, fd_label = LABEL_OPTIONAL, fd_type = TYPE_BYTES,
        fd_quantifier_offset = offsetof A pong__descriptor ''has_ticket'', fd_offset = offsetof A pong__descriptor ''ticket'',
        fd_descriptor = None, fd_default_value = None, fd_packed = False\<rparr>,
      \<lparr>fd_name = ''time'', fd_id = 2, fd_label = LABEL_REQUIRED, fd_type = TYPE_FIXED64,
        fd_quantifier_offset = 0, fd_offset = offsetof A pong__descriptor ''time'',
        fd_descriptor = None, fd_default_value = None, fd_packed = False\<rparr>]"

definition pong__field_indices_by_name :: "nat list" where
  "pong__field_indices_by_name = [0, 1]"

definition pong__number_ranges :: "(nat \<times> nat) list" where
  "pong__number_ranges = [(1, 0), (0, 2)]"

definition pong_message_descriptor :: "abi \<Rightarrow> ProtobufCMessageDescriptor" where
  "pong_message_descriptor A =
     \<lparr>md_name = ''Pong'', md_short_name = ''Pong'', md_c_name = ''Pong'', md_package_name = '''',
       md_sizeof_message = sizeof A pong__descriptor, md_n_fields = 2, md_fields = pong__field_descriptors A,
       md_fields_sorted_by_name = pong__field_indices_by_name, md_n_field_ranges = 1, md_field_ranges = pong__number_ranges\<rparr>"

text \<open>The object that each descriptor address refers to.\<close>

definition client_request__field_descriptors :: "abi \<Rightarrow> ProtobufCFieldDescriptor list" where
  "client_request__field_descriptors A =
     [\<lparr>fd_name = ''name'', fd_id = 1, fd_label = LABEL_REQUIRED, fd_type = TYPE_BYTES,
        fd_quantifier_offset = 0, fd_offset = offsetof A client_request__descriptor ''name'',
        fd_descriptor = None, fd_default_value = None, fd_packed = False\<rparr>]"

definition client_request__field_indices_by_name :: "nat list" where
  "client_request__field_indices_by_name = [0]"

definition client_request__number_ranges :: "(nat \<times> nat) list" where
  "client_request__number_ranges = [(1, 0), (0, 1)]"

definition client_request_message_descriptor :: "abi \<Rightarrow> ProtobufCMessageDescriptor" where
  "client_request_message_descriptor A =
     \<lparr>md_name = ''ClientRequest'', md_short_name = ''ClientRequest'', md_c_name = ''ClientRequest'', md_package_name = '''',
       md_sizeof_message = sizeof A client_request__descriptor, md_n_fields = 1, md_fields = client_request__field_descriptors A,
       md_fields_sorted_by_name = client_request__field_indices_by_name, md_n_field_ranges = 1, md_field_ranges = client_request__number_ranges\<rparr>"

definition client_request_reply__field_descriptors :: "abi \<Rightarrow> ProtobufCFieldDescriptor list" where
  "client_request_reply__field_descriptors A =
     [\<lparr>fd_name = ''name'', fd_id = 1, fd_label = LABEL_REQUIRED, fd_type = TYPE_BYTES,
        fd_quantifier_offset = 0, fd_offset = offsetof A client_request_reply__descriptor ''name'',
        fd_descriptor = None, fd_default_value = None, fd_packed = False\<rparr>,
      \<lparr>fd_name = ''code'', fd_id = 2, fd_label = LABEL_REQUIRED, fd_type = TYPE_UINT32,
        fd_quantifier_offset = 0, fd_offset = offsetof A client_request_reply__descriptor ''code'',
        fd_descriptor = None, fd_default_value = None, fd_packed = False\<rparr>]"

definition client_request_reply__field_indices_by_name :: "nat list" where
  "client_request_reply__field_indices_by_name = [1, 0]"

definition client_request_reply__number_ranges :: "(nat \<times> nat) list" where
  "client_request_reply__number_ranges = [(1, 0), (0, 2)]"

definition client_request_reply_message_descriptor :: "abi \<Rightarrow> ProtobufCMessageDescriptor" where
  "client_request_reply_message_descriptor A =
     \<lparr>md_name = ''ClientRequestReply'', md_short_name = ''ClientRequestReply'', md_c_name = ''ClientRequestReply'', md_package_name = '''',
       md_sizeof_message = sizeof A client_request_reply__descriptor, md_n_fields = 2, md_fields = client_request_reply__field_descriptors A,
       md_fields_sorted_by_name = client_request_reply__field_indices_by_name, md_n_field_ranges = 1, md_field_ranges = client_request_reply__number_ranges\<rparr>"

definition query__field_descriptors :: "abi \<Rightarrow> ProtobufCFieldDescriptor list" where
  "query__field_descriptors A =
     [\<lparr>fd_name = ''reply_addr'', fd_id = 1, fd_label = LABEL_REQUIRED, fd_type = TYPE_BYTES,
        fd_quantifier_offset = 0, fd_offset = offsetof A query__descriptor ''reply_addr'',
        fd_descriptor = None, fd_default_value = None, fd_packed = False\<rparr>,
      \<lparr>fd_name = ''reply_port'', fd_id = 2, fd_label = LABEL_REQUIRED, fd_type = TYPE_UINT32,
        fd_quantifier_offset = 0, fd_offset = offsetof A query__descriptor ''reply_port'',
        fd_descriptor = None, fd_default_value = None, fd_packed = False\<rparr>,
      \<lparr>fd_name = ''name'', fd_id = 3, fd_label = LABEL_REQUIRED, fd_type = TYPE_BYTES,
        fd_quantifier_offset = 0, fd_offset = offsetof A query__descriptor ''name'',
        fd_descriptor = None, fd_default_value = None, fd_packed = False\<rparr>]"

definition query__field_indices_by_name :: "nat list" where
  "query__field_indices_by_name = [2, 0, 1]"

definition query__number_ranges :: "(nat \<times> nat) list" where
  "query__number_ranges = [(1, 0), (0, 3)]"

definition query_message_descriptor :: "abi \<Rightarrow> ProtobufCMessageDescriptor" where
  "query_message_descriptor A =
     \<lparr>md_name = ''Query'', md_short_name = ''Query'', md_c_name = ''Query'', md_package_name = '''',
       md_sizeof_message = sizeof A query__descriptor, md_n_fields = 3, md_fields = query__field_descriptors A,
       md_fields_sorted_by_name = query__field_indices_by_name, md_n_field_ranges = 1, md_field_ranges = query__number_ranges\<rparr>"

definition query_reply_success__field_descriptors :: "abi \<Rightarrow> ProtobufCFieldDescriptor list" where
  "query_reply_success__field_descriptors A =
     [\<lparr>fd_name = ''name'', fd_id = 1, fd_label = LABEL_REQUIRED, fd_type = TYPE_BYTES,
        fd_quantifier_offset = 0, fd_offset = offsetof A query_reply_success__descriptor ''name'',
        fd_descriptor = None, fd_default_value = None, fd_packed = False\<rparr>]"

definition query_reply_success__field_indices_by_name :: "nat list" where
  "query_reply_success__field_indices_by_name = [0]"

definition query_reply_success__number_ranges :: "(nat \<times> nat) list" where
  "query_reply_success__number_ranges = [(1, 0), (0, 1)]"

definition query_reply_success_message_descriptor :: "abi \<Rightarrow> ProtobufCMessageDescriptor" where
  "query_reply_success_message_descriptor A =
     \<lparr>md_name = ''QueryReplySuccess'', md_short_name = ''QueryReplySuccess'', md_c_name = ''QueryReplySuccess'', md_package_name = '''',
       md_sizeof_message = sizeof A query_reply_success__descriptor, md_n_fields = 1, md_fields = query_reply_success__field_descriptors A,
       md_fields_sorted_by_name = query_reply_success__field_indices_by_name, md_n_field_ranges = 1, md_field_ranges = query_reply_success__number_ranges\<rparr>"

definition query_reply_failure__field_descriptors :: "abi \<Rightarrow> ProtobufCFieldDescriptor list" where
  "query_reply_failure__field_descriptors A =
     [\<lparr>fd_name = ''name'', fd_id = 1, fd_label = LABEL_REQUIRED, fd_type = TYPE_BYTES,
        fd_quantifier_offset = 0, fd_offset = offsetof A query_reply_failure__descriptor ''name'',
        fd_descriptor = None, fd_default_value = None, fd_packed = False\<rparr>]"

definition query_reply_failure__field_indices_by_name :: "nat list" where
  "query_reply_failure__field_indices_by_name = [0]"

definition query_reply_failure__number_ranges :: "(nat \<times> nat) list" where
  "query_reply_failure__number_ranges = [(1, 0), (0, 1)]"

definition query_reply_failure_message_descriptor :: "abi \<Rightarrow> ProtobufCMessageDescriptor" where
  "query_reply_failure_message_descriptor A =
     \<lparr>md_name = ''QueryReplyFailure'', md_short_name = ''QueryReplyFailure'', md_c_name = ''QueryReplyFailure'', md_package_name = '''',
       md_sizeof_message = sizeof A query_reply_failure__descriptor, md_n_fields = 1, md_fields = query_reply_failure__field_descriptors A,
       md_fields_sorted_by_name = query_reply_failure__field_indices_by_name, md_n_field_ranges = 1, md_field_ranges = query_reply_failure__number_ranges\<rparr>"

definition push__field_descriptors :: "abi \<Rightarrow> ProtobufCFieldDescriptor list" where
  "push__field_descriptors A =
     [\<lparr>fd_name = ''reply_addr'', fd_id = 1, fd_label = LABEL_REQUIRED, fd_type = TYPE_BYTES,
        fd_quantifier_offset = 0, fd_offset = offsetof A push__descriptor ''reply_addr'',
        fd_descriptor = None, fd_default_value = None, fd_packed = False\<rparr>,
      \<lparr>fd_name = ''reply_port'', fd_id = 2, fd_label = LABEL_REQUIRED, fd_type = TYPE_UINT32,
        fd_quantifier_offset = 0, fd_offset = offsetof A push__descriptor ''reply_port'',
        fd_descriptor = None, fd_default_value = None, fd_packed = False\<rparr>,
      \<lparr>fd_name = ''name'', fd_id = 3, fd_label = LABEL_REQUIRED, fd_type = TYPE_BYTES,
        fd_quantifier_offset = 0, fd_offset = offsetof A push__descriptor ''name'',
        fd_descriptor = None, fd_default_value = None, fd_packed = False\<rparr>]"

definition push__field_indices_by_name :: "nat list" where
  "push__field_indices_by_name = [2, 0, 1]"

definition push__number_ranges :: "(nat \<times> nat) list" where
  "push__number_ranges = [(1, 0), (0, 3)]"

definition push_message_descriptor :: "abi \<Rightarrow> ProtobufCMessageDescriptor" where
  "push_message_descriptor A =
     \<lparr>md_name = ''Push'', md_short_name = ''Push'', md_c_name = ''Push'', md_package_name = '''',
       md_sizeof_message = sizeof A push__descriptor, md_n_fields = 3, md_fields = push__field_descriptors A,
       md_fields_sorted_by_name = push__field_indices_by_name, md_n_field_ranges = 1, md_field_ranges = push__number_ranges\<rparr>"

definition push_reply__field_descriptors :: "abi \<Rightarrow> ProtobufCFieldDescriptor list" where
  "push_reply__field_descriptors A =
     [\<lparr>fd_name = ''name'', fd_id = 1, fd_label = LABEL_REQUIRED, fd_type = TYPE_BYTES,
        fd_quantifier_offset = 0, fd_offset = offsetof A push_reply__descriptor ''name'',
        fd_descriptor = None, fd_default_value = None, fd_packed = False\<rparr>]"

definition push_reply__field_indices_by_name :: "nat list" where
  "push_reply__field_indices_by_name = [0]"

definition push_reply__number_ranges :: "(nat \<times> nat) list" where
  "push_reply__number_ranges = [(1, 0), (0, 1)]"

definition push_reply_message_descriptor :: "abi \<Rightarrow> ProtobufCMessageDescriptor" where
  "push_reply_message_descriptor A =
     \<lparr>md_name = ''PushReply'', md_short_name = ''PushReply'', md_c_name = ''PushReply'', md_package_name = '''',
       md_sizeof_message = sizeof A push_reply__descriptor, md_n_fields = 1, md_fields = push_reply__field_descriptors A,
       md_fields_sorted_by_name = push_reply__field_indices_by_name, md_n_field_ranges = 1, md_field_ranges = push_reply__number_ranges\<rparr>"

fun descriptor :: "abi \<Rightarrow> msg_desc \<Rightarrow> ProtobufCMessageDescriptor" where
  "descriptor A header__descriptor = header_message_descriptor A"
| "descriptor A ticket__descriptor = ticket_message_descriptor A"
| "descriptor A addr_discover__descriptor = addr_discover_message_descriptor A"
| "descriptor A addr_discover_reply__descriptor = addr_discover_reply_message_descriptor A"
| "descriptor A data__descriptor = data_message_descriptor A"
| "descriptor A find_successor__descriptor = find_successor_message_descriptor A"
| "descriptor A find_successor_reply__descriptor = find_successor_reply_message_descriptor A"
| "descriptor A stabilize__descriptor = stabilize_message_descriptor A"
| "descriptor A stabilize_reply__descriptor = stabilize_reply_message_descriptor A"
| "descriptor A notify__descriptor = notify_message_descriptor A"
| "descriptor A ping__descriptor = ping_message_descriptor A"
| "descriptor A pong__descriptor = pong_message_descriptor A"
| "descriptor A client_request__descriptor = client_request_message_descriptor A"
| "descriptor A client_request_reply__descriptor = client_request_reply_message_descriptor A"
| "descriptor A query__descriptor = query_message_descriptor A"
| "descriptor A query_reply_success__descriptor = query_reply_success_message_descriptor A"
| "descriptor A query_reply_failure__descriptor = query_reply_failure_message_descriptor A"
| "descriptor A push__descriptor = push_message_descriptor A"
| "descriptor A push_reply__descriptor = push_reply_message_descriptor A"

lemmas field_descriptors = header__field_descriptors_def ticket__field_descriptors_def addr_discover__field_descriptors_def addr_discover_reply__field_descriptors_def data__field_descriptors_def find_successor__field_descriptors_def find_successor_reply__field_descriptors_def stabilize__field_descriptors_def stabilize_reply__field_descriptors_def notify__field_descriptors_def ping__field_descriptors_def pong__field_descriptors_def
    client_request__field_descriptors_def client_request_reply__field_descriptors_def query__field_descriptors_def query_reply_success__field_descriptors_def query_reply_failure__field_descriptors_def push__field_descriptors_def push_reply__field_descriptors_def

lemmas message_descriptors = header_message_descriptor_def ticket_message_descriptor_def addr_discover_message_descriptor_def addr_discover_reply_message_descriptor_def data_message_descriptor_def find_successor_message_descriptor_def find_successor_reply_message_descriptor_def stabilize_message_descriptor_def stabilize_reply_message_descriptor_def notify_message_descriptor_def ping_message_descriptor_def pong_message_descriptor_def
    client_request_message_descriptor_def client_request_reply_message_descriptor_def query_message_descriptor_def query_reply_success_message_descriptor_def query_reply_failure_message_descriptor_def push_message_descriptor_def push_reply_message_descriptor_def

lemmas field_indices = header__field_indices_by_name_def ticket__field_indices_by_name_def addr_discover__field_indices_by_name_def addr_discover_reply__field_indices_by_name_def data__field_indices_by_name_def find_successor__field_indices_by_name_def find_successor_reply__field_indices_by_name_def stabilize__field_indices_by_name_def stabilize_reply__field_indices_by_name_def notify__field_indices_by_name_def ping__field_indices_by_name_def pong__field_indices_by_name_def
    client_request__field_indices_by_name_def client_request_reply__field_indices_by_name_def query__field_indices_by_name_def query_reply_success__field_indices_by_name_def query_reply_failure__field_indices_by_name_def push__field_indices_by_name_def push_reply__field_indices_by_name_def

lemmas number_ranges = header__number_ranges_def ticket__number_ranges_def addr_discover__number_ranges_def addr_discover_reply__number_ranges_def data__number_ranges_def find_successor__number_ranges_def find_successor_reply__number_ranges_def stabilize__number_ranges_def stabilize_reply__number_ranges_def ping__number_ranges_def pong__number_ranges_def
    client_request__number_ranges_def client_request_reply__number_ranges_def query__number_ranges_def query_reply_success__number_ranges_def query_reply_failure__number_ranges_def push__number_ranges_def push_reply__number_ranges_def

subsection \<open>Objects\<close>

text \<open>
  What a member of an object holds. The pointers to strings and to messages carry their address, since the code compares them with
  the address of the default value; \<open>V_null\<close> is the null pointer. An object is its descriptor, its
  members by offset, and the wire types and lengths of its unknown fields.
\<close>

datatype cval =
    V_bool bool
  | V_word32 uint32
  | V_word64 ulong
  | V_bytes "byte list"
  | V_string nat string
  | V_null
  | V_message nat cobject
  | V_array "cval list"
  | V_size nat
and cobject = Object ProtobufCMessageDescriptor "(nat \<times> cval) list" "(ProtobufCWireType \<times> nat) list"

text \<open>The members of a message by name, and the message as an object in memory.\<close>

fun member_values :: "message \<Rightarrow> (string \<times> cval) list" where
  "member_values (M_Header m) = [(''has_version'', V_bool (hdr_has_version m)), (''version'', V_word32 (hdr_version m)), (''type'', V_word32 (hdr_type m)), (''payload'', V_bytes (hdr_payload m))]"
| "member_values (M_Ticket m) = [(''time'', V_word32 (tkt_time m)), (''hash'', V_bytes (tkt_hash m))]"
| "member_values (M_AddrDiscover m) = [(''has_ticket'', V_bool (ad_has_ticket m)), (''ticket'', V_bytes (ad_ticket m))]"
| "member_values (M_AddrDiscoverReply m) = [(''has_ticket'', V_bool (adr_has_ticket m)), (''ticket'', V_bytes (adr_ticket m)), (''addr'', V_bytes (adr_addr m))]"
| "member_values (M_Data m) = [(''id'', V_bytes (dat_id m)), (''has_ttl'', V_bool (dat_has_ttl m)), (''ttl'', V_word32 (dat_ttl m)), (''has_last'', V_bool (dat_has_last m)), (''last'', V_bool (dat_last m)), (''data'', V_bytes (dat_data m))]"
| "member_values (M_FindSuccessor m) = [(''has_ticket'', V_bool (fs_has_ticket m)), (''ticket'', V_bytes (fs_ticket m)), (''has_ttl'', V_bool (fs_has_ttl m)), (''ttl'', V_word32 (fs_ttl m)), (''addr'', V_bytes (fs_addr m)), (''port'', V_word32 (fs_port m))]"
| "member_values (M_FindSuccessorReply m) = [(''has_ticket'', V_bool (fsr_has_ticket m)), (''ticket'', V_bytes (fsr_ticket m)), (''addr'', V_bytes (fsr_addr m)), (''port'', V_word32 (fsr_port m))]"
| "member_values (M_Stabilize m) = [(''addr'', V_bytes (stab_addr m)), (''port'', V_word32 (stab_port m))]"
| "member_values (M_StabilizeReply m) = [(''addr'', V_bytes (stabr_addr m)), (''port'', V_word32 (stabr_port m))]"
| "member_values (M_Notify m) = []"
| "member_values (M_Ping m) = [(''has_ticket'', V_bool (ping_has_ticket m)), (''ticket'', V_bytes (ping_ticket m)), (''time'', V_word64 (ping_time m))]"
| "member_values (M_Pong m) = [(''has_ticket'', V_bool (pong_has_ticket m)), (''ticket'', V_bytes (pong_ticket m)), (''time'', V_word64 (pong_time m))]"
| "member_values (M_ClientRequest m) = [(''name'', V_bytes (cr_name m))]"
| "member_values (M_ClientRequestReply m) = [(''name'', V_bytes (crr_name m)), (''code'', V_word32 (crr_code m))]"
| "member_values (M_Query m) = [(''reply_addr'', V_bytes (qry_reply_addr m)), (''reply_port'', V_word32 (qry_reply_port m)), (''name'', V_bytes (qry_name m))]"
| "member_values (M_QueryReplySuccess m) = [(''name'', V_bytes (qrs_name m))]"
| "member_values (M_QueryReplyFailure m) = [(''name'', V_bytes (qrf_name m))]"
| "member_values (M_Push m) = [(''reply_addr'', V_bytes (psh_reply_addr m)), (''reply_port'', V_word32 (psh_reply_port m)), (''name'', V_bytes (psh_name m))]"
| "member_values (M_PushReply m) = [(''name'', V_bytes (pshr_name m))]"

definition object_of :: "abi \<Rightarrow> message \<Rightarrow> cobject" where
  "object_of A msg =
     Object (descriptor A (descriptor_of msg))
       (map (\<lambda>(n, v). (offsetof A (descriptor_of msg) n, v)) (member_values msg)) []"

subsection \<open>The layout keeps the members apart\<close>

lemma round_up_ge: "0 < a \<Longrightarrow> n \<le> round_up n a"
  unfolding round_up_def using div_mult_mod_eq [of "n + a - 1" a] mod_less_divisor [of a "n + a - 1"] by linarith

lemma round_up_dvd: "a dvd round_up n a"
  by (simp add: round_up_def)

lemma layout_names: "map fst (layout A off ms) = map fst ms"
  by (induction A off ms rule: layout.induct) (auto simp: Let_def)

lemma calign_pos: "abi_ok A \<Longrightarrow> 0 < calign A t"
  by (cases t) (auto simp: abi_ok_def)

lemma csize_pos: "abi_ok A \<Longrightarrow> 0 < csize A t"
  by (cases t) (auto simp: abi_ok_def)

lemma layout_end: "abi_ok A \<Longrightarrow> off \<le> end_of (layout A off ms) off"
proof (induction ms arbitrary: off)
  case (Cons m ms)
  obtain n t where m: "m = (n, t)" by force
  have "off \<le> round_up off (calign A t)" using Cons.prems by (simp add: round_up_ge calign_pos)
  then show ?case using Cons.IH [of "round_up off (calign A t) + csize A t"] Cons.prems by (simp add: m Let_def)
qed simp

lemma layout_bounds:
  assumes "abi_ok A" and "(n, o', s) \<in> set (layout A off ms)"
  shows "off \<le> o' \<and> 0 < s \<and> o' + s \<le> end_of (layout A off ms) off"
  using assms(2)
proof (induction ms arbitrary: off)
  case (Cons m ms)
  obtain n' t where m: "m = (n', t)" by force
  let ?o = "round_up off (calign A t)"
  have "off \<le> ?o" "0 < csize A t" "?o + csize A t \<le> end_of (layout A (?o + csize A t) ms) (?o + csize A t)"
    using assms(1) by (simp_all add: round_up_ge calign_pos csize_pos layout_end)
  then show ?case using Cons by (fastforce simp: m Let_def)
qed simp

lemma layout_apart:
  assumes "abi_ok A"
  shows "sorted_wrt (\<lambda>(n, o', s) (n', o'', s'). o' + s \<le> o'') (layout A off ms)"
proof (induction ms arbitrary: off)
  case (Cons m ms)
  obtain n t where m: "m = (n, t)" by force
  show ?case using Cons.IH layout_bounds [OF assms] by (auto simp: m Let_def)
qed simp

lemma layout_has:
  "(n, t) \<in> set ms \<Longrightarrow> \<exists>o'. (n, o', csize A t) \<in> set (layout A off ms) \<and> calign A t dvd o'"
proof (induction ms arbitrary: off)
  case (Cons m ms)
  show ?case
  proof (cases "m = (n, t)")
    case True
    then show ?thesis by (auto simp: Let_def round_up_dvd)
  next
    case False
    then show ?thesis using Cons by (cases m) (auto simp: Let_def)
  qed
qed simp

lemma distinct_members: "distinct (map fst (struct_members d))"
  by (cases d) simp_all

lemma offsetof_layout:
  assumes "(n, t) \<in> set (struct_members d)"
  shows "(n, offsetof A d n, csize A t) \<in> set (layout A 0 (struct_members d))" and "calign A t dvd offsetof A d n"
proof -
  obtain o' where o': "(n, o', csize A t) \<in> set (layout A 0 (struct_members d))" "calign A t dvd o'"
    using layout_has [OF assms] by blast
  then have "map_of (layout A 0 (struct_members d)) n = Some (o', csize A t)"
    using distinct_members [of d] by (simp add: layout_names)
  then show "(n, offsetof A d n, csize A t) \<in> set (layout A 0 (struct_members d))" "calign A t dvd offsetof A d n"
    using o' by (simp_all add: offsetof_def)
qed

lemma sorted_wrt_apart:
  "sorted_wrt R xs \<Longrightarrow> x \<in> set xs \<Longrightarrow> y \<in> set xs \<Longrightarrow> x \<noteq> y \<Longrightarrow> R x y \<or> R y x"
  by (induction xs) auto

lemma offsetof_apart:
  assumes "abi_ok A" and "(n, t) \<in> set (struct_members d)" and "(n', t') \<in> set (struct_members d)" and "n \<noteq> n'"
  shows "offsetof A d n + csize A t \<le> offsetof A d n' \<or> offsetof A d n' + csize A t' \<le> offsetof A d n"
  using sorted_wrt_apart [OF layout_apart [OF assms(1)] offsetof_layout(1) [OF assms(2)] offsetof_layout(1) [OF assms(3)]] assms(4)
  by simp

text \<open>
  The generated structures are laid out soundly: whatever the sizes of the library's types, two members of a message structure never
  overlap, every member lies inside the size its descriptor reports, and every member is aligned.
\<close>

theorem struct_layout_sound:
  assumes "abi_ok A" and "(n, t) \<in> set (struct_members d)" and "(n', t') \<in> set (struct_members d)" and "n \<noteq> n'"
  shows "(offsetof A d n + csize A t \<le> offsetof A d n' \<or> offsetof A d n' + csize A t' \<le> offsetof A d n) \<and>
    offsetof A d n + csize A t \<le> md_sizeof_message (descriptor A d) \<and> calign A t dvd offsetof A d n"
proof -
  have "offsetof A d n + csize A t \<le> end_of (layout A 0 (struct_members d)) 0"
    using layout_bounds [OF assms(1) offsetof_layout(1) [OF assms(2)]] by simp
  also have "\<dots> \<le> sizeof A d" by (simp add: sizeof_def round_up_ge)
  also have "\<dots> = md_sizeof_message (descriptor A d)" by (cases d) (simp_all add: message_descriptors)
  finally show ?thesis using offsetof_apart [OF assms] offsetof_layout(2) [OF assms(2)] by simp
qed

lemma struct_layout_sound_witness:
  "(offsetof lp64 ticket__descriptor ''time'' + 4 \<le> offsetof lp64 ticket__descriptor ''hash'' \<or>
    offsetof lp64 ticket__descriptor ''hash'' + 16 \<le> offsetof lp64 ticket__descriptor ''time'') \<and>
   offsetof lp64 ticket__descriptor ''time'' + 4 \<le> md_sizeof_message (descriptor lp64 ticket__descriptor) \<and>
   4 dvd offsetof lp64 ticket__descriptor ''time''"
  using struct_layout_sound [of lp64 "''time''" C_uint32 ticket__descriptor "''hash''" C_binary] by (simp add: lp64_def abi_ok_def)

text \<open>
  The tables of each message agree with each other and with its structure: the number of fields, the index by name (a permutation that sorts
  the names), the ranges of field numbers, and for every field the type of the member at its offset.
\<close>

fun holds_type :: "ProtobufCType \<Rightarrow> ctype \<Rightarrow> bool" where
  "holds_type TYPE_UINT32 C_uint32 = True"
| "holds_type TYPE_FIXED64 C_uint64 = True"
| "holds_type TYPE_BOOL C_boolean = True"
| "holds_type TYPE_BYTES C_binary = True"
| "holds_type _ _ = False"

definition field_sound :: "abi \<Rightarrow> msg_desc \<Rightarrow> ProtobufCFieldDescriptor \<Rightarrow> bool" where
  "field_sound A d f \<longleftrightarrow>
     fd_offset f = offsetof A d (fd_name f) \<and>
     (\<exists>t. (fd_name f, t) \<in> set (struct_members d) \<and> holds_type (fd_type f) t) \<and>
     (case fd_label f of
        LABEL_REQUIRED \<Rightarrow> True
      | LABEL_OPTIONAL \<Rightarrow> fd_quantifier_offset f = offsetof A d (''has_'' @ fd_name f) \<and>
          (''has_'' @ fd_name f, C_boolean) \<in> set (struct_members d)
      | LABEL_REPEATED \<Rightarrow> False)"

lemma fields_sound: "f \<in> set (md_fields (descriptor A d)) \<Longrightarrow> field_sound A d f"
  by (cases d) (auto simp: message_descriptors field_descriptors field_sound_def)

text \<open>The order of \<^verbatim>\<open>strcmp\<close>.\<close>

fun str_less :: "string \<Rightarrow> string \<Rightarrow> bool" where
  "str_less [] t = (t \<noteq> [])"
| "str_less (c # s) [] = False"
| "str_less (c # s) (c' # t) = (if c = c' then str_less s t else (of_char c :: nat) < of_char c')"

text \<open>
  C30. The generated tables are consistent, for every message: the fields are counted and numbered from 1 without gaps, the index by name is a
  permutation that puts the names in ascending order, the ranges describe exactly these numbers, and every field's
  offset and presence flag refer to members of the structure of the right type.
\<close>

theorem descriptor_tables_sound:
  "let D = descriptor A d; n = md_n_fields D in
     length (md_fields D) = n \<and> map fd_id (md_fields D) = [1..<Suc n] \<and>
     mset (md_fields_sorted_by_name D) = mset [0..<n] \<and>
     sorted_wrt str_less (map (\<lambda>i. fd_name (md_fields D ! i)) (md_fields_sorted_by_name D)) \<and>
     md_n_field_ranges D = (if n = 0 then 0 else 1) \<and> md_field_ranges D = (if n = 0 then [] else [(1, 0), (0, n)]) \<and>
     list_all (field_sound A d) (md_fields D)"
proof -
  have "list_all (field_sound A d) (md_fields (descriptor A d))" using fields_sound by (simp add: list_all_iff)
  then show ?thesis
    by (cases d; simp add: message_descriptors field_descriptors field_indices number_ranges Let_def upt_rec;
        simp add: numeral_2_eq_2 numeral_3_eq_3 add_mset_commute)
qed

end
