(* ===== verification/Message_Print.thy ===== *)
theory Message_Print
  imports Message_Descriptors
begin

text \<open>
  The message printer of the trace log (\<^verbatim>\<open>message_print.c\<close>): a walk over the descriptor of an object that prints every field. The functions
  return the text they append to the stream. The texts that \<^verbatim>\<open>printf\<close> gives floating-point numbers and the names of enumeration values
  are parameters; none of the program's messages has such a field.
\<close>

subsection \<open>Numbers\<close>

definition digits :: string where
  "digits = ''0123456789abcdef''"

fun dec :: "nat \<Rightarrow> string" where
  "dec n = (if n < 10 then [digits ! n] else dec (n div 10) @ [digits ! (n mod 10)])"

declare dec.simps [simp del]

definition dec_int :: "int \<Rightarrow> string" where
  "dec_int i = (if i < 0 then ''-'' @ dec (nat (- i)) else dec (nat i))"

text \<open>\<^verbatim>\<open>%02x\<close> of a byte.\<close>

definition hex2 :: "byte \<Rightarrow> string" where
  "hex2 b = [digits ! (unat b div 16), digits ! (unat b mod 16)]"

text \<open>\<^verbatim>\<open>isprint\<close> in the C locale.\<close>

definition isprint :: "byte \<Rightarrow> bool" where
  "isprint b \<longleftrightarrow> 32 \<le> unat b \<and> unat b < 127"

record print_env =
  show_float :: "uint32 \<Rightarrow> string"
  show_double :: "ulong \<Rightarrow> string"
  enum_value :: "string \<Rightarrow> int \<Rightarrow> (int \<times> string) option"

subsection \<open>The printer\<close>

fun sizeof_elt_in_repeated_array :: "abi \<Rightarrow> ProtobufCType \<Rightarrow> nat" where
  "sizeof_elt_in_repeated_array A TYPE_SINT32 = 4"
| "sizeof_elt_in_repeated_array A TYPE_INT32 = 4"
| "sizeof_elt_in_repeated_array A TYPE_UINT32 = 4"
| "sizeof_elt_in_repeated_array A TYPE_SFIXED32 = 4"
| "sizeof_elt_in_repeated_array A TYPE_FIXED32 = 4"
| "sizeof_elt_in_repeated_array A TYPE_FLOAT = 4"
| "sizeof_elt_in_repeated_array A TYPE_ENUM = 4"
| "sizeof_elt_in_repeated_array A TYPE_SINT64 = 8"
| "sizeof_elt_in_repeated_array A TYPE_INT64 = 8"
| "sizeof_elt_in_repeated_array A TYPE_UINT64 = 8"
| "sizeof_elt_in_repeated_array A TYPE_SFIXED64 = 8"
| "sizeof_elt_in_repeated_array A TYPE_FIXED64 = 8"
| "sizeof_elt_in_repeated_array A TYPE_DOUBLE = 8"
| "sizeof_elt_in_repeated_array A TYPE_BOOL = abi_boolean A"
| "sizeof_elt_in_repeated_array A TYPE_STRING = 8"
| "sizeof_elt_in_repeated_array A TYPE_MESSAGE = 8"
| "sizeof_elt_in_repeated_array A TYPE_BYTES = abi_binary A"

definition bytes_text :: "byte list \<Rightarrow> string" where
  "bytes_text bs =
     ''['' @ dec (length bs) @ ''] '' @ concat (map (\<lambda>b. hex2 b @ '' '') bs) @
     (if list_all isprint bs \<and> 0 < length bs
      then ''(\"'' @ map (\<lambda>b. char_of (unat b)) bs @ ''\")'' else '''')"

text \<open>
  A field of a known type; \<open>body\<close> prints a message that the member points to. A member that does not hold a value of the type is a
  type confusion.
\<close>

definition required_field_print ::
  "print_env \<Rightarrow> (cobject \<Rightarrow> nat \<Rightarrow> string res) \<Rightarrow> ProtobufCFieldDescriptor \<Rightarrow> cval \<Rightarrow> nat \<Rightarrow> string res" where
  "required_field_print P body field member tabs =
     (case fd_type field of
        TYPE_SFIXED32 \<Rightarrow> (case member of V_word32 w \<Rightarrow> Inr (dec_int (sint w)) | _ \<Rightarrow> Inl Type_confusion)
      | TYPE_SINT32 \<Rightarrow> (case member of V_word32 w \<Rightarrow> Inr (dec_int (sint w)) | _ \<Rightarrow> Inl Type_confusion)
      | TYPE_INT32 \<Rightarrow> (case member of V_word32 w \<Rightarrow> Inr (dec_int (sint w)) | _ \<Rightarrow> Inl Type_confusion)
      | TYPE_FIXED32 \<Rightarrow> (case member of V_word32 w \<Rightarrow> Inr (dec (unat w)) | _ \<Rightarrow> Inl Type_confusion)
      | TYPE_UINT32 \<Rightarrow> (case member of V_word32 w \<Rightarrow> Inr (dec (unat w)) | _ \<Rightarrow> Inl Type_confusion)
      | TYPE_SFIXED64 \<Rightarrow> (case member of V_word64 w \<Rightarrow> Inr (dec_int (sint w)) | _ \<Rightarrow> Inl Type_confusion)
      | TYPE_SINT64 \<Rightarrow> (case member of V_word64 w \<Rightarrow> Inr (dec_int (sint w)) | _ \<Rightarrow> Inl Type_confusion)
      | TYPE_INT64 \<Rightarrow> (case member of V_word64 w \<Rightarrow> Inr (dec_int (sint w)) | _ \<Rightarrow> Inl Type_confusion)
      | TYPE_FIXED64 \<Rightarrow> (case member of V_word64 w \<Rightarrow> Inr (dec (unat w)) | _ \<Rightarrow> Inl Type_confusion)
      | TYPE_UINT64 \<Rightarrow> (case member of V_word64 w \<Rightarrow> Inr (dec (unat w)) | _ \<Rightarrow> Inl Type_confusion)
      | TYPE_FLOAT \<Rightarrow> (case member of V_word32 w \<Rightarrow> Inr (show_float P w) | _ \<Rightarrow> Inl Type_confusion)
      | TYPE_DOUBLE \<Rightarrow> (case member of V_word64 w \<Rightarrow> Inr (show_double P w) | _ \<Rightarrow> Inl Type_confusion)
      | TYPE_BOOL \<Rightarrow> (case member of V_bool b \<Rightarrow> Inr (if b then ''true'' else ''false'') | _ \<Rightarrow> Inl Type_confusion)
      | TYPE_STRING \<Rightarrow>
          (case member of
             V_string a s \<Rightarrow> Inr (''['' @ dec (length s) @ ''] \"'' @ s @ ''\"'')
           | V_null \<Rightarrow> Inl Null_deref
           | _ \<Rightarrow> Inl Type_confusion)
      | TYPE_BYTES \<Rightarrow> (case member of V_bytes bs \<Rightarrow> Inr (bytes_text bs) | _ \<Rightarrow> Inl Type_confusion)
      | TYPE_MESSAGE \<Rightarrow>
          (case member of
             V_message a obj \<Rightarrow> fbind (body obj tabs) (\<lambda>s. Inr (''\<newline>'' @ s))
           | V_null \<Rightarrow> Inl Null_deref
           | _ \<Rightarrow> Inl Type_confusion)
      | TYPE_ENUM \<Rightarrow>
          (case member of
             V_word32 w \<Rightarrow>
               fbind (deref (fd_descriptor field)) (\<lambda>desc.
               fbind (deref (enum_value P desc (sint w))) (\<lambda>(v, name).
               Inr (dec_int v @ '' ('' @ name @ '')'')))
           | _ \<Rightarrow> Inl Type_confusion))"

text \<open>
  An optional field. The code hands the default value itself to the printer, which takes it for the member that points to it.
\<close>

definition optional_field_print ::
  "print_env \<Rightarrow> (cobject \<Rightarrow> nat \<Rightarrow> string res) \<Rightarrow> ProtobufCFieldDescriptor \<Rightarrow> cval option \<Rightarrow> cval \<Rightarrow> nat \<Rightarrow> string res" where
  "optional_field_print P body field has member tabs =
     (if fd_type field = TYPE_MESSAGE \<or> fd_type field = TYPE_STRING then
        (case member of
           V_null \<Rightarrow> Inr ''<none>''
         | V_string a s \<Rightarrow>
             if fd_default_value field = Some (P_addr a) then Inl Type_confusion
             else required_field_print P body field member tabs
         | V_message a obj \<Rightarrow>
             if fd_default_value field = Some (P_addr a) then Inl Type_confusion
             else required_field_print P body field member tabs
         | _ \<Rightarrow> Inl Type_confusion)
      else
        (case has of
           Some (V_bool b) \<Rightarrow> if \<not> b then Inr ''<none>'' else required_field_print P body field member tabs
         | _ \<Rightarrow> Inl Type_confusion))"

definition print_tabs :: "nat \<Rightarrow> string" where
  "print_tabs tabs = replicate tabs (char_of (9 :: nat))"

definition print_nl :: "nat \<Rightarrow> string" where
  "print_nl tabs = ''\<newline>'' @ print_tabs tabs"

fun repeated_elements ::
  "print_env \<Rightarrow> (cobject \<Rightarrow> nat \<Rightarrow> string res) \<Rightarrow> ProtobufCFieldDescriptor \<Rightarrow> string \<Rightarrow> cval list \<Rightarrow> nat \<Rightarrow> string res" where
  "repeated_elements P body field sep [] tabs = Inr ''''"
| "repeated_elements P body field sep (v # vs) tabs =
     fbind (required_field_print P body field v tabs) (\<lambda>s.
     fbind (repeated_elements P body field sep vs tabs) (\<lambda>s'.
     Inr (s @ (if vs \<noteq> [] then sep else '''') @ s')))"

definition repeated_field_print ::
  "print_env \<Rightarrow> (cobject \<Rightarrow> nat \<Rightarrow> string res) \<Rightarrow> ProtobufCFieldDescriptor \<Rightarrow> nat \<Rightarrow> cval \<Rightarrow> nat \<Rightarrow> string res" where
  "repeated_field_print P body field cnt member tabs =
     (if cnt > 0 then
        (case member of
           V_array vs \<Rightarrow>
             if length vs < cnt then Inl Out_of_bounds
             else if fd_type field = TYPE_MESSAGE then
               fbind (repeated_elements P body field '''' (take cnt vs) tabs) (\<lambda>s.
               Inr (''['' @ dec cnt @ ''] '' @ s))
             else
               fbind (repeated_elements P body field '', '' (take cnt vs) tabs) (\<lambda>s.
               Inr (''['' @ dec cnt @ ''] {'' @ s @ ''}''))
         | V_null \<Rightarrow> Inl Null_deref
         | _ \<Rightarrow> Inl Type_confusion)
      else Inr (''['' @ dec cnt @ ''] ''))"

fun wire_type_text :: "ProtobufCWireType \<Rightarrow> string" where
  "wire_type_text WIRE_VARINT = ''<varint>''"
| "wire_type_text WIRE_64BIT = ''<64bit>''"
| "wire_type_text WIRE_LENGTH_PREFIXED = ''<length_prefixed>''"
| "wire_type_text WIRE_START_GROUP = ''<start_group>''"
| "wire_type_text WIRE_END_GROUP = ''<end_group>''"
| "wire_type_text WIRE_32BIT = ''<32bit>''"

definition unknown_field_print :: "ProtobufCWireType \<times> nat \<Rightarrow> string" where
  "unknown_field_print field = wire_type_text (fst field) @ '' ['' @ dec (snd field) @ '']''"

definition type_name_print :: "ProtobufCFieldDescriptor \<Rightarrow> string res" where
  "type_name_print field =
     (case fd_type field of
        TYPE_INT32 \<Rightarrow> Inr (''int32 '' @ fd_name field)
      | TYPE_SINT32 \<Rightarrow> Inr (''sint32 '' @ fd_name field)
      | TYPE_SFIXED32 \<Rightarrow> Inr (''sfixed32 '' @ fd_name field)
      | TYPE_INT64 \<Rightarrow> Inr (''int64 '' @ fd_name field)
      | TYPE_SINT64 \<Rightarrow> Inr (''sint64 '' @ fd_name field)
      | TYPE_SFIXED64 \<Rightarrow> Inr (''sfixed64 '' @ fd_name field)
      | TYPE_UINT32 \<Rightarrow> Inr (''uint32 '' @ fd_name field)
      | TYPE_FIXED32 \<Rightarrow> Inr (''fixed32 '' @ fd_name field)
      | TYPE_UINT64 \<Rightarrow> Inr (''uint64 '' @ fd_name field)
      | TYPE_FIXED64 \<Rightarrow> Inr (''fixed64 '' @ fd_name field)
      | TYPE_FLOAT \<Rightarrow> Inr (''float '' @ fd_name field)
      | TYPE_DOUBLE \<Rightarrow> Inr (''double '' @ fd_name field)
      | TYPE_BOOL \<Rightarrow> Inr (''bool '' @ fd_name field)
      | TYPE_STRING \<Rightarrow> Inr (''string '' @ fd_name field)
      | TYPE_BYTES \<Rightarrow> Inr (''bytes '' @ fd_name field)
      | TYPE_ENUM \<Rightarrow> fbind (deref (fd_descriptor field)) (\<lambda>desc. Inr (desc @ '' '' @ fd_name field))
      | TYPE_MESSAGE \<Rightarrow> fbind (deref (fd_descriptor field)) (\<lambda>desc. Inr (desc @ '' '' @ fd_name field)))"

text \<open>Reading the object at an offset.\<close>

definition member_at :: "(nat \<times> cval) list \<Rightarrow> nat \<Rightarrow> cval res" where
  "member_at mem off = (case map_of mem off of None \<Rightarrow> Inl Type_confusion | Some v \<Rightarrow> Inr v)"

definition field_print ::
  "print_env \<Rightarrow> (cobject \<Rightarrow> nat \<Rightarrow> string res) \<Rightarrow> (nat \<times> cval) list \<Rightarrow> ProtobufCFieldDescriptor \<Rightarrow> nat \<Rightarrow> string res" where
  "field_print P body mem field tabs =
     fbind (type_name_print field) (\<lambda>ty.
     fbind (member_at mem (fd_offset field)) (\<lambda>member.
     fbind (case fd_label field of
              LABEL_REQUIRED \<Rightarrow> required_field_print P body field member tabs
            | LABEL_OPTIONAL \<Rightarrow> optional_field_print P body field (map_of mem (fd_quantifier_offset field)) member tabs
            | LABEL_REPEATED \<Rightarrow>
                (case map_of mem (fd_quantifier_offset field) of
                   Some (V_size cnt) \<Rightarrow> repeated_field_print P body field cnt member tabs
                 | _ \<Rightarrow> Inl Type_confusion)) (\<lambda>s.
     Inr (print_nl tabs @ dec_int (int (fd_id field)) @ '': '' @
          (case fd_label field of LABEL_REQUIRED \<Rightarrow> ''required '' | LABEL_OPTIONAL \<Rightarrow> ''optional '' | LABEL_REPEATED \<Rightarrow> ''repeated '') @
          ty @ '' = '' @ s))))"

fun fields_print ::
  "print_env \<Rightarrow> (cobject \<Rightarrow> nat \<Rightarrow> string res) \<Rightarrow> (nat \<times> cval) list \<Rightarrow> ProtobufCFieldDescriptor list \<Rightarrow> nat \<Rightarrow> string res" where
  "fields_print P body mem [] tabs = Inr ''''"
| "fields_print P body mem (f # fs) tabs =
     fbind (field_print P body mem f tabs) (\<lambda>s.
     fbind (fields_print P body mem fs tabs) (\<lambda>s'. Inr (s @ s')))"

text \<open>The fuel bounds the depth of messages within messages; the messages of this program contain none.\<close>

primrec message_body_print :: "nat \<Rightarrow> print_env \<Rightarrow> cobject \<Rightarrow> nat \<Rightarrow> string res" where
  "message_body_print 0 P obj tabs = Inl Out_of_fuel"
| "message_body_print (Suc fuel) P obj tabs =
     (case obj of Object desc mem unknown \<Rightarrow>
        if length (md_fields desc) < md_n_fields desc then Inl Out_of_bounds
        else
          fbind (fields_print P (message_body_print fuel P) mem (take (md_n_fields desc) (md_fields desc)) (tabs + 1)) (\<lambda>s.
          Inr (print_tabs tabs @ ''{ ['' @ dec (md_sizeof_message desc) @ '']'' @ s @
               concat (map (\<lambda>u. ''unknown '' @ unknown_field_print u @ print_nl (tabs + 1)) unknown) @
               print_nl tabs @ ''}'')))"

definition protobuf_c_message_print :: "nat \<Rightarrow> print_env \<Rightarrow> cobject \<Rightarrow> string res" where
  "protobuf_c_message_print fuel P obj =
     (case obj of Object desc mem unknown \<Rightarrow>
        fbind (message_body_print fuel P obj 0) (\<lambda>s. Inr (md_name desc @ '' '' @ s)))"

subsection \<open>What is printed\<close>

text \<open>The reference: one line per field, with the value of the member that has the field's name.\<close>

fun val_text :: "cval \<Rightarrow> string" where
  "val_text (V_bool b) = (if b then ''true'' else ''false'')"
| "val_text (V_word32 w) = dec (unat w)"
| "val_text (V_word64 w) = dec (unat w)"
| "val_text (V_bytes bs) = bytes_text bs"
| "val_text _ = []"

fun type_word :: "ProtobufCType \<Rightarrow> string" where
  "type_word TYPE_UINT32 = ''uint32''"
| "type_word TYPE_FIXED64 = ''fixed64''"
| "type_word TYPE_BOOL = ''bool''"
| "type_word TYPE_BYTES = ''bytes''"
| "type_word _ = []"

definition ref_line :: "message \<Rightarrow> ProtobufCFieldDescriptor \<Rightarrow> string" where
  "ref_line msg f =
     ''\<newline>'' @ print_tabs 1 @ dec (fd_id f) @ '': '' @ (if fd_label f = LABEL_OPTIONAL then ''optional '' else ''required '') @
     type_word (fd_type f) @ '' '' @ fd_name f @ '' = '' @
     (if fd_label f = LABEL_OPTIONAL \<and> map_of (member_values msg) (''has_'' @ fd_name f) = Some (V_bool False) then ''<none>''
      else val_text (the (map_of (member_values msg) (fd_name f))))"

lemma map_of_inj:
  "inj_on g (insert n (fst ` set xs)) \<Longrightarrow> map_of (map (\<lambda>(n, v). (g n, v)) xs) (g n) = map_of xs n"
  by (induction xs) (auto simp: inj_on_def split: if_splits)

lemma offsetof_inj: "abi_ok A \<Longrightarrow> inj_on (offsetof A d) (fst ` set (struct_members d))"
proof (rule inj_onI)
  fix n n'
  assume A: "abi_ok A" and "n \<in> fst ` set (struct_members d)" and "n' \<in> fst ` set (struct_members d)"
    and eq: "offsetof A d n = offsetof A d n'"
  then obtain t t' where t: "(n, t) \<in> set (struct_members d)" "(n', t') \<in> set (struct_members d)" by auto
  show "n = n'"
  proof (rule ccontr)
    assume "n \<noteq> n'"
    then show False
      using offsetof_apart [OF A t] eq csize_pos [OF A, of t] csize_pos [OF A, of t'] by auto
  qed
qed

lemma member_names: "fst ` set (member_values msg) \<subseteq> fst ` set (struct_members (descriptor_of msg))"
  by (cases msg) auto

lemma object_member:
  assumes "abi_ok A" and "(n, t) \<in> set (struct_members (descriptor_of msg))"
  shows "map_of (map (\<lambda>(n, v). (offsetof A (descriptor_of msg) n, v)) (member_values msg)) (offsetof A (descriptor_of msg) n) =
    map_of (member_values msg) n"
proof (rule map_of_inj, rule inj_on_subset [OF offsetof_inj [OF assms(1)]])
  show "insert n (fst ` set (member_values msg)) \<subseteq> fst ` set (struct_members (descriptor_of msg))"
    using member_names [of msg] assms(2) by force
qed

fun typed_val :: "ProtobufCType \<Rightarrow> cval \<Rightarrow> bool" where
  "typed_val TYPE_UINT32 (V_word32 w) = True"
| "typed_val TYPE_FIXED64 (V_word64 w) = True"
| "typed_val TYPE_BOOL (V_bool b) = True"
| "typed_val TYPE_BYTES (V_bytes bs) = True"
| "typed_val _ _ = False"

lemma fields_typed:
  assumes "f \<in> set (md_fields (descriptor A (descriptor_of msg)))"
  shows "\<exists>v. map_of (member_values msg) (fd_name f) = Some v \<and> typed_val (fd_type f) v"
    and "fd_label f = LABEL_OPTIONAL \<Longrightarrow> \<exists>b. map_of (member_values msg) (''has_'' @ fd_name f) = Some (V_bool b)"
  using assms by (cases msg; auto simp: message_descriptors field_descriptors)+

lemma required_typed: "typed_val (fd_type f) v \<Longrightarrow> required_field_print P body f v tabs = Inr (val_text v)"
  by (cases "fd_type f"; cases v) (simp_all add: required_field_print_def)

lemma type_name_typed: "typed_val (fd_type f) v \<Longrightarrow> type_name_print f = Inr (type_word (fd_type f) @ '' '' @ fd_name f)"
  by (cases "fd_type f"; cases v) (simp_all add: type_name_print_def)

lemma field_print_ref:
  assumes "abi_ok A" and "f \<in> set (md_fields (descriptor A (descriptor_of msg)))"
  shows "field_print P body (map (\<lambda>(n, v). (offsetof A (descriptor_of msg) n, v)) (member_values msg)) f 1 = Inr (ref_line msg f)"
proof -
  let ?d = "descriptor_of msg" and ?mem = "map (\<lambda>(n, v). (offsetof A (descriptor_of msg) n, v)) (member_values msg)"
  have fs: "field_sound A ?d f" using fields_sound [OF assms(2)] .
  obtain v where v: "map_of (member_values msg) (fd_name f) = Some v" "typed_val (fd_type f) v" using fields_typed(1) [OF assms(2)] by blast
  have m: "member_at ?mem (fd_offset f) = Inr v"
    using fs object_member [OF assms(1)] v(1) by (auto simp: field_sound_def member_at_def)
  have nt: "fd_type f \<noteq> TYPE_MESSAGE" "fd_type f \<noteq> TYPE_STRING" using v(2) by auto
  show ?thesis
  proof (cases "fd_label f")
    case LABEL_OPTIONAL
    then obtain b where b: "map_of (member_values msg) (''has_'' @ fd_name f) = Some (V_bool b)"
      using fields_typed(2) [OF assms(2)] by blast
    moreover have "map_of ?mem (fd_quantifier_offset f) = map_of (member_values msg) (''has_'' @ fd_name f)"
      using fs object_member [OF assms(1)] LABEL_OPTIONAL by (auto simp: field_sound_def)
    ultimately show ?thesis using LABEL_OPTIONAL nt
      by (simp add: field_print_def m v required_typed type_name_typed [OF v(2)] ref_line_def optional_field_print_def
          print_nl_def dec_int_def)
  next
    case LABEL_REQUIRED
    then show ?thesis
      by (simp add: field_print_def m v required_typed type_name_typed [OF v(2)] ref_line_def print_nl_def dec_int_def)
  next
    case LABEL_REPEATED
    then show ?thesis using fs by (simp add: field_sound_def)
  qed
qed

text \<open>
  C31. The printer is type-safe and shows what the message holds: for every message of the program, printing through the descriptor's offsets
  faults nowhere and writes the message's name, its size, and for each field, in the order of the
  numbers, its type, its name and the value of the member of that name, or \<^verbatim>\<open><none>\<close> when it is absent.
\<close>

theorem message_print_shows_fields:
  assumes "abi_ok A"
  shows "protobuf_c_message_print (Suc fuel) P (object_of A msg) =
    Inr (md_name (descriptor A (descriptor_of msg)) @ '' { ['' @ dec (sizeof A (descriptor_of msg)) @ '']'' @
         concat (map (ref_line msg) (md_fields (descriptor A (descriptor_of msg)))) @ ''\<newline>}'')"
proof -
  let ?D = "descriptor A (descriptor_of msg)" and ?mem = "map (\<lambda>(n, v). (offsetof A (descriptor_of msg) n, v)) (member_values msg)"
  have "fields_print P body ?mem fs 1 = Inr (concat (map (ref_line msg) fs))" if "set fs \<subseteq> set (md_fields ?D)" for body fs
    using that by (induction fs) (simp_all add: field_print_ref [OF assms, simplified])
  moreover have "length (md_fields ?D) = md_n_fields ?D" "md_sizeof_message ?D = sizeof A (descriptor_of msg)"
    by (cases msg; simp add: message_descriptors field_descriptors)+
  ultimately show ?thesis
    by (simp add: protobuf_c_message_print_def object_of_def print_nl_def print_tabs_def)
qed

lemma message_print_shows_fields_witness:
  "protobuf_c_message_print 1 \<lparr>show_float = \<lambda>_. [], show_double = \<lambda>_. [], enum_value = \<lambda>_ _. None\<rparr>
     (object_of lp64 (M_Stabilize \<lparr>stab_addr = [0x41, 0x42], stab_port = 4000\<rparr>)) =
   Inr (''Stabilize { [48]'' @ ''\<newline>'' @ print_tabs 1 @ ''1: required bytes addr = [2] 41 42 (\"AB\")'' @
        ''\<newline>'' @ print_tabs 1 @ ''2: required uint32 port = 4000'' @ ''\<newline>}'')"
proof -
  have "sizeof lp64 stabilize__descriptor = 48"
    by (simp add: sizeof_def lp64_def round_up_def Let_def)
  moreover have "char_of (65 :: nat) = CHR ''A''" "char_of (66 :: nat) = CHR ''B''" by (simp_all add: char_of_def bit_0)
  ultimately show ?thesis
    using message_print_shows_fields [of lp64 0 "\<lparr>show_float = \<lambda>_. [], show_double = \<lambda>_. [], enum_value = \<lambda>_ _. None\<rparr>"
        "M_Stabilize \<lparr>stab_addr = [0x41, 0x42], stab_port = 4000\<rparr>"]
    by (simp add: lp64_def abi_ok_def message_descriptors field_descriptors ref_line_def bytes_text_def hex2_def isprint_def digits_def dec.simps)
qed

end
