(* ===== verification/Logger.thy ===== *)
theory Logger
  imports Hashmap Message_Print
begin

unbundle bit_operations_syntax

text \<open>
  The logging library (\<^verbatim>\<open>logger/clog.c\<close>, \<^verbatim>\<open>logger/file.c\<close>, \<^verbatim>\<open>logger/color.c\<close>): a registry of loggers by name in the hash map, the level
  filter, and the life of one log message (start, parts, end) with the colours and the time stamp.

  A logger context is an object that pointers refer to: the state keeps the contexts in a list, a pointer is an index, \<open>None\<close> is
  \<^verbatim>\<open>NULL\<close>. All contexts are file loggers on the standard output. What \<^verbatim>\<open>printf\<close> makes of a format and its arguments is the text that the model
  is given. \<open>l_fp\<close> is what was written to a context's cookie stream and not flushed yet.
\<close>

subsection \<open>Colours\<close>

definition FG_COLORS :: "nat list" where
  "FG_COLORS = [30, 31, 32, 33, 34, 35, 36, 37]"

definition BG_COLORS :: "nat list" where
  "BG_COLORS = [40, 41, 42, 43, 44, 45, 46, 47]"

definition FG_HI_COLORS :: "nat list" where
  "FG_HI_COLORS = [90, 91, 92, 93, 94, 95, 96, 97]"

definition BG_HI_COLORS :: "nat list" where
  "BG_HI_COLORS = [100, 101, 102, 103, 104, 105, 106, 107]"

definition get_attr_code :: "uint32 \<Rightarrow> nat" where
  "get_attr_code attr =
     (if attr = 0x01 then 0
      else if attr = 0x02 then 1
      else if attr = 0x04 then 4
      else if attr = 0x08 then 5
      else if attr = 0x10 then 7
      else if attr = 0x20 then 8
      else 0)"

text \<open>\<^verbatim>\<open>"%c[%dm"\<close> with the escape character.\<close>

definition escape :: "nat \<Rightarrow> string" where
  "escape n = char_of (27 :: nat) # ''['' @ dec n @ ''m''"

definition color_at :: "nat list \<Rightarrow> nat \<Rightarrow> string res" where
  "color_at table i = (if 1 \<le> i \<and> i \<le> length table then Inr (escape (table ! (i - 1))) else Inl Out_of_bounds)"

definition start_color :: "uint32 \<Rightarrow> string res" where
  "start_color color =
     (let attr = color AND 0x000000FF;
          fg = drop_bit 8 (color AND 0x0000FF00);
          bg = drop_bit 16 (color AND 0x00FF0000);
          color_mod = color AND 0xFF000000;
          attrs = concat (map (\<lambda>i. let single_attr = attr AND push_bit i 1 in
                    if single_attr \<noteq> 0 then escape (get_attr_code single_attr) else []) [0..<6])
      in fbind (if fg \<noteq> 0 then color_at (if color_mod AND 0x01000000 \<noteq> 0 then FG_HI_COLORS else FG_COLORS) (unat fg) else Inr []) (\<lambda>f.
         fbind (if bg \<noteq> 0 then color_at (if color_mod AND 0x02000000 \<noteq> 0 then BG_HI_COLORS else BG_COLORS) (unat bg) else Inr []) (\<lambda>b.
         Inr (attrs @ f @ b))))"

definition default_color :: string where
  "default_color = escape 0"

definition cvfprintf :: "bool \<Rightarrow> uint32 \<Rightarrow> string \<Rightarrow> string res" where
  "cvfprintf tty color txt =
     (if tty then fbind (start_color color) (\<lambda>s. Inr (s @ txt @ default_color)) else Inr txt)"

subsection \<open>The state of the library\<close>

record logger_ctx_t =
  l_name :: string
  l_min_level :: int
  l_fp :: string
  l_log_partial :: bool

record clog =
  loggers :: "nat hashmap_map option"
  ctxs :: "logger_ctx_t list"
  clog_default_log_level :: int
  start_time :: "int \<times> int"
  event_context :: string
  stdout :: string
  clock_reads :: nat

text \<open>
  What the library gets from the system: memory for a table of \<open>n\<close> entries, for the structure of a logger and for a name of \<open>n\<close> bytes, whether \<^verbatim>\<open>fopencookie\<close> succeeds, and the readings of the
  monotonic clock (\<open>None\<close> when it fails).
\<close>

record log_env =
  le_calloc_ok :: "int \<Rightarrow> bool"
  le_ctx_ok :: bool
  le_name_ok :: "nat \<Rightarrow> bool"
  le_cookie_ok :: bool
  le_clock :: "nat \<Rightarrow> (int \<times> int) option"

definition key_of :: "string \<Rightarrow> cstring" where
  "key_of s = map (\<lambda>ch. word_of_nat (of_char ch)) s"

definition ctx_at :: "clog \<Rightarrow> nat \<Rightarrow> logger_ctx_t res" where
  "ctx_at c p = (if p < length (ctxs c) then Inr (ctxs c ! p) else Inl Out_of_bounds)"

definition upd_ctx :: "nat \<Rightarrow> (logger_ctx_t \<Rightarrow> logger_ctx_t) \<Rightarrow> clog \<Rightarrow> clog" where
  "upd_ctx p f c = c\<lparr>ctxs := (ctxs c)[p := f (ctxs c ! p)]\<rparr>"

definition out :: "string \<Rightarrow> clog \<Rightarrow> clog" where
  "out s c = c\<lparr>stdout := stdout c @ s\<rparr>"

definition clog_set_event_context :: "string \<Rightarrow> clog \<Rightarrow> clog" where
  "clog_set_event_context context c = c\<lparr>event_context := take 255 context\<rparr>"

definition clog_clear_event_context :: "clog \<Rightarrow> clog" where
  "clog_clear_event_context c = c\<lparr>event_context := []\<rparr>"

definition clog_set_default_log_level :: "int \<Rightarrow> clog \<Rightarrow> clog" where
  "clog_set_default_log_level level c = c\<lparr>clog_default_log_level := level\<rparr>"

definition read_clock :: "log_env \<Rightarrow> clog \<Rightarrow> (int \<times> int) option \<times> clog" where
  "read_clock M c = (le_clock M (clock_reads c), c\<lparr>clock_reads := clock_reads c + 1\<rparr>)"

text \<open>Seconds and milliseconds since the first message; \<open>None\<close> is the return value -1.\<close>

definition time_diff :: "int \<times> int \<Rightarrow> int \<times> int \<Rightarrow> int \<times> int" where
  "time_diff now start =
     (let sec = fst now - fst start;
          nsec = snd now - snd start;
          (sec, nsec) = (if nsec < 0 then (sec - 1, nsec + 1000000000) else (sec, nsec))
      in (sec, (nsec - nsec mod 1000000) div 1000000))"

definition clog_time_offset :: "log_env \<Rightarrow> clog \<Rightarrow> (int \<times> int) option \<times> clog" where
  "clog_time_offset M c =
     (let (now, c') = read_clock M c in
      if start_time c = (0, 0) then
        (case now of
           None \<Rightarrow> (None, c')
         | Some t \<Rightarrow> (Some (time_diff t t), c'\<lparr>start_time := t\<rparr>))
      else
        (case now of None \<Rightarrow> (None, c') | Some t \<Rightarrow> (Some (time_diff t (start_time c)), c')))"

subsection \<open>Contexts\<close>

text \<open>Neither the block for the logger nor the one for its name is compared with \<^verbatim>\<open>NULL\<close> before it is written to.\<close>

definition logger_ctx_new_file :: "log_env \<Rightarrow> string \<Rightarrow> int \<Rightarrow> clog \<Rightarrow> (nat option \<times> clog) res" where
  "logger_ctx_new_file M name min_level c =
     (if \<not> le_ctx_ok M then Inl Null_deref
      else if \<not> le_name_ok M (length name + 1) then Inl Null_deref
      else if le_cookie_ok M then
        Inr (Some (length (ctxs c)),
         c\<lparr>ctxs := ctxs c @ [\<lparr>l_name = name, l_min_level = min_level, l_fp = [], l_log_partial = False\<rparr>]\<rparr>)
      else Inr (None, c))"

definition clog_add_logger :: "log_env \<Rightarrow> nat option \<Rightarrow> clog \<Rightarrow> (bool \<times> clog) res" where
  "clog_add_logger M l_new c =
     fbind (deref l_new) (\<lambda>p.
     fbind (ctx_at c p) (\<lambda>l.
     fbind (deref (loggers c)) (\<lambda>m.
     fbind (hashmap_put PUT_FUEL (le_calloc_ok M) m (key_of (l_name l)) (Some p)) (\<lambda>(status, m).
     Inr (status \<noteq> MAP_OK, c\<lparr>loggers := Some m\<rparr>)))))"

definition clog_get_logger :: "log_env \<Rightarrow> string \<Rightarrow> clog \<Rightarrow> (nat option \<times> clog) res" where
  "clog_get_logger M name c =
     fbind (deref (loggers c)) (\<lambda>m.
     fbind (hashmap_get m (key_of name)) (\<lambda>(status, l).
     if status = MAP_MISSING then
       fbind (logger_ctx_new_file M name (clog_default_log_level c) c) (\<lambda>(l, c).
        fbind (clog_add_logger M l c) (\<lambda>(err, c). Inr (if err then None else l, c)))
     else Inr (l, c)))"

text \<open>\<^verbatim>\<open>BASENAME\<close>, and the name up to the first dot. A name without a dot makes the code subtract from a null pointer.\<close>

definition BASENAME :: "string \<Rightarrow> string" where
  "BASENAME file = rev (takeWhile (\<lambda>ch. ch \<noteq> CHR ''/'') (rev file))"

definition clog_get_logger_for_file :: "log_env \<Rightarrow> string \<Rightarrow> clog \<Rightarrow> (nat option \<times> clog) res" where
  "clog_get_logger_for_file M file c =
     (let file = BASENAME file in
      if CHR ''.'' \<in> set file then clog_get_logger M (takeWhile (\<lambda>ch. ch \<noteq> CHR ''.'') file) c
      else Inl Null_deref)"

subsection \<open>One message\<close>

definition default_level_colors :: "uint32 list" where
  "default_level_colors = [0x01000600, 0x01000700, 0x01000300, 0x01000400, 0x01000200, 0x00020800]"

definition pad_left :: "nat \<Rightarrow> char \<Rightarrow> string \<Rightarrow> string" where
  "pad_left n ch s = replicate (n - length s) ch @ s"

text \<open>
  The head of a message. The padding is a field of width \<open>written - 75\<close>: a negative width pads to the right, so the head is filled up to 75
  characters; a longer head is followed by as many blanks as it has characters too many.
\<close>

definition head_text :: "(int \<times> int) option \<Rightarrow> string \<Rightarrow> string \<Rightarrow> nat \<Rightarrow> string \<Rightarrow> string" where
  "head_text diff context file line func =
     (let stamp = (case diff of
                     None \<Rightarrow> ''[<unkwn>] ''
                   | Some (sec, ms) \<Rightarrow> ''['' @ pad_left 3 (CHR '' '') (dec (nat sec)) @ ''.'' @ pad_left 3 (CHR ''0'') (dec (nat ms)) @ ''] '');
          ctx = (if context \<noteq> [] then ''<'' @ context @ ''> '' else []);
          head = stamp @ ctx @ ''('' @ func @ '') '' @ BASENAME file @ ''@'' @ dec line @ '': ''
      in head @ replicate (nat \<bar>int (length head) - 75\<bar>) (CHR '' ''))"

definition start_file_msg :: "log_env \<Rightarrow> string \<Rightarrow> nat \<Rightarrow> string \<Rightarrow> int \<Rightarrow> clog \<Rightarrow> clog res" where
  "start_file_msg M file line func level c =
     (let color = (if 0 \<le> level \<and> level \<le> 5 then default_level_colors ! nat level else 0) in
      fbind (start_color (color OR 0x02)) (\<lambda>bold.
      let (diff, c) = clog_time_offset M c in
      fbind (start_color color) (\<lambda>plain.
      Inr (out (bold @ head_text diff (event_context c) file line func @ default_color @ plain) c))))"

definition end_file_msg :: "clog \<Rightarrow> clog" where
  "end_file_msg c = out (default_color @ ''\<newline>'') c"

text \<open>\<^verbatim>\<open>fflush\<close> of the cookie stream: \<^verbatim>\<open>logger_call_write\<close> passes the data on only inside a message.\<close>

definition logger_call_write :: "nat \<Rightarrow> string \<Rightarrow> clog \<Rightarrow> clog" where
  "logger_call_write p buf c = (if l_log_partial (ctxs c ! p) then out buf c else c)"

definition fflush_ctx :: "nat \<Rightarrow> clog \<Rightarrow> clog" where
  "fflush_ctx p c = upd_ctx p (\<lambda>l. l\<lparr>l_fp := []\<rparr>) (logger_call_write p (l_fp (ctxs c ! p)) c)"

text \<open>Writing to a context's stream.\<close>

definition fprintf_ctx :: "nat \<Rightarrow> string \<Rightarrow> clog \<Rightarrow> clog" where
  "fprintf_ctx p s c = upd_ctx p (\<lambda>l. l\<lparr>l_fp := l_fp l @ s\<rparr>) c"

definition resolve :: "log_env \<Rightarrow> nat option \<Rightarrow> string \<Rightarrow> clog \<Rightarrow> (nat \<times> clog) res" where
  "resolve M l file c =
     (case l of
        Some p \<Rightarrow> Inr (p, c)
      | None \<Rightarrow> fbind (clog_get_logger_for_file M file c) (\<lambda>(l, c). fbind (deref l) (\<lambda>p. Inr (p, c))))"

definition clog_start_log :: "log_env \<Rightarrow> nat option \<Rightarrow> string \<Rightarrow> nat \<Rightarrow> string \<Rightarrow> int \<Rightarrow> clog \<Rightarrow> clog res" where
  "clog_start_log M l file line func level c =
     fbind (resolve M l file c) (\<lambda>(p, c).
     fbind (ctx_at c p) (\<lambda>ctx.
     if level \<ge> l_min_level ctx
     then start_file_msg M file line func level (upd_ctx p (\<lambda>l. l\<lparr>l_log_partial := True\<rparr>) c)
     else Inr c))"

definition clog_partial_log :: "log_env \<Rightarrow> nat option \<Rightarrow> string \<Rightarrow> string \<Rightarrow> clog \<Rightarrow> clog res" where
  "clog_partial_log M l file txt c =
     fbind (resolve M l file c) (\<lambda>(p, c).
     fbind (ctx_at c p) (\<lambda>ctx.
     Inr (if l_log_partial ctx then out txt (fflush_ctx p c) else c)))"

definition clog_end_log :: "log_env \<Rightarrow> nat option \<Rightarrow> string \<Rightarrow> clog \<Rightarrow> clog res" where
  "clog_end_log M l file c =
     fbind (resolve M l file c) (\<lambda>(p, c).
     fbind (ctx_at c p) (\<lambda>ctx.
     let c = fflush_ctx p c in
     Inr (if l_log_partial ctx then upd_ctx p (\<lambda>l. l\<lparr>l_log_partial := False\<rparr>) (end_file_msg c) else c)))"

definition vlog :: "log_env \<Rightarrow> nat \<Rightarrow> string \<Rightarrow> nat \<Rightarrow> string \<Rightarrow> int \<Rightarrow> string \<Rightarrow> clog \<Rightarrow> clog res" where
  "vlog M p file line func level txt c =
     fbind (clog_start_log M (Some p) file line func level c) (\<lambda>c.
     clog_end_log M (Some p) [] (out txt c))"

definition clog_log :: "log_env \<Rightarrow> nat option \<Rightarrow> string \<Rightarrow> nat \<Rightarrow> string \<Rightarrow> int \<Rightarrow> string \<Rightarrow> clog \<Rightarrow> clog res" where
  "clog_log M l file line func level txt c =
     fbind (resolve M l file c) (\<lambda>(p, c).
     fbind (ctx_at c p) (\<lambda>ctx.
     if level \<ge> l_min_level ctx then vlog M p file line func level txt c else Inr c))"

definition clog_log_as :: "log_env \<Rightarrow> string \<Rightarrow> string \<Rightarrow> nat \<Rightarrow> string \<Rightarrow> int \<Rightarrow> string \<Rightarrow> clog \<Rightarrow> clog res" where
  "clog_log_as M name file line func level txt c =
     fbind (clog_get_logger M name c) (\<lambda>(l, c).
     fbind (deref l) (\<lambda>p.
     fbind (ctx_at c p) (\<lambda>ctx.
     if level \<ge> l_min_level ctx then vlog M p file line func level txt c else Inr c)))"

definition clog_start_log_as :: "log_env \<Rightarrow> string \<Rightarrow> string \<Rightarrow> nat \<Rightarrow> string \<Rightarrow> int \<Rightarrow> clog \<Rightarrow> clog res" where
  "clog_start_log_as M name file line func level c =
     fbind (clog_get_logger M name c) (\<lambda>(l, c). clog_start_log M l file line func level c)"

definition clog_partial_log_as :: "log_env \<Rightarrow> string \<Rightarrow> string \<Rightarrow> clog \<Rightarrow> clog res" where
  "clog_partial_log_as M name txt c =
     fbind (clog_get_logger M name c) (\<lambda>(l, c).
     fbind (deref l) (\<lambda>p. clog_partial_log M (Some p) [] txt c))"

definition clog_end_log_as :: "log_env \<Rightarrow> string \<Rightarrow> clog \<Rightarrow> clog res" where
  "clog_end_log_as M name c =
     fbind (clog_get_logger M name c) (\<lambda>(l, c).
     fbind (deref l) (\<lambda>p. clog_end_log M (Some p) [] c))"

text \<open>
  Initialisation: \<open>min_str\<close> is the value of \<^verbatim>\<open>CLOG_LOG_LEVEL\<close>, \<open>strtol\<close> the conversion of the C library, \<open>None\<close> when it sets
  \<^verbatim>\<open>errno\<close>. A text that is no number at all converts to 0, which is the level \<^verbatim>\<open>TRACE\<close>.
\<close>

definition log_level_of :: "string \<Rightarrow> int option" where
  "log_level_of s =
     (if s = ''TRACE'' then Some 0 else if s = ''DEBUG'' then Some 1 else if s = ''INFO'' then Some 2
      else if s = ''WARN'' then Some 3 else if s = ''ERROR'' then Some 4 else if s = ''FATAL'' then Some 5 else None)"

definition clog_init :: "log_env \<Rightarrow> bool \<Rightarrow> string option \<Rightarrow> (string \<Rightarrow> int option) \<Rightarrow> clog \<Rightarrow> clog res" where
  "clog_init M malloc_ok min_str strtol c =
     (let c = c\<lparr>loggers := hashmap_new malloc_ok (le_calloc_ok M)\<rparr> in
      fbind
        (case min_str of
           None \<Rightarrow> Inr c
         | Some s \<Rightarrow>
             if s = [] then Inr c
             else case log_level_of s of
               Some l \<Rightarrow> Inr (c\<lparr>clog_default_log_level := l\<rparr>)
             | None \<Rightarrow>
                 (case strtol s of
                    Some v \<Rightarrow> Inr (c\<lparr>clog_default_log_level := sint (word_of_int v :: uint32)\<rparr>)
                  | None \<Rightarrow> clog_log M None ''clog.c'' 49 ''clog_init'' 4
                      ''Environment variable CLOG_LOG_LEVEL must be unset, empty, an integer, or a log level name'' c))
        (\<lambda>c. Inr (c\<lparr>start_time := (0, 0)\<rparr>)))"

subsection \<open>The registry\<close>

definition clog_inv :: "clog \<Rightarrow> bool" where
  "clog_inv c \<longleftrightarrow> (case loggers c of
     None \<Rightarrow> False
   | Some m \<Rightarrow> hm_inv m \<and> hm_table_size m \<le> 2 ^ 29 \<and>
       (\<forall>name v. hm_map m (key_of name) = Some v \<longrightarrow> (\<exists>p. v = Some p \<and> p < length (ctxs c) \<and> l_name (ctxs c ! p) = name)))"

lemma key_of_inj [simp]: "key_of s = key_of t \<longleftrightarrow> s = t"
proof
  have "unat (word_of_nat (of_char ch) :: byte) = of_char ch" for ch
    by (simp add: unat_of_nat)
  then have "inj (\<lambda>ch. word_of_nat (of_char ch) :: byte)" by (metis injI of_char_eq_iff)
  moreover assume "key_of s = key_of t"
  ultimately show "s = t" by (simp add: key_of_def)
qed simp

lemma clog_invD:
  assumes "clog_inv c"
  obtains m where "loggers c = Some m" "hm_inv m" "hm_table_size m \<le> 2 ^ 29"
    "\<And>name v. hm_map m (key_of name) = Some v \<Longrightarrow> \<exists>p. v = Some p \<and> p < length (ctxs c) \<and> l_name (ctxs c ! p) = name"
  using assms by (auto simp: clog_inv_def split: option.splits)

text \<open>The logger a name is registered for.\<close>

definition registered :: "clog \<Rightarrow> string \<Rightarrow> nat option" where
  "registered c name = (case loggers c of None \<Rightarrow> None | Some m \<Rightarrow> (case hm_map m (key_of name) of Some (Some p) \<Rightarrow> Some p | _ \<Rightarrow> None))"

lemma get_logger_registered:
  assumes "clog_inv c" and "registered c name = Some p"
  shows "clog_get_logger M name c = Inr (Some p, c)"
  using assms by (auto simp: clog_get_logger_def registered_def clog_inv_def hashmap_get_holds MAP_OK_def MAP_MISSING_def
      split: option.splits)

text \<open>There is memory for the logger of a name, and its stream can be made.\<close>

definition logger_memory :: "log_env \<Rightarrow> string \<Rightarrow> bool" where
  "logger_memory M name \<longleftrightarrow> le_ctx_ok M \<and> le_name_ok M (length name + 1) \<and> le_cookie_ok M"

lemma unregistered_missing:
  assumes "clog_inv c" and "registered c name = None"
  obtains m where "loggers c = Some m" "hm_inv m" "hm_map m (key_of name) = None"
proof -
  obtain m where m: "loggers c = Some m" "hm_inv m"
    "\<And>name v. hm_map m (key_of name) = Some v \<Longrightarrow> \<exists>p. v = Some p \<and> p < length (ctxs c) \<and> l_name (ctxs c ! p) = name"
    using clog_invD [OF assms(1)] by metis
  then show ?thesis using that assms(2) m(3) [of name] by (auto simp: registered_def split: option.splits)
qed

lemma get_logger_no_memory:
  assumes "clog_inv c" and "registered c name = None" and "\<not> logger_memory M name"
  shows "clog_get_logger M name c = Inl Null_deref"
proof -
  obtain m where "loggers c = Some m" "hm_inv m" "hm_map m (key_of name) = None" using unregistered_missing [OF assms(1,2)] .
  then show ?thesis
    using assms(3) by (simp add: clog_get_logger_def hashmap_get_holds logger_ctx_new_file_def clog_add_logger_def logger_memory_def)
qed

lemma get_logger_new:
  assumes "clog_inv c" and "registered c name = None" and "small_memory (le_calloc_ok M)" and "logger_memory M name"
  shows "\<exists>l c'. clog_get_logger M name c = Inr (l, c') \<and> ctxs c' = ctxs c @ [\<lparr>l_name = name, l_min_level = clog_default_log_level c, l_fp = [], l_log_partial = False\<rparr>] \<and>
    stdout c' = stdout c \<and>
    (l = None \<or> l = Some (length (ctxs c)) \<and> clog_inv c' \<and> registered c' = (registered c)(name \<mapsto> length (ctxs c)))"
proof -
  obtain m where m: "loggers c = Some m" "hm_inv m" "hm_table_size m \<le> 2 ^ 29"
    "\<And>name v. hm_map m (key_of name) = Some v \<Longrightarrow> \<exists>p. v = Some p \<and> p < length (ctxs c) \<and> l_name (ctxs c ! p) = name"
    using clog_invD [OF assms(1)] by metis
  have none: "hm_map m (key_of name) = None"
    using assms(2) m(1) m(4) [of name] by (auto simp: registered_def split: option.splits)
  let ?p = "length (ctxs c)"
  let ?c = "c\<lparr>ctxs := ctxs c @ [\<lparr>l_name = name, l_min_level = clog_default_log_level c, l_fp = [], l_log_partial = False\<rparr>]\<rparr>"
  obtain st m' where put: "hashmap_put PUT_FUEL (le_calloc_ok M) m (key_of name) (Some ?p) = Inr (st, m')"
    and m': "hm_inv m'" "hm_table_size m' \<le> 2 ^ 29" "st = MAP_OK \<Longrightarrow> hm_map m' = (hm_map m)(key_of name \<mapsto> Some ?p)"
    using hm.put_returns [of "le_calloc_ok M" m "key_of name" "Some ?p"] m(2,3) assms(3)
    by (auto simp: fbind_Inr_iff)
  have get: "clog_get_logger M name c = Inr (if st \<noteq> MAP_OK then None else Some ?p, ?c\<lparr>loggers := Some m'\<rparr>)"
    using m(1,2) none put assms(4)
    by (simp add: clog_get_logger_def hashmap_get_holds logger_ctx_new_file_def clog_add_logger_def ctx_at_def logger_memory_def)
  have "clog_inv (?c\<lparr>loggers := Some m'\<rparr>) \<and> registered (?c\<lparr>loggers := Some m'\<rparr>) = (registered c)(name \<mapsto> ?p)" if "st = MAP_OK"
    using m' (1,2) m'(3) [OF that] m(1) m(4) by (fastforce simp: clog_inv_def registered_def fun_eq_iff nth_append)
  then show ?thesis using get by auto
qed

text \<open>
  One logger per name: asking for the same name again gives the same logger and changes nothing, the logger has that name, and the loggers of all
  other names stay what they were.
\<close>

theorem clog_get_logger_stable:
  assumes "clog_inv c" and "small_memory (le_calloc_ok M)" and "clog_get_logger M name c = Inr (Some p, c')"
  shows "clog_inv c' \<and> clog_get_logger M name c' = Inr (Some p, c') \<and> l_name (ctxs c' ! p) = name \<and>
    (\<forall>name'. name' \<noteq> name \<longrightarrow> registered c' name' = registered c name')"
proof (cases "registered c name")
  case None
  then have "logger_memory M name" using get_logger_no_memory [OF assms(1) None, of M] assms(3) by (cases "logger_memory M name") simp_all
  then show ?thesis
    using get_logger_new [OF assms(1) None assms(2)] assms(3) get_logger_registered [of c' name p M] by (auto simp: nth_append)
next
  case (Some q)
  then have "p = q" "c' = c" using get_logger_registered [OF assms(1) Some, of M] assms(3) by auto
  moreover have "l_name (ctxs c ! q) = name"
    using assms(1) Some by (fastforce simp: registered_def clog_inv_def split: option.splits)
  ultimately show ?thesis using assms(1) get_logger_registered [OF assms(1) Some] by simp
qed

definition demo_log_env :: log_env where
  "demo_log_env = \<lparr>le_calloc_ok = \<lambda>n. n \<le> 512, le_ctx_ok = True, le_name_ok = \<lambda>n. n \<le> 64, le_cookie_ok = True, le_clock = \<lambda>n. Some (int n + 1, 0)\<rparr>"

definition empty_loggers :: "nat hashmap_map" where
  "empty_loggers = \<lparr>hm_table_size = 256, hm_size = 0, hm_data = replicate 256 zero_element\<rparr>"

text \<open>A library with one logger, at the level \<^verbatim>\<open>INFO\<close>.\<close>

definition one_logger :: "string \<Rightarrow> clog" where
  "one_logger name = \<lparr>loggers = Some (store empty_loggers (place empty_loggers (key_of name) 0) (key_of name) (Some 0)),
     ctxs = [\<lparr>l_name = name, l_min_level = 2, l_fp = [], l_log_partial = False\<rparr>],
     clog_default_log_level = 2, start_time = (0, 0), event_context = [], stdout = [], clock_reads = 0\<rparr>"

lemma one_logger_inv: "clog_inv (one_logger name)" "registered (one_logger name) name = Some 0"
proof -
  have e: "hm_inv empty_loggers" "hm_map empty_loggers = Map.empty"
    by (rule zero_table_inv; simp add: empty_loggers_def)+
  then have "first_place empty_loggers (key_of name) 0"
    by (intro zero_first_place) (simp_all add: hm_inv_def empty_loggers_def)
  note s = store_inv [OF e(1) this] store_map [OF e(1) this]
  show "clog_inv (one_logger name)" "registered (one_logger name) name = Some 0"
    using s by (auto simp: clog_inv_def one_logger_def registered_def e(2)) (auto simp: empty_loggers_def)
qed

lemma one_logger_others: "name' \<noteq> name \<Longrightarrow> registered (one_logger name) name' = None"
proof -
  have e: "hm_inv empty_loggers" "hm_map empty_loggers = Map.empty"
    by (rule zero_table_inv; simp add: empty_loggers_def)+
  then have "first_place empty_loggers (key_of name) 0"
    by (intro zero_first_place) (simp_all add: hm_inv_def empty_loggers_def)
  then show "name' \<noteq> name \<Longrightarrow> registered (one_logger name) name' = None"
    using store_map [OF e(1)] by (simp add: registered_def one_logger_def e(2))
qed

definition demo_clog :: clog where
  "demo_clog = one_logger ''util''"

lemma demo_clog_inv: "clog_inv demo_clog" "registered demo_clog ''util'' = Some 0"
  by (simp_all add: demo_clog_def one_logger_inv)

lemma clog_get_logger_stable_witness:
  "clog_inv demo_clog \<and> clog_get_logger demo_log_env ''util'' demo_clog = Inr (Some 0, demo_clog) \<and> l_name (ctxs demo_clog ! 0) = ''util''"
  using clog_get_logger_stable [of demo_clog demo_log_env "''util''" 0 demo_clog]
  by (simp add: demo_clog_inv get_logger_registered) (simp add: demo_log_env_def small_memory_def)

subsection \<open>What is written\<close>

lemma start_color_levels:
  assumes "0 \<le> level" and "level \<le> 5"
  shows "\<exists>s s'. start_color (default_level_colors ! nat level OR 0x02) = Inr s \<and> start_color (default_level_colors ! nat level) = Inr s'"
proof -
  have "level \<in> {0, 1, 2, 3, 4, 5}" using assms by auto
  then show ?thesis
    by (elim insertE; simp add: default_level_colors_def start_color_def color_at_def Let_def
        FG_COLORS_def FG_HI_COLORS_def BG_COLORS_def BG_HI_COLORS_def)
qed

lemma start_color_none: "\<exists>s s'. start_color (0 OR 0x02) = Inr s \<and> start_color 0 = Inr s'"
  by (simp add: start_color_def Let_def)

lemma time_offset_frame: "clog_time_offset M c = (d, c') \<Longrightarrow> \<exists>t n. c' = c\<lparr>start_time := t, clock_reads := n\<rparr>"
  by (cases c) (auto simp: clog_time_offset_def read_clock_def split: if_splits option.splits)

lemma start_file_msg_writes:
  "\<exists>bold plain diff t n. start_file_msg M file line func level c =
     Inr (c\<lparr>stdout := stdout c @ bold @ head_text diff (event_context c) file line func @ default_color @ plain, start_time := t, clock_reads := n\<rparr>)"
proof -
  obtain d c' where tm: "clog_time_offset M c = (d, c')" by force
  obtain t n where c': "c' = c\<lparr>start_time := t, clock_reads := n\<rparr>" using time_offset_frame [OF tm] by blast
  obtain s s' where "start_color ((if 0 \<le> level \<and> level \<le> 5 then default_level_colors ! nat level else 0) OR 0x02) = Inr s"
    "start_color (if 0 \<le> level \<and> level \<le> 5 then default_level_colors ! nat level else 0) = Inr s'"
    using start_color_levels [of level] start_color_none by (cases "0 \<le> level \<and> level \<le> 5") auto
  then have "start_file_msg M file line func level c =
     Inr (c\<lparr>stdout := stdout c @ s @ head_text d (event_context c) file line func @ default_color @ s', start_time := t, clock_reads := n\<rparr>)"
    unfolding start_file_msg_def Let_def tm c' by (simp add: out_def)
  then show ?thesis by blast
qed

text \<open>
  C32. The level filter and the shape of a message: below the logger's level nothing happens; at or above it, one message appears on the output: a head, the text,
  then whatever had been written to the logger's own stream before, then the colour reset and a newline. The stream is empty afterwards and the
  logger is outside a message again.
\<close>

theorem clog_log_writes:
  assumes "p < length (ctxs c)"
  shows "if level < l_min_level (ctxs c ! p) then clog_log M (Some p) file line func level txt c = Inr c
    else \<exists>bold plain diff c'. clog_log M (Some p) file line func level txt c = Inr c' \<and>
      stdout c' = stdout c @ bold @ head_text diff (event_context c) file line func @ default_color @ plain @ txt @ l_fp (ctxs c ! p) @ default_color @ ''\<newline>'' \<and>
      ctxs c' = (ctxs c)[p := (ctxs c ! p)\<lparr>l_fp := [], l_log_partial := False\<rparr>] \<and>
      loggers c' = loggers c \<and> event_context c' = event_context c"
proof (cases "level < l_min_level (ctxs c ! p)")
  case True
  then show ?thesis using assms by (simp add: clog_log_def resolve_def ctx_at_def)
next
  case False
  let ?c = "upd_ctx p (\<lambda>l. l\<lparr>l_log_partial := True\<rparr>) c"
  obtain bold plain diff t n where s: "start_file_msg M file line func level ?c =
      Inr (?c\<lparr>stdout := stdout ?c @ bold @ head_text diff (event_context ?c) file line func @ default_color @ plain, start_time := t, clock_reads := n\<rparr>)"
    using start_file_msg_writes by blast
  show ?thesis using assms False s
    by (simp add: clog_log_def resolve_def ctx_at_def vlog_def clog_start_log_def clog_end_log_def fflush_ctx_def
        logger_call_write_def upd_ctx_def out_def end_file_msg_def Let_def) blast
qed

lemma clog_log_writes_witness:
  "\<exists>bold plain diff c'. clog_log demo_log_env (Some 0) ''util.c'' 10 ''f'' 3 ''hello'' demo_clog = Inr c' \<and>
     stdout c' = bold @ head_text diff [] ''util.c'' 10 ''f'' @ default_color @ plain @ ''hello'' @ default_color @ ''\<newline>'' \<and> clog_log demo_log_env (Some 0) ''util.c'' 10 ''f'' 1 ''hello'' demo_clog = Inr demo_clog"
  using clog_log_writes [of 0 demo_clog 3 demo_log_env "''util.c''" 10 "''f''" "''hello''"]
    clog_log_writes [of 0 demo_clog 1 demo_log_env "''util.c''" 10 "''f''" "''hello''"]
  by (auto simp: demo_clog_def one_logger_def)

end
