(* ===== verification/Finger_Heap.thy ===== *)
theory Finger_Heap
  imports Finger_Table
begin

text \<open>
  The finger list as the code has it: \<^verbatim>\<open>Finger\<close> objects in memory, linked in both directions, with a head and a tail pointer in
  the server. The operations of \<^verbatim>\<open>finger.c\<close> follow and change these pointers; a pointer that is null or was freed is a fault when it is
  used. The theory shows that they implement the list operations of \<^verbatim>\<open>Finger_Table\<close>: the pointer code never follows a bad pointer,
  leaves a well-linked list, and stands for the result of the list operation.

  The loops over the list carry fuel; one more than the length of the list is enough.
\<close>

subsection \<open>The heap\<close>

type_synonym ptr = nat

record cell =
  c_finger :: Finger
  c_next :: "ptr option"
  c_prev :: "ptr option"

text \<open>The server with its two pointers; the list of the abstract server is not used.\<close>

record hserver =
  h_cells :: "ptr \<rightharpoonup> cell"
  h_head :: "ptr option"
  h_tail :: "ptr option"
  h_srv :: ChordServer

definition load :: "hserver \<Rightarrow> ptr \<Rightarrow> cell res" where
  "load h p = (case h_cells h p of None \<Rightarrow> Inl Null_deref | Some c \<Rightarrow> Inr c)"

definition store_cell :: "ptr \<Rightarrow> (cell \<Rightarrow> cell) \<Rightarrow> hserver \<Rightarrow> hserver res" where
  "store_cell p g h = fbind (load h p) (\<lambda>c. Inr (h\<lparr>h_cells := (h_cells h)(p \<mapsto> g c)\<rparr>))"

definition free_cell :: "ptr \<Rightarrow> hserver \<Rightarrow> hserver" where
  "free_cell p h = h\<lparr>h_cells := (h_cells h)(p := None)\<rparr>"

subsection \<open>The operations on pointers\<close>

text \<open>The searches from the head along \<^verbatim>\<open>next\<close> and from the tail along \<^verbatim>\<open>prev\<close>.\<close>

primrec scan_next :: "nat \<Rightarrow> hserver \<Rightarrow> (Finger \<Rightarrow> bool) \<Rightarrow> ptr option \<Rightarrow> ptr option res" where
  "scan_next 0 h P f = Inl Out_of_fuel"
| "scan_next (Suc n) h P f =
     (case f of
        None \<Rightarrow> Inr None
      | Some p \<Rightarrow> fbind (load h p) (\<lambda>c. if P (c_finger c) then Inr (Some p) else scan_next n h P (c_next c)))"

primrec scan_prev :: "nat \<Rightarrow> hserver \<Rightarrow> (Finger \<Rightarrow> bool) \<Rightarrow> ptr option \<Rightarrow> ptr option res" where
  "scan_prev 0 h P f = Inl Out_of_fuel"
| "scan_prev (Suc n) h P f =
     (case f of
        None \<Rightarrow> Inr None
      | Some p \<Rightarrow> fbind (load h p) (\<lambda>c. if P (c_finger c) then Inr (Some p) else scan_prev n h P (c_prev c)))"

definition succ_finger_h :: "nat \<Rightarrow> hserver \<Rightarrow> ptr option res" where
  "succ_finger_h n h = scan_next n h is_active (h_head h)"

definition pred_finger_h :: "nat \<Rightarrow> hserver \<Rightarrow> ptr option res" where
  "pred_finger_h n h = scan_prev n h is_active (h_tail h)"

definition closest_preceding_finger_h :: "nat \<Rightarrow> hserver \<Rightarrow> chordID \<Rightarrow> bool \<Rightarrow> ptr option res" where
  "closest_preceding_finger_h n h ident fall =
     scan_prev n h (\<lambda>f. (fall \<or> is_active f) \<and> id_is_between (f_id f) (s_id (h_srv h)) ident) (h_tail h)"

definition get_finger_h :: "nat \<Rightarrow> hserver \<Rightarrow> chordID \<Rightarrow> ptr option res" where
  "get_finger_h n h ident = scan_next n h (\<lambda>f. id_equals ident (f_id f)) (h_head h)"

primrec worst_h :: "nat \<Rightarrow> hserver \<Rightarrow> ptr option \<Rightarrow> int \<Rightarrow> ptr option \<Rightarrow> ptr option res" where
  "worst_h 0 h f npings_record worst_finger = Inl Out_of_fuel"
| "worst_h (Suc n) h f npings_record worst_finger =
     (case f of
        None \<Rightarrow> Inr worst_finger
      | Some p \<Rightarrow>
          fbind (load h p) (\<lambda>c.
          if is_passive (c_finger c) \<and> f_npings (c_finger c) > npings_record then
            if f_npings (c_finger c) \<ge> PING_THRESH - 1 then Inr (Some p)
            else worst_h n h (c_next c) (f_npings (c_finger c)) (Some p)
          else worst_h n h (c_next c) npings_record worst_finger))"

definition get_worst_passive_finger_h :: "nat \<Rightarrow> hserver \<Rightarrow> ptr option res" where
  "get_worst_passive_finger_h n h = worst_h n h (h_head h) (- 1) None"

definition fingerlist_insert_h :: "nat \<Rightarrow> hserver \<Rightarrow> ptr \<Rightarrow> hserver res" where
  "fingerlist_insert_h n h new_f =
     (case h_head h of
        None \<Rightarrow> Inr (h\<lparr>h_head := Some new_f, h_tail := Some new_f\<rparr>)
      | Some head \<Rightarrow>
          fbind (load h new_f) (\<lambda>c.
          fbind (closest_preceding_finger_h n h (f_id (c_finger c)) True) (\<lambda>prec_f.
          case prec_f of
            None \<Rightarrow>
              fbind (store_cell new_f (\<lambda>c. c\<lparr>c_next := Some head, c_prev := None\<rparr>) h) (\<lambda>h.
              fbind (store_cell head (\<lambda>c. c\<lparr>c_prev := Some new_f\<rparr>) h) (\<lambda>h.
              Inr (h\<lparr>h_head := Some new_f\<rparr>)))
          | Some prec \<Rightarrow>
              fbind (load h prec) (\<lambda>pc.
              fbind (store_cell new_f (\<lambda>c. c\<lparr>c_next := c_next pc\<rparr>) h) (\<lambda>h.
              fbind (case c_next pc of
                       Some nx \<Rightarrow> store_cell nx (\<lambda>c. c\<lparr>c_prev := Some new_f\<rparr>) h
                     | None \<Rightarrow> Inr (h\<lparr>h_tail := Some new_f\<rparr>)) (\<lambda>h.
              fbind (store_cell new_f (\<lambda>c. c\<lparr>c_prev := Some prec\<rparr>) h) (\<lambda>h.
              store_cell prec (\<lambda>c. c\<lparr>c_next := Some new_f\<rparr>) h)))))))"

text \<open>Taking a finger out of the links.\<close>

definition unlink_h :: "hserver \<Rightarrow> ptr \<Rightarrow> hserver res" where
  "unlink_h h f =
     fbind (load h f) (\<lambda>c.
     if h_tail h \<noteq> Some f \<and> h_head h \<noteq> Some f then
       fbind (deref (c_prev c)) (\<lambda>pv.
       fbind (store_cell pv (\<lambda>c'. c'\<lparr>c_next := c_next c\<rparr>) h) (\<lambda>h.
       fbind (deref (c_next c)) (\<lambda>nx.
       store_cell nx (\<lambda>c'. c'\<lparr>c_prev := c_prev c\<rparr>) h)))
     else
       fbind (if h_head h = Some f then
                (let h = h\<lparr>h_head := c_next c\<rparr> in
                 case c_next c of Some nx \<Rightarrow> store_cell nx (\<lambda>c'. c'\<lparr>c_prev := None\<rparr>) h | None \<Rightarrow> Inr h)
              else Inr h) (\<lambda>h.
       if h_tail h = Some f then
         (let h = h\<lparr>h_tail := c_prev c\<rparr> in
          case c_prev c of Some pv \<Rightarrow> store_cell pv (\<lambda>c'. c'\<lparr>c_next := None\<rparr>) h | None \<Rightarrow> Inr h)
       else Inr h))"

definition remove_finger_h :: "nat \<Rightarrow> hserver \<Rightarrow> ptr \<Rightarrow> hserver res" where
  "remove_finger_h n h f =
     fbind (load h f) (\<lambda>c.
     let h = (if is_passive (c_finger c)
              then h\<lparr>h_srv := (h_srv h)\<lparr>num_passive_fingers := num_passive_fingers (h_srv h) - 1\<rparr>\<rparr> else h) in
     fbind (pred_finger_h n h) (\<lambda>pred.
     fbind (unlink_h h f) (\<lambda>h.
     fbind (pred_finger_h n h) (\<lambda>pf.
     fbind (if pred \<noteq> pf then
              (case pf of
                 None \<Rightarrow> Inr (h\<lparr>h_srv := chord_update_range (h_srv h) (s_id (h_srv h)) (s_id (h_srv h))\<rparr>)
               | Some q \<Rightarrow>
                   fbind (load h q) (\<lambda>c.
                   Inr (h\<lparr>h_srv := chord_update_range (h_srv h) (f_id (c_finger c)) (s_id (h_srv h))\<rparr>)))
            else Inr h) (\<lambda>h.
     Inr (free_cell f h))))))"

text \<open>\<open>fresh\<close> is the address that \<^verbatim>\<open>emalloc\<close> returns.\<close>

definition new_finger_h :: "ptr \<Rightarrow> Node \<Rightarrow> hserver \<Rightarrow> hserver" where
  "new_finger_h fresh node h = h\<lparr>h_cells := (h_cells h)(fresh \<mapsto> \<lparr>c_finger = new_finger node, c_next = None, c_prev = None\<rparr>)\<rparr>"

definition evict_h :: "nat \<Rightarrow> hserver \<Rightarrow> hserver res" where
  "evict_h n h =
     (if num_passive_fingers (h_srv h) \<ge> MAX_PASSIVE_FINGERS then
        fbind (get_worst_passive_finger_h n h) (\<lambda>worst_finger.
        case worst_finger of
          None \<Rightarrow> Inl Assert_failed
        | Some w \<Rightarrow> remove_finger_h n h w)
      else Inr h)"

definition insert_finger_h ::
  "nat \<Rightarrow> ptr \<Rightarrow> hserver \<Rightarrow> chordID \<Rightarrow> in6_addr \<Rightarrow> ushort \<Rightarrow> (ptr option \<times> bool option \<times> hserver) res" where
  "insert_finger_h n fresh h ident addr port =
     (if v6_addr_equals (s_addr (h_srv h)) addr \<and> s_port (h_srv h) = port then Inr (None, None, h)
      else
        fbind (get_finger_h n h ident) (\<lambda>f.
        case f of
          Some p \<Rightarrow>
            fbind (load h p) (\<lambda>c.
            if \<not> v6_addr_equals (f_addr (c_finger c)) addr then
              fbind (store_cell p (\<lambda>c. c\<lparr>c_finger := (c_finger c)\<lparr>f_node := (f_node (c_finger c))\<lparr>n_addr := addr, n_port := port\<rparr>,
                       f_rtt_avg := 0, f_rtt_dev := 0, f_npings := 0\<rparr>\<rparr>) h) (\<lambda>h.
              Inr (Some p, Some False, h))
            else Inr (Some p, Some False, h))
        | None \<Rightarrow>
            fbind (evict_h n h) (\<lambda>h.
            let h = h\<lparr>h_srv := (h_srv h)\<lparr>num_passive_fingers := num_passive_fingers (h_srv h) + 1\<rparr>\<rparr>;
                h = new_finger_h fresh \<lparr>n_id = ident, n_addr = addr, n_port = port\<rparr> h
            in fbind (fingerlist_insert_h n h fresh) (\<lambda>h. Inr (Some fresh, Some True, h)))))"

subsection \<open>Well-linked lists\<close>

definition hd_or :: "ptr list \<Rightarrow> ptr option \<Rightarrow> ptr option" where
  "hd_or ps nx = (case ps of [] \<Rightarrow> nx | p # _ \<Rightarrow> Some p)"

definition last_or :: "ptr list \<Rightarrow> ptr option \<Rightarrow> ptr option" where
  "last_or ps pv = (if ps = [] then pv else Some (last ps))"

lemma hd_or_simps [simp]: "hd_or [] nx = nx" "hd_or (p # ps) nx = Some p"
  by (simp_all add: hd_or_def)

lemma last_or_simps [simp]: "last_or [] pv = pv" "last_or (ps @ [p]) pv = Some p" "last_or (p # ps) pv = last_or ps (Some p)"
  by (simp_all add: last_or_def)

lemma hd_or_append [simp]: "hd_or (ps @ qs) nx = hd_or ps (hd_or qs nx)"
  by (cases ps) simp_all

lemma last_or_append [simp]: "last_or (ps @ qs) pv = last_or qs (last_or ps pv)"
  by (induction ps arbitrary: pv) simp_all

lemma last_or_Some: "last_or ps pv = Some p \<Longrightarrow> p \<in> set ps \<or> pv = Some p"
  by (auto simp: last_or_def split: if_splits)

lemma hd_or_Some: "hd_or ps nx = Some p \<Longrightarrow> p \<in> set ps \<or> nx = Some p"
  by (auto simp: hd_or_def split: list.splits)

text \<open>A segment of linked cells, between the pointer before it and the pointer after it.\<close>

fun dlseg :: "(ptr \<rightharpoonup> cell) \<Rightarrow> ptr option \<Rightarrow> ptr list \<Rightarrow> ptr option \<Rightarrow> bool" where
  "dlseg m pv [] nx = True"
| "dlseg m pv (p # ps) nx =
     ((\<exists>f. m p = Some \<lparr>c_finger = f, c_next = hd_or ps nx, c_prev = pv\<rparr>) \<and> dlseg m (Some p) ps nx)"

lemma dlseg_append [simp]:
  "dlseg m pv (ps @ qs) nx \<longleftrightarrow> dlseg m pv ps (hd_or qs nx) \<and> dlseg m (last_or ps pv) qs nx"
  by (induction ps arbitrary: pv) auto

lemma dlseg_other [simp]: "p \<notin> set ps \<Longrightarrow> dlseg (m(p := c)) pv ps nx = dlseg m pv ps nx"
  by (induction ps arbitrary: pv) auto

definition linked :: "hserver \<Rightarrow> ptr list \<Rightarrow> bool" where
  "linked h ps \<longleftrightarrow> distinct ps \<and> dlseg (h_cells h) None ps None \<and> h_head h = hd_or ps None \<and> h_tail h = last_or ps None"

definition finger_of :: "hserver \<Rightarrow> ptr \<Rightarrow> Finger" where
  "finger_of h p = c_finger (the (h_cells h p))"

text \<open>The server that a linked list of fingers stands for.\<close>

definition abs_srv :: "hserver \<Rightarrow> ptr list \<Rightarrow> ChordServer" where
  "abs_srv h ps = (h_srv h)\<lparr>flist := map (finger_of h) ps\<rparr>"

lemma abs_srv_sel [simp]: "flist (abs_srv h ps) = map (finger_of h) ps" "s_node (abs_srv h ps) = s_node (h_srv h)"
  "num_passive_fingers (abs_srv h ps) = num_passive_fingers (h_srv h)" "pred_bound (abs_srv h ps) = pred_bound (h_srv h)"
  by (simp_all add: abs_srv_def)

subsection \<open>The searches\<close>

lemma dlseg_load: "dlseg (h_cells h) pv (p # ps) nx \<Longrightarrow> load h p = Inr \<lparr>c_finger = finger_of h p, c_next = hd_or ps nx, c_prev = pv\<rparr>"
  by (auto simp: load_def finger_of_def)

lemma linked_load:
  assumes "linked h ps" and "q \<in> set ps"
  shows "\<exists>c. load h q = Inr c \<and> c_finger c = finger_of h q"
proof -
  obtain xs ys where "ps = xs @ q # ys" using assms(2) by (auto dest: split_list)
  then show ?thesis using assms(1) dlseg_load [of h "last_or xs None" q ys None] by (simp add: linked_def)
qed

lemma scan_next_find:
  assumes "dlseg (h_cells h) pv ps None" and "length ps < n"
  shows "scan_next n h P (hd_or ps None) = Inr (find (\<lambda>p. P (finger_of h p)) ps)"
  using assms
proof (induction ps arbitrary: pv n)
  case (Cons p ps)
  then obtain k where "n = Suc k" "length ps < k" by (cases n) auto
  then show ?case using Cons.IH [of "Some p" k] Cons.prems(1) dlseg_load [OF Cons.prems(1)] by simp
qed (auto simp: gr0_conv_Suc)

lemma scan_prev_find:
  assumes "dlseg (h_cells h) None ps nx" and "length ps < n"
  shows "scan_prev n h P (last_or ps None) = Inr (find (\<lambda>p. P (finger_of h p)) (rev ps))"
  using assms
proof (induction ps arbitrary: nx n rule: rev_induct)
  case (snoc p ps)
  then obtain k where k: "n = Suc k" "length ps < k" by (cases n) auto
  have "load h p = Inr \<lparr>c_finger = finger_of h p, c_next = nx, c_prev = last_or ps None\<rparr>"
    using dlseg_load [of h "last_or ps None" p "[]" nx] snoc.prems(1) by simp
  then show ?case using snoc.IH [of "Some p" k] snoc.prems(1) k by simp
qed (auto simp: gr0_conv_Suc)

lemma find_map_ptr: "find P (map g xs) = map_option g (find (\<lambda>x. P (g x)) xs)"
  by (induction xs) auto

lemma worst_h_eq:
  assumes "dlseg (h_cells h) pv ps None" and "length ps < n"
  shows "\<exists>w'. worst_h n h (hd_or ps None) r w = Inr w' \<and> (w' = w \<or> set_option w' \<subseteq> set ps) \<and>
    map_option (finger_of h) w' = worst_passive_from (map (finger_of h) ps) r (map_option (finger_of h) w)"
  using assms
proof (induction ps arbitrary: pv n r w)
  case (Cons p ps)
  then obtain k where k: "n = Suc k" "length ps < k" by (cases n) auto
  let ?f = "finger_of h p"
  have ld: "load h p = Inr \<lparr>c_finger = ?f, c_next = hd_or ps None, c_prev = pv\<rparr>" using dlseg_load [OF Cons.prems(1)] .
  have seg: "dlseg (h_cells h) (Some p) ps None" using Cons.prems(1) by simp
  show ?case
    using Cons.IH [OF seg k(2), of "f_npings ?f" "Some p"] Cons.IH [OF seg k(2), of r w]
    by (auto simp: k(1) ld)
qed (auto simp: gr0_conv_Suc)

lemma linkedD:
  assumes "linked h ps"
  shows "distinct ps" "dlseg (h_cells h) None ps None" "h_head h = hd_or ps None" "h_tail h = last_or ps None"
  using assms by (simp_all add: linked_def)

lemma pred_finger_h_eq:
  assumes "linked h ps" and "length ps < n"
  shows "pred_finger_h n h = Inr (find (\<lambda>p. is_active (finger_of h p)) (rev ps))"
    and "pred_finger (abs_srv h ps) = map_option (finger_of h) (find (\<lambda>p. is_active (finger_of h p)) (rev ps))"
  using scan_prev_find [OF linkedD(2) [OF assms(1)] assms(2)] linkedD(4) [OF assms(1)]
  by (simp_all add: pred_finger_h_def pred_finger_def rev_map find_map_ptr)

lemma closest_preceding_finger_h_eq:
  assumes "linked h ps" and "length ps < n"
  obtains r where "closest_preceding_finger_h n h ident fall = Inr r" "set_option r \<subseteq> set ps"
    "closest_preceding_finger (abs_srv h ps) ident fall = map_option (finger_of h) r"
proof
  let ?P = "\<lambda>p. (fall \<or> is_active (finger_of h p)) \<and> id_is_between (f_id (finger_of h p)) (s_id (h_srv h)) ident"
  show "closest_preceding_finger_h n h ident fall = Inr (find ?P (rev ps))"
    using scan_prev_find [OF linkedD(2) [OF assms(1)] assms(2)] linkedD(4) [OF assms(1)]
    by (simp add: closest_preceding_finger_h_def)
  show "set_option (find ?P (rev ps)) \<subseteq> set ps" by (auto dest: find_rev_Some_in)
  show "closest_preceding_finger (abs_srv h ps) ident fall = map_option (finger_of h) (find ?P (rev ps))"
    by (simp add: closest_preceding_finger_def rev_map find_map_ptr)
qed

subsection \<open>Linking and unlinking\<close>

text \<open>Two heaps whose cells hold the same fingers, with the same server.\<close>

definition same_fingers :: "hserver \<Rightarrow> hserver \<Rightarrow> bool" where
  "same_fingers h h' \<longleftrightarrow> finger_of h' = finger_of h \<and> dom (h_cells h') = dom (h_cells h) \<and> h_srv h' = h_srv h"

lemma same_fingers_abs: "same_fingers h h' \<Longrightarrow> abs_srv h' ps = abs_srv h ps"
  by (simp add: same_fingers_def abs_srv_def)

lemma store_cell_eq: "h_cells h p = Some c \<Longrightarrow> store_cell p g h = Inr (h\<lparr>h_cells := (h_cells h)(p \<mapsto> g c)\<rparr>)"
  by (simp add: store_cell_def load_def)

lemma unlink_h_linked:
  assumes "linked h (xs @ p # ys)"
  shows "\<exists>h'. unlink_h h p = Inr h' \<and> linked h' (xs @ ys) \<and> same_fingers h h'"
proof -
  note d = linkedD [OF assms]
  obtain c where p: "h_cells h p = Some c" "c_next c = hd_or ys None" "c_prev c = last_or xs None" using d(2) by auto
  show ?thesis
  proof (cases xs rule: rev_cases; cases ys)
    assume e: "xs = []" "ys = []"
    then show ?thesis using d p by (auto simp: unlink_h_def load_def linked_def same_fingers_def finger_of_def fun_eq_iff dest: last_or_Some hd_or_Some)
  next
    fix y ys' assume e: "xs = []" "ys = y # ys'"
    then show ?thesis using d p
      by (auto simp: unlink_h_def load_def store_cell_def linked_def same_fingers_def finger_of_def fun_eq_iff dest: last_or_Some hd_or_Some)
  next
    fix xs' x assume e: "xs = xs' @ [x]" "ys = []"
    then show ?thesis using d p
      by (auto simp: unlink_h_def load_def store_cell_def linked_def same_fingers_def finger_of_def fun_eq_iff dest: last_or_Some hd_or_Some)
  next
    fix xs' x y ys' assume e: "xs = xs' @ [x]" "ys = y # ys'"
    then show ?thesis using d p
      by (auto simp: unlink_h_def load_def store_cell_def linked_def same_fingers_def finger_of_def fun_eq_iff dest: last_or_Some hd_or_Some)
  qed
qed

lemma link_first:
  assumes "linked h (q # ys)" and "h_cells h n = Some c" and "n \<notin> set (q # ys)"
  shows "\<exists>h'. fbind (store_cell n (\<lambda>c. c\<lparr>c_next := Some q, c_prev := None\<rparr>) h) (\<lambda>h.
      fbind (store_cell q (\<lambda>c. c\<lparr>c_prev := Some n\<rparr>) h) (\<lambda>h. Inr (h\<lparr>h_head := Some n\<rparr>))) = Inr h' \<and>
    linked h' (n # q # ys) \<and> same_fingers h h'"
  using linkedD [OF assms(1)] assms(2,3)
  by (cases c) (auto simp: load_def store_cell_def linked_def same_fingers_def finger_of_def fun_eq_iff)

lemma link_after:
  assumes "linked h (xs @ q # ys)" and "h_cells h n = Some c" and "n \<notin> set (xs @ q # ys)"
  shows "\<exists>h'. fbind (load h q) (\<lambda>pc.
      fbind (store_cell n (\<lambda>c. c\<lparr>c_next := c_next pc\<rparr>) h) (\<lambda>h.
      fbind (case c_next pc of
               Some nx \<Rightarrow> store_cell nx (\<lambda>c. c\<lparr>c_prev := Some n\<rparr>) h
             | None \<Rightarrow> Inr (h\<lparr>h_tail := Some n\<rparr>)) (\<lambda>h.
      fbind (store_cell n (\<lambda>c. c\<lparr>c_prev := Some q\<rparr>) h) (\<lambda>h.
      store_cell q (\<lambda>c. c\<lparr>c_next := Some n\<rparr>) h)))) = Inr h' \<and>
    linked h' (xs @ q # n # ys) \<and> same_fingers h h'"
proof (cases ys)
  case Nil
  then show ?thesis using linkedD [OF assms(1)] assms(2,3)
    by (cases c) (auto simp: load_def store_cell_def linked_def same_fingers_def finger_of_def fun_eq_iff)
next
  case (Cons y ys')
  then show ?thesis using linkedD [OF assms(1)] assms(2,3)
    by (cases c) (auto simp: load_def store_cell_def linked_def same_fingers_def finger_of_def fun_eq_iff)
qed

text \<open>\<^verbatim>\<open>fingerlist_insert\<close> on pointers implements the insertion into the list.\<close>

lemma fingerlist_insert_h_ok:
  assumes "linked h ps" and "h_cells h n = Some \<lparr>c_finger = f, c_next = None, c_prev = None\<rparr>" and "n \<notin> set ps"
    and "distinct (map f_id (flist (abs_srv h ps)))" and "length ps < fuel"
  shows "\<exists>h' ps'. fingerlist_insert_h fuel h n = Inr h' \<and> linked h' ps' \<and> same_fingers h h' \<and>
    set ps' = insert n (set ps) \<and> abs_srv h' ps' = fingerlist_insert (abs_srv h ps) f"
proof -
  have f: "finger_of h n = f" using assms(2) by (simp add: finger_of_def)
  have ld: "load h n = Inr \<lparr>c_finger = f, c_next = None, c_prev = None\<rparr>" using assms(2) by (simp add: load_def)
  obtain r where r: "closest_preceding_finger_h fuel h (f_id f) True = Inr r" "set_option r \<subseteq> set ps"
    "closest_preceding_finger (abs_srv h ps) (f_id f) True = map_option (finger_of h) r"
    using closest_preceding_finger_h_eq [OF assms(1,5)] by metis
  note head = linkedD(3) [OF assms(1)]
  show ?thesis
  proof (cases ps)
    case Nil
    let ?h = "h\<lparr>h_head := Some n, h_tail := Some n\<rparr>"
    have "linked ?h [n]" "same_fingers h ?h" using assms(1,2) by (simp_all add: linked_def same_fingers_def finger_of_def fun_eq_iff)
    moreover have "abs_srv ?h [n] = fingerlist_insert (abs_srv h ps) f"
      using Nil f by (simp add: fingerlist_insert_def abs_srv_def finger_of_def)
    ultimately show ?thesis using Nil head by (intro exI [of _ ?h] exI [of _ "[n]"]) (auto simp: fingerlist_insert_h_def)
  next
    case (Cons q ys)
    show ?thesis
    proof (cases r)
      case None
      obtain h' where h': "fbind (store_cell n (\<lambda>c. c\<lparr>c_next := Some q, c_prev := None\<rparr>) h) (\<lambda>h.
        fbind (store_cell q (\<lambda>c. c\<lparr>c_prev := Some n\<rparr>) h) (\<lambda>h. Inr (h\<lparr>h_head := Some n\<rparr>))) = Inr h'"
        "linked h' (n # q # ys)" "same_fingers h h'"
        using link_first [of h q ys n] assms(1-3) Cons by blast
      have "abs_srv h' (n # q # ys) = fingerlist_insert (abs_srv h ps) f"
        using Cons None r(3) f same_fingers_abs [OF h'(3)] by (simp add: fingerlist_insert_def) (simp add: abs_srv_def f)
      then show ?thesis
        using h' Cons head None r(1) ld by (intro exI [of _ h'] exI [of _ "n # q # ys"]) (auto simp: fingerlist_insert_h_def)
    next
      case (Some p)
      then obtain xs zs where ps: "ps = xs @ p # zs" using r(2) by (auto dest: split_list)
      obtain h' where h': "fbind (load h p) (\<lambda>pc.
        fbind (store_cell n (\<lambda>c. c\<lparr>c_next := c_next pc\<rparr>) h) (\<lambda>h.
        fbind (case c_next pc of
                 Some nx \<Rightarrow> store_cell nx (\<lambda>c. c\<lparr>c_prev := Some n\<rparr>) h
               | None \<Rightarrow> Inr (h\<lparr>h_tail := Some n\<rparr>)) (\<lambda>h.
        fbind (store_cell n (\<lambda>c. c\<lparr>c_prev := Some p\<rparr>) h) (\<lambda>h.
        store_cell p (\<lambda>c. c\<lparr>c_next := Some n\<rparr>) h)))) = Inr h'" "linked h' (xs @ p # n # zs)" "same_fingers h h'"
        using link_after [of h xs p zs n] assms(1-3) ps by blast
      have "f_id (finger_of h p) \<notin> f_id ` set (map (finger_of h) xs)" using assms(4) ps by auto
      then have "list_insert_after (f_id (finger_of h p)) f (map (finger_of h) ps) = map (finger_of h) (xs @ p # n # zs)"
        using ps f by (simp add: list_insert_after_split)
      then have "abs_srv h' (xs @ p # n # zs) = fingerlist_insert (abs_srv h ps) f"
        using Cons Some r(3) same_fingers_abs [OF h'(3)] by (simp add: fingerlist_insert_def) (simp add: abs_srv_def)
      moreover have "set (xs @ p # n # zs) = insert n (set ps)" using ps by auto
      ultimately show ?thesis
        using h' Cons head Some r(1) ld by (intro exI [of _ h'] exI [of _ "xs @ p # n # zs"]) (simp add: fingerlist_insert_h_def)
    qed
  qed
qed

subsection \<open>Removing\<close>

lemma list_remove_split: "f_id p \<notin> f_id ` set xs \<Longrightarrow> list_remove (f_id p) (xs @ p # ys) = xs @ ys"
  by (induction xs) auto

lemma free_cell_linked: "linked h ps \<Longrightarrow> p \<notin> set ps \<Longrightarrow> linked (free_cell p h) ps"
  by (simp add: linked_def free_cell_def)

lemma free_cell_abs: "p \<notin> set ps \<Longrightarrow> abs_srv (free_cell p h) ps = abs_srv h ps"
  by (simp add: abs_srv_def free_cell_def finger_of_def)

lemma with_srv_linked: "linked (h\<lparr>h_srv := s\<rparr>) ps = linked h ps"
  by (simp add: linked_def)

lemma with_srv_abs: "abs_srv (h\<lparr>h_srv := s\<rparr>) ps = s\<lparr>flist := flist (abs_srv h ps)\<rparr>"
  by (simp add: abs_srv_def finger_of_def)

lemma range_abs: "abs_srv (h\<lparr>h_srv := chord_update_range (h_srv h) l r\<rparr>) ps = chord_update_range (abs_srv h ps) l r"
  by (simp add: abs_srv_def finger_of_def chord_update_range_def)

lemma with_srv_finger [simp]: "finger_of (h\<lparr>h_srv := s\<rparr>) = finger_of h"
  by (simp add: finger_of_def fun_eq_iff)

text \<open>Comparing pointers of the list is comparing identifiers.\<close>

lemma ptr_eq_iff_ids:
  assumes "distinct (map (\<lambda>p. f_id (finger_of h p)) ps)" and "set_option a \<subseteq> set ps" and "set_option b \<subseteq> set ps"
  shows "a = b \<longleftrightarrow> map_option f_id (map_option (finger_of h) a) = map_option f_id (map_option (finger_of h) b)"
  using assms by (cases a; cases b) (auto simp: distinct_map dest: inj_onD)

lemma remove_finger_h_ok:
  assumes "linked h ps" and "p \<in> set ps" and "distinct (map (\<lambda>p. f_id (finger_of h p)) ps)" and "length ps < n"
  shows "\<exists>h' ps'. remove_finger_h n h p = Inr h' \<and> linked h' ps' \<and> set ps' = set ps - {p} \<and> length ps' \<le> length ps \<and>
    abs_srv h' ps' = remove_finger (abs_srv h ps) (finger_of h p) \<and> dom (h_cells h') = dom (h_cells h) - {p}"
proof -
  obtain xs ys where ps: "ps = xs @ p # ys" using assms(2) by (auto dest: split_list)
  define h1 where "h1 = (if is_passive (finger_of h p)
    then h\<lparr>h_srv := (h_srv h)\<lparr>num_passive_fingers := num_passive_fingers (h_srv h) - 1\<rparr>\<rparr> else h)"
  define s1 where "s1 = (if is_passive (finger_of h p)
    then (abs_srv h ps)\<lparr>num_passive_fingers := num_passive_fingers (abs_srv h ps) - 1\<rparr> else abs_srv h ps)"
  have h1: "linked h1 ps" "finger_of h1 = finger_of h" "abs_srv h1 ps = s1" "dom (h_cells h1) = dom (h_cells h)"
    using assms(1) by (auto simp: h1_def s1_def with_srv_linked with_srv_abs abs_srv_def)
  obtain h2 where h2: "unlink_h h1 p = Inr h2" "linked h2 (xs @ ys)" "same_fingers h1 h2"
    using unlink_h_linked [of h1 xs p ys] h1(1) ps by blast
  have fo: "finger_of h2 = finger_of h" using h2(3) h1(2) by (simp add: same_fingers_def)
  let ?s2 = "s1\<lparr>flist := list_remove (f_id (finger_of h p)) (flist s1)\<rparr>"
  have "flist s1 = map (finger_of h) ps" by (simp add: s1_def)
  moreover have "f_id (finger_of h p) \<notin> f_id ` set (map (finger_of h) xs)" using assms(3) ps by auto
  ultimately have rem: "list_remove (f_id (finger_of h p)) (flist s1) = map (finger_of h) (xs @ ys)"
    using ps by (simp add: list_remove_split)
  have s2: "abs_srv h2 (xs @ ys) = ?s2"
    using h2(3) unfolding rem by (simp add: abs_srv_def fo same_fingers_def h1(2) flip: h1(3))
  define pr where "pr = find (\<lambda>q. is_active (finger_of h q)) (rev ps)"
  define pf where "pf = find (\<lambda>q. is_active (finger_of h q)) (rev (xs @ ys))"
  have len: "length (xs @ ys) < n" using assms(4) ps by simp
  have pr: "pred_finger_h n h1 = Inr pr" "pred_finger s1 = map_option (finger_of h) pr"
    using pred_finger_h_eq [OF h1(1) assms(4)] by (simp_all add: h1(2,3) pr_def)
  have pf: "pred_finger_h n h2 = Inr pf" "pred_finger ?s2 = map_option (finger_of h) pf"
    using pred_finger_h_eq [OF h2(2) len] by (simp_all only: s2 fo pf_def)
  have pfin: "set_option pf \<subseteq> set (xs @ ys)" unfolding pf_def by (auto simp del: rev_append set_append dest!: find_rev_Some_in)
  have "set_option pr \<subseteq> set ps" unfolding pr_def by (auto dest!: find_rev_Some_in)
  then have sub: "set_option pr \<subseteq> set ps" "set_option pf \<subseteq> set ps" using ps pfin by auto
  have ne: "pr \<noteq> pf \<longleftrightarrow> map_option f_id (pred_finger s1) \<noteq> map_option f_id (pred_finger ?s2)"
    unfolding pr(2) pf(2) using ptr_eq_iff_ids [OF assms(3) sub(1) sub(2)] by simp
  let ?h3 = "if pr \<noteq> pf then h2\<lparr>h_srv := chord_update_range (h_srv h2)
      (case pf of None \<Rightarrow> s_id (h_srv h2) | Some q \<Rightarrow> f_id (finger_of h q)) (s_id (h_srv h2))\<rparr> else h2"
  have ld: "\<exists>c. load h2 q = Inr c \<and> c_finger c = finger_of h q" if "pf = Some q" for q
    using linked_load [OF h2(2), of q] that pfin by (simp add: fo)
  have "load h p = Inr \<lparr>c_finger = finger_of h p, c_next = hd_or ys None, c_prev = last_or xs None\<rparr>"
    using dlseg_load [of h "last_or xs None" p ys None] linkedD(2) [OF assms(1)] ps by simp
  then have run: "remove_finger_h n h p = Inr (free_cell p ?h3)"
    using h2(1) pr(1) pf(1) ld unfolding h1_def by (auto simp: remove_finger_h_def Let_def split: option.splits)
  have np: "p \<notin> set (xs @ ys)" using linkedD(1) [OF assms(1)] ps by auto
  have sid: "s_id (h_srv h2) = s_id s1" using arg_cong [OF s2, of s_id] by simp
  have "abs_srv ?h3 (xs @ ys) = remove_finger (abs_srv h ps) (finger_of h p)"
    using ne pf(2) sid by (simp add: remove_finger_def Let_def s1_def [symmetric] range_abs s2) (auto split: option.splits)
  moreover have "linked ?h3 (xs @ ys)" using h2(2) by (simp add: with_srv_linked)
  moreover have "dom (h_cells (free_cell p ?h3)) = dom (h_cells h) - {p}"
    using h2(3) h1(4) by (auto simp: free_cell_def same_fingers_def)
  ultimately show ?thesis
    using run np ps by (intro exI [of _ "free_cell p ?h3"] exI [of _ "xs @ ys"]) (auto simp: free_cell_linked free_cell_abs)
qed

subsection \<open>Inserting\<close>

lemma linked_ids: "table_inv (abs_srv h ps) \<Longrightarrow> distinct (map (\<lambda>p. f_id (finger_of h p)) ps)"
  using ring_sorted_distinct [OF table_invD(4)] by (fastforce simp: comp_def)

lemma get_finger_fst: "map_option fst (get_finger_from fs i k) = find (\<lambda>f. id_equals i (f_id f)) fs"
  by (induction fs i k rule: get_finger_from.induct) auto

lemma get_finger_h_eq:
  assumes "linked h ps" and "length ps < n"
  obtains r where "get_finger_h n h ident = Inr r" "set_option r \<subseteq> set ps"
    "map_option fst (get_finger (abs_srv h ps) ident) = map_option (finger_of h) r"
proof
  let ?P = "\<lambda>p. id_equals ident (f_id (finger_of h p))"
  show "get_finger_h n h ident = Inr (find ?P ps)"
    using scan_next_find [OF linkedD(2) [OF assms(1)] assms(2)] linkedD(3) [OF assms(1)] by (simp add: get_finger_h_def)
  show "set_option (find ?P ps) \<subseteq> set ps" by (auto dest: find_Some_in)
  show "map_option fst (get_finger (abs_srv h ps) ident) = map_option (finger_of h) (find ?P ps)"
    by (simp add: get_finger_def get_finger_fst find_map_ptr)
qed

lemma dlseg_finger: "dlseg m pv ps nx \<Longrightarrow> m p = Some c \<Longrightarrow> dlseg (m(p \<mapsto> c\<lparr>c_finger := f\<rparr>)) pv ps nx"
  by (induction ps arbitrary: pv) auto

lemma upd_finger_h_abs:
  assumes "linked h ps" and "p \<in> set ps" and "distinct (map (\<lambda>p. f_id (finger_of h p)) ps)" and "h_cells h p = Some c"
  shows "linked (h\<lparr>h_cells := (h_cells h)(p \<mapsto> c\<lparr>c_finger := f\<rparr>)\<rparr>) ps"
    and "abs_srv (h\<lparr>h_cells := (h_cells h)(p \<mapsto> c\<lparr>c_finger := f\<rparr>)\<rparr>) ps = upd_finger (f_id (finger_of h p)) (\<lambda>_. f) (abs_srv h ps)"
proof -
  show "linked (h\<lparr>h_cells := (h_cells h)(p \<mapsto> c\<lparr>c_finger := f\<rparr>)\<rparr>) ps"
    using assms(1,4) by (simp add: linked_def dlseg_finger)
  have "q = p \<longleftrightarrow> f_id (finger_of h q) = f_id (finger_of h p)" if "q \<in> set ps" for q
    using ptr_eq_iff_ids [OF assms(3), of "Some q" "Some p"] that assms(2) by simp
  then show "abs_srv (h\<lparr>h_cells := (h_cells h)(p \<mapsto> c\<lparr>c_finger := f\<rparr>)\<rparr>) ps = upd_finger (f_id (finger_of h p)) (\<lambda>_. f) (abs_srv h ps)"
    by (auto simp: abs_srv_def upd_finger_def finger_of_def)
qed

text \<open>The objects in memory that are not in the list.\<close>

definition unlisted :: "hserver \<Rightarrow> ptr list \<Rightarrow> ptr set" where
  "unlisted h ps = dom (h_cells h) - set ps"

lemma evict_h_ok:
  assumes "linked h ps" and "table_inv (abs_srv h ps)" and "length ps < n"
  shows "\<exists>h' ps'. evict_h n h = Inr h' \<and> linked h' ps' \<and> length ps' \<le> length ps \<and> dom (h_cells h') \<subseteq> dom (h_cells h) \<and>
    unlisted h' ps' = unlisted h ps \<and> evict (abs_srv h ps) = Inr (abs_srv h' ps') \<and> table_inv (abs_srv h' ps')"
proof (cases "num_passive_fingers (h_srv h) \<ge> MAX_PASSIVE_FINGERS")
  case True
  obtain w where w: "worst_h n h (h_head h) (- 1) None = Inr w" "set_option w \<subseteq> set ps"
    "map_option (finger_of h) w = get_worst_passive_finger (abs_srv h ps)"
    using worst_h_eq [OF linkedD(2) [OF assms(1)] assms(3), of "- 1" None] linkedD(3) [OF assms(1)]
    by (auto simp: get_worst_passive_finger_def)
  obtain s1 where s1: "evict (abs_srv h ps) = Inr s1" "table_inv s1" using evict_ok [OF assms(2)] by metis
  then obtain p where p: "w = Some p" using w(3) True by (cases w) (auto simp: evict_def)
  then have worst: "get_worst_passive_finger (abs_srv h ps) = Some (finger_of h p)" "p \<in> set ps" using w(2,3) by auto
  then obtain h' ps' where h': "remove_finger_h n h p = Inr h'" "linked h' ps'" "length ps' \<le> length ps"
    "abs_srv h' ps' = remove_finger (abs_srv h ps) (finger_of h p)" "dom (h_cells h') = dom (h_cells h) - {p}" "set ps' = set ps - {p}"
    using remove_finger_h_ok [OF assms(1) _ linked_ids [OF assms(2)] assms(3), of p] by metis
  have "unlisted h' ps' = unlisted h ps" using h'(5,6) worst(2) by (auto simp: unlisted_def)
  moreover have "s1 = abs_srv h' ps'" using s1(1) True worst(1) h'(4) by (simp add: evict_def)
  ultimately show ?thesis
    using h' p w(1) s1 True by (intro exI [of _ h'] exI [of _ ps']) (auto simp: evict_h_def get_worst_passive_finger_h_def)
next
  case False
  then show ?thesis using assms(1,2) by (auto simp: evict_h_def evict_def)
qed

lemma new_finger_linked:
  assumes "linked h ps" and "h_cells h fresh = None"
  shows "linked (new_finger_h fresh node h) ps" "fresh \<notin> set ps" "abs_srv (new_finger_h fresh node h) ps = abs_srv h ps"
    "h_cells (new_finger_h fresh node h) fresh = Some \<lparr>c_finger = new_finger node, c_next = None, c_prev = None\<rparr>"
proof -
  show fresh: "fresh \<notin> set ps"
    using linked_load [OF assms(1), of fresh] assms(2) by (auto simp: load_def)
  show "linked (new_finger_h fresh node h) ps" "abs_srv (new_finger_h fresh node h) ps = abs_srv h ps"
    "h_cells (new_finger_h fresh node h) fresh = Some \<lparr>c_finger = new_finger node, c_next = None, c_prev = None\<rparr>"
    using assms fresh by (auto simp: linked_def new_finger_h_def abs_srv_def finger_of_def)
qed

lemma insert_new_h_ok:
  assumes "linked h ps" and "table_inv (abs_srv h ps)" and "h_cells h fresh = None" and "length ps < n"
  shows "\<exists>h' ps'. fbind (evict_h n h) (\<lambda>h. fingerlist_insert_h n
      (new_finger_h fresh node (h\<lparr>h_srv := (h_srv h)\<lparr>num_passive_fingers := num_passive_fingers (h_srv h) + 1\<rparr>\<rparr>)) fresh) = Inr h' \<and>
    linked h' ps' \<and> finger_of h' fresh = new_finger node \<and> unlisted h' ps' = unlisted h ps \<and>
    fbind (evict (abs_srv h ps)) (\<lambda>srv. Inr (fingerlist_insert (srv\<lparr>num_passive_fingers := num_passive_fingers srv + 1\<rparr>) (new_finger node))) =
      Inr (abs_srv h' ps')"
proof -
  obtain h1 ps1 where h1: "evict_h n h = Inr h1" "linked h1 ps1" "length ps1 \<le> length ps" "dom (h_cells h1) \<subseteq> dom (h_cells h)"
    "evict (abs_srv h ps) = Inr (abs_srv h1 ps1)" "table_inv (abs_srv h1 ps1)" "unlisted h1 ps1 = unlisted h ps"
    using evict_h_ok [OF assms(1,2,4)] by blast
  let ?h2 = "h1\<lparr>h_srv := (h_srv h1)\<lparr>num_passive_fingers := num_passive_fingers (h_srv h1) + 1\<rparr>\<rparr>"
  let ?h3 = "new_finger_h fresh node ?h2"
  have h2: "linked ?h2 ps1" "h_cells ?h2 fresh = None" using h1(2,4) assms(3) by (auto simp: with_srv_linked)
  have abs2: "abs_srv ?h2 ps1 = (abs_srv h1 ps1)\<lparr>num_passive_fingers := num_passive_fingers (abs_srv h1 ps1) + 1\<rparr>"
    by (simp add: abs_srv_def)
  note h3 = new_finger_linked(1,3,4) [OF h2, of node] and notin = new_finger_linked(2) [OF h2]
  have "distinct (map f_id (flist (abs_srv ?h3 ps1)))"
    using ring_sorted_distinct [OF table_invD(4) [OF h1(6)]] h3(2) abs2 by simp
  from fingerlist_insert_h_ok [OF h3(1,3) notin this, of n] obtain h' ps' where h': "fingerlist_insert_h n ?h3 fresh = Inr h'" "linked h' ps'"
    "same_fingers ?h3 h'" "set ps' = insert fresh (set ps1)" "abs_srv h' ps' = fingerlist_insert (abs_srv ?h3 ps1) (new_finger node)"
    using h1(3) assms(4) by auto
  have "unlisted h' ps' = unlisted h ps"
    using h'(3,4) h1(7) h2(2) notin by (auto simp: unlisted_def same_fingers_def new_finger_h_def)
  moreover have "finger_of ?h3 fresh = new_finger node" using h3(3) by (simp add: finger_of_def)
  ultimately show ?thesis using h' h1(1,5) h3(2) abs2 by (intro exI [of _ h'] exI [of _ ps']) (simp add: same_fingers_def)
qed

lemma insert_finger_h_ok:
  assumes "linked h ps" and "table_inv (abs_srv h ps)" and "h_cells h fresh = None" and "length ps < n"
  shows "\<exists>fo fnew h' ps'. insert_finger_h n fresh h ident addr port = Inr (fo, fnew, h') \<and> linked h' ps' \<and> unlisted h' ps' = unlisted h ps \<and>
    insert_finger (abs_srv h ps) ident addr port = Inr (map_option (finger_of h') fo, fnew, abs_srv h' ps')"
proof (cases "v6_addr_equals (s_addr (h_srv h)) addr \<and> s_port (h_srv h) = port")
  case True
  then show ?thesis using assms(1) by (auto simp: insert_finger_h_def insert_finger_def)
next
  case other: False
  obtain r where r: "get_finger_h n h ident = Inr r" "set_option r \<subseteq> set ps"
    "map_option fst (get_finger (abs_srv h ps) ident) = map_option (finger_of h) r"
    using get_finger_h_eq [OF assms(1,4)] by metis
  show ?thesis
  proof (cases r)
    case None
    then have "get_finger (abs_srv h ps) ident = None" using r(3) by simp
    then show ?thesis
      using insert_new_h_ok [OF assms, of "\<lparr>n_id = ident, n_addr = addr, n_port = port\<rparr>"] other None r(1)
      by (auto simp: insert_finger_h_def insert_finger_def Let_def fbind_Inr_iff)
  next
    case (Some p)
    then obtain k where k: "get_finger (abs_srv h ps) ident = Some (finger_of h p, k)" using r(3) by (cases "get_finger (abs_srv h ps) ident") auto
    have p: "p \<in> set ps" using Some r(2) by simp
    then obtain c where c: "load h p = Inr c" "c_finger c = finger_of h p" using linked_load [OF assms(1)] by blast
    then have cell: "h_cells h p = Some c" by (auto simp: load_def split: option.splits)
    note upd = upd_finger_h_abs [OF assms(1) p linked_ids [OF assms(2)] cell]
    show ?thesis
    proof (cases "v6_addr_equals (f_addr (finger_of h p)) addr")
      case True
      then show ?thesis using assms(1) other Some r(1) k c by (auto simp: insert_finger_h_def insert_finger_def)
    next
      case False
      let ?f = "(finger_of h p)\<lparr>f_node := (f_node (finger_of h p))\<lparr>n_addr := addr, n_port := port\<rparr>, f_rtt_avg := 0, f_rtt_dev := 0, f_npings := 0\<rparr>"
      let ?h = "h\<lparr>h_cells := (h_cells h)(p \<mapsto> c\<lparr>c_finger := ?f\<rparr>)\<rparr>"
      have "insert_finger_h n fresh h ident addr port = Inr (Some p, Some False, ?h)"
        using other Some r(1) c False cell by (simp add: insert_finger_h_def store_cell_def)
      moreover have "finger_of ?h p = ?f" by (simp add: finger_of_def)
      moreover have "unlisted ?h ps = unlisted h ps" using cell by (auto simp: unlisted_def)
      ultimately show ?thesis
        using other k False upd [of ?f] by (intro exI [of _ "Some p"] exI [of _ "Some False"] exI [of _ ?h] exI [of _ ps]) (auto simp: insert_finger_def Let_def)
    qed
  qed
qed

text \<open>
  The pointer code of \<^verbatim>\<open>insert_finger\<close> refines the list operation: on a well-linked list that stands for a well-formed table, with memory for one more
  finger, it follows no null or freed pointer, ends, leaves a well-linked list, and returns a pointer to the finger that the list operation
  returns; the list it leaves stands for the server that the list operation returns, and no object is left behind outside of it.
\<close>

theorem insert_finger_refines:
  assumes "linked h ps" and "table_inv (abs_srv h ps)" and "h_cells h fresh = None" and "length ps < n"
  shows "\<exists>fo fnew h' ps'. insert_finger_h n fresh h ident addr port = Inr (fo, fnew, h') \<and> linked h' ps' \<and> unlisted h' ps' = unlisted h ps \<and>
    insert_finger (abs_srv h ps) ident addr port = Inr (map_option (finger_of h') fo, fnew, abs_srv h' ps')"
  using assms by (rule insert_finger_h_ok)

text \<open>Two fingers in memory, at the addresses 4 and 8.\<close>

definition demo_heap :: "hserver" where
  "demo_heap = \<lparr>h_cells = [4 \<mapsto> \<lparr>c_finger = demo_finger 32 F_ACTIVE, c_next = Some 8, c_prev = None\<rparr>,
                            8 \<mapsto> \<lparr>c_finger = demo_finger 48 F_PASSIVE, c_next = None, c_prev = Some 4\<rparr>],
     h_head = Some 4, h_tail = Some 8, h_srv = demo_srv2\<rparr>"

lemma demo_heap_linked [simp]: "linked demo_heap [4, 8]"
  by (simp add: linked_def demo_heap_def)

lemma demo_heap_abs [simp]: "abs_srv demo_heap [4, 8] = demo_srv2"
  by (simp add: abs_srv_def demo_heap_def finger_of_def demo_srv2_def)

lemma demo_heap_cells: "h_cells demo_heap 7 = None" "dom (h_cells demo_heap) = {4, 8}" "finger_of demo_heap 4 = demo_finger 32 F_ACTIVE"
  by (auto simp: demo_heap_def finger_of_def)

lemma insert_finger_refines_witness:
  "\<exists>fo fnew h' ps'. insert_finger_h 3 7 demo_heap (demo_id 40) (demo_addr 9) 4000 = Inr (fo, fnew, h') \<and> linked h' ps' \<and>
    insert_finger demo_srv2 (demo_id 40) (demo_addr 9) 4000 = Inr (map_option (finger_of h') fo, fnew, abs_srv h' ps')"
  using insert_finger_refines [of demo_heap "[4, 8]" 7 3 "demo_id 40" "demo_addr 9" 4000] by (auto simp: demo_heap_cells)

text \<open>
  The pointer code of \<^verbatim>\<open>remove_finger\<close> refines the list operation: given a pointer to a finger of a well-linked list that stands for a
  well-formed table, it follows no null or freed pointer, ends, and leaves a well-linked list that stands for the table without that finger; the
  finger is no longer in the list, and it is the one object that was freed.
\<close>

theorem remove_finger_refines:
  assumes "linked h ps" and "table_inv (abs_srv h ps)" and "p \<in> set ps" and "length ps < n"
  shows "\<exists>h' ps'. remove_finger_h n h p = Inr h' \<and> linked h' ps' \<and> set ps' = set ps - {p} \<and>
    dom (h_cells h') = dom (h_cells h) - {p} \<and> abs_srv h' ps' = remove_finger (abs_srv h ps) (finger_of h p)"
  using remove_finger_h_ok [OF assms(1,3) linked_ids [OF assms(2)] assms(4)] by blast

lemma remove_finger_refines_witness:
  "\<exists>h' ps'. remove_finger_h 3 demo_heap 4 = Inr h' \<and> linked h' ps' \<and> set ps' = {8} \<and> dom (h_cells h') = {8} \<and>
    abs_srv h' ps' = remove_finger demo_srv2 (demo_finger 32 F_ACTIVE)"
  using remove_finger_refines [of demo_heap "[4, 8]" 4 3] by (simp add: demo_heap_cells)

subsection \<open>Freeing the list\<close>

primrec free_finger_list_h :: "nat \<Rightarrow> hserver \<Rightarrow> ptr option \<Rightarrow> hserver res" where
  "free_finger_list_h 0 h fl = Inl Out_of_fuel"
| "free_finger_list_h (Suc n) h fl =
     (case fl of
        None \<Rightarrow> Inr h
      | Some f \<Rightarrow> fbind (load h f) (\<lambda>c. free_finger_list_h n (free_cell f h) (c_next c)))"

lemma free_finger_list_h_cells:
  assumes "dlseg (h_cells h) pv ps None" and "distinct ps" and "length ps < n"
  shows "free_finger_list_h n h (hd_or ps None) = Inr (h\<lparr>h_cells := h_cells h |` (- set ps)\<rparr>)"
  using assms
proof (induction n arbitrary: h pv ps)
  case (Suc n)
  show ?case
  proof (cases ps)
    case (Cons p qs)
    then have "dlseg (h_cells (free_cell p h)) (Some p) qs None" "p \<notin> set qs" using Suc.prems by (auto simp: free_cell_def)
    then have "free_finger_list_h n (free_cell p h) (hd_or qs None) = Inr ((free_cell p h)\<lparr>h_cells := h_cells (free_cell p h) |` (- set qs)\<rparr>)"
      using Suc.IH Suc.prems Cons by simp
    moreover have "h_cells (free_cell p h) |` (- set qs) = h_cells h |` (- set ps)"
      using Cons by (auto simp: free_cell_def restrict_map_def fun_eq_iff)
    ultimately show ?thesis using dlseg_load [of h pv p qs None] Suc.prems(1) Cons by (simp add: free_cell_def)
  qed simp
qed simp

text \<open>
  C34. Freeing the finger list ends and is memory safe: started at the head of a well-linked list, \<^verbatim>\<open>free_finger_list\<close> reads every
  \<^verbatim>\<open>next\<close> pointer before its object is freed, frees each object of the list exactly once and nothing else. A list of \<open>k\<close> fingers needs
  \<open>k + 1\<close> rounds of the loop.
\<close>

theorem free_finger_list_terminates:
  assumes "linked h ps" and "length ps < n"
  shows "\<exists>h'. free_finger_list_h n h (h_head h) = Inr h' \<and> dom (h_cells h') = dom (h_cells h) - set ps \<and>
    (\<forall>p. p \<notin> set ps \<longrightarrow> h_cells h' p = h_cells h p)"
  using free_finger_list_h_cells [OF linkedD(2) [OF assms(1)] linkedD(1) [OF assms(1)] assms(2)] linkedD(3) [OF assms(1)]
  by (auto simp: restrict_map_def split: if_splits)

lemma free_finger_list_terminates_witness:
  "\<exists>h'. free_finger_list_h 3 demo_heap (Some 4) = Inr h' \<and> dom (h_cells h') = {}"
  using free_finger_list_terminates [of demo_heap "[4, 8]" 3] by (auto simp: demo_heap_cells linkedD(3) [OF demo_heap_linked])

subsection \<open>Sequences of operations\<close>

text \<open>
  The contract of an implementation: related states are taken to related states by every operation that is allowed in them, and neither side fails. Whole
  sequences of operations then refine each other.
\<close>

primrec run_ops :: "('o \<Rightarrow> 's \<Rightarrow> 's res) \<Rightarrow> 'o list \<Rightarrow> 's \<Rightarrow> 's res" where
  "run_ops step [] s = Inr s"
| "run_ops step (x # xs) s = fbind (step x s) (run_ops step xs)"

locale data_refinement =
  fixes cstep :: "'o \<Rightarrow> 'c \<Rightarrow> 'c res"
    and astep :: "'o \<Rightarrow> 'a \<Rightarrow> 'a res"
    and rel :: "'c \<Rightarrow> 'a \<Rightarrow> bool"
    and allowed :: "'o \<Rightarrow> 'a \<Rightarrow> bool"
  assumes simulates: "rel c a \<Longrightarrow> allowed x a \<Longrightarrow> \<exists>c' a'. cstep x c = Inr c' \<and> astep x a = Inr a' \<and> rel c' a'"
begin

primrec allowed_all :: "'o list \<Rightarrow> 'a \<Rightarrow> bool" where
  "allowed_all [] a = True"
| "allowed_all (x # xs) a = (allowed x a \<and> (\<forall>a'. astep x a = Inr a' \<longrightarrow> allowed_all xs a'))"

lemma run_simulates: "rel c a \<Longrightarrow> allowed_all xs a \<Longrightarrow> \<exists>c' a'. run_ops cstep xs c = Inr c' \<and> run_ops astep xs a = Inr a' \<and> rel c' a'"
proof (induction xs arbitrary: c a)
  case (Cons x xs)
  obtain c' a' where "cstep x c = Inr c'" "astep x a = Inr a'" "rel c' a'" using simulates Cons.prems by fastforce
  then show ?case using Cons.IH [of c' a'] Cons.prems(2) by auto
qed auto

end

text \<open>The two operations that change the list; a finger is removed by its identifier, when there is one.\<close>

datatype finger_op = Insert_finger chordID in6_addr ushort | Remove_finger chordID

text \<open>The memory allocator gives the first address that is free.\<close>

definition fresh_ptr :: "hserver \<Rightarrow> nat \<Rightarrow> ptr" where
  "fresh_ptr h n = hd (filter (\<lambda>p. h_cells h p = None) [0..<n])"

fun finger_op_h :: "nat \<Rightarrow> finger_op \<Rightarrow> hserver \<Rightarrow> hserver res" where
  "finger_op_h n (Insert_finger ident addr port) h =
     fbind (insert_finger_h n (fresh_ptr h n) h ident addr port) (\<lambda>(f, fnew, h). Inr h)"
| "finger_op_h n (Remove_finger ident) h =
     fbind (get_finger_h n h ident) (\<lambda>f. case f of None \<Rightarrow> Inr h | Some p \<Rightarrow> remove_finger_h n h p)"

fun finger_op_list :: "finger_op \<Rightarrow> ChordServer \<Rightarrow> ChordServer res" where
  "finger_op_list (Insert_finger ident addr port) srv =
     fbind (insert_finger srv ident addr port) (\<lambda>(f, fnew, srv). Inr srv)"
| "finger_op_list (Remove_finger ident) srv =
     (case get_finger srv ident of None \<Rightarrow> Inr srv | Some (f, _) \<Rightarrow> Inr (remove_finger srv f))"

definition stands_for :: "hserver \<Rightarrow> ChordServer \<Rightarrow> bool" where
  "stands_for h srv \<longleftrightarrow> (\<exists>ps. linked h ps \<and> dom (h_cells h) = set ps \<and> srv = abs_srv h ps \<and> table_inv srv)"

fun finger_op_allowed :: "nat \<Rightarrow> finger_op \<Rightarrow> ChordServer \<Rightarrow> bool" where
  "finger_op_allowed n (Insert_finger ident addr port) srv = (wf_id ident \<and> wf_addr addr \<and> length (flist srv) < n)"
| "finger_op_allowed n (Remove_finger ident) srv = (wf_id ident \<and> length (flist srv) < n)"

lemma fresh_ptr_free:
  assumes "dom (h_cells h) = set ps" and "length ps < n"
  shows "h_cells h (fresh_ptr h n) = None"
proof -
  have "\<not> {0..<n} \<subseteq> set ps" using card_mono [of "set ps" "{0..<n}"] card_length [of ps] assms(2) by auto
  then have "filter (\<lambda>p. h_cells h p = None) [0..<n] \<noteq> []" using assms(1) by (auto simp: filter_empty_conv dom_def)
  from hd_in_set [OF this] show ?thesis unfolding fresh_ptr_def by simp
qed

lemma stands_forI: "linked h ps \<Longrightarrow> unlisted h ps = {} \<Longrightarrow> set ps \<subseteq> dom (h_cells h) \<Longrightarrow> table_inv (abs_srv h ps) \<Longrightarrow> stands_for h (abs_srv h ps)"
  by (auto simp: stands_for_def unlisted_def)

lemma linked_dom: "linked h ps \<Longrightarrow> set ps \<subseteq> dom (h_cells h)"
  using linked_load [of h ps] by (fastforce simp: load_def split: option.splits)

lemma finger_op_simulates:
  assumes "stands_for h srv" and "finger_op_allowed n x srv"
  shows "\<exists>h' srv'. finger_op_h n x h = Inr h' \<and> finger_op_list x srv = Inr srv' \<and> stands_for h' srv'"
proof -
  obtain ps where ps: "linked h ps" "dom (h_cells h) = set ps" "srv = abs_srv h ps" "table_inv (abs_srv h ps)" using assms(1) by (auto simp: stands_for_def)
  have len: "length ps < n" using assms(2) ps(3) by (cases x) auto
  show ?thesis
  proof (cases x)
    case (Insert_finger ident addr port)
    obtain fo fnew h' ps' where ins: "insert_finger_h n (fresh_ptr h n) h ident addr port = Inr (fo, fnew, h')" "linked h' ps'" "unlisted h' ps' = {}"
      "insert_finger (abs_srv h ps) ident addr port = Inr (map_option (finger_of h') fo, fnew, abs_srv h' ps')"
      using insert_finger_h_ok [OF ps(1,4) fresh_ptr_free [OF ps(2) len] len, of ident addr port] ps(2) by (auto simp: unlisted_def)
    moreover have "table_inv (abs_srv h' ps')"
      using insert_finger_ok [OF ps(4), of ident addr port] assms(2) ins(4) Insert_finger by (metis Inr_inject finger_op_allowed.simps(1) prod.inject)
    ultimately show ?thesis using Insert_finger ps(3) stands_forI [OF ins(2,3) linked_dom [OF ins(2)]] by auto
  next
    case (Remove_finger ident)
    obtain r where r: "get_finger_h n h ident = Inr r" "set_option r \<subseteq> set ps"
      "map_option fst (get_finger (abs_srv h ps) ident) = map_option (finger_of h) r"
      using get_finger_h_eq [OF ps(1) len] by metis
    show ?thesis
    proof (cases r)
      case None
      then show ?thesis using Remove_finger r assms(1) ps(3) by auto
    next
      case (Some p)
      then obtain k where k: "get_finger (abs_srv h ps) ident = Some (finger_of h p, k)" "p \<in> set ps"
        using r by (cases "get_finger (abs_srv h ps) ident") auto
      obtain h' ps' where h': "remove_finger_h n h p = Inr h'" "linked h' ps'" "set ps' = set ps - {p}"
        "abs_srv h' ps' = remove_finger (abs_srv h ps) (finger_of h p)" "dom (h_cells h') = dom (h_cells h) - {p}"
        using remove_finger_h_ok [OF ps(1) k(2) linked_ids [OF ps(4)] len] by blast
      have "table_inv (abs_srv h' ps')" unfolding h'(4) using k(2) by (intro remove_finger_inv [OF ps(4)]) simp
      then have "stands_for h' (abs_srv h' ps')" using h'(2,3,5) ps(2) by (auto simp: stands_for_def)
      then show ?thesis using Remove_finger r(1) Some k(1) h'(1,4) ps(3) by simp
    qed
  qed
qed

interpretation fingers: data_refinement "finger_op_h n" finger_op_list stands_for "finger_op_allowed n"
  by unfold_locales (rule finger_op_simulates)

text \<open>Enough fuel for all the operations of a sequence, of well-formed arguments: each inserts at most one finger.\<close>

fun wf_finger_op :: "finger_op \<Rightarrow> bool" where
  "wf_finger_op (Insert_finger ident addr port) = (wf_id ident \<and> wf_addr addr)"
| "wf_finger_op (Remove_finger ident) = wf_id ident"

lemma length_list_insert_after: "length (list_insert_after i f fs) \<le> Suc (length fs)"
  by (induction fs) auto

lemma length_list_remove: "length (list_remove i fs) \<le> length fs"
  by (induction fs) auto

lemma length_remove_finger: "length (flist (remove_finger srv f)) \<le> length (flist srv)"
  using length_list_remove [of "f_id f" "flist srv"] by (auto simp: remove_finger_def Let_def chord_update_range_def split: option.split)

lemma length_evict: "evict srv = Inr srv1 \<Longrightarrow> length (flist srv1) \<le> length (flist srv)"
  by (auto simp: evict_def length_remove_finger split: if_splits option.splits)

lemma length_fingerlist_insert: "length (flist (fingerlist_insert srv f)) \<le> Suc (length (flist srv))"
  using length_list_insert_after by (auto simp: fingerlist_insert_def split: option.splits)

lemma finger_op_length:
  assumes "finger_op_list x srv = Inr srv'"
  shows "length (flist srv') \<le> Suc (length (flist srv))"
proof (cases x)
  case (Insert_finger ident addr port)
  have "length (flist (fingerlist_insert (srv1\<lparr>num_passive_fingers := k\<rparr>) g)) \<le> Suc (length (flist srv))" if "evict srv = Inr srv1" for srv1 k g
    using length_fingerlist_insert [of "srv1\<lparr>num_passive_fingers := k\<rparr>" g] length_evict [OF that] by simp
  then show ?thesis
    using assms Insert_finger by (auto simp: insert_finger_def upd_finger_def Let_def fbind_Inr_iff split: if_splits option.splits prod.splits)
next
  case (Remove_finger ident)
  have "length (flist (remove_finger srv f)) \<le> Suc (length (flist srv))" for f using length_remove_finger [of srv f] by simp
  then show ?thesis using assms Remove_finger by (auto split: option.splits)
qed

lemma finger_ops_allowed:
  assumes "\<forall>x \<in> set xs. wf_finger_op x" and "length (flist srv) + length xs < n"
  shows "fingers.allowed_all n xs srv"
  using assms
proof (induction xs arbitrary: srv)
  case (Cons x xs)
  have "fingers.allowed_all n xs srv'" if "finger_op_list x srv = Inr srv'" for srv'
    using Cons.IH [of srv'] Cons.prems finger_op_length [OF that] by simp
  moreover have "finger_op_allowed n x srv" using Cons.prems by (cases x) auto
  ultimately show ?case by simp
qed simp

text \<open>
  C4. Whatever sequence of fingers is inserted and removed, the pointer code refines the list operations: from memory that holds exactly the objects of a
  well-linked list for a well-formed table, it never faults, and ends with memory that holds exactly the objects of a well-linked list for the table
  that the list operations give. So nothing leaks, nothing is freed twice, and the fuel of one round per finger and operation is enough.
\<close>

theorem finger_ops_refine:
  assumes "stands_for h srv" and "\<forall>x \<in> set xs. wf_finger_op x" and "length (flist srv) + length xs < n"
  shows "\<exists>h' srv'. run_ops (finger_op_h n) xs h = Inr h' \<and> run_ops finger_op_list xs srv = Inr srv' \<and> stands_for h' srv'"
  using fingers.run_simulates [OF assms(1) finger_ops_allowed [OF assms(2,3)]] .

lemma finger_ops_refine_witness:
  "\<exists>h' srv'. run_ops (finger_op_h 5) [Insert_finger (demo_id 40) (demo_addr 9) 4000, Remove_finger (demo_id 32)] demo_heap = Inr h' \<and>
    run_ops finger_op_list [Insert_finger (demo_id 40) (demo_addr 9) 4000, Remove_finger (demo_id 32)] demo_srv2 = Inr srv' \<and> stands_for h' srv'"
proof (rule finger_ops_refine)
  show "stands_for demo_heap demo_srv2"
    unfolding stands_for_def using demo_heap_linked demo_heap_abs demo_heap_cells(2) by (intro exI [of _ "[4, 8]"]) simp
qed (simp_all add: demo_srv2_def)

end
