(* ===== verification/Chord_Print.thy ===== *)
theory Chord_Print
  imports Message_Print Finger_Heap
begin

text \<open>
  The texts of the log (\<^verbatim>\<open>util.c\<close>): identifiers, addresses, nodes, fingers and servers. The functions that print to a stream return the text
  they append; those that fill a static buffer take the buffer's contents and return it with the string they leave in it, so that a write past its
  end is a fault. \<^verbatim>\<open>inet_ntop\<close> of an IPv6 address is the parameter of the environment; that of an IPv4 address is the dotted form.
\<close>

subsection \<open>Static buffers\<close>

definition NUL :: char where
  "NUL = char_of (0 :: nat)"

text \<open>The string at the start of a buffer.\<close>

definition cstr :: "string \<Rightarrow> string" where
  "cstr buf = takeWhile (\<lambda>c. c \<noteq> NUL) buf"

text \<open>\<^verbatim>\<open>sprintf(buf + pos, ...)\<close>: the text and its terminator.\<close>

definition sprintf_at :: "nat \<Rightarrow> string \<Rightarrow> string \<Rightarrow> string res" where
  "sprintf_at pos s buf =
     (if pos + length s < length buf then Inr (take pos buf @ s @ NUL # drop (pos + length s + 1) buf) else Inl Out_of_bounds)"

definition put_nul :: "nat \<Rightarrow> string \<Rightarrow> string res" where
  "put_nul pos buf = (if pos < length buf then Inr (buf[pos := NUL]) else Inl Out_of_bounds)"

primrec hex_loop :: "byte list \<Rightarrow> nat \<Rightarrow> string \<Rightarrow> string res" where
  "hex_loop [] i buf = Inr buf"
| "hex_loop (b # bs) i buf = fbind (sprintf_at (i * 2) (hex2 b) buf) (\<lambda>buf. hex_loop bs (Suc i) buf)"

text \<open>Short identifiers are printed: the first four bytes.\<close>

definition id_to_str :: "chordID option \<Rightarrow> string \<Rightarrow> (string \<times> string) res" where
  "id_to_str ident id_str =
     fbind (case ident of
              Some i \<Rightarrow> fbind (memcpy i 4) (\<lambda>x. fbind (hex_loop x 0 id_str) (\<lambda>id_str. put_nul (CHORD_ID_BYTES * 2) id_str))
            | None \<Rightarrow> put_nul 0 id_str)
       (\<lambda>id_str. Inr (cstr id_str, id_str))"

definition buf_to_str :: "byte list \<Rightarrow> int \<Rightarrow> string \<Rightarrow> (string \<times> string) res" where
  "buf_to_str buf len buf_str =
     (if len < 0 \<or> int (length buf_str) < len then Inl Out_of_bounds
      else
        fbind (memcpy buf (nat len)) (\<lambda>x.
        fbind (put_nul (nat len) (map (\<lambda>b. char_of (unat b)) x @ drop (nat len) buf_str)) (\<lambda>buf_str.
        Inr (cstr buf_str, buf_str))))"

definition buf_to_hex :: "byte list \<Rightarrow> int \<Rightarrow> string \<Rightarrow> (string \<times> string) res" where
  "buf_to_hex buf len buf_hex =
     (if len < 0 then Inl Out_of_bounds
      else
        fbind (memcpy buf (nat len)) (\<lambda>x.
        fbind (hex_loop x 0 buf_hex) (\<lambda>buf_hex.
        fbind (put_nul (nat len * 2) buf_hex) (\<lambda>buf_hex.
        Inr (cstr buf_hex, buf_hex)))))"

subsection \<open>Identifiers and addresses\<close>

definition print_chordID :: "chordID option \<Rightarrow> string res" where
  "print_chordID ident =
     (case ident of
        Some i \<Rightarrow> fbind (memcpy i 4) (\<lambda>x. Inr (concat (map hex2 x)))
      | None \<Rightarrow> Inr ''<null>'')"

definition print_two_chordIDs ::
  "string option \<Rightarrow> chordID option \<Rightarrow> string option \<Rightarrow> chordID option \<Rightarrow> string option \<Rightarrow> string res" where
  "print_two_chordIDs prefix id1 middle id2 suffix =
     fbind (assert_that (prefix \<noteq> None \<and> id1 \<noteq> None \<and> middle \<noteq> None \<and> id2 \<noteq> None \<and> suffix \<noteq> None)) (\<lambda>_.
     fbind (print_chordID id1) (\<lambda>s1.
     fbind (print_chordID id2) (\<lambda>s2.
     Inr (the prefix @ s1 @ the middle @ s2 @ the suffix))))"

definition dotted :: "byte list \<Rightarrow> string" where
  "dotted bs = dec (unat (bs ! 0)) @ ''.'' @ dec (unat (bs ! 1)) @ ''.'' @ dec (unat (bs ! 2)) @ ''.'' @ dec (unat (bs ! 3))"

definition v6addr_to_str :: "env \<Rightarrow> in6_addr \<Rightarrow> string" where
  "v6addr_to_str E v6addr =
     (if \<not> V4_MAPPED v6addr then inet_ntop6 E v6addr
      else dotted (le_bytes 4 (to_v4addr (mem_after E v6addr) v6addr)))"

text \<open>Microseconds, shown modulo $2^{32}$.\<close>

definition print_current_time :: "ulong \<Rightarrow> string \<Rightarrow> string \<Rightarrow> string" where
  "print_current_time now prefix suffix = prefix @ dec (unat (drop_bit 32 (push_bit 32 now))) @ suffix"

subsection \<open>Nodes, fingers and servers\<close>

definition print_node :: "env \<Rightarrow> Node \<Rightarrow> string res" where
  "print_node E node =
     fbind (print_chordID (Some (n_id node))) (\<lambda>s.
     Inr (''['' @ s @ '', '' @ v6addr_to_str E (n_addr node) @ '', '' @ dec (unat (n_port node)) @ '']''))"

definition print_finger :: "env \<Rightarrow> Finger \<Rightarrow> string \<Rightarrow> string \<Rightarrow> string res" where
  "print_finger E f prefix suffix =
     fbind (print_node E (f_node f)) (\<lambda>s.
     Inr (prefix @ ''Finger:'' @ s @ '' (status = '' @ (if is_active f then ''ACTIVE'' else ''PASSIVE'') @ '', npings = '' @
       dec_int (f_npings f) @ '', rtt = '' @ dec_int (f_rtt_avg f) @ ''/'' @ dec_int (f_rtt_dev f) @ '') '' @ suffix))"

primrec print_finger_list :: "nat \<Rightarrow> env \<Rightarrow> hserver \<Rightarrow> ptr option \<Rightarrow> nat \<Rightarrow> string res" where
  "print_finger_list 0 E h f i = Inl Out_of_fuel"
| "print_finger_list (Suc n) E h f i =
     (case f of
        None \<Rightarrow> Inr ''''
      | Some p \<Rightarrow>
          fbind (load h p) (\<lambda>c.
          fbind (print_finger E (c_finger c) '''' '''') (\<lambda>s.
          fbind (print_finger_list n E h (c_next c) (Suc i)) (\<lambda>rest.
          Inr (char_of (9 :: nat) # ''['' @ dec i @ ''] '' @ s @ rest)))))"

definition print_server :: "nat \<Rightarrow> env \<Rightarrow> hserver \<Rightarrow> string res" where
  "print_server n E h =
     fbind (print_node E (s_node (h_srv h))) (\<lambda>s.
     fbind (print_finger_list n E h (h_head h) 0) (\<lambda>fl.
     Inr (s @ char_of (10 :: nat) # ''('' @ dec_int (num_passive_fingers (h_srv h)) @ '' passive)'' @ char_of (10 :: nat) #
       ''Finger list:'' @ char_of (10 :: nat) # fl)))"

definition arrow_text :: "env \<Rightarrow> string \<Rightarrow> (in6_addr option \<times> ushort) \<Rightarrow> string" where
  "arrow_text E arrow ap =
     (case fst ap of
        None \<Rightarrow> '' '' @ arrow @ '' <,>''
      | Some addr \<Rightarrow> '' '' @ arrow @ '' <'' @ v6addr_to_str E addr @ '', '' @ dec (unat (snd ap)) @ ''>'')"

definition print_process :: "env \<Rightarrow> ulong \<Rightarrow> ChordServer \<Rightarrow> chordID option \<Rightarrow> in6_addr option \<Rightarrow> ushort \<Rightarrow> string res" where
  "print_process E now srv ident addr port =
     fbind (case ident of Some i \<Rightarrow> print_chordID (Some i) | None \<Rightarrow> Inr ''null'') (\<lambda>s.
     fbind (print_node E (s_node srv)) (\<lambda>nd.
     Inr (''('' @ s @ '') '' @ nd @ arrow_text E ''<-----'' (addr, port) @ print_current_time now '' Time:'' '''')))"

definition print_send :: "env \<Rightarrow> ulong \<Rightarrow> ChordServer \<Rightarrow> chordID option \<Rightarrow> in6_addr option \<Rightarrow> ushort \<Rightarrow> string res" where
  "print_send E now srv ident addr port =
     fbind (print_chordID ident) (\<lambda>s.
     fbind (print_node E (s_node srv)) (\<lambda>nd.
     Inr (''('' @ s @ '') '' @ nd @ arrow_text E ''----->'' (addr, port) @ print_current_time now '' Time:'' '''')))"

definition print_fun :: "ulong \<Rightarrow> ChordServer \<Rightarrow> string \<Rightarrow> chordID option \<Rightarrow> string res" where
  "print_fun now srv fun_name ident =
     fbind (print_chordID (Some (s_id srv))) (\<lambda>s.
     fbind (print_chordID ident) (\<lambda>t.
     Inr (fun_name @ '': '' @ s @ '' > '' @ t @ print_current_time now '' @ '' '''')))"

subsection \<open>Hexadecimal text\<close>

definition hex_text :: "byte list \<Rightarrow> string" where
  "hex_text bs = concat (map hex2 bs)"

definition hex_val :: "char \<Rightarrow> nat" where
  "hex_val c = length (takeWhile (\<lambda>d. d \<noteq> c) digits)"

fun unhex :: "string \<Rightarrow> byte list" where
  "unhex (a # b # s) = word_of_nat (16 * hex_val a + hex_val b) # unhex s"
| "unhex _ = []"

lemma hex_digit: "n < 16 \<Longrightarrow> hex_val (digits ! n) = n \<and> digits ! n \<noteq> NUL"
proof -
  have "\<forall>n \<in> set [0..<16]. hex_val (digits ! n) = n \<and> digits ! n \<noteq> NUL" by code_simp
  then show "n < 16 \<Longrightarrow> hex_val (digits ! n) = n \<and> digits ! n \<noteq> NUL" by simp
qed

lemma hex2_digits: "unhex (hex2 b @ s) = b # unhex s" "NUL \<notin> set (hex2 b)" "length (hex2 b) = 2"
proof -
  have "unat b div 16 < 16" "unat b mod 16 < 16" using unat_byte_less [of b] by (simp_all add: less_mult_imp_div_less)
  then show "unhex (hex2 b @ s) = b # unhex s" "NUL \<notin> set (hex2 b)" "length (hex2 b) = 2"
    using hex_digit [of "unat b div 16"] hex_digit [of "unat b mod 16"] by (auto simp: hex2_def)
qed

lemma unhex_hex_text: "unhex (hex_text bs) = bs"
  by (induction bs) (simp_all add: hex_text_def hex2_digits(1))

lemma hex_text_plain: "NUL \<notin> set (hex_text bs)" "length (hex_text bs) = 2 * length bs"
  by (induction bs) (simp_all add: hex_text_def hex2_digits)

lemma hex_loop_eq:
  assumes "length buf = n" and "2 * i \<le> n"
  shows "hex_loop bs i buf =
    (if bs = [] then Inr buf
     else if 2 * (i + length bs) < n then Inr (take (2 * i) buf @ hex_text bs @ NUL # drop (2 * (i + length bs) + 1) buf)
     else Inl Out_of_bounds)"
  using assms
proof (induction bs arbitrary: i buf)
  case (Cons b bs)
  show ?case
  proof (cases "2 * Suc i < n")
    case True
    let ?buf = "take (2 * i) buf @ hex2 b @ NUL # drop (2 * Suc i + 1) buf"
    have "sprintf_at (i * 2) (hex2 b) buf = Inr ?buf" using True Cons.prems by (simp add: sprintf_at_def hex2_digits(3) mult.commute)
    moreover have "length ?buf = n" using True Cons.prems by (simp add: hex2_digits(3))
    moreover have "take (2 * Suc i) ?buf = take (2 * i) buf @ hex2 b" using Cons.prems by (simp add: hex2_digits(3))
    moreover have "drop (2 * (Suc i + length bs) + 1) ?buf = drop (2 * (i + length (b # bs)) + 1) buf"
      using True Cons.prems by (simp add: hex2_digits(3) add.commute)
    ultimately show ?thesis using Cons.IH [of ?buf "Suc i"] True by (auto simp: hex_text_def)
  next
    case False
    then show ?thesis using Cons.prems by (simp add: sprintf_at_def hex2_digits(3))
  qed
qed simp

lemma cstr_prefix: "NUL \<notin> set s \<Longrightarrow> cstr (s @ NUL # t) = s"
  unfolding cstr_def by (induction s) auto

text \<open>
  C33. The hexadecimal text of a buffer: \<^verbatim>\<open>buf_to_hex\<close> of fewer than 512 bytes leaves in its static buffer, whatever it held before, exactly two
  digits for each byte, from which the bytes can be read back; from 512 bytes on it writes past the end of the buffer.
\<close>

theorem buf_to_hex_correct:
  assumes "length buf_hex = 1024"
  shows "if length bs < 512
    then \<exists>s buf'. buf_to_hex bs (int (length bs)) buf_hex = Inr (s, buf') \<and> s = concat (map hex2 bs) \<and> unhex s = bs \<and> length buf' = 1024
    else buf_to_hex bs (int (length bs)) buf_hex = Inl Out_of_bounds"
proof (cases "bs = []")
  case True
  have "cstr (buf_hex[0 := NUL]) = ''''" using assms by (cases buf_hex) (simp_all add: cstr_def)
  moreover have "buf_hex \<noteq> []" using assms by auto
  ultimately show ?thesis using assms True by (simp add: buf_to_hex_def memcpy_def put_nul_def)
next
  case False
  note loop = hex_loop_eq [of buf_hex 1024 0 bs, OF assms]
  have "put_nul (2 * length bs) (hex_text bs @ NUL # t) = Inr (hex_text bs @ NUL # t)" for t
    by (simp add: put_nul_def hex_text_plain(2) list_update_append)
  then show ?thesis
    using loop False assms hex_text_plain [of bs] unhex_hex_text [of bs] cstr_prefix [of "hex_text bs"]
    by (auto simp: buf_to_hex_def memcpy_def mult.commute hex_text_def)
qed

lemma buf_to_hex_correct_witness:
  "\<exists>buf'. buf_to_hex [171, 5] 2 (replicate 1024 CHR ''x'') = Inr (''ab05'', buf') \<and> length buf' = 1024"
  using buf_to_hex_correct [of "replicate 1024 CHR ''x''" "[171, 5]"] by (auto simp: hex2_def digits_def)

text \<open>The two ways to show an identifier agree, and show its first four bytes.\<close>

lemma id_to_str_shows:
  assumes "wf_id i" and "length id_str = 41"
  shows "\<exists>s id_str'. id_to_str (Some i) id_str = Inr (s, id_str') \<and> print_chordID (Some i) = Inr s \<and> length s = 8 \<and> unhex s = take 4 i \<and>
    length id_str' = 41"
proof -
  have four: "length (take 4 i) = 4" "take 4 i \<noteq> []" "4 \<le> length i" using assms(1) by (auto simp: wf_id_def)
  let ?t = "hex_text (take 4 i)"
  have "hex_loop (take 4 i) 0 id_str = Inr (?t @ NUL # drop 9 id_str)"
    using hex_loop_eq [of id_str 41 0 "take 4 i"] four assms(2) by simp
  moreover have "length (?t @ NUL # drop 9 id_str) = 41" using hex_text_plain(2) [of "take 4 i"] four assms(2) by simp
  moreover have "(?t @ NUL # drop 9 id_str)[40 := NUL] = ?t @ NUL # (drop 9 id_str)[31 := NUL]"
    using hex_text_plain(2) [of "take 4 i"] four(1) by (simp add: list_update_append)
  ultimately show ?thesis
    using four hex_text_plain [of "take 4 i"] unhex_hex_text [of "take 4 i"] cstr_prefix [of ?t]
    by (auto simp: id_to_str_def print_chordID_def memcpy_def put_nul_def hex_text_def)
qed

text \<open>The list of fingers as text, from the abstract list.\<close>

definition finger_lines :: "env \<Rightarrow> Finger list \<Rightarrow> nat \<Rightarrow> string" where
  "finger_lines E fs i = concat (map (\<lambda>(k, f). char_of (9 :: nat) # ''['' @ dec k @ ''] '' @ (case print_finger E f '''' '''' of Inr s \<Rightarrow> s | Inl _ \<Rightarrow> ''''))
     (enumerate i fs))"

lemma print_node_total: "wf_id (n_id nd) \<Longrightarrow> \<exists>s. print_node E nd = Inr s"
  by (simp add: print_node_def print_chordID_def memcpy_def wf_id_def)

lemma print_finger_total: "wf_finger f \<Longrightarrow> \<exists>s. print_finger E f prefix suffix = Inr s"
  using print_node_total [of "f_node f" E] by (auto simp: print_finger_def wf_finger_def)

lemma print_finger_list_lines:
  assumes "dlseg (h_cells h) pv ps None" and "length ps < n" and "\<And>p. p \<in> set ps \<Longrightarrow> wf_finger (finger_of h p)"
  shows "print_finger_list n E h (hd_or ps None) i = Inr (finger_lines E (map (finger_of h) ps) i)"
  using assms
proof (induction n arbitrary: ps pv i)
  case (Suc n)
  show ?case
  proof (cases ps)
    case (Cons p qs)
    obtain s where "print_finger E (finger_of h p) '''' '''' = Inr s" using print_finger_total Suc.prems(3) Cons by fastforce
    moreover have "print_finger_list n E h (hd_or qs None) (Suc i) = Inr (finger_lines E (map (finger_of h) qs) (Suc i))"
      using Suc.IH [of "Some p" qs] Suc.prems Cons by simp
    ultimately show ?thesis using dlseg_load [of h pv p qs None] Suc.prems(1) Cons by (simp add: finger_lines_def)
  qed (simp add: finger_lines_def)
qed simp

text \<open>
  The text of a server: on a well-linked list that stands for a well-formed table, \<^verbatim>\<open>print_server\<close> follows no bad pointer, ends, and shows
  the node, the number of passive fingers and then every finger of the table once, in the order of the list and with its index.
\<close>

theorem print_server_shows:
  assumes "linked h ps" and "table_inv (abs_srv h ps)" and "length ps < n"
  shows "\<exists>s. print_node E (s_node (abs_srv h ps)) = Inr s \<and>
    print_server n E h = Inr (s @ char_of (10 :: nat) # ''('' @ dec_int (passive_count (flist (abs_srv h ps))) @ '' passive)'' @ char_of (10 :: nat) #
      ''Finger list:'' @ char_of (10 :: nat) # finger_lines E (flist (abs_srv h ps)) 0)"
proof -
  have inv: "wf_finger (finger_of h p)" if "p \<in> set ps" for p using table_invD(3) [OF assms(2)] that by simp
  have "num_passive_fingers (h_srv h) = passive_count (flist (abs_srv h ps))" using table_invD(5) [OF assms(2)] by simp
  then show ?thesis
    using print_node_total [of "s_node (h_srv h)" E] table_invD(1) [OF assms(2)]
      print_finger_list_lines [OF linkedD(2) [OF assms(1)] assms(3) inv, of E 0] linkedD(3) [OF assms(1)]
    by (auto simp: print_server_def)
qed

lemma print_server_shows_witness:
  "\<exists>s. print_node demo_env (s_node demo_srv2) = Inr s \<and>
    print_server 3 demo_env demo_heap = Inr (s @ char_of (10 :: nat) # ''('' @ dec_int (passive_count (flist demo_srv2)) @ '' passive)'' @ char_of (10 :: nat) #
      ''Finger list:'' @ char_of (10 :: nat) # finger_lines demo_env (flist demo_srv2) 0)"
  using print_server_shows [of demo_heap "[4, 8]" 3 demo_env] unfolding demo_heap_abs by simp

end
