(* ===== verification/Eprintf.thy ===== *)
theory Eprintf
  imports Logger Chord_Print
begin

text \<open>
  Error reporting and the allocation wrappers, \<^verbatim>\<open>src/eprintf.c\<close>: a message goes to a logger, with the text of \<^verbatim>\<open>errno\<close> behind it when its format ends in a colon; \<^verbatim>\<open>eprintf\<close>
  then ends the process with status 2; the wrappers call the C library's allocator and report and exit when it has no memory.

  What the C library contributes are parameters: the formatted text of a message, the text of \<^verbatim>\<open>errno\<close>, and which requests the allocator can serve. A block of memory is the list of its bytes, \<open>None\<close>
  where nothing was written yet.
\<close>

subsection \<open>Messages\<close>

definition log_strerror :: "log_env \<Rightarrow> string \<Rightarrow> nat option \<Rightarrow> int \<Rightarrow> string \<Rightarrow> string \<Rightarrow> clog \<Rightarrow> clog res" where
  "log_strerror M strerror l level fmt txt c =
     fbind (clog_start_log M l ''eprintf.c'' 15 ''log_strerror'' level c) (\<lambda>c.
     fbind (deref l) (\<lambda>p.
     fbind (ctx_at c p) (\<lambda>_.
     let c = fprintf_ctx p txt c;
         c = (if fmt \<noteq> [] \<and> last fmt = CHR '':'' then fprintf_ctx p ('' '' @ strerror) c else c)
     in clog_end_log M l ''eprintf.c'' c)))"

text \<open>\<^verbatim>\<open>eprintf\<close> does not return: its value is the status that the process exits with.\<close>

definition eprintf_impl :: "log_env \<Rightarrow> string \<Rightarrow> nat option \<Rightarrow> string \<Rightarrow> string \<Rightarrow> clog \<Rightarrow> (int \<times> clog) res" where
  "eprintf_impl M strerror l fmt txt c = fbind (log_strerror M strerror l 5 fmt txt c) (\<lambda>c. Inr (2, c))"

definition weprintf_impl :: "log_env \<Rightarrow> string \<Rightarrow> nat option \<Rightarrow> string \<Rightarrow> string \<Rightarrow> clog \<Rightarrow> clog res" where
  "weprintf_impl M strerror l fmt txt c = log_strerror M strerror l 3 fmt txt c"

text \<open>The macro \<^verbatim>\<open>eprintf\<close>, as the functions of this file use it: the logger is the one of the file.\<close>

definition eprintf :: "log_env \<Rightarrow> string \<Rightarrow> string \<Rightarrow> string \<Rightarrow> clog \<Rightarrow> (int \<times> clog) res" where
  "eprintf M strerror fmt txt c =
     fbind (clog_get_logger_for_file M ''eprintf.c'' c) (\<lambda>(l, c). eprintf_impl M strerror l fmt txt c)"

subsection \<open>Memory\<close>

text \<open>The process ends with a status, or goes on with a value.\<close>

datatype 'a proc = Exit int | Continue 'a

record alloc =
  al_malloc :: "ulong \<Rightarrow> bool"
  al_realloc :: "ulong \<Rightarrow> bool"
  al_calloc :: "ulong \<Rightarrow> ulong \<Rightarrow> bool"

type_synonym block = "byte option list"

text \<open>\<^verbatim>\<open>"%u"\<close> with an argument of type \<^verbatim>\<open>size_t\<close> reads the low half of it.\<close>

definition percent_u :: "ulong \<Rightarrow> string" where
  "percent_u n = dec (unat (ucast n :: uint32))"

definition emalloc :: "log_env \<Rightarrow> alloc \<Rightarrow> string \<Rightarrow> ulong \<Rightarrow> clog \<Rightarrow> (block proc \<times> clog) res" where
  "emalloc M A strerror n c =
     (if al_malloc A n then Inr (Continue (replicate (unat n) None), c)
      else fbind (eprintf M strerror ''malloc of %u bytes failed:'' (''malloc of '' @ percent_u n @ '' bytes failed:'') c) (\<lambda>(status, c). Inr (Exit status, c)))"

definition erealloc :: "log_env \<Rightarrow> alloc \<Rightarrow> string \<Rightarrow> block \<Rightarrow> ulong \<Rightarrow> clog \<Rightarrow> (block proc \<times> clog) res" where
  "erealloc M A strerror vp n c =
     (if al_realloc A n then Inr (Continue (take (unat n) vp @ replicate (unat n - length vp) None), c)
      else fbind (eprintf M strerror ''realloc of %u bytes failed:'' (''realloc of '' @ percent_u n @ '' bytes failed:'') c) (\<lambda>(status, c). Inr (Exit status, c)))"

definition ecalloc :: "log_env \<Rightarrow> alloc \<Rightarrow> string \<Rightarrow> ulong \<Rightarrow> ulong \<Rightarrow> clog \<Rightarrow> (block proc \<times> clog) res" where
  "ecalloc M A strerror n w c =
     (if al_calloc A n w then Inr (Continue (replicate (unat n * unat w) (Some 0)), c)
      else fbind (eprintf M strerror ''calloc of %u x %u bytes failed:'' (''calloc of '' @ percent_u n @ '' x '' @ percent_u w @ '' bytes failed:'') c) (\<lambda>(status, c). Inr (Exit status, c)))"

text \<open>A string is the list of its characters; the copy has the terminator behind them.\<close>

definition estrdup :: "log_env \<Rightarrow> alloc \<Rightarrow> string \<Rightarrow> string \<Rightarrow> clog \<Rightarrow> (string proc \<times> clog) res" where
  "estrdup M A strerror s c =
     (if al_malloc A (word_of_nat (length s) + 1) then Inr (Continue (s @ [NUL]), c)
      else fbind (eprintf M strerror ''estrdup(\"%.20s\") failed:'' (''estrdup(\"'' @ take 20 s @ ''\") failed:'') c) (\<lambda>(status, c). Inr (Exit status, c)))"

text \<open>The name of the program is kept and never read.\<close>

definition setprogname :: "string \<Rightarrow> string option \<Rightarrow> string option" where
  "setprogname name progname = Some name"

subsection \<open>What is written\<close>

text \<open>
  A message of \<^verbatim>\<open>log_strerror\<close> on the output of a logger: nothing below its level; otherwise a head, whatever the logger's stream held, the text, the text of \<^verbatim>\<open>errno\<close> behind it after a colon, the colour reset
  and a newline. In both cases the stream is empty afterwards.
\<close>

definition message_on :: "clog \<Rightarrow> nat \<Rightarrow> int \<Rightarrow> string \<Rightarrow> clog \<Rightarrow> bool" where
  "message_on c p level body c' \<longleftrightarrow>
     ctxs c' = (ctxs c)[p := (ctxs c ! p)\<lparr>l_fp := [], l_log_partial := False\<rparr>] \<and>
     (if level < l_min_level (ctxs c ! p) then stdout c' = stdout c
      else \<exists>bold plain diff. stdout c' = stdout c @ bold @ head_text diff (event_context c) ''eprintf.c'' 15 ''log_strerror'' @ default_color @ plain @
        l_fp (ctxs c ! p) @ body @ default_color @ ''\<newline>'')"

definition with_errno :: "string \<Rightarrow> string \<Rightarrow> string \<Rightarrow> string" where
  "with_errno fmt txt strerror = txt @ (if fmt \<noteq> [] \<and> last fmt = CHR '':'' then '' '' @ strerror else [])"

lemma log_strerror_writes:
  assumes "p < length (ctxs c)" and "\<not> l_log_partial (ctxs c ! p)"
  shows "\<exists>c'. log_strerror M strerror (Some p) level fmt txt c = Inr c' \<and> message_on c p level (with_errno fmt txt strerror) c'"
proof (cases "level < l_min_level (ctxs c ! p)")
  case True
  have eq: "(ctxs c ! p)\<lparr>l_fp := [], l_log_partial := False\<rparr> = (ctxs c ! p)\<lparr>l_fp := []\<rparr>" using assms(2) by (cases "ctxs c ! p") simp
  show ?thesis
    using assms True by (simp add: log_strerror_def clog_start_log_def resolve_def ctx_at_def fprintf_ctx_def upd_ctx_def clog_end_log_def fflush_ctx_def
        logger_call_write_def message_on_def Let_def eq)
next
  case False
  let ?c = "upd_ctx p (\<lambda>l. l\<lparr>l_log_partial := True\<rparr>) c"
  obtain bold plain diff t n where s: "start_file_msg M ''eprintf.c'' 15 ''log_strerror'' level ?c =
      Inr (?c\<lparr>stdout := stdout ?c @ bold @ head_text diff (event_context ?c) ''eprintf.c'' 15 ''log_strerror'' @ default_color @ plain, start_time := t, clock_reads := n\<rparr>)"
    using start_file_msg_writes by blast
  then show ?thesis
    using assms False
    by (simp add: log_strerror_def clog_start_log_def resolve_def ctx_at_def fprintf_ctx_def upd_ctx_def clog_end_log_def fflush_ctx_def
        logger_call_write_def message_on_def end_file_msg_def out_def with_errno_def Let_def) blast
qed

text \<open>
  How a message of a wrapper ends. With a logger for this file, the message is written to it and the process exits with status 2. When the logger does not exist yet it is made now, out of the memory that there is
  none of; when that fails, the process ends in a fault and writes nothing.
\<close>

definition reported :: "log_env \<Rightarrow> clog \<Rightarrow> string \<Rightarrow> ('a proc \<times> clog) res \<Rightarrow> bool" where
  "reported M c body r \<longleftrightarrow>
     (case clog_get_logger M ''eprintf'' c of
        Inr (Some p, c1) \<Rightarrow> stdout c1 = stdout c \<and> (\<exists>c'. r = Inr (Exit 2, c') \<and> message_on c1 p 5 body c')
      | Inr (None, c1) \<Rightarrow> \<exists>fault. r = Inl fault
      | Inl fault \<Rightarrow> fault = Null_deref \<and> r = Inl Null_deref)"

definition idle :: "clog \<Rightarrow> bool" where
  "idle c \<longleftrightarrow> (\<forall>l \<in> set (ctxs c). \<not> l_log_partial l)"

lemma eprintf_logger:
  assumes "clog_inv c" and "idle c" and "small_memory (le_calloc_ok M)" and "clog_get_logger M ''eprintf'' c = Inr (Some p, c1)"
  shows "p < length (ctxs c1)" "\<not> l_log_partial (ctxs c1 ! p)" "stdout c1 = stdout c"
proof -
  have "p < length (ctxs c1) \<and> \<not> l_log_partial (ctxs c1 ! p) \<and> stdout c1 = stdout c"
  proof (cases "registered c ''eprintf''")
    case None
    then have "logger_memory M ''eprintf''" using get_logger_no_memory [OF assms(1) None, of M] assms(4) by (cases "logger_memory M ''eprintf''") simp_all
    then show ?thesis using get_logger_new [OF assms(1) None assms(3)] assms(4) by (auto simp: nth_append)
  next
    case (Some q)
    moreover from this have "q < length (ctxs c)" using assms(1) by (fastforce simp: registered_def clog_inv_def split: option.splits)
    ultimately show ?thesis using get_logger_registered [OF assms(1) Some, of M] assms(2,4) by (auto simp: idle_def)
  qed
  then show "p < length (ctxs c1)" "\<not> l_log_partial (ctxs c1 ! p)" "stdout c1 = stdout c" by simp_all
qed

lemma log_strerror_none: "\<exists>fault. log_strerror M err None level fmt txt c = Inl fault"
  by (cases "clog_start_log M None ''eprintf.c'' 15 ''log_strerror'' level c") (simp_all add: log_strerror_def)

lemma eprintf_reports:
  assumes "clog_inv c" and "idle c" and "small_memory (le_calloc_ok M)"
  shows "reported M c (with_errno fmt txt err) (fbind (eprintf M err fmt txt c) (\<lambda>(status, c). Inr (Exit status, c)))"
proof -
  have get: "clog_get_logger_for_file M ''eprintf.c'' c = clog_get_logger M ''eprintf'' c" by (simp add: clog_get_logger_for_file_def BASENAME_def)
  show ?thesis
  proof (cases "clog_get_logger M ''eprintf'' c")
    case (Inl fault)
    then have "registered c ''eprintf'' = None" using get_logger_registered [OF assms(1), of "''eprintf''"] by (cases "registered c ''eprintf''") auto
    moreover from this have "\<not> logger_memory M ''eprintf''" using get_logger_new [OF assms(1) _ assms(3), of "''eprintf''"] Inl by auto
    ultimately have "fault = Null_deref" using get_logger_no_memory [OF assms(1), of "''eprintf''" M] Inl by simp
    then show ?thesis using Inl by (simp add: reported_def eprintf_def get)
  next
    case (Inr r)
    obtain l c1 where r: "r = (l, c1)" by force
    show ?thesis
    proof (cases l)
      case None
      obtain fault where "log_strerror M err None 5 fmt txt c1 = Inl fault" using log_strerror_none by blast
      then show ?thesis using Inr r None by (simp add: reported_def eprintf_def get eprintf_impl_def)
    next
      case (Some p)
      have "clog_get_logger M ''eprintf'' c = Inr (Some p, c1)" using Inr r Some by simp
      note got = eprintf_logger [OF assms this]
      show ?thesis
        using log_strerror_writes [OF got(1,2), of M err 5 fmt "txt"] got(3) Inr r Some by (auto simp: reported_def eprintf_def get eprintf_impl_def)
    qed
  qed
qed

text \<open>
  C37. The allocation wrappers give memory or do not return. Each of them goes on only with a block of the requested size (zeroed for \<^verbatim>\<open>ecalloc\<close>, keeping the
  old contents for \<^verbatim>\<open>erealloc\<close>, a terminated copy for \<^verbatim>\<open>estrdup\<close>). When the allocator fails and the logger of the file exists or can be made, the message that names the request and the text of \<^verbatim>\<open>errno\<close> is written,
  if the logger's level admits it, and the process exits with status 2. Nobody but the wrappers makes that logger, so it is made at this point, and when there is no memory for it or its stream, \<^verbatim>\<open>NULL\<close> is written through instead.
\<close>

theorem allocation_or_exit:
  assumes "clog_inv c" and "idle c" and "small_memory (le_calloc_ok M)"
  shows "(if al_malloc A n then \<exists>b. emalloc M A err n c = Inr (Continue b, c) \<and> length b = unat n
      else reported M c (''malloc of '' @ percent_u n @ '' bytes failed: '' @ err) (emalloc M A err n c)) \<and>
    (if al_realloc A n then \<exists>b. erealloc M A err vp n c = Inr (Continue b, c) \<and> length b = unat n \<and> take (length vp) b = take (unat n) vp
      else reported M c (''realloc of '' @ percent_u n @ '' bytes failed: '' @ err) (erealloc M A err vp n c)) \<and>
    (if al_calloc A n w then \<exists>b. ecalloc M A err n w c = Inr (Continue b, c) \<and> length b = unat n * unat w \<and> set b \<subseteq> {Some 0}
      else reported M c (''calloc of '' @ percent_u n @ '' x '' @ percent_u w @ '' bytes failed: '' @ err) (ecalloc M A err n w c)) \<and>
    (if al_malloc A (word_of_nat (length s) + 1) then estrdup M A err s c = Inr (Continue (s @ [NUL]), c)
      else reported M c (''estrdup(\"'' @ take 20 s @ ''\") failed: '' @ err) (estrdup M A err s c)) \<and>
    (clog_get_logger M ''eprintf'' c = Inl Null_deref \<longleftrightarrow> registered c ''eprintf'' = None \<and> \<not> logger_memory M ''eprintf'')"
proof (intro conjI)
  note e = eprintf_reports [OF assms, where err = err]
  show "if al_malloc A n then \<exists>b. emalloc M A err n c = Inr (Continue b, c) \<and> length b = unat n
      else reported M c (''malloc of '' @ percent_u n @ '' bytes failed: '' @ err) (emalloc M A err n c)"
    using e [of "''malloc of %u bytes failed:''" "''malloc of '' @ percent_u n @ '' bytes failed:''"] by (auto simp: emalloc_def with_errno_def)
  show "if al_realloc A n then \<exists>b. erealloc M A err vp n c = Inr (Continue b, c) \<and> length b = unat n \<and> take (length vp) b = take (unat n) vp
      else reported M c (''realloc of '' @ percent_u n @ '' bytes failed: '' @ err) (erealloc M A err vp n c)"
    using e [of "''realloc of %u bytes failed:''" "''realloc of '' @ percent_u n @ '' bytes failed:''"]
    by (auto simp: erealloc_def with_errno_def min_def)
  show "if al_calloc A n w then \<exists>b. ecalloc M A err n w c = Inr (Continue b, c) \<and> length b = unat n * unat w \<and> set b \<subseteq> {Some 0}
      else reported M c (''calloc of '' @ percent_u n @ '' x '' @ percent_u w @ '' bytes failed: '' @ err) (ecalloc M A err n w c)"
    using e [of "''calloc of %u x %u bytes failed:''" "''calloc of '' @ percent_u n @ '' x '' @ percent_u w @ '' bytes failed:''"]
    by (auto simp: ecalloc_def with_errno_def)
  show "if al_malloc A (word_of_nat (length s) + 1) then estrdup M A err s c = Inr (Continue (s @ [NUL]), c)
      else reported M c (''estrdup(\"'' @ take 20 s @ ''\") failed: '' @ err) (estrdup M A err s c)"
    using e [of "''estrdup(\"%.20s\") failed:''" "''estrdup(\"'' @ take 20 s @ ''\") failed:''"] by (auto simp: estrdup_def with_errno_def)
  show "clog_get_logger M ''eprintf'' c = Inl Null_deref \<longleftrightarrow> registered c ''eprintf'' = None \<and> \<not> logger_memory M ''eprintf''"
    using get_logger_registered [OF assms(1), of "''eprintf''"] get_logger_new [OF assms(1) _ assms(3), of "''eprintf''"] get_logger_no_memory [OF assms(1), of "''eprintf''" M]
    by (cases "registered c ''eprintf''"; cases "logger_memory M ''eprintf''") auto
qed

text \<open>With the library in the state after its first messages, and no memory at all, the message cannot be written.\<close>

lemma allocation_or_exit_witness:
  "emalloc (demo_log_env\<lparr>le_ctx_ok := False\<rparr>) \<lparr>al_malloc = \<lambda>n. n \<le> 8, al_realloc = \<lambda>_. False, al_calloc = \<lambda>_ _. True\<rparr> ''Cannot allocate memory'' 9 demo_clog = Inl Null_deref \<and>
   (\<exists>c'. emalloc demo_log_env \<lparr>al_malloc = \<lambda>n. n \<le> 8, al_realloc = \<lambda>_. False, al_calloc = \<lambda>_ _. True\<rparr> ''Cannot allocate memory'' 9 (one_logger ''eprintf'') = Inr (Exit 2, c') \<and>
     message_on (one_logger ''eprintf'') 0 5 (''malloc of '' @ percent_u 9 @ '' bytes failed: Cannot allocate memory'') c')"
proof
  let ?A = "\<lparr>al_malloc = \<lambda>n. n \<le> 8, al_realloc = \<lambda>_. False, al_calloc = \<lambda>_ _. True\<rparr>" and ?M = "demo_log_env\<lparr>le_ctx_ok := False\<rparr>"
  have small: "small_memory (le_calloc_ok demo_log_env)" by (simp add: demo_log_env_def small_memory_def)
  have idle: "idle (one_logger name)" for name by (simp add: idle_def one_logger_def)
  have "registered demo_clog ''eprintf'' = None" unfolding demo_clog_def by (rule one_logger_others) simp
  then have none: "clog_get_logger ?M ''eprintf'' demo_clog = Inl Null_deref"
    by (rule get_logger_no_memory [OF demo_clog_inv(1)]) (simp add: logger_memory_def)
  have "idle demo_clog" "small_memory (le_calloc_ok ?M)" using idle small by (simp_all add: demo_clog_def)
  from allocation_or_exit [OF demo_clog_inv(1) this, of ?A 9 "''Cannot allocate memory''"]
  have "reported ?M demo_clog (''malloc of '' @ percent_u 9 @ '' bytes failed: Cannot allocate memory'') (emalloc ?M ?A ''Cannot allocate memory'' 9 demo_clog)" by simp
  then show "emalloc ?M ?A ''Cannot allocate memory'' 9 demo_clog = Inl Null_deref" unfolding reported_def none by simp
  from allocation_or_exit [OF one_logger_inv(1) idle small, of ?A 9 "''Cannot allocate memory''" "''eprintf''"]
  have "reported demo_log_env (one_logger ''eprintf'') (''malloc of '' @ percent_u 9 @ '' bytes failed: Cannot allocate memory'')
      (emalloc demo_log_env ?A ''Cannot allocate memory'' 9 (one_logger ''eprintf''))" by simp
  then show "\<exists>c'. emalloc demo_log_env ?A ''Cannot allocate memory'' 9 (one_logger ''eprintf'') = Inr (Exit 2, c') \<and>
     message_on (one_logger ''eprintf'') 0 5 (''malloc of '' @ percent_u 9 @ '' bytes failed: Cannot allocate memory'') c'"
    unfolding reported_def get_logger_registered [OF one_logger_inv] by simp
qed

end
