(* ===== verification/Hosts.thy ===== *)
theory Hosts
  imports Chord_Config Eprintf
begin

text \<open>
  The start of a server process on its machine: the search for the local address and the sockets of \<^verbatim>\<open>hosts.c\<close>, the socket of a server (\<^verbatim>\<open>server_initialize_socket\<close> in \<^verbatim>\<open>chord.c\<close>) and
  the main program of \<^verbatim>\<open>client.c\<close>. The system calls are parameters. Warnings are left out; a message that ends the process is its exit status.
\<close>

unbundle bit_operations_syntax

subsection \<open>The local address\<close>

text \<open>Addresses are kept in network byte order, as the machine's 32-bit number of the four bytes.\<close>

definition TRIVIAL_LOCAL_ADDR :: uint32 where
  "TRIVIAL_LOCAL_ADDR = le_word [127, 0, 0, 1]"

definition MAX_NUM_INTERFACES :: nat where
  "MAX_NUM_INTERFACES = 3"

text \<open>
  The machine: \<^verbatim>\<open>socket\<close> gives a descriptor or a negative number, the flags of an interface tell whether it is up (\<open>None\<close>: the call fails), \<^verbatim>\<open>gethostbyname\<close> a host with the
  length of its addresses and their array, which ends in a null pointer.
\<close>

record hostent =
  h_length :: int
  h_addr_list :: "uint32 list"

record machine =
  m_socket :: "int list \<Rightarrow> int"
  m_ifflags :: "string \<Rightarrow> bool option"
  m_ifaddr :: "string \<Rightarrow> uint32 option"
  m_gethostbyname :: "string \<Rightarrow> hostent option"
  m_uname :: "string option"

text \<open>The loop over the interfaces; \<open>fds\<close> are the open descriptors. \<^verbatim>\<open>close\<close> of a number that is not open has no effect.\<close>

fun eth_loop :: "machine \<Rightarrow> nat \<Rightarrow> nat \<Rightarrow> int list \<Rightarrow> uint32 \<times> int list" where
  "eth_loop m i 0 fds = (TRIVIAL_LOCAL_ADDR, fds)"
| "eth_loop m i (Suc left) fds =
     (let ifname = ''eth'' @ dec i;
          tempfd = m_socket m fds;
          opened = (if 0 \<le> tempfd then tempfd # fds else fds)
      in
      if 0 \<le> tempfd \<and> m_ifflags m ifname = Some True then
        case m_ifaddr m ifname of
          Some addr \<Rightarrow> (addr, remove1 tempfd opened)
        | None \<Rightarrow> eth_loop m (Suc i) left (remove1 tempfd opened)
      else eth_loop m (Suc i) left (remove1 tempfd opened))"

definition get_local_addr_eth :: "machine \<Rightarrow> int list \<Rightarrow> uint32 \<times> int list" where
  "get_local_addr_eth m fds = eth_loop m 0 MAX_NUM_INTERFACES fds"

text \<open>\<^verbatim>\<open>h_length\<close> is converted to \<^verbatim>\<open>size_t\<close> for the division.\<close>

fun name_loop :: "uint32 list \<Rightarrow> nat \<Rightarrow> nat \<Rightarrow> uint32 res" where
  "name_loop addrs i 0 = Inr 0"
| "name_loop addrs i (Suc left) =
     (if i < length addrs then
        if TRIVIAL_LOCAL_ADDR \<noteq> addrs ! i then Inr (addrs ! i) else name_loop addrs (Suc i) left
      else if i = length addrs then Inl Null_deref else Inl Out_of_bounds)"

definition name_to_addr :: "machine \<Rightarrow> string \<Rightarrow> uint32 res" where
  "name_to_addr m name =
     (case m_gethostbyname m name of
        None \<Rightarrow> Inr 0
      | Some hptr \<Rightarrow> name_loop (h_addr_list hptr) 0 (unat ((word_of_int (h_length hptr) :: ulong) div 4)))"

text \<open>When \<^verbatim>\<open>uname\<close> fails, \<^verbatim>\<open>addr\<close> is compared without ever having been set.\<close>

definition get_local_addr_uname :: "machine \<Rightarrow> uint32 res" where
  "get_local_addr_uname m =
     fbind (case m_uname m of None \<Rightarrow> Inr None | Some nodename \<Rightarrow> fbind (name_to_addr m nodename) (\<lambda>a. Inr (Some a))) (\<lambda>addr.
     fbind (read_var addr) (\<lambda>addr.
     if addr = 0 then Inr TRIVIAL_LOCAL_ADDR else Inr addr))"

definition get_local_addr :: "machine \<Rightarrow> int list \<Rightarrow> (uint32 \<times> int list) res" where
  "get_local_addr m fds =
     fbind (get_local_addr_uname m) (\<lambda>addr.
     if addr \<noteq> TRIVIAL_LOCAL_ADDR then Inr (addr, fds)
     else
       let (addr, fds) = get_local_addr_eth m fds in
       if addr \<noteq> TRIVIAL_LOCAL_ADDR then Inr (addr, fds)
       else Inr (TRIVIAL_LOCAL_ADDR, fds))"

definition get_addr :: "machine \<Rightarrow> int list \<Rightarrow> (uint32 \<times> int list) res" where
  "get_addr m fds = get_local_addr m fds"

subsection \<open>Sockets\<close>

text \<open>An address as it is handed to \<^verbatim>\<open>bind\<close>, and the kernel's side of an open socket.\<close>

record bind_addr =
  ba_family :: nat
  ba_port :: ushort
  ba_addr :: "byte list"

record ksock =
  ks_domain :: nat
  ks_reuse :: bool
  ks_flags :: uint32
  ks_bound :: "bind_addr option"

type_synonym ktable = "int \<rightharpoonup> ksock"

record kernel =
  k_socket :: "ktable \<Rightarrow> int"
  k_bind :: "ktable \<Rightarrow> int \<Rightarrow> bind_addr \<Rightarrow> bool"

definition AF_INET :: nat where
  [simp]: "AF_INET = 2"

definition AF_INET6 :: nat where
  [simp]: "AF_INET6 = 10"

definition O_NONBLOCK :: uint32 where
  "O_NONBLOCK = 2048"

definition k_update :: "int \<Rightarrow> (ksock \<Rightarrow> ksock) \<Rightarrow> ktable \<Rightarrow> ktable" where
  "k_update fd f T = (case T fd of None \<Rightarrow> T | Some s \<Rightarrow> T(fd \<mapsto> f s))"

text \<open>On a descriptor that is not open \<^verbatim>\<open>F_GETFL\<close> gives -1 and \<^verbatim>\<open>F_SETFL\<close> has no effect.\<close>

definition set_socket_nonblocking :: "int \<Rightarrow> ktable \<Rightarrow> ktable" where
  "set_socket_nonblocking fd T =
     (let flags = (case T fd of None \<Rightarrow> -1 | Some s \<Rightarrow> ks_flags s);
          flags = flags OR O_NONBLOCK
      in k_update fd (\<lambda>s. s\<lparr>ks_flags := flags\<rparr>) T)"

text \<open>\<^verbatim>\<open>setsockopt\<close>, then \<^verbatim>\<open>bind\<close>; the process ends with status 2 when the address is refused.\<close>

definition bind_socket :: "kernel \<Rightarrow> int \<Rightarrow> bind_addr \<Rightarrow> ktable \<Rightarrow> ktable proc" where
  "bind_socket K fd sin T =
     (let T = k_update fd (\<lambda>s. s\<lparr>ks_reuse := True\<rparr>) T in
      if k_bind K T fd sin then Continue (k_update fd (\<lambda>s. s\<lparr>ks_bound := Some sin\<rparr>) T) else Exit 2)"

definition bind_v6socket :: "kernel \<Rightarrow> int \<Rightarrow> in6_addr \<Rightarrow> ushort \<Rightarrow> ktable \<Rightarrow> ktable proc" where
  "bind_v6socket K fd addr port T = bind_socket K fd \<lparr>ba_family = AF_INET, ba_port = htons port, ba_addr = addr\<rparr> T"

definition bind_v4socket :: "kernel \<Rightarrow> int \<Rightarrow> ulong \<Rightarrow> ushort \<Rightarrow> ktable \<Rightarrow> ktable proc" where
  "bind_v4socket K fd addr port T =
     bind_socket K fd \<lparr>ba_family = AF_INET, ba_port = htons port, ba_addr = le_bytes 4 (htonl (ucast addr))\<rparr> T"

definition open_socket :: "kernel \<Rightarrow> nat \<Rightarrow> ktable \<Rightarrow> int \<times> ktable" where
  "open_socket K domain T =
     (let fd = k_socket K T in
      (fd, if 0 \<le> fd then T(fd \<mapsto> \<lparr>ks_domain = domain, ks_reuse = False, ks_flags = 0, ks_bound = None\<rparr>) else T))"

text \<open>\<^verbatim>\<open>server_initialize_socket\<close> with what it does to the machine; its effect on the server is \<^const>\<open>server_set_socket\<close>.\<close>

definition server_initialize_socket :: "kernel \<Rightarrow> ChordServer \<Rightarrow> ktable \<Rightarrow> (ChordServer \<times> ktable) proc" where
  "server_initialize_socket K srv T =
     (let (fd, T) = open_socket K (if is_v6 srv then AF_INET6 else AF_INET) T in
      case (if is_v6 srv then bind_v6socket K fd (replicate 16 0) (s_port srv) T else bind_v4socket K fd 0 (s_port srv) T) of
        Exit status \<Rightarrow> Exit status
      | Continue T \<Rightarrow> Continue (server_set_socket fd srv, set_socket_nonblocking fd T))"

text \<open>The sockets of the servers in the list, one after the other.\<close>

primrec open_sockets :: "kernel \<Rightarrow> (ChordServer \<times> chord_dispatcher) list \<Rightarrow> ktable \<Rightarrow> ((ChordServer \<times> chord_dispatcher) list \<times> ktable) proc" where
  "open_sockets K [] T = Continue ([], T)"
| "open_sockets K (sd # rest) T =
     (case server_initialize_socket K (fst sd) T of
        Exit status \<Rightarrow> Exit status
      | Continue (srv, T) \<Rightarrow>
          (case open_sockets K rest T of
             Exit status \<Rightarrow> Exit status
           | Continue (srvs, T) \<Rightarrow> Continue ((srv, snd sd) # srvs, T)))"

definition create_chord_servers ::
  "kernel \<Rightarrow> resolver \<Rightarrow> peer_opts list \<Rightarrow> server_opts list \<Rightarrow> (nat \<Rightarrow> byte list) \<Rightarrow> ktable \<Rightarrow> ((ChordServer \<times> chord_dispatcher) list \<times> ktable) proc res" where
  "create_chord_servers K N peers servers rands T =
     fbind (server_initialize_list_from_file N peers servers rands 0 []) (\<lambda>srv_list.
     Inr (open_sockets K srv_list T))"

subsection \<open>The main program\<close>

datatype event_severity = EVENT_LOG_DEBUG | EVENT_LOG_MSG | EVENT_LOG_WARN | EVENT_LOG_ERR | EVENT_LOG_OTHER int

text \<open>The level that libevent's own messages are logged with.\<close>

fun event_logging_cb :: "event_severity \<Rightarrow> int" where
  "event_logging_cb EVENT_LOG_DEBUG = -1"
| "event_logging_cb EVENT_LOG_MSG = 1"
| "event_logging_cb EVENT_LOG_WARN = 3"
| "event_logging_cb EVENT_LOG_ERR = 4"
| "event_logging_cb (EVENT_LOG_OTHER n) = 3"

text \<open>The width of the terminal is read without asking whether \<^verbatim>\<open>ioctl\<close> succeeded.\<close>

definition print_separator :: "bool \<Rightarrow> ushort option \<Rightarrow> string res" where
  "print_separator tty ws_col =
     fbind (read_var ws_col) (\<lambda>w. cvfprintf tty 0x02080100 (replicate (unat w) (CHR ''='') @ ''\<newline>''))"

text \<open>\<^verbatim>\<open>main\<close> up to the event loop: the separator that is printed, and the servers with their sockets, or the status the process exits with.\<close>

definition client_main ::
  "kernel \<Rightarrow> bool \<Rightarrow> ushort option \<Rightarrow> resolver \<Rightarrow> peer_opts list \<Rightarrow> server_opts list \<Rightarrow> (nat \<Rightarrow> byte list) \<Rightarrow> ktable \<Rightarrow>
   (string \<times> ((ChordServer \<times> chord_dispatcher) list \<times> ktable) proc) res" where
  "client_main K tty ws_col N peers servers rands T =
     fbind (print_separator tty ws_col) (\<lambda>line.
     fbind (create_chord_servers K N peers servers rands T) (\<lambda>result.
     Inr (line, result)))"

subsection \<open>Which address is found\<close>

text \<open>What is documented of \<^verbatim>\<open>gethostbyname\<close>: addresses of four bytes, and at least one.\<close>

definition hosts_ok :: "machine \<Rightarrow> bool" where
  "hosts_ok m \<longleftrightarrow> (\<forall>name h. m_gethostbyname m name = Some h \<longrightarrow> h_length h = 4 \<and> h_addr_list h \<noteq> [])"

definition host_addr :: "machine \<Rightarrow> string \<Rightarrow> uint32" where
  "host_addr m name = (case m_gethostbyname m name of None \<Rightarrow> 0 | Some h \<Rightarrow> hd (h_addr_list h))"

definition eth_addrs :: "machine \<Rightarrow> int list \<Rightarrow> nat list \<Rightarrow> uint32 list" where
  "eth_addrs m fds is = (if m_socket m fds < 0 then []
     else List.map_filter (\<lambda>i. if m_ifflags m (''eth'' @ dec i) = Some True then m_ifaddr m (''eth'' @ dec i) else None) is)"

lemma name_to_addr_first:
  assumes "hosts_ok m"
  shows "name_to_addr m name = Inr (if host_addr m name = TRIVIAL_LOCAL_ADDR then 0 else host_addr m name)"
proof (cases "m_gethostbyname m name")
  case None
  then show ?thesis by (simp add: name_to_addr_def host_addr_def)
next
  case (Some h)
  then obtain a as where h: "h_length h = 4" "h_addr_list h = a # as" using assms unfolding hosts_ok_def by (metis list.exhaust)
  have "unat ((4 :: ulong) div 4) = Suc 0" by simp
  then show ?thesis using Some h by (simp add: name_to_addr_def host_addr_def)
qed

lemma eth_loop_eq:
  assumes "\<forall>fd \<in> set fds. 0 \<le> fd"
  shows "eth_loop m i n fds = (case eth_addrs m fds [i..<i + n] of [] \<Rightarrow> TRIVIAL_LOCAL_ADDR | a # as \<Rightarrow> a, fds)"
proof (induction n arbitrary: i)
  case (Suc n)
  have "remove1 (m_socket m fds) fds = fds" if "m_socket m fds < 0" using assms that by (intro remove1_idem) auto
  moreover have "[i..<i + Suc n] = i # [Suc i..<Suc i + n]" by (simp add: upt_conv_Cons)
  ultimately show ?case
    using Suc.IH [of "Suc i"] by (auto simp: eth_addrs_def List.map_filter_simps Let_def simp del: upt_Suc split: option.split)
qed (simp add: eth_addrs_def List.map_filter_simps)

text \<open>
  The local address. When \<^verbatim>\<open>uname\<close> fails a variable is read that was never set. Otherwise the result is the first address of the machine's own name unless that is the
  loopback address; only the first, since the loop runs over the length of an address instead of the number of addresses. Then come the interfaces eth0, eth1 and eth2 that are up and have an
  address, and last the loopback address. Every socket that was opened is closed.
\<close>

theorem local_addr_found:
  assumes "hosts_ok m" and "\<forall>fd \<in> set fds. 0 \<le> fd"
  shows "get_addr m fds =
    (case m_uname m of
       None \<Rightarrow> Inl Uninit_read
     | Some name \<Rightarrow>
         Inr (if host_addr m name \<noteq> 0 \<and> host_addr m name \<noteq> TRIVIAL_LOCAL_ADDR then host_addr m name
              else case eth_addrs m fds [0..<3] of [] \<Rightarrow> TRIVIAL_LOCAL_ADDR | a # as \<Rightarrow> a, fds))"
proof (cases "m_uname m")
  case (Some name)
  have "0 \<noteq> TRIVIAL_LOCAL_ADDR" by (simp add: TRIVIAL_LOCAL_ADDR_def le_word_def)
  then have "get_local_addr_uname m = Inr (if host_addr m name \<noteq> 0 then host_addr m name else TRIVIAL_LOCAL_ADDR)"
    using Some by (simp add: get_local_addr_uname_def name_to_addr_first [OF assms(1)])
  then show ?thesis
    using Some eth_loop_eq [OF assms(2), of m 0 3] by (simp add: get_addr_def get_local_addr_def get_local_addr_eth_def MAX_NUM_INTERFACES_def)
qed (simp add: get_addr_def get_local_addr_def get_local_addr_uname_def)

definition demo_machine :: machine where
  "demo_machine = \<lparr>m_socket = \<lambda>fds. 7, m_ifflags = \<lambda>n. if n = ''eth1'' then Some True else None, m_ifaddr = \<lambda>n. Some 5,
     m_gethostbyname = \<lambda>n. Some \<lparr>h_length = 4, h_addr_list = [TRIVIAL_LOCAL_ADDR, 9]\<rparr>, m_uname = Some ''me''\<rparr>"

lemma demo_machine_addrs: "host_addr demo_machine ''me'' = TRIVIAL_LOCAL_ADDR" "eth_addrs demo_machine [3] [0..<3] = [5]"
proof -
  have d: "dec 0 = ''0''" "dec (Suc 0) = ''1''" "dec (Suc (Suc 0)) = ''2''" by (simp_all add: dec.simps digits_def)
  have "[0..<3] = [0, Suc 0, Suc (Suc 0)]" by (simp add: numeral_3_eq_3)
  then show "eth_addrs demo_machine [3] [0..<3] = [5]" by (simp add: eth_addrs_def demo_machine_def List.map_filter_simps d)
qed (simp add: host_addr_def demo_machine_def)

lemma local_addr_found_witness: "get_addr demo_machine [3] = Inr (5, [3])"
proof -
  have "hosts_ok demo_machine" "m_uname demo_machine = Some ''me''" by (simp_all add: hosts_ok_def demo_machine_def)
  then show ?thesis using local_addr_found [of demo_machine "[3]"] by (simp add: demo_machine_addrs)
qed

subsection \<open>Which sockets are opened\<close>

text \<open>What is documented of the kernel: a new descriptor is not one that is open, and an address is only accepted for an open socket of its own family. Either call may fail at any time.\<close>

definition kernel_ok :: "kernel \<Rightarrow> bool" where
  "kernel_ok K \<longleftrightarrow> (\<forall>T. finite (dom T) \<and> 0 \<le> k_socket K T \<longrightarrow> T (k_socket K T) = None) \<and>
     (\<forall>T fd a. k_bind K T fd a \<longrightarrow> (\<exists>s. T fd = Some s \<and> ba_family a = ks_domain s))"

definition any_v4 :: "ushort \<Rightarrow> bind_addr" where
  "any_v4 port = \<lparr>ba_family = AF_INET, ba_port = htons port, ba_addr = [0, 0, 0, 0]\<rparr>"

definition v4_socket :: "bool \<Rightarrow> uint32 \<Rightarrow> bind_addr option \<Rightarrow> ksock" where
  "v4_socket reuse flags bound = \<lparr>ks_domain = AF_INET, ks_reuse = reuse, ks_flags = flags, ks_bound = bound\<rparr>"

lemma zero_bytes: "le_bytes 4 (htonl 0) = [0, 0, 0, 0]"
  by (simp add: htonl_def le_word_def le_bytes_def upt_rec)

lemma server_initialize_socket_eq:
  assumes "kernel_ok K" and "\<forall>fd < 0. T fd = None"
  shows "server_initialize_socket K srv T =
    (let fd = k_socket K T in
     if 0 \<le> fd \<and> \<not> is_v6 srv \<and> k_bind K (T(fd \<mapsto> v4_socket True 0 None)) fd (any_v4 (s_port srv))
     then Continue (server_set_socket fd srv, T(fd \<mapsto> v4_socket True O_NONBLOCK (Some (any_v4 (s_port srv)))))
     else Exit 2)"
proof (cases "0 \<le> k_socket K T")
  case True
  have "\<not> k_bind K (T(fd \<mapsto> \<lparr>ks_domain = AF_INET6, ks_reuse = r, ks_flags = f, ks_bound = b\<rparr>)) fd \<lparr>ba_family = AF_INET, ba_port = p, ba_addr = a\<rparr>" for fd r f b p a
    using assms(1) unfolding kernel_ok_def by fastforce
  then show ?thesis
    using True by (auto simp: server_initialize_socket_def open_socket_def bind_v6socket_def bind_v4socket_def bind_socket_def k_update_def set_socket_nonblocking_def
        any_v4_def v4_socket_def zero_bytes Let_def)
next
  case False
  then have "T (k_socket K T) = None" using assms(2) by simp
  then have "\<not> k_bind K T (k_socket K T) a" for a using assms(1) unfolding kernel_ok_def by (metis option.distinct(1))
  then show ?thesis
    using False \<open>T (k_socket K T) = None\<close>
    by (simp add: server_initialize_socket_def open_socket_def bind_v6socket_def bind_v4socket_def bind_socket_def k_update_def Let_def)
qed

definition table_ok :: "ktable \<Rightarrow> bool" where
  "table_ok T \<longleftrightarrow> finite (dom T) \<and> (\<forall>fd < 0. T fd = None)"

text \<open>A kernel that has a descriptor to give and that accepts each of these ports on a new IPv4 socket: it is neither in use nor privileged.\<close>

definition permits :: "kernel \<Rightarrow> ushort set \<Rightarrow> bool" where
  "permits K ports \<longleftrightarrow> (\<forall>T. table_ok T \<longrightarrow> 0 \<le> k_socket K T \<and>
     (\<forall>fd. \<forall>port \<in> ports. T fd = Some (v4_socket True 0 None) \<longrightarrow> k_bind K T fd (any_v4 port)))"

text \<open>A server on its own socket: registered under its number, non-blocking, bound to its port.\<close>

definition on_socket :: "ktable \<Rightarrow> ChordServer \<Rightarrow> bool" where
  "on_socket T srv \<longleftrightarrow> T (sock srv) = Some (v4_socket True O_NONBLOCK (Some (any_v4 (s_port srv)))) \<and> send_func srv = Send_raw_v4"

text \<open>The servers of the list on the descriptors \<open>fds\<close>, which were not open before.\<close>

definition opened :: "ktable \<Rightarrow> int list \<Rightarrow> (ChordServer \<times> chord_dispatcher) list \<Rightarrow> (ChordServer \<times> chord_dispatcher) list \<Rightarrow> ktable \<Rightarrow> bool" where
  "opened T fds sds sds' T' \<longleftrightarrow> (\<forall>sd \<in> set sds. \<not> is_v6 (fst sd)) \<and> (\<forall>fd \<in> dom T. T' fd = T fd) \<and> length fds = length sds \<and> distinct fds \<and> set fds \<inter> dom T = {} \<and>
     sds' = map2 (\<lambda>fd (srv, d). (server_set_socket fd srv, d)) fds sds \<and> (\<forall>sd \<in> set sds'. on_socket T' (fst sd))"

lemma opened_Cons:
  assumes "opened (T(fd \<mapsto> v4_socket True O_NONBLOCK (Some (any_v4 (s_port srv))))) fds sds sds' T'" and "T fd = None" and "\<not> is_v6 srv"
  shows "opened T (fd # fds) ((srv, d) # sds) ((server_set_socket fd srv, d) # sds') T'"
proof -
  have "on_socket T' (server_set_socket fd srv)" using assms(1,3) by (simp add: opened_def on_socket_def server_set_socket_def)
  moreover have "\<forall>x \<in> dom T. T' x = T x" using assms(1,2) by (auto simp: opened_def split: if_splits)
  ultimately show ?thesis using assms by (auto simp: opened_def domIff disjoint_iff)
qed

lemma open_sockets_spec:
  assumes "kernel_ok K" and "table_ok T"
  shows "case open_sockets K sds T of
      Exit status \<Rightarrow> status = 2 \<and> ((\<exists>sd \<in> set sds. is_v6 (fst sd)) \<or> \<not> permits K ((\<lambda>sd. s_port (fst sd)) ` set sds))
    | Continue (sds', T') \<Rightarrow> \<exists>fds. opened T fds sds sds' T'"
  using assms(2)
proof (induction sds arbitrary: T)
  case Nil
  then show ?case by (simp add: opened_def)
next
  case (Cons sd sds)
  obtain srv d where sd: "sd = (srv, d)" by force
  define fd where "fd = k_socket K T"
  define T1 where "T1 = T(fd \<mapsto> v4_socket True O_NONBLOCK (Some (any_v4 (s_port srv))))"
  define T0 where "T0 = T(fd \<mapsto> v4_socket True 0 None)"
  define ok where "ok \<longleftrightarrow> 0 \<le> fd \<and> \<not> is_v6 srv \<and> k_bind K T0 fd (any_v4 (s_port srv))"
  have step: "server_initialize_socket K srv T = (if ok then Continue (server_set_socket fd srv, T1) else Exit 2)"
    using server_initialize_socket_eq [OF assms(1), of T srv] Cons.prems by (simp add: table_ok_def ok_def fd_def [symmetric] T1_def T0_def Let_def)
  have grant: "ok" if "\<not> is_v6 srv" "permits K ((\<lambda>sd. s_port (fst sd)) ` set (sd # sds))"
  proof -
    have "0 \<le> fd" using that(2) Cons.prems by (simp add: permits_def fd_def)
    moreover from this have "table_ok T0" using Cons.prems by (auto simp: table_ok_def T0_def)
    ultimately show ?thesis using that by (auto simp: ok_def permits_def T0_def sd)
  qed
  show ?case
  proof (cases ok)
    case True
    then have fd: "T fd = None" "table_ok T1" "\<not> is_v6 srv" using assms(1) Cons.prems by (auto simp: ok_def kernel_ok_def fd_def table_ok_def T1_def)
    have mono: "\<not> permits K ((\<lambda>sd. s_port (fst sd)) ` set (sd # sds))" if "\<not> permits K ((\<lambda>sd. s_port (fst sd)) ` set sds)"
      using that by (auto simp: permits_def)
    show ?thesis
      using Cons.IH [OF fd(2)] opened_Cons [where T = T and fd = fd and srv = srv and sds = sds and d = d, folded T1_def] fd(1,3) mono True
      by (auto simp: sd step split: proc.splits)
  next
    case False
    then show ?thesis using grant by (auto simp: sd step)
  qed
qed

lemma sockets_of:
  "length fds = length sds \<Longrightarrow> map (\<lambda>(srv, d). sock srv) (map2 (\<lambda>fd (srv, d). (server_set_socket fd srv, d)) fds sds) = fds"
  by (induction fds sds rule: list_induct2) (auto simp: server_set_socket_def)

lemma create_chord_servers_eq:
  assumes "resolver_ok N" and "servers = [] \<or> addressed peers"
  shows "create_chord_servers K N peers servers rands T =
    Inr (open_sockets K (rev (map (\<lambda>(k, server). (section_server N peers (rands k) server, chord_disp)) (enumerate 0 servers))) T)"
  using initialize_list_eq [OF assms(1), of peers servers rands 0 "[]"] assms(2) by (simp add: create_chord_servers_def)

lemma section_init:
  "length rand = TICKET_SALT_LEN \<Longrightarrow> chord_init chord_disp (0, server_set_socket fd (section_server N peers rand server))"
  unfolding chord_init_def section_server_def started_server_def
  by (intro exI [of _ rand] exI [of _ "fresh_server rand"] exI [of _ "so_ip_version server = 6"] exI [of _ "word_of_int (so_port server)"]
      exI [of _ "List.map_filter (resolved N) peers"] exI [of _ fd]) (simp add: new_server_eq)

lemma server_set_socket_sel: "s_node (server_set_socket fd srv) = s_node srv" "is_v6 (server_set_socket fd srv) = is_v6 srv" "well_known (server_set_socket fd srv) = well_known srv"
  by (simp_all add: server_set_socket_def)

text \<open>The servers that the program reaches its event loop with, the last section first: in an initial state of the server's machine, on a socket of its own, with the port of the section and the peers that resolve.\<close>

definition server_of_section :: "resolver \<Rightarrow> peer_opts list \<Rightarrow> ktable \<Rightarrow> ChordServer \<times> chord_dispatcher \<Rightarrow> server_opts \<Rightarrow> bool" where
  "server_of_section N peers T sd server \<longleftrightarrow> chord_init (snd sd) (0, fst sd) \<and> on_socket T (fst sd) \<and> \<not> is_v6 (fst sd) \<and> s_port (fst sd) = word_of_int (so_port server) \<and>
     map (\<lambda>n. (n_addr n, n_port n)) (well_known (fst sd)) = rev (List.map_filter (resolved N) peers)"

lemma opened_sections:
  assumes "opened T fds (rev (map (\<lambda>(k, server). (section_server N peers (rands k) server, chord_disp)) (enumerate 0 servers))) srvs T'"
    and "\<And>i. length (rands i) = TICKET_SALT_LEN"
  shows "list_all2 (server_of_section N peers T') srvs (rev servers)" and "distinct (map (\<lambda>(srv, d). sock srv) srvs)"
proof -
  let ?l = "rev (map (\<lambda>(k, server). (section_server N peers (rands k) server, chord_disp)) (enumerate 0 servers))"
  have S: "length fds = length ?l" "srvs = map2 (\<lambda>fd (srv, d). (server_set_socket fd srv, d)) fds ?l" using assms(1) by (simp_all add: opened_def)
  show "distinct (map (\<lambda>(srv, d). sock srv) srvs)" using sockets_of [OF S(1)] assms(1) by (simp add: opened_def)
  show "list_all2 (server_of_section N peers T') srvs (rev servers)"
  proof (rule list_all2_all_nthI)
    show "length srvs = length (rev servers)" using S by simp
    fix i
    assume i: "i < length srvs"
    let ?j = "length servers - 1 - i"
    have len: "length srvs = length ?l" using S by simp
    have l: "?l ! i = (section_server N peers (rands ?j) (servers ! ?j), chord_disp)" using i S by (simp add: rev_nth nth_enumerate_eq)
    then have "srvs ! i = (server_set_socket (fds ! i) (section_server N peers (rands ?j) (servers ! ?j)), chord_disp)" using i S by simp
    moreover have "on_socket T' (fst (srvs ! i))" using assms(1) nth_mem [OF i] unfolding opened_def by blast
    moreover have "\<not> is_v6 (fst (?l ! i))" using assms(1) nth_mem [of i ?l] i S(1) len unfolding opened_def by metis
    ultimately show "server_of_section N peers T' (srvs ! i) (rev servers ! i)"
      using i S(2) len l section_init [OF assms(2)] by (simp add: server_of_section_def rev_nth section_server_sel server_set_socket_sel)
  qed
qed


definition demo_kernel :: kernel where
  "demo_kernel = \<lparr>k_socket = \<lambda>T. Max (insert 2 (dom T)) + 1, k_bind = \<lambda>T fd a. case T fd of None \<Rightarrow> False | Some s \<Rightarrow> ba_family a = ks_domain s\<rparr>"

lemma Max_fresh: "finite A \<Longrightarrow> 0 \<le> Max (insert 2 A) + 1 \<and> Max (insert 2 A) + 1 \<notin> A" for A :: "int set"
proof -
  assume "finite A"
  then have "x \<le> Max (insert 2 A)" if "x \<in> insert 2 A" for x using that by simp
  from this [of 2] this [of "Max (insert 2 A) + 1"] show ?thesis by auto
qed


lemma demo_kernel_ok: "kernel_ok demo_kernel" "permits demo_kernel ports" "table_ok Map.empty"
  using Max_fresh by (auto simp: kernel_ok_def demo_kernel_def permits_def table_ok_def any_v4_def v4_socket_def split: option.splits)


end
