(* ===== verification/Linked_String.thy ===== *)
theory Linked_String
  imports Chord_Print
begin

text \<open>
  Strings built from pieces (\<^verbatim>\<open>str.c\<close>): a list of nodes in memory with a pointer to the first and the last, to which formatted text is
  appended, and which is flattened into one string. What \<^verbatim>\<open>vsnprintf\<close> makes of a format and its arguments is an argument here: the text.
  Addresses are handed out in ascending order; the nodes' characters are kept in the node. The loops carry fuel; one round more than there are nodes is enough.
\<close>

subsection \<open>The nodes\<close>

record LinkedStringNode =
  ln_chars :: string
  ln_len :: int
  ln_next :: "nat option"

record LinkedString =
  ls_first :: "nat option"
  ls_last :: "nat option"

text \<open>The memory: the nodes that are allocated, the next address, and the texts that were allocated and never freed.\<close>

record str_heap =
  sh_nodes :: "nat \<rightharpoonup> LinkedStringNode"
  sh_next :: nat
  sh_chars :: nat

definition node_at :: "str_heap \<Rightarrow> nat \<Rightarrow> LinkedStringNode res" where
  "node_at m p = (case sh_nodes m p of None \<Rightarrow> Inl Null_deref | Some n \<Rightarrow> Inr n)"

definition lstr_empty :: LinkedString where
  "lstr_empty = \<lparr>ls_first = None, ls_last = None\<rparr>"

text \<open>The node's buffer has \<open>formatted_len\<close> characters; \<^verbatim>\<open>vsprintf\<close> writes the text and its terminator.\<close>

definition lstr_add_node :: "str_heap \<Rightarrow> LinkedString \<Rightarrow> int \<Rightarrow> string \<Rightarrow> (str_heap \<times> LinkedString) res" where
  "lstr_add_node m str formatted_len text =
     (let p = sh_next m; node = \<lparr>ln_chars = text, ln_len = formatted_len, ln_next = None\<rparr>;
          m = m\<lparr>sh_nodes := (sh_nodes m)(p \<mapsto> node), sh_next := Suc p, sh_chars := Suc (sh_chars m)\<rparr> in
      if int (length text) \<ge> formatted_len then Inl Out_of_bounds
      else
        case ls_last str of
          None \<Rightarrow> Inr (m, str\<lparr>ls_first := Some p, ls_last := Some p\<rparr>)
        | Some prev \<Rightarrow>
            fbind (node_at m prev) (\<lambda>pn.
            Inr (m\<lparr>sh_nodes := (sh_nodes m)(prev \<mapsto> pn\<lparr>ln_next := Some p\<rparr>)\<rparr>, str\<lparr>ls_last := Some p\<rparr>)))"

definition lstr_add :: "str_heap \<Rightarrow> LinkedString \<Rightarrow> string \<Rightarrow> (str_heap \<times> LinkedString) res" where
  "lstr_add m str text = lstr_add_node m str (int (length text) + 1) text"

definition lstr_new :: "str_heap \<Rightarrow> string \<Rightarrow> (str_heap \<times> LinkedString) res" where
  "lstr_new m text = lstr_add m lstr_empty text"

primrec lstr_free :: "nat \<Rightarrow> str_heap \<Rightarrow> nat option \<Rightarrow> str_heap res" where
  "lstr_free 0 m first = Inl Out_of_fuel"
| "lstr_free (Suc n) m first =
     (case first of
        None \<Rightarrow> Inr m
      | Some p \<Rightarrow> fbind (node_at m p) (\<lambda>node. lstr_free n (m\<lparr>sh_nodes := (sh_nodes m)(p := None)\<rparr>) (ln_next node)))"

primrec lstr_length :: "nat \<Rightarrow> str_heap \<Rightarrow> nat option \<Rightarrow> int \<Rightarrow> int res" where
  "lstr_length 0 m node len = Inl Out_of_fuel"
| "lstr_length (Suc n) m node len =
     (case node of
        None \<Rightarrow> Inr len
      | Some p \<Rightarrow> fbind (node_at m p) (\<lambda>nd. lstr_length n m (ln_next nd) (len + ln_len nd)))"

text \<open>\<^verbatim>\<open>strcat\<close> into a buffer of \<open>len\<close> characters that holds the string \<open>flat\<close>.\<close>

primrec lstr_cat :: "nat \<Rightarrow> str_heap \<Rightarrow> int \<Rightarrow> nat option \<Rightarrow> string \<Rightarrow> string res" where
  "lstr_cat 0 m len node flat = Inl Out_of_fuel"
| "lstr_cat (Suc n) m len node flat =
     (case node of
        None \<Rightarrow> Inr flat
      | Some p \<Rightarrow>
          fbind (node_at m p) (\<lambda>nd.
          if int (length (flat @ cstr (ln_chars nd))) \<ge> len then Inl Out_of_bounds
          else lstr_cat n m len (ln_next nd) (flat @ cstr (ln_chars nd))))"

definition lstr_flat :: "nat \<Rightarrow> str_heap \<Rightarrow> LinkedString \<Rightarrow> string res" where
  "lstr_flat n m str =
     fbind (lstr_length n m (ls_first str) 0) (\<lambda>len.
     if len \<le> 0 then Inl Out_of_bounds
     else lstr_cat n m len (ls_first str) '''')"

subsection \<open>The pieces of a string\<close>

fun pieces :: "(nat \<rightharpoonup> LinkedStringNode) \<Rightarrow> nat list \<Rightarrow> string list \<Rightarrow> bool" where
  "pieces m [] [] = True"
| "pieces m (p # ps) (t # ts) =
     (m p = Some \<lparr>ln_chars = t, ln_len = int (length t) + 1, ln_next = (if ps = [] then None else Some (hd ps))\<rparr> \<and> pieces m ps ts)"
| "pieces m _ _ = False"

definition holds_texts :: "str_heap \<Rightarrow> LinkedString \<Rightarrow> nat list \<Rightarrow> string list \<Rightarrow> bool" where
  "holds_texts m str ps ts \<longleftrightarrow> pieces (sh_nodes m) ps ts \<and> distinct ps \<and> (\<forall>p \<in> set ps. p < sh_next m) \<and>
     ls_first str = (if ps = [] then None else Some (hd ps)) \<and> ls_last str = (if ps = [] then None else Some (last ps))"

lemma pieces_length: "pieces m ps ts \<Longrightarrow> length ps = length ts"
  by (induction m ps ts rule: pieces.induct) auto

lemma pieces_other: "p \<notin> set ps \<Longrightarrow> pieces (m(p := x)) ps ts = pieces m ps ts"
  by (induction m ps ts rule: pieces.induct) auto

lemma pieces_snoc:
  assumes "pieces m ps ts" and "distinct (ps @ [p])" and "ps \<noteq> []"
    and "n = \<lparr>ln_chars = t, ln_len = int (length t) + 1, ln_next = None\<rparr>"
  shows "\<exists>pn. m (last ps) = Some pn \<and> pieces (m(p \<mapsto> n, last ps \<mapsto> pn\<lparr>ln_next := Some p\<rparr>)) (ps @ [p]) (ts @ [t])"
  using assms(1-3)
proof (induction m ps ts rule: pieces.induct)
  case (2 m q ps s ts)
  show ?case
  proof (cases "ps = []")
    case True
    then show ?thesis using 2 assms(4) by (cases ts) auto
  next
    case False
    then obtain pn where pn: "m (last ps) = Some pn" "pieces (m(p \<mapsto> n, last ps \<mapsto> pn\<lparr>ln_next := Some p\<rparr>)) (ps @ [p]) (ts @ [t])"
      using "2.IH" 2(2,3) False by (metis append_Cons distinct.simps(2) pieces.simps(2))
    moreover have "q \<noteq> last ps" "q \<noteq> p" using 2(3) False by auto
    moreover have "(m(p \<mapsto> n, last ps \<mapsto> pn\<lparr>ln_next := Some p\<rparr>)) q = m q" using calculation(3,4) by simp
    ultimately show ?thesis using 2(2) False by (intro exI [of _ pn]) (simp del: fun_upd_apply)
  qed
qed auto

lemma lstr_add_holds:
  assumes "holds_texts m str ps ts"
  shows "\<exists>m' str'. lstr_add m str t = Inr (m', str') \<and> holds_texts m' str' (ps @ [sh_next m]) (ts @ [t])"
proof (cases "ps = []")
  case True
  then show ?thesis using assms pieces_length [of "sh_nodes m" ps ts] by (auto simp: holds_texts_def lstr_add_def lstr_add_node_def Let_def)
next
  case False
  let ?n = "\<lparr>ln_chars = t, ln_len = int (length t) + 1, ln_next = None\<rparr>"
  have d: "distinct (ps @ [sh_next m])" "last ps \<noteq> sh_next m"
    using assms last_in_set [OF False] by (auto simp: holds_texts_def)
  obtain pn where "sh_nodes m (last ps) = Some pn"
    "pieces ((sh_nodes m)(sh_next m \<mapsto> ?n, last ps \<mapsto> pn\<lparr>ln_next := Some (sh_next m)\<rparr>)) (ps @ [sh_next m]) (ts @ [t])"
    using pieces_snoc [OF _ d(1) False refl, of "sh_nodes m" ts t] assms by (metis holds_texts_def)
  then show ?thesis using assms False d by (auto simp: holds_texts_def lstr_add_def lstr_add_node_def Let_def node_at_def)
qed

text \<open>Flattening.\<close>

lemma lstr_length_eq:
  assumes "pieces (sh_nodes m) ps ts" and "length ps < n"
  shows "lstr_length n m (if ps = [] then None else Some (hd ps)) len = Inr (len + int (length (concat ts)) + int (length ts))"
  using assms
proof (induction n arbitrary: ps ts len)
  case (Suc n)
  show ?case
  proof (cases ps)
    case Nil
    then show ?thesis using Suc.prems pieces_length [of "sh_nodes m" ps ts] by simp
  next
    case (Cons p qs)
    then obtain t us where ts: "ts = t # us" using Suc.prems(1) by (cases ts) auto
    then show ?thesis using Suc.IH [of qs us "len + (int (length t) + 1)"] Suc.prems Cons by (simp add: node_at_def)
  qed
qed simp

lemma lstr_cat_eq:
  assumes "pieces (sh_nodes m) ps ts" and "length ps < n" and "\<And>t. t \<in> set ts \<Longrightarrow> NUL \<notin> set t" and "int (length flat + length (concat ts)) < len"
  shows "lstr_cat n m len (if ps = [] then None else Some (hd ps)) flat = Inr (flat @ concat ts)"
  using assms
proof (induction n arbitrary: ps ts flat)
  case (Suc n)
  show ?case
  proof (cases ps)
    case Nil
    then show ?thesis using Suc.prems pieces_length [of "sh_nodes m" ps ts] by simp
  next
    case (Cons p qs)
    then obtain t us where ts: "ts = t # us" using Suc.prems(1) by (cases ts) auto
    have "cstr t = t" using Suc.prems(3) [of t] by (auto simp: ts cstr_def takeWhile_eq_all_conv)
    then show ?thesis using Suc.IH [of qs us "flat @ t"] Suc.prems Cons ts by (simp add: node_at_def)
  qed
qed simp

lemma lstr_free_eq:
  assumes "pieces (sh_nodes m) ps ts" and "distinct ps" and "length ps < n"
  shows "lstr_free n m (if ps = [] then None else Some (hd ps)) = Inr (m\<lparr>sh_nodes := sh_nodes m |` (- set ps)\<rparr>)"
  using assms
proof (induction n arbitrary: m ps ts)
  case (Suc n)
  show ?case
  proof (cases ps)
    case Nil
    then show ?thesis by simp
  next
    case (Cons p qs)
    then obtain t us where ts: "ts = t # us" using Suc.prems(1) by (cases ts) auto
    have "(sh_nodes m)(p := None) |` (- set qs) = sh_nodes m |` (- set ps)" using Cons by (auto simp: restrict_map_def fun_eq_iff)
    moreover have "lstr_free n (m\<lparr>sh_nodes := (sh_nodes m)(p := None)\<rparr>) (if qs = [] then None else Some (hd qs)) =
        Inr (m\<lparr>sh_nodes := (sh_nodes m)(p := None) |` (- set qs)\<rparr>)"
      using Suc.IH [of "m\<lparr>sh_nodes := (sh_nodes m)(p := None)\<rparr>" qs us] pieces_other [of p qs "sh_nodes m" None us] Suc.prems Cons ts by (simp del: fun_upd_apply)
    ultimately show ?thesis using Suc.prems(1) Cons ts by (simp add: node_at_def del: fun_upd_apply)
  qed
qed simp

text \<open>A string that was built by adding texts in this order.\<close>

primrec lstr_add_all :: "str_heap \<Rightarrow> LinkedString \<Rightarrow> string list \<Rightarrow> (str_heap \<times> LinkedString) res" where
  "lstr_add_all m str [] = Inr (m, str)"
| "lstr_add_all m str (t # ts) = fbind (lstr_add m str t) (\<lambda>(m, str). lstr_add_all m str ts)"

lemma lstr_add_all_holds:
  assumes "holds_texts m str ps us"
  shows "\<exists>m' str' qs. lstr_add_all m str ts = Inr (m', str') \<and> holds_texts m' str' (ps @ qs) (us @ ts)"
  using assms
proof (induction ts arbitrary: m str ps us)
  case Nil
  then show ?case by (auto intro: exI [of _ "[]"])
next
  case (Cons t ts)
  obtain m1 str1 where add: "lstr_add m str t = Inr (m1, str1)" "holds_texts m1 str1 (ps @ [sh_next m]) (us @ [t])"
    using lstr_add_holds [OF Cons.prems] by blast
  then show ?case using Cons.IH [OF add(2)] by fastforce
qed

text \<open>
  A string in pieces: a string made with \<^verbatim>\<open>lstr_new\<close> from a first text and extended by any further texts is flattened, with one round of the loops
  per piece and one more, to exactly the texts one after the other, inside the buffer that was allocated for it. Freeing it then releases all its nodes, but
  none of the texts the nodes point to. A string that was never added to is flattened by writing into an allocation of no bytes.
\<close>

theorem lstr_flat_concat:
  assumes "\<forall>u \<in> set (t # ts). NUL \<notin> set u"
  shows "(\<exists>m1 str1 m2 str2 ps. lstr_new m t = Inr (m1, str1) \<and> lstr_add_all m1 str1 ts = Inr (m2, str2) \<and> length ps = Suc (length ts) \<and>
      lstr_flat (length ts + 2) m2 str2 = Inr (concat (t # ts)) \<and>
      lstr_free (length ts + 2) m2 (ls_first str2) = Inr (m2\<lparr>sh_nodes := sh_nodes m2 |` (- set ps)\<rparr>)) \<and>
    lstr_flat 1 m lstr_empty = Inl Out_of_bounds"
proof -
  obtain m1 str1 where new: "lstr_new m t = Inr (m1, str1)" "holds_texts m1 str1 [sh_next m] [t]"
    using lstr_add_holds [of m lstr_empty "[]" "[]" t] by (auto simp: lstr_new_def holds_texts_def lstr_empty_def)
  obtain m2 str2 qs where adds: "lstr_add_all m1 str1 ts = Inr (m2, str2)" "holds_texts m2 str2 (sh_next m # qs) (t # ts)"
    using lstr_add_all_holds [OF new(2), of ts] by auto
  let ?ps = "sh_next m # qs"
  have h: "pieces (sh_nodes m2) ?ps (t # ts)" "distinct ?ps" "ls_first str2 = Some (sh_next m)" "length ?ps = Suc (length ts)"
    using adds(2) pieces_length by (fastforce simp: holds_texts_def)+
  have "lstr_length (length ts + 2) m2 (ls_first str2) 0 = Inr (int (length (concat (t # ts))) + int (length (t # ts)))"
    using lstr_length_eq [OF h(1), of "length ts + 2" 0] h(3,4) by simp
  moreover have "lstr_cat (length ts + 2) m2 len (ls_first str2) '''' = Inr (concat (t # ts))" if "int (length (concat (t # ts))) < len" for len
    using lstr_cat_eq [OF h(1), of "length ts + 2" "''''" len] h(3,4) that assms by simp
  ultimately have flat: "lstr_flat (length ts + 2) m2 str2 = Inr (concat (t # ts))" by (simp add: lstr_flat_def)
  have "lstr_free (length ts + 2) m2 (ls_first str2) = Inr (m2\<lparr>sh_nodes := sh_nodes m2 |` (- set ?ps)\<rparr>)"
    using lstr_free_eq [OF h(1,2), of "length ts + 2"] h(3,4) by simp
  then have "\<exists>m1 str1 m2 str2 ps. lstr_new m t = Inr (m1, str1) \<and> lstr_add_all m1 str1 ts = Inr (m2, str2) \<and> length ps = Suc (length ts) \<and>
      lstr_flat (length ts + 2) m2 str2 = Inr (concat (t # ts)) \<and>
      lstr_free (length ts + 2) m2 (ls_first str2) = Inr (m2\<lparr>sh_nodes := sh_nodes m2 |` (- set ps)\<rparr>)"
    using new(1) adds(1) h(4) flat by blast
  then show ?thesis by (simp add: lstr_flat_def lstr_empty_def)
qed

definition empty_str_heap :: str_heap where
  "empty_str_heap = \<lparr>sh_nodes = Map.empty, sh_next = 0, sh_chars = 0\<rparr>"

lemma lstr_flat_concat_witness:
  "\<exists>m1 str1 m2 str2. lstr_new empty_str_heap ''ab'' = Inr (m1, str1) \<and> lstr_add_all m1 str1 [''c'', ''de''] = Inr (m2, str2) \<and>
    lstr_flat 4 m2 str2 = Inr ''abcde''"
proof -
  have "\<forall>u \<in> set [''ab'', ''c'', ''de'']. NUL \<notin> set u" by code_simp
  then show ?thesis using lstr_flat_concat [of "''ab''" "[''c'', ''de'']" empty_str_heap] by (fastforce simp: numeral_eq_Suc)
qed

end
