(* ===== verification/Text_Grid.thy ===== *)
theory Text_Grid
  imports Tangent_Prelude
begin

text \<open>
  The character grid on which the ring is drawn (\<^verbatim>\<open>grid.c\<close>): columns of cells, a marker that ignores positions outside, boxes and texts made of
  markers. A curve is drawn from points whose rounded coordinates, the results of long double arithmetic, are arguments here; the theory \<open>Ring_Curves\<close> computes them.
  Columns and rows are integers without a bound; the drawings are small.
\<close>

subsection \<open>The grid\<close>

record grid =
  g_cols :: int
  g_rows :: int
  g_cells :: "char list list"

definition new_grid :: "int \<Rightarrow> int \<Rightarrow> grid" where
  "new_grid cols rows = \<lparr>g_cols = cols, g_rows = rows, g_cells = replicate (nat cols) (replicate (nat rows) CHR '' '')\<rparr>"

definition get_cell :: "grid \<Rightarrow> int \<Rightarrow> int \<Rightarrow> char res" where
  "get_cell g col row =
     (if 0 \<le> col \<and> nat col < length (g_cells g) \<and> 0 \<le> row \<and> nat row < length (g_cells g ! nat col)
      then Inr (g_cells g ! nat col ! nat row) else Inl Out_of_bounds)"

definition set_cell :: "grid \<Rightarrow> int \<Rightarrow> int \<Rightarrow> char \<Rightarrow> grid res" where
  "set_cell g col row c =
     fbind (get_cell g col row) (\<lambda>_. Inr (g\<lparr>g_cells := (g_cells g)[nat col := (g_cells g ! nat col)[nat row := c]]\<rparr>))"

definition print_grid :: "grid \<Rightarrow> string res" where
  "print_grid g =
     fbind (fmap (\<lambda>row. fbind (fmap (\<lambda>col. get_cell g col row) [0..g_cols g - 1]) (\<lambda>line. Inr (line @ [char_of (10 :: nat)]))) [0..g_rows g - 1])
       (\<lambda>lines. Inr (concat lines))"

definition draw_marker :: "grid \<Rightarrow> char \<Rightarrow> int \<Rightarrow> int \<Rightarrow> grid res" where
  "draw_marker g marker col row =
     (if 0 \<le> row \<and> 0 \<le> col \<and> row < g_rows g \<and> col < g_cols g then set_cell g col row marker else Inr g)"

text \<open>Markers one after the other.\<close>

primrec draw_markers :: "grid \<Rightarrow> (char \<times> int \<times> int) list \<Rightarrow> grid res" where
  "draw_markers g [] = Inr g"
| "draw_markers g (m # ms) = fbind (draw_marker g (fst m) (fst (snd m)) (snd (snd m))) (\<lambda>g. draw_markers g ms)"

text \<open>\<open>x_eq i\<close> and \<open>y_eq i\<close> are the rounded values of the two equations at the \<open>i\<close>-th point.\<close>

definition draw_parametric :: "grid \<Rightarrow> char \<Rightarrow> int \<Rightarrow> (int \<Rightarrow> int) \<Rightarrow> (int \<Rightarrow> int) \<Rightarrow> grid res" where
  "draw_parametric g marker points x_eq y_eq =
     draw_markers g (map (\<lambda>i. (marker, x_eq i, g_rows g - 1 - y_eq i)) [0..points - 1])"

fun measure_loop :: "string \<Rightarrow> int \<Rightarrow> int \<Rightarrow> int \<Rightarrow> int \<times> int" where
  "measure_loop [] this_line longest_line line_num = (longest_line, line_num)"
| "measure_loop (c # text) this_line longest_line line_num =
     (if c = char_of (10 :: nat) \<or> text = []
      then measure_loop text 0 (if this_line + 1 > longest_line then this_line + 1 else longest_line) (line_num + 1)
      else measure_loop text (this_line + 1) longest_line line_num)"

definition measure_text :: "string \<Rightarrow> int \<times> int \<times> int" where
  "measure_text text = (int (length text), measure_loop text 0 0 0)"

definition draw_box :: "grid \<Rightarrow> int \<Rightarrow> int \<Rightarrow> int \<Rightarrow> int \<Rightarrow> grid res" where
  "draw_box g x y width height =
     (let y = g_rows g - 1 - y in
      draw_markers g
        ([(CHR ''+'', x, y)] @ map (\<lambda>i. (CHR ''-'', x + i, y)) [1..width - 2] @ [(CHR ''+'', x + width - 1, y)] @
         concat (map (\<lambda>i. [(CHR ''|'', x, y + i), (CHR ''|'', x + width - 1, y + i)]) [1..height - 2]) @
         [(CHR ''+'', x, y + height - 1)] @ map (\<lambda>i. (CHR ''-'', x + i, y + height - 1)) [1..width - 2] @
         [(CHR ''+'', x + width - 1, y + height - 1)]))"

primrec text_markers :: "string \<Rightarrow> int \<Rightarrow> int \<Rightarrow> int \<Rightarrow> (char \<times> int \<times> int) list" where
  "text_markers [] left col row = []"
| "text_markers (c # text) left col row =
     (if c = char_of (10 :: nat) then text_markers text left left (row + 1)
      else (c, col, row) # text_markers text left (col + 1) row)"

definition draw_text :: "grid \<Rightarrow> string \<Rightarrow> int \<Rightarrow> int \<Rightarrow> bool \<Rightarrow> grid res" where
  "draw_text g text x y in_box =
     (let margin = (if in_box then 1 else 0) in
      fbind (draw_markers g (text_markers text (x + margin) (x + margin) (g_rows g - 1 - y + margin))) (\<lambda>g.
      if in_box then (case measure_text text of (_, text_width, text_height) \<Rightarrow> draw_box g x y (text_width + 2) (text_height + 2))
      else Inr g))"

text \<open>One centered line: in a box it is cleared first; the division rounds towards zero, as in C.\<close>

definition line_markers :: "string \<Rightarrow> int \<Rightarrow> bool \<Rightarrow> int \<Rightarrow> int \<Rightarrow> (char \<times> int \<times> int) list" where
  "line_markers line text_width in_box x row =
     (let margin = (if in_box then 1 else 0); gap = text_width - int (length line);
          half = (if gap < 0 then - (- gap div 2) else gap div 2) in
      (if in_box then map (\<lambda>j. (CHR '' '', x + j + margin, row)) [0..text_width - 1] else []) @
      map (\<lambda>j. (line ! j, x + half + margin + int j, row)) [0..<length line])"

text \<open>
  The loop over the characters \<open>i\<close>; a line ends before a line feed, or with the last character of the text, which then belongs to it even when it
  is a line feed.
\<close>

primrec centered_markers :: "nat list \<Rightarrow> string \<Rightarrow> int \<Rightarrow> bool \<Rightarrow> int \<Rightarrow> int \<Rightarrow> nat \<Rightarrow> int \<Rightarrow> (char \<times> int \<times> int) list" where
  "centered_markers [] text text_width in_box x y line_begin line_num = []"
| "centered_markers (i # is) text text_width in_box x y line_begin line_num =
     (if text ! i = char_of (10 :: nat) \<or> i = length text - 1
      then
        let line_length = (if i = length text - 1 then i - line_begin + 1 else i - line_begin);
            margin = (if in_box then 1 else 0) in
        line_markers (take line_length (drop line_begin text)) text_width in_box x (y + line_num + margin) @
        centered_markers is text text_width in_box x y (i + 1) (line_num + 1)
      else centered_markers is text text_width in_box x y line_begin line_num)"

definition draw_centered_text :: "grid \<Rightarrow> string \<Rightarrow> int \<Rightarrow> int \<Rightarrow> bool \<Rightarrow> grid res" where
  "draw_centered_text g text x y in_box =
     (case measure_text text of
        (len, text_width, text_height) \<Rightarrow>
          fbind (draw_markers g (centered_markers [0..<nat len] text text_width in_box x (g_rows g - 1 - y) 0 0)) (\<lambda>g.
          if in_box then draw_box g x y (text_width + 2) (text_height + 2) else Inr g))"

subsection \<open>What is drawn\<close>

definition wf_grid :: "grid \<Rightarrow> bool" where
  "wf_grid g \<longleftrightarrow> length (g_cells g) = nat (g_cols g) \<and> (\<forall>col \<in> set (g_cells g). length col = nat (g_rows g))"

definition on_grid :: "grid \<Rightarrow> int \<Rightarrow> int \<Rightarrow> bool" where
  "on_grid g col row \<longleftrightarrow> 0 \<le> col \<and> col < g_cols g \<and> 0 \<le> row \<and> row < g_rows g"

lemma new_grid_wf: "wf_grid (new_grid cols rows)"
  by (simp add: wf_grid_def new_grid_def)

lemma wf_grid_nth: "wf_grid g \<Longrightarrow> on_grid g col row \<Longrightarrow> nat col < length (g_cells g) \<and> nat row < length (g_cells g ! nat col)"
  by (auto simp: wf_grid_def on_grid_def)

lemma get_cell_total: "wf_grid g \<Longrightarrow> on_grid g col row \<Longrightarrow> get_cell g col row = Inr (g_cells g ! nat col ! nat row)"
  using wf_grid_nth [of g col row] by (simp add: get_cell_def on_grid_def)

text \<open>The last marker at a position.\<close>

primrec last_marker :: "(char \<times> int \<times> int) list \<Rightarrow> int \<Rightarrow> int \<Rightarrow> char option" where
  "last_marker [] c r = None"
| "last_marker (m # ms) c r = (case last_marker ms c r of Some d \<Rightarrow> Some d | None \<Rightarrow> if snd m = (c, r) then Some (fst m) else None)"

lemma last_marker_append:
  "last_marker (ms @ ns) c r = (case last_marker ns c r of Some d \<Rightarrow> Some d | None \<Rightarrow> last_marker ms c r)"
  by (induction ms) (auto split: option.splits)

lemma draw_marker_ok:
  assumes "wf_grid g"
  shows "\<exists>g'. draw_marker g m c r = Inr g' \<and> wf_grid g' \<and> g_cols g' = g_cols g \<and> g_rows g' = g_rows g \<and>
    (\<forall>c' r'. on_grid g c' r' \<longrightarrow> get_cell g' c' r' = (if (c, r) = (c', r') then Inr m else get_cell g c' r'))"
proof (cases "on_grid g c r")
  case True
  let ?cells = "(g_cells g)[nat c := (g_cells g ! nat c)[nat r := m]]"
  have n: "nat c < length (g_cells g)" "nat r < length (g_cells g ! nat c)" using wf_grid_nth [OF assms True] by auto
  have wf: "wf_grid (g\<lparr>g_cells := ?cells\<rparr>)"
    using assms n set_update_subset_insert [of "g_cells g" "nat c" "(g_cells g ! nat c)[nat r := m]"] by (auto simp: wf_grid_def)
  moreover have "draw_marker g m c r = Inr (g\<lparr>g_cells := ?cells\<rparr>)"
    using True get_cell_total [OF assms True] by (simp add: draw_marker_def set_cell_def on_grid_def)
  moreover have "get_cell (g\<lparr>g_cells := ?cells\<rparr>) c' r' = (if (c, r) = (c', r') then Inr m else get_cell g c' r')" if "on_grid g c' r'" for c' r'
  proof -
    have "on_grid (g\<lparr>g_cells := ?cells\<rparr>) c' r'" using that by (simp add: on_grid_def)
    then have "get_cell (g\<lparr>g_cells := ?cells\<rparr>) c' r' = Inr (?cells ! nat c' ! nat r')" using get_cell_total [OF wf] by simp
    moreover have "nat c = nat c' \<longleftrightarrow> c = c'" "nat r = nat r' \<longleftrightarrow> r = r'" using True that by (auto simp: on_grid_def)
    ultimately show ?thesis using get_cell_total [OF assms that] n by (auto simp: nth_list_update)
  qed
  ultimately show ?thesis by auto
next
  case False
  then show ?thesis using assms by (auto simp: draw_marker_def on_grid_def)
qed

lemma draw_markers_ok:
  assumes "wf_grid g"
  shows "\<exists>g'. draw_markers g ms = Inr g' \<and> wf_grid g' \<and> g_cols g' = g_cols g \<and> g_rows g' = g_rows g \<and>
    (\<forall>c r. on_grid g c r \<longrightarrow> get_cell g' c r = (case last_marker ms c r of Some m \<Rightarrow> Inr m | None \<Rightarrow> get_cell g c r))"
  using assms
proof (induction ms arbitrary: g)
  case (Cons m ms)
  obtain g1 where g1: "draw_marker g (fst m) (fst (snd m)) (snd (snd m)) = Inr g1" "wf_grid g1" "g_cols g1 = g_cols g" "g_rows g1 = g_rows g"
    "\<forall>c' r'. on_grid g c' r' \<longrightarrow> get_cell g1 c' r' = (if (fst (snd m), snd (snd m)) = (c', r') then Inr (fst m) else get_cell g c' r')"
    using draw_marker_ok [OF Cons.prems] by blast
  obtain g2 where g2: "draw_markers g1 ms = Inr g2" "wf_grid g2" "g_cols g2 = g_cols g1" "g_rows g2 = g_rows g1"
    "\<forall>c r. on_grid g1 c r \<longrightarrow> get_cell g2 c r = (case last_marker ms c r of Some m \<Rightarrow> Inr m | None \<Rightarrow> get_cell g1 c r)"
    using Cons.IH [OF g1(2)] by blast
  have "on_grid g1 c r = on_grid g c r" for c r using g1(3,4) by (simp add: on_grid_def)
  then show ?case using g1 g2 by (intro exI [of _ g2]) (auto split: option.splits)
qed simp

text \<open>Every drawing is made of markers, so none of them leaves the cells.\<close>

definition drawn :: "grid \<Rightarrow> grid res \<Rightarrow> bool" where
  "drawn g r \<longleftrightarrow> (\<exists>g'. r = Inr g' \<and> wf_grid g' \<and> g_cols g' = g_cols g \<and> g_rows g' = g_rows g)"

lemma drawn_markers: "wf_grid g \<Longrightarrow> drawn g (draw_markers g ms)"
  using draw_markers_ok [of g ms] by (auto simp: drawn_def)

lemma drawn_bind: "drawn g r \<Longrightarrow> (\<And>g'. wf_grid g' \<Longrightarrow> drawn g' (f g')) \<Longrightarrow> drawn g (fbind r f)"
  by (fastforce simp: drawn_def)

lemma drawn_box: "wf_grid g \<Longrightarrow> drawn g (draw_box g x y w h)"
  by (simp add: draw_box_def Let_def drawn_markers del: draw_markers.simps)

lemma drawings_safe:
  assumes "wf_grid g"
  shows "drawn g (draw_marker g m c r)" "drawn g (draw_parametric g m n px py)" "drawn g (draw_text g text x y b)"
    "drawn g (draw_centered_text g text x y b)"
proof -
  have fin: "drawn g' (Inr g')" if "wf_grid g'" for g' using that by (simp add: drawn_def)
  show "drawn g (draw_marker g m c r)" using draw_marker_ok [OF assms, of m c r] by (auto simp: drawn_def)
  show "drawn g (draw_parametric g m n px py)" by (simp add: draw_parametric_def drawn_markers assms)
  show "drawn g (draw_text g text x y b)" "drawn g (draw_centered_text g text x y b)"
    unfolding draw_text_def draw_centered_text_def Let_def
    by (auto split: prod.splits intro!: drawn_bind drawn_markers drawn_box assms fin)
qed

lemma print_grid_total:
  assumes "wf_grid g"
  shows "print_grid g = Inr (concat (map (\<lambda>row. map (\<lambda>col. g_cells g ! nat col ! nat row) [0..g_cols g - 1] @ [char_of (10 :: nat)]) [0..g_rows g - 1]))"
proof -
  have "fmap (\<lambda>col. get_cell g col row) [0..g_cols g - 1] = Inr (map (\<lambda>col. g_cells g ! nat col ! nat row) [0..g_cols g - 1])"
    if "row \<in> set [0..g_rows g - 1]" for row
    using that get_cell_total [OF assms] by (intro fmap_total) (auto simp: on_grid_def)
  then show ?thesis
    unfolding print_grid_def
    by (subst fmap_total [where g = "\<lambda>row. map (\<lambda>col. g_cells g ! nat col ! nat row) [0..g_cols g - 1] @ [char_of (10 :: nat)]"]) auto
qed

subsection \<open>Boxes\<close>

lemma last_marker_row:
  "last_marker (map (\<lambda>i. (m, x + i, y)) is) c r = (if r = y \<and> c - x \<in> set is then Some m else None)"
  by (induction "is") auto

lemma last_marker_sides:
  "last_marker (concat (map (\<lambda>i. [(m, x, y + i), (m, x', y + i)]) is)) c r = (if (c = x \<or> c = x') \<and> r - y \<in> set is then Some m else None)"
  by (induction "is") auto

definition box_char :: "int \<Rightarrow> int \<Rightarrow> int \<Rightarrow> int \<Rightarrow> int \<Rightarrow> int \<Rightarrow> char option" where
  "box_char x y0 width height c r =
     (let side = (c = x \<or> c = x + width - 1); edge = (r = y0 \<or> r = y0 + height - 1) in
      if c < x \<or> x + width - 1 < c \<or> r < y0 \<or> y0 + height - 1 < r then None
      else if side \<and> edge then Some CHR ''+'' else if edge then Some CHR ''-'' else if side then Some CHR ''|'' else None)"

text \<open>
  The frame of a box: on a well-formed grid, a box of at least two columns and rows, wherever it lies, is drawn without leaving the cells; of the cells of
  the grid, its corners become \<open>+\<close>, its horizontal sides \<open>-\<close>, its vertical sides \<open>|\<close>, and every cell inside or outside of the frame keeps
  its character. The box hangs down from the row that lies \<open>y\<close> above the bottom of the grid.
\<close>

theorem draw_box_frame:
  assumes "wf_grid g" and "2 \<le> width" and "2 \<le> height"
  shows "\<exists>g'. draw_box g x y width height = Inr g' \<and> wf_grid g' \<and> g_cols g' = g_cols g \<and> g_rows g' = g_rows g \<and>
    (\<forall>c r. on_grid g c r \<longrightarrow>
       get_cell g' c r = (case box_char x (g_rows g - 1 - y) width height c r of Some m \<Rightarrow> Inr m | None \<Rightarrow> get_cell g c r))"
proof -
  let ?y = "g_rows g - 1 - y"
  let ?ms = "[(CHR ''+'', x, ?y)] @ map (\<lambda>i. (CHR ''-'', x + i, ?y)) [1..width - 2] @ [(CHR ''+'', x + width - 1, ?y)] @
    concat (map (\<lambda>i. [(CHR ''|'', x, ?y + i), (CHR ''|'', x + width - 1, ?y + i)]) [1..height - 2]) @
    [(CHR ''+'', x, ?y + height - 1)] @ map (\<lambda>i. (CHR ''-'', x + i, ?y + height - 1)) [1..width - 2] @
    [(CHR ''+'', x + width - 1, ?y + height - 1)]"
  have "last_marker ?ms c r = box_char x ?y width height c r" for c r
    using assms(2,3) unfolding last_marker_append last_marker_row last_marker_sides box_char_def Let_def
    by (auto split: option.splits if_splits)
  then show ?thesis using draw_markers_ok [OF assms(1), of ?ms] by (simp add: draw_box_def Let_def del: draw_markers.simps last_marker.simps)
qed

lemma draw_box_frame_witness:
  "\<exists>g'. draw_box (new_grid 5 4) 0 3 3 3 = Inr g' \<and> wf_grid g' \<and> get_cell g' 2 1 = Inr CHR ''|'' \<and> get_cell g' 1 1 = Inr CHR '' ''"
proof -
  have "on_grid (new_grid 5 4) 2 1" "on_grid (new_grid 5 4) 1 1" "g_rows (new_grid 5 4) = 4" "get_cell (new_grid 5 4) 1 1 = Inr CHR '' ''"
    by (simp_all add: on_grid_def new_grid_def get_cell_def)
  then show ?thesis using draw_box_frame [OF new_grid_wf, of 3 3 5 4 0 3] by (auto simp: box_char_def)
qed

subsection \<open>Measuring\<close>

text \<open>A single line without a line feed is measured exactly; a line that is followed by another is measured one character too wide.\<close>

lemma measure_line: "char_of (10 :: nat) \<notin> set s \<Longrightarrow> s \<noteq> [] \<Longrightarrow> 0 \<le> w \<Longrightarrow> measure_loop s w 0 n = (w + int (length s), n + 1)"
proof (induction s arbitrary: w)
  case (Cons c s)
  then show ?case by (cases s) auto
qed simp

lemma measure_text_line: "char_of (10 :: nat) \<notin> set text \<Longrightarrow> text \<noteq> [] \<Longrightarrow> measure_text text = (int (length text), int (length text), 1)"
  by (simp add: measure_text_def measure_line)

lemma measure_text_two_lines: "measure_text (''ab'' @ char_of (10 :: nat) # ''cd'') = (5, 3, 2)"
  by code_simp

end
