(* ===== verification/Ring_Curves.thy ===== *)
theory Ring_Curves
  imports Text_Grid Chord_Server Complex_Main
begin

text \<open>
  The curves of \<^verbatim>\<open>grid.c\<close> and the position of an identifier on the circle (\<^verbatim>\<open>id_to_radians\<close> in \<^verbatim>\<open>chord.c\<close>). The arithmetic of \<^verbatim>\<open>long double\<close> is a parameter, because its precision depends on the machine: what is said of
  all drawings holds for every arithmetic, what is said of positions and of the loops holds for exact arithmetic. \<^verbatim>\<open>PI\<close> is the literal of \<^verbatim>\<open>grid.h\<close>.
\<close>

subsection \<open>Arithmetic\<close>

text \<open>
  \<open>f_lit\<close> is a number written in the source, \<open>f_lrint\<close> the rounding to a long, \<open>f_trunc\<close> the conversion to an int, which is undefined outside the range of an int.
\<close>

record 'r arith =
  f_lit :: "rat \<Rightarrow> 'r"
  f_add :: "'r \<Rightarrow> 'r \<Rightarrow> 'r"
  f_sub :: "'r \<Rightarrow> 'r \<Rightarrow> 'r"
  f_mul :: "'r \<Rightarrow> 'r \<Rightarrow> 'r"
  f_div :: "'r \<Rightarrow> 'r \<Rightarrow> 'r"
  f_pow :: "'r \<Rightarrow> 'r \<Rightarrow> 'r"
  f_abs :: "'r \<Rightarrow> 'r"
  f_sin :: "'r \<Rightarrow> 'r"
  f_cos :: "'r \<Rightarrow> 'r"
  f_exp :: "'r \<Rightarrow> 'r"
  f_less :: "'r \<Rightarrow> 'r \<Rightarrow> bool"
  f_le :: "'r \<Rightarrow> 'r \<Rightarrow> bool"
  f_lrint :: "'r \<Rightarrow> int"
  f_trunc :: "'r \<Rightarrow> int option"

definition f_int :: "('r, 'z) arith_scheme \<Rightarrow> int \<Rightarrow> 'r" where
  "f_int F n = f_lit F (of_int n)"

definition PI_lit :: "('r, 'z) arith_scheme \<Rightarrow> 'r" where
  "PI_lit F = f_lit F (314159265358979323 / 100000000000000000)"

definition two_pi :: "('r, 'z) arith_scheme \<Rightarrow> 'r" where
  "two_pi F = f_mul F (f_int F 2) (PI_lit F)"

definition to_int :: "('r, 'z) arith_scheme \<Rightarrow> 'r \<Rightarrow> int res" where
  "to_int F x = (case f_trunc F x of None \<Rightarrow> Inl Signed_overflow | Some n \<Rightarrow> Inr n)"

definition to_i32 :: "int \<Rightarrow> int" where
  "to_i32 n = sint (word_of_int n :: 32 word)"

subsection \<open>Curves\<close>

record 'r circle =
  center_x :: 'r
  center_y :: 'r
  diameter :: 'r
  rotation :: 'r
  row_ratio :: 'r
  density :: 'r

record 'r ray =
  from_x :: 'r
  from_y :: 'r
  l_domain :: 'r
  l_range :: 'r
  l_row_ratio :: 'r

definition new_circle :: "'r \<Rightarrow> 'r \<Rightarrow> 'r \<Rightarrow> 'r \<Rightarrow> 'r \<Rightarrow> 'r \<Rightarrow> 'r circle" where
  "new_circle x y d rot ratio dens = \<lparr>center_x = x, center_y = y, diameter = d, rotation = rot, row_ratio = ratio, density = dens\<rparr>"

definition new_line :: "('r, 'z) arith_scheme \<Rightarrow> 'r \<Rightarrow> 'r \<Rightarrow> 'r \<Rightarrow> 'r \<Rightarrow> 'r \<Rightarrow> 'r ray" where
  "new_line F x1 y1 x2 y2 ratio = \<lparr>from_x = x1, from_y = y1, l_domain = f_sub F x2 x1, l_range = f_sub F y2 y1, l_row_ratio = ratio\<rparr>"

definition get_line_x :: "('r, 'z) arith_scheme \<Rightarrow> 'r ray \<Rightarrow> 'r \<Rightarrow> 'r" where
  "get_line_x F l input = f_add F (from_x l) (f_mul F (l_domain l) input)"

definition get_actual_y :: "('r, 'z) arith_scheme \<Rightarrow> 'r ray \<Rightarrow> 'r \<Rightarrow> 'r" where
  "get_actual_y F l input = f_add F (from_y l) (f_mul F (l_range l) input)"

definition get_line_y :: "('r, 'z) arith_scheme \<Rightarrow> 'r ray \<Rightarrow> 'r \<Rightarrow> 'r" where
  "get_line_y F l input = f_mul F (get_actual_y F l input) (l_row_ratio l)"

definition butterfly_factor :: "('r, 'z) arith_scheme \<Rightarrow> 'r \<Rightarrow> 'r" where
  "butterfly_factor F input =
     f_sub F (f_sub F (f_exp F (f_cos F input)) (f_mul F (f_int F 2) (f_cos F (f_mul F (f_int F 4) input))))
       (f_pow F (f_sin F (f_div F input (f_int F 12))) (f_int F 5))"

definition get_butterfly_x :: "('r, 'z) arith_scheme \<Rightarrow> 'r circle \<Rightarrow> 'r \<Rightarrow> 'r" where
  "get_butterfly_x F c input =
     f_add F (center_x c) (f_mul F (f_mul F (f_sin F input) (butterfly_factor F input)) (f_div F (diameter c) (f_lit F (73 / 10))))"

definition get_butterfly_actual_y :: "('r, 'z) arith_scheme \<Rightarrow> 'r circle \<Rightarrow> 'r \<Rightarrow> 'r" where
  "get_butterfly_actual_y F c input =
     f_add F (f_div F (center_y c) (f_lit F (13 / 10)))
       (f_mul F (f_mul F (f_cos F input) (butterfly_factor F input)) (f_div F (diameter c) (f_lit F (73 / 10))))"

definition get_butterfly_y :: "('r, 'z) arith_scheme \<Rightarrow> 'r circle \<Rightarrow> 'r \<Rightarrow> 'r" where
  "get_butterfly_y F c input = f_mul F (get_butterfly_actual_y F c input) (row_ratio c)"

definition get_circle_x :: "('r, 'z) arith_scheme \<Rightarrow> 'r circle \<Rightarrow> 'r \<Rightarrow> 'r" where
  "get_circle_x F c input = f_add F (center_x c) (f_mul F (f_cos F (f_add F input (rotation c))) (f_div F (diameter c) (f_int F 2)))"

definition get_circle_actual_y :: "('r, 'z) arith_scheme \<Rightarrow> 'r circle \<Rightarrow> 'r \<Rightarrow> 'r" where
  "get_circle_actual_y F c input = f_add F (center_y c) (f_mul F (f_sin F (f_add F input (rotation c))) (f_div F (diameter c) (f_int F 2)))"

definition get_circle_y :: "('r, 'z) arith_scheme \<Rightarrow> 'r circle \<Rightarrow> 'r \<Rightarrow> 'r" where
  "get_circle_y F c input = f_mul F (get_circle_actual_y F c input) (row_ratio c)"

text \<open>
  A point: the row is counted from below in a long, which may overflow, and then both coordinates are cut to an int.
\<close>

definition curve_point :: "('r, 'z) arith_scheme \<Rightarrow> grid \<Rightarrow> char \<Rightarrow> 'r \<Rightarrow> 'r \<Rightarrow> (char \<times> int \<times> int) res" where
  "curve_point F g marker x y =
     (let row = g_rows g - 1 - f_lrint F y in
      if - (2 ^ 63) \<le> row \<and> row < 2 ^ 63 then Inr (marker, to_i32 (f_lrint F x), to_i32 row) else Inl Signed_overflow)"

definition draw_curve ::
  "('r, 'z) arith_scheme \<Rightarrow> grid \<Rightarrow> char \<Rightarrow> int \<Rightarrow> ('r \<Rightarrow> 'r) \<Rightarrow> ('r \<Rightarrow> 'r) \<Rightarrow> 'r \<Rightarrow> 'r \<Rightarrow> grid res" where
  "draw_curve F g marker points x_eq y_eq a b =
     (let rng = f_abs F (f_sub F b a);
          denom = f_int F (if points > 1 then points - 1 else 1);
          current = (\<lambda>i. f_add F a (f_mul F rng (f_div F (f_int F i) denom)))
      in fbind (fmap (\<lambda>i. curve_point F g marker (x_eq (current i)) (y_eq (current i))) [0..points - 1]) (draw_markers g))"

definition draw_butterfly :: "('r, 'z) arith_scheme \<Rightarrow> grid \<Rightarrow> 'r circle \<Rightarrow> char \<Rightarrow> 'r \<Rightarrow> 'r \<Rightarrow> grid res" where
  "draw_butterfly F g c marker a b =
     fbind (to_int F (f_mul F (f_pow F (diameter c) (f_int F 2)) (density c))) (\<lambda>points.
     draw_curve F g marker points (get_butterfly_x F c) (get_butterfly_y F c) a b)"

text \<open>The loops that add or subtract full turns may not end when the arithmetic rounds, so they carry fuel.\<close>

fun turn_up :: "('r, 'z) arith_scheme \<Rightarrow> nat \<Rightarrow> 'r \<Rightarrow> 'r \<Rightarrow> 'r res" where
  "turn_up F 0 bound rad = Inl Out_of_fuel"
| "turn_up F (Suc n) bound rad = (if f_less F rad bound then turn_up F n bound (f_add F rad (two_pi F)) else Inr rad)"

fun turn_down :: "('r, 'z) arith_scheme \<Rightarrow> nat \<Rightarrow> 'r \<Rightarrow> 'r res" where
  "turn_down F 0 rad = Inl Out_of_fuel"
| "turn_down F (Suc n) rad = (if f_less F (two_pi F) rad then turn_down F n (f_sub F rad (two_pi F)) else Inr rad)"

definition draw_arc :: "('r, 'z) arith_scheme \<Rightarrow> nat \<Rightarrow> grid \<Rightarrow> 'r circle \<Rightarrow> char \<Rightarrow> 'r \<Rightarrow> 'r \<Rightarrow> grid res" where
  "draw_arc F fuel g c marker from_rad to_rad =
     fbind (turn_up F fuel from_rad to_rad) (\<lambda>to_rad.
     fbind (to_int F (f_mul F (f_div F (f_mul F (f_mul F (PI_lit F) (diameter c)) (f_sub F to_rad from_rad)) (two_pi F)) (density c))) (\<lambda>points.
     draw_curve F g marker points (get_circle_x F c) (get_circle_y F c) from_rad to_rad))"

definition draw_circle :: "('r, 'z) arith_scheme \<Rightarrow> nat \<Rightarrow> grid \<Rightarrow> 'r circle \<Rightarrow> char \<Rightarrow> grid res" where
  "draw_circle F fuel g c marker = draw_arc F fuel g c marker (f_int F 0) (two_pi F)"

definition normalize_radians :: "('r, 'z) arith_scheme \<Rightarrow> nat \<Rightarrow> 'r \<Rightarrow> 'r res" where
  "normalize_radians F fuel rad =
     fbind (if f_le F (two_pi F) rad then turn_down F fuel rad
            else if f_less F rad (f_int F 0) then turn_up F fuel (f_int F 0) rad
            else Inr rad) (\<lambda>rad.
     Inr (if f_less F rad (f_int F 0) then f_int F 0
          else if f_le F (two_pi F) rad then f_sub F (two_pi F) (f_pow F (f_int F 2) (f_int F (-11)))
          else rad))"

definition draw_radius :: "('r, 'z) arith_scheme \<Rightarrow> grid \<Rightarrow> 'r circle \<Rightarrow> char \<Rightarrow> 'r \<Rightarrow> grid res" where
  "draw_radius F g c marker to_rad =
     (let l = new_line F (center_x c) (center_y c) (get_circle_x F c to_rad) (get_circle_actual_y F c to_rad) (row_ratio c) in
      fbind (to_int F (f_mul F (f_div F (diameter c) (f_int F 2)) (density c))) (\<lambda>points.
      draw_curve F g marker points (get_line_x F l) (get_line_y F l) (f_int F 0) (f_int F 1)))"

definition below_eighths :: "('r, 'z) arith_scheme \<Rightarrow> 'r \<Rightarrow> int \<Rightarrow> bool" where
  "below_eighths F rad n = f_less F rad (f_div F (if n = 1 then PI_lit F else f_mul F (f_int F n) (PI_lit F)) (f_int F 8))"

definition radius_marker :: "('r, 'z) arith_scheme \<Rightarrow> 'r \<Rightarrow> char" where
  "radius_marker F rad =
     (if f_less F rad (PI_lit F) then
        if below_eighths F rad 1 then CHR ''-''
        else if below_eighths F rad 3 then CHR 0x5C
        else if below_eighths F rad 5 then CHR ''|''
        else if below_eighths F rad 7 then CHR ''/''
        else CHR ''-''
      else
        if below_eighths F rad 9 then CHR ''-''
        else if below_eighths F rad 11 then CHR 0x5C
        else if below_eighths F rad 13 then CHR ''|''
        else if below_eighths F rad 15 then CHR ''/''
        else CHR ''-'')"

definition draw_radius_automarker :: "('r, 'z) arith_scheme \<Rightarrow> nat \<Rightarrow> grid \<Rightarrow> 'r circle \<Rightarrow> 'r \<Rightarrow> grid res" where
  "draw_radius_automarker F fuel g c to_rad =
     fbind (normalize_radians F fuel (f_add F to_rad (rotation c))) (\<lambda>norm_rad. draw_radius F g c (radius_marker F norm_rad) to_rad)"

definition draw_chord :: "('r, 'z) arith_scheme \<Rightarrow> grid \<Rightarrow> 'r circle \<Rightarrow> char \<Rightarrow> 'r \<Rightarrow> 'r \<Rightarrow> grid res" where
  "draw_chord F g c marker from_rad to_rad =
     (let l = new_line F (get_circle_x F c from_rad) (get_circle_actual_y F c from_rad) (get_circle_x F c to_rad) (get_circle_actual_y F c to_rad) (row_ratio c) in
      fbind (to_int F (f_mul F (diameter c) (density c))) (\<lambda>points.
      draw_curve F g marker points (get_line_x F l) (get_line_y F l) (f_int F 0) (f_int F 1)))"

definition draw_circle_point :: "('r, 'z) arith_scheme \<Rightarrow> grid \<Rightarrow> 'r circle \<Rightarrow> char \<Rightarrow> 'r \<Rightarrow> grid res" where
  "draw_circle_point F g c marker rad = draw_curve F g marker 1 (get_circle_x F c) (get_circle_y F c) rad rad"

fun radians_loop :: "('r, 'z) arith_scheme \<Rightarrow> nat \<Rightarrow> byte list \<Rightarrow> 'r \<Rightarrow> 'r" where
  "radians_loop F i [] rad = rad"
| "radians_loop F i (b # bs) rad =
     radians_loop F (Suc i) bs (f_add F rad (f_div F (f_int F (uint b)) (f_pow F (f_int F 256) (f_int F (int i + 1)))))"

definition id_to_radians :: "('r, 'z) arith_scheme \<Rightarrow> chordID \<Rightarrow> 'r" where
  "id_to_radians F x = f_mul F (f_mul F (radians_loop F 0 x (f_int F 0)) (f_int F 2)) (PI_lit F)"

text \<open>The drawing of the ring is disabled: the function returns at once and writes nothing.\<close>

definition chord_print_circle :: "ChordServer \<Rightarrow> string \<Rightarrow> string" where
  "chord_print_circle srv fp = fp"

subsection \<open>No curve leaves the grid\<close>

definition contained :: "grid \<Rightarrow> grid res \<Rightarrow> bool" where
  "contained g r \<longleftrightarrow> drawn g r \<or> r = Inl Signed_overflow \<or> r = Inl Out_of_fuel"

lemma contained_bind:
  "(\<And>e. r = Inl e \<Longrightarrow> e = Signed_overflow \<or> e = Out_of_fuel) \<Longrightarrow> (\<And>x. r = Inr x \<Longrightarrow> contained g (f x)) \<Longrightarrow> contained g (fbind r f)"
  by (cases r) (auto simp: contained_def)

lemma fmap_faulted: "fmap f xs = Inl e \<Longrightarrow> \<exists>x \<in> set xs. f x = Inl e"
  by (induction xs) (auto simp: fbind_def split: sum.splits)

lemma to_int_fault: "to_int F x = Inl e \<Longrightarrow> e = Signed_overflow"
  by (simp add: to_int_def split: option.splits)

lemma turn_up_fault: "turn_up F n b x = Inl e \<Longrightarrow> e = Out_of_fuel"
  by (induction F n b x rule: turn_up.induct) (auto split: if_splits)

lemma turn_down_fault: "turn_down F n x = Inl e \<Longrightarrow> e = Out_of_fuel"
  by (induction F n x rule: turn_down.induct) (auto split: if_splits)

lemma normalize_fault: "normalize_radians F n x = Inl e \<Longrightarrow> e = Out_of_fuel"
  by (auto simp: normalize_radians_def fbind_def dest: turn_up_fault turn_down_fault split: sum.splits if_splits)

lemma draw_curve_contained:
  assumes "wf_grid g"
  shows "contained g (draw_curve F g marker points x_eq y_eq a b)"
  unfolding draw_curve_def Let_def
proof (rule contained_bind)
  show "contained g (draw_markers g ms)" for ms using drawn_markers [OF assms] by (simp add: contained_def)
qed (auto dest!: fmap_faulted simp: curve_point_def Let_def split: if_splits)

text \<open>As long as the coordinates are in range, a curve is the drawing of its rounded points.\<close>

lemma draw_curve_points:
  fixes F :: "('r, 'z) arith_scheme" and x_eq y_eq :: "'r \<Rightarrow> 'r" and a b :: 'r and points :: int
  defines "cur \<equiv> \<lambda>i. f_add F a (f_mul F (f_abs F (f_sub F b a)) (f_div F (f_int F i) (f_int F (if points > 1 then points - 1 else 1))))"
  assumes "\<And>i. 0 \<le> i \<Longrightarrow> i < points \<Longrightarrow>
    curve_point F g marker (x_eq (cur i)) (y_eq (cur i)) = Inr (marker, f_lrint F (x_eq (cur i)), g_rows g - 1 - f_lrint F (y_eq (cur i)))"
  shows "draw_curve F g marker points x_eq y_eq a b = draw_parametric g marker points (\<lambda>i. f_lrint F (x_eq (cur i))) (\<lambda>i. f_lrint F (y_eq (cur i)))"
proof -
  have "fmap (\<lambda>i. curve_point F g marker (x_eq (cur i)) (y_eq (cur i))) [0..points - 1] =
      Inr (map (\<lambda>i. (marker, f_lrint F (x_eq (cur i)), g_rows g - 1 - f_lrint F (y_eq (cur i)))) [0..points - 1])"
    by (rule fmap_total) (simp add: assms(2))
  then show ?thesis unfolding draw_curve_def draw_parametric_def Let_def cur_def by (simp only: fbind_simps)
qed

text \<open>
  Whatever the arithmetic of the machine does, no curve writes to a cell outside the grid or changes its shape; the only failures are coordinates or numbers of points beyond the range of their integer types and
  a loop over full turns that does not end.
\<close>

theorem curves_contained:
  assumes "wf_grid g"
  shows "contained g (draw_arc F fuel g c marker a b)" and "contained g (draw_circle F fuel g c marker)" and "contained g (draw_radius F g c marker a)"
    and "contained g (draw_radius_automarker F fuel g c a)" and "contained g (draw_chord F g c marker a b)" and "contained g (draw_circle_point F g c marker a)"
    and "contained g (draw_butterfly F g c marker a b)"
proof -
  note curve = draw_curve_contained [OF assms]
  show arc: "contained g (draw_arc F fuel g c marker a b)" for a b
    unfolding draw_arc_def by (intro contained_bind curve) (auto dest: turn_up_fault to_int_fault)
  show "contained g (draw_circle F fuel g c marker)" unfolding draw_circle_def by (rule arc)
  show radius: "contained g (draw_radius F g c marker a)" for marker
    unfolding draw_radius_def Let_def by (intro contained_bind curve) (auto dest: to_int_fault)
  show "contained g (draw_radius_automarker F fuel g c a)"
    unfolding draw_radius_automarker_def by (intro contained_bind radius) (auto dest: normalize_fault)
  show "contained g (draw_chord F g c marker a b)" unfolding draw_chord_def Let_def by (intro contained_bind curve) (auto dest: to_int_fault)
  show "contained g (draw_circle_point F g c marker a)" unfolding draw_circle_point_def by (rule curve)
  show "contained g (draw_butterfly F g c marker a b)" unfolding draw_butterfly_def by (intro contained_bind curve) (auto dest: to_int_fault)
qed

subsection \<open>Exact arithmetic\<close>

definition lrint_exact :: "real \<Rightarrow> int" where
  "lrint_exact x =
     (let n = \<lfloor>x\<rfloor>; r = (if x - of_int n < 1 / 2 \<or> x - of_int n = 1 / 2 \<and> even n then n else n + 1)
      in if - (2 ^ 63) \<le> r \<and> r < 2 ^ 63 then r else - (2 ^ 63))"

definition pow_exact :: "real \<Rightarrow> real \<Rightarrow> real" where
  "pow_exact x y = (if y \<in> \<int> then x powi \<lfloor>y\<rfloor> else x powr y)"

definition exact :: "real arith" where
  "exact = \<lparr>f_lit = of_rat, f_add = (+), f_sub = (-), f_mul = (*), f_div = (/), f_pow = pow_exact, f_abs = abs, f_sin = sin, f_cos = cos, f_exp = exp,
     f_less = (<), f_le = (\<le>), f_lrint = lrint_exact,
     f_trunc = \<lambda>x. let n = (if 0 \<le> x then \<lfloor>x\<rfloor> else \<lceil>x\<rceil>) in if - (2 ^ 31) \<le> n \<and> n < 2 ^ 31 then Some n else None\<rparr>"

abbreviation turn :: real where
  "turn \<equiv> two_pi exact"

lemma exact_simps [simp]:
  "f_add exact x y = x + y" "f_sub exact x y = x - y" "f_mul exact x y = x * y" "f_div exact x y = x / y" "f_abs exact x = \<bar>x\<bar>" "f_sin exact x = sin x" "f_cos exact x = cos x"
  "f_less exact x y \<longleftrightarrow> x < y" "f_le exact x y \<longleftrightarrow> x \<le> y" "f_lrint exact x = lrint_exact x" "f_pow exact x y = pow_exact x y" "f_int exact n = of_int n" "f_lit exact q = of_rat q"
  by (simp_all add: exact_def f_int_def)

lemma turn_eq: "turn = 2 * PI_lit exact" "turn = 314159265358979323 / 50000000000000000"
  by (simp_all add: two_pi_def PI_lit_def of_rat_divide)

lemma turn_pos [simp]: "0 < turn" "turn \<noteq> 0"
  by (simp_all add: turn_eq(2))

lemma turn_up_exact:
  assumes "bound - x \<le> real n * turn" and "n < fuel"
  shows "\<exists>k :: nat. turn_up exact fuel bound x = Inr (x + real k * turn) \<and> bound \<le> x + real k * turn \<and> (x < bound \<longrightarrow> x + real k * turn < bound + turn) \<and> (bound \<le> x \<longrightarrow> k = 0)"
  using assms
proof (induction n arbitrary: x fuel)
  case 0
  then show ?case by (cases fuel) (auto intro: exI [of _ 0])
next
  case (Suc n)
  obtain f where f: "fuel = Suc f" using Suc.prems(2) by (cases fuel) auto
  show ?case
  proof (cases "x < bound")
    case True
    have "bound - (x + turn) \<le> real n * turn" "n < f" using Suc.prems f by (simp_all add: algebra_simps)
    from Suc.IH [OF this] obtain k where "turn_up exact f bound (x + turn) = Inr (x + turn + real k * turn)" "bound \<le> x + turn + real k * turn"
      "x + turn < bound \<longrightarrow> x + turn + real k * turn < bound + turn" "bound \<le> x + turn \<longrightarrow> k = 0" by blast
    then show ?thesis using True by (intro exI [of _ "Suc k"]) (auto simp: f algebra_simps)
  next
    case False
    then show ?thesis by (intro exI [of _ 0]) (simp add: f)
  qed
qed

lemma turn_down_exact:
  assumes "x \<le> real (Suc n) * turn" and "n < fuel"
  shows "\<exists>k :: nat. turn_down exact fuel x = Inr (x - real k * turn) \<and> x - real k * turn \<le> turn \<and> (turn \<le> x \<longrightarrow> 0 < x - real k * turn)"
  using assms
proof (induction n arbitrary: x fuel)
  case 0
  then show ?case by (cases fuel) (auto intro!: exI [of _ 0] less_le_trans [OF turn_pos(1)])
next
  case (Suc n)
  obtain f where f: "fuel = Suc f" using Suc.prems(2) by (cases fuel) auto
  show ?case
  proof (cases "turn < x")
    case True
    have "x - turn \<le> real (Suc n) * turn" "n < f" using Suc.prems f by (simp_all add: algebra_simps)
    from Suc.IH [OF this] obtain k where k: "turn_down exact f (x - turn) = Inr (x - turn - real k * turn)" "x - turn - real k * turn \<le> turn"
      "turn \<le> x - turn \<longrightarrow> 0 < x - turn - real k * turn" by blast
    show ?thesis
    proof (cases "turn < x - turn")
      case True
      then show ?thesis using k \<open>turn < x\<close> by (intro exI [of _ "Suc k"]) (auto simp: f algebra_simps)
    next
      case False
      then show ?thesis using Suc.prems(2) \<open>turn < x\<close> by (intro exI [of _ 1]) (cases f, auto simp: f)
    qed
  next
    case False
    then show ?thesis by (intro exI [of _ 0]) (auto simp: f intro: less_le_trans [OF turn_pos(1)])
  qed
qed

text \<open>The number of turns in an angle, the fuel that is enough.\<close>

definition turns :: "real \<Rightarrow> nat" where
  "turns x = nat \<lceil>\<bar>x\<bar> / turn\<rceil>"

lemma turns_bound: "x \<le> real (turns x) * turn" "- x \<le> real (turns x) * turn"
proof -
  have "\<bar>x\<bar> / turn \<le> real (turns x)" unfolding turns_def by (rule real_nat_ceiling_ge)
  then have "\<bar>x\<bar> \<le> real (turns x) * turn" by (simp add: pos_divide_le_eq)
  then show "x \<le> real (turns x) * turn" "- x \<le> real (turns x) * turn" by simp_all
qed

text \<open>
  Normalizing an angle ends, and gives the angle in \<open>[0, 2 PI)\<close> that differs from it by full turns, with one exception: a positive number of full turns becomes an angle just below a full turn instead of zero.
\<close>

theorem normalize_radians_exact:
  "\<exists>r. normalize_radians exact (Suc (turns rad)) rad = Inr r \<and> 0 \<le> r \<and> r < turn \<and>
     ((\<exists>k :: int. rad = r + of_int k * turn) \<or> (\<exists>k :: nat. 0 < k \<and> rad = real k * turn \<and> r = turn - 1 / 2048))"
proof -
  have small: "1 / 2048 < turn" by (simp add: turn_eq(2))
  have p: "pow_exact 2 (- 11) = 1 / 2048" by (simp add: pow_exact_def power_int_minus)
  consider "turn \<le> rad" | "rad < 0" | "0 \<le> rad" "rad < turn" by linarith
  then show ?thesis
  proof cases
    case 1
    have "rad \<le> real (Suc (turns rad)) * turn" using turns_bound(1) [of rad] less_imp_le [OF turn_pos(1)] unfolding of_nat_Suc distrib_right by linarith
    then obtain k where k: "turn_down exact (Suc (turns rad)) rad = Inr (rad - real k * turn)" "rad - real k * turn \<le> turn" "0 < rad - real k * turn"
      using turn_down_exact [of rad "turns rad" "Suc (turns rad)"] 1 by auto
    show ?thesis
    proof (cases "rad - real k * turn = turn")
      case True
      then have "rad = real (Suc k) * turn" by (simp add: algebra_simps)
      then show ?thesis using 1 k(1) True small p by (auto simp: normalize_radians_def)
    next
      case False
      then show ?thesis using 1 k by (auto simp: normalize_radians_def intro!: exI [of _ "int k"])
    qed
  next
    case 2
    have "0 - rad \<le> real (turns rad) * turn" using turns_bound(2) [of rad] by simp
    from turn_up_exact [OF this, of "Suc (turns rad)"] 2 obtain k where
      "turn_up exact (Suc (turns rad)) 0 rad = Inr (rad + real k * turn)" "0 \<le> rad + real k * turn" "rad + real k * turn < turn" by auto
    moreover have "\<not> turn \<le> rad" using 2 turn_pos(1) by linarith
    ultimately show ?thesis using 2 by (auto simp: normalize_radians_def intro!: exI [of _ "- int k"])
  next
    case 3
    then show ?thesis by (auto simp: normalize_radians_def intro!: exI [of _ 0])
  qed
qed

subsection \<open>Where identifiers are drawn\<close>

lemma pow_exact_nat: "pow_exact x (of_int (int n)) = x ^ n"
  by (simp add: pow_exact_def)

lemma radians_loop_exact: "radians_loop exact i bs rad = rad + real (be_val bs) / 256 ^ (i + length bs)"
proof (induction bs arbitrary: i rad)
  case (Cons b bs)
  have pow: "pow_exact (of_int 256) (of_int (int i + 1)) = 256 ^ Suc i" using pow_exact_nat [of 256 "Suc i"] by (simp add: add.commute)
  have byte: "real_of_int (uint b) = real (unat b)" by simp
  have "radians_loop exact i (b # bs) rad = radians_loop exact (Suc i) bs (rad + real (unat b) / 256 ^ Suc i)"
    by (simp only: radians_loop.simps exact_simps pow byte)
  also have "\<dots> = rad + (real (unat b) / 256 ^ Suc i + real (be_val bs) / 256 ^ (Suc i + length bs))" by (simp only: Cons.IH add.assoc)
  also have "real (unat b) / 256 ^ Suc i + real (be_val bs) / 256 ^ (Suc i + length bs) = real (be_val (b # bs)) / 256 ^ (i + length (b # bs))"
    by (simp add: add_divide_distrib power_add)
  finally show ?case .
qed simp

text \<open>The position of an identifier is its share of the ring: the order of identifiers is the order along the circle, and none lies beyond a full turn.\<close>

theorem id_to_radians_exact:
  assumes "wf_id x"
  shows "id_to_radians exact x = turn * (real (id_val x) / 2 ^ 160)" and "0 \<le> id_to_radians exact x" and "id_to_radians exact x < turn"
proof -
  have len: "length x = 20" using assms by (simp add: wf_id_def)
  have pow: "(256 :: real) ^ 20 = 2 ^ 160" by simp
  show eq: "id_to_radians exact x = turn * (real (id_val x) / 2 ^ 160)"
    unfolding id_to_radians_def exact_simps radians_loop_exact len add_0 pow turn_eq(1) id_val_def by simp
  have "real (id_val x) < 2 ^ 160" using id_val_less [OF assms] by (simp add: ring_size_def)
  then have "0 \<le> real (id_val x) / 2 ^ 160" "real (id_val x) / 2 ^ 160 < 1" by simp_all
  then show "0 \<le> id_to_radians exact x" "id_to_radians exact x < turn" unfolding eq using turn_pos(1) by (simp_all add: mult_less_cancel_left2 mult_nonneg_nonneg less_imp_le)
qed

lemma lrint_exact_bounds:
  assumes "0 \<le> x" and "x \<le> of_int n" and "n < 2 ^ 31"
  shows "0 \<le> lrint_exact x" and "lrint_exact x \<le> n"
proof -
  let ?n = "\<lfloor>x\<rfloor>"
  let ?r = "if x - of_int ?n < 1 / 2 \<or> x - of_int ?n = 1 / 2 \<and> even ?n then ?n else ?n + 1"
  have f: "0 \<le> ?n" "?n \<le> n" using assms(1,2) by (simp_all add: floor_le_iff)
  define r where "r = ?r"
  have "r = ?n" if "?n = n" using assms(2) that by (simp add: r_def)
  moreover have "r \<le> ?n + 1" "0 \<le> r" using f by (simp_all add: r_def)
  ultimately have "0 \<le> r" "r \<le> n" using f by (cases "?n = n"; simp)+
  moreover from this have "lrint_exact x = r" using assms(3) unfolding lrint_exact_def Let_def r_def [symmetric] by simp
  ultimately show "0 \<le> lrint_exact x" "lrint_exact x \<le> n" by simp_all
qed

lemma to_i32_id: "0 \<le> n \<Longrightarrow> n < 2 ^ 31 \<Longrightarrow> to_i32 n = n"
  by (simp add: to_i32_def sint_sbintrunc' signed_take_bit_int_eq_self)

lemma trig_bound:
  assumes "0 \<le> d" and "\<bar>t\<bar> \<le> 1"
  shows "a - d \<le> a + t * d" and "a + t * d \<le> (a + d :: real)"
proof -
  have "\<bar>t * d\<bar> \<le> d" using assms mult_right_mono [of "\<bar>t\<bar>" 1 d] by (simp add: abs_mult)
  then show "a - d \<le> a + t * d" "a + t * d \<le> a + d" by simp_all
qed

text \<open>
  A node on the circle: when the circle fits on the grid, the marker of a node is drawn in one cell of it, at the rounded position, and nothing else is changed. The circle of the ring
  (diameter 50 on 51 columns and 26 rows, with rows half as dense as columns) fits.
\<close>

definition fits :: "grid \<Rightarrow> real circle \<Rightarrow> bool" where
  "fits g c \<longleftrightarrow> 0 \<le> diameter c \<and> diameter c / 2 \<le> center_x c \<and> center_x c + diameter c / 2 \<le> of_int (g_cols g - 1) \<and>
     diameter c / 2 \<le> center_y c \<and> 0 \<le> row_ratio c \<and> (center_y c + diameter c / 2) * row_ratio c \<le> of_int (g_rows g - 1) \<and>
     g_cols g < 2 ^ 31 \<and> g_rows g < 2 ^ 31"

theorem circle_point_drawn:
  fixes rad :: real
  assumes "wf_grid g" and "fits g c"
  defines "col \<equiv> lrint_exact (center_x c + cos (rad + rotation c) * (diameter c / 2))"
    and "row \<equiv> g_rows g - 1 - lrint_exact ((center_y c + sin (rad + rotation c) * (diameter c / 2)) * row_ratio c)"
  shows "on_grid g col row" and "\<exists>g'. draw_circle_point exact g c marker rad = Inr g' \<and> wf_grid g' \<and>
    (\<forall>c' r'. on_grid g c' r' \<longrightarrow> get_cell g' c' r' = (if (c', r') = (col, row) then Inr marker else get_cell g c' r'))"
proof -
  let ?y = "(center_y c + sin (rad + rotation c) * (diameter c / 2)) * row_ratio c"
  have d: "0 \<le> diameter c / 2" using assms(2) by (simp add: fits_def)
  have x: "0 \<le> lrint_exact (center_x c + cos (rad + rotation c) * (diameter c / 2))" "lrint_exact (center_x c + cos (rad + rotation c) * (diameter c / 2)) \<le> g_cols g - 1"
    by (rule lrint_exact_bounds [of _ "g_cols g - 1"]; use trig_bound [OF d, of "cos (rad + rotation c)" "center_x c"] assms(2) in \<open>simp add: fits_def\<close>)+
  have y1: "center_y c - diameter c / 2 \<le> center_y c + sin (rad + rotation c) * (diameter c / 2)" "center_y c + sin (rad + rotation c) * (diameter c / 2) \<le> center_y c + diameter c / 2"
    using trig_bound [OF d, of "sin (rad + rotation c)" "center_y c"] by simp_all
  then have "0 \<le> ?y" "?y \<le> of_int (g_rows g - 1)"
    using assms(2) mult_right_mono [OF y1(2), of "row_ratio c"] by (auto simp: fits_def intro!: mult_nonneg_nonneg)
  then have y: "0 \<le> lrint_exact ?y" "lrint_exact ?y \<le> g_rows g - 1" using assms(2) lrint_exact_bounds [of ?y "g_rows g - 1"] by (simp_all add: fits_def)
  show on: "on_grid g col row" using x y by (simp add: on_grid_def col_def row_def)
  have big: "g_rows g < 2 ^ 63" "- (2 ^ 63) \<le> row" "row < 2 ^ 63" "col < 2 ^ 31" "row < 2 ^ 31" using on assms(2) by (simp_all add: on_grid_def fits_def)
  have i32: "to_i32 col = col" "to_i32 row = row" using on big by (intro to_i32_id; simp add: on_grid_def)+
  have "f_lrint exact (get_circle_x exact c rad) = col" "g_rows g - 1 - f_lrint exact (get_circle_y exact c rad) = row"
    by (simp_all add: get_circle_x_def get_circle_y_def get_circle_actual_y_def col_def row_def)
  then have "curve_point exact g marker (get_circle_x exact c rad) (get_circle_y exact c rad) = Inr (marker, col, row)"
    using big unfolding curve_point_def Let_def by (simp only: i32) simp
  then have "draw_circle_point exact g c marker rad = fbind (draw_marker g marker col row) Inr" by (simp add: draw_circle_point_def draw_curve_def)
  then show "\<exists>g'. draw_circle_point exact g c marker rad = Inr g' \<and> wf_grid g' \<and>
      (\<forall>c' r'. on_grid g c' r' \<longrightarrow> get_cell g' c' r' = (if (c', r') = (col, row) then Inr marker else get_cell g c' r'))"
    using draw_marker_ok [OF assms(1), of marker col row] by fastforce
qed

lemma ring_circle_fits: "fits (new_grid 51 26) (new_circle 25 25 50 r (1 / 2) 4)"
  by (simp add: fits_def new_grid_def new_circle_def)

end
