(* ===== verification/Memory_Lifecycle.thy ===== *)
theory Memory_Lifecycle
  imports Tangent_Prelude "HOL-Library.Multiset"
begin

text \<open>
  What the constructors allocate and the destructors free: the dispatcher (\<^verbatim>\<open>dispatcher.c\<close>), the hash map and the loggers (\<^verbatim>\<open>logger/hashmap.c\<close>, \<^verbatim>\<open>logger/clog.c\<close>) and the character grid (\<^verbatim>\<open>grid.c\<close>). Only
  the blocks of memory and the pointers to them are modelled here; what the blocks hold is in the theories of the components. The proofs account for every block by its owner: a multiset in which no block occurs twice.
\<close>

subsection \<open>Blocks\<close>

record blocks =
  live :: "nat set"
  fresh :: nat

definition malloc_b :: "blocks \<Rightarrow> nat \<times> blocks" where
  "malloc_b B = (fresh B, \<lparr>live = insert (fresh B) (live B), fresh = Suc (fresh B)\<rparr>)"

text \<open>Freeing the null pointer has no effect; freeing a block that is not live is undefined.\<close>

definition free_b :: "nat option \<Rightarrow> blocks \<Rightarrow> blocks res" where
  "free_b p B = (case p of None \<Rightarrow> Inr B | Some a \<Rightarrow> if a \<in> live B then Inr (B\<lparr>live := live B - {a}\<rparr>) else Inl Null_deref)"

definition opt :: "nat option \<Rightarrow> nat multiset" where
  "opt p = (case p of None \<Rightarrow> {#} | Some a \<Rightarrow> {#a#})"

definition owns :: "nat set \<Rightarrow> nat multiset \<Rightarrow> blocks \<Rightarrow> bool" where
  "owns L M B \<longleftrightarrow> live B = L \<union> set_mset M \<and> (\<forall>a. count M a \<le> 1) \<and> L \<inter> set_mset M = {} \<and> (\<forall>a \<in> live B. a < fresh B)"

lemma opt_simps [simp]: "opt None = {#}" "opt (Some a) = {#a#}"
  by (simp_all add: opt_def)

lemma owns_malloc:
  assumes "owns L M B" and "malloc_b B = (a, B')"
  shows "owns L (add_mset a M) B'"
proof -
  have "a \<notin># M" "a \<notin> L" "a = fresh B" using assms by (auto simp: owns_def malloc_b_def)
  then show ?thesis using assms by (auto simp: owns_def malloc_b_def not_in_iff less_Suc_eq)
qed

lemma owns_free:
  assumes "owns L (opt p + M) B"
  obtains B' where "free_b p B = Inr B'" and "owns L M B'"
proof (cases p)
  case None
  then show ?thesis using assms that by (simp add: free_b_def)
next
  case (Some a)
  have "count M a = 0" using assms Some by (auto simp: owns_def dest: spec [of _ a])
  then have a: "a \<notin># M" "a \<in> live B" "a \<notin> L" using assms Some by (auto simp: owns_def not_in_iff)
  have "count (add_mset a M) x \<le> 1" for x using assms Some by (simp add: owns_def)
  then have "count M x \<le> 1" for x using \<open>count M a = 0\<close> by (metis count_add_mset le_SucI le_zero_eq nat_le_linear)
  then have "owns L M (B\<lparr>live := live B - {a}\<rparr>)" using assms Some a by (auto simp: owns_def)
  then show ?thesis using that Some a(2) by (simp add: free_b_def)
qed

lemma owns_done: "owns L {#} B \<Longrightarrow> live B = L"
  by (simp add: owns_def)

subsection \<open>The dispatcher\<close>

record handler_mem =
  hm_name :: "nat option"
  hm_args :: "nat option"

record dispatcher_mem =
  dm_block :: nat
  dm_array :: nat
  dm_handlers :: "handler_mem list"
  dm_odds :: "(nat \<times> handler_mem) list"

definition new_dispatcher_mem :: "nat \<Rightarrow> blocks \<Rightarrow> dispatcher_mem \<times> blocks" where
  "new_dispatcher_mem sz B =
     (let (d, B) = malloc_b B; (a, B) = malloc_b B
      in (\<lparr>dm_block = d, dm_array = a, dm_handlers = replicate sz \<lparr>hm_name = None, hm_args = None\<rparr>, dm_odds = []\<rparr>, B))"

definition init_handler_mem :: "blocks \<Rightarrow> handler_mem \<times> blocks" where
  "init_handler_mem B = (let (n, B) = malloc_b B; (a, B) = malloc_b B in (\<lparr>hm_name = Some n, hm_args = Some a\<rparr>, B))"

text \<open>
  Registering a packet; its type is a non-negative number. The list of odd handlers is empty at all times, because the first insertion into it writes past the block it allocates
  (\<^verbatim>\<open>sizeof(struct packet_handler)\<close> for the larger \<^verbatim>\<open>odd_packet_handler\<close>): the behaviour of the program is undefined from there on, which the model shows, as everywhere, by the fault
  \<^const>\<open>Buffer_overflow\<close> with which the run ends; it is not an error that the function returns. For \<^verbatim>\<open>dispatcher_push_arg\<close> a type outside the table has no handler.
\<close>

definition set_packet_mem :: "nat \<Rightarrow> dispatcher_mem \<Rightarrow> blocks \<Rightarrow> (dispatcher_mem \<times> blocks) res" where
  "set_packet_mem v d B =
     (if v < length (dm_handlers d) then
        fbind (free_b (hm_name (dm_handlers d ! v)) B) (\<lambda>B.
        fbind (free_b (hm_args (dm_handlers d ! v)) B) (\<lambda>B.
        let (h, B) = init_handler_mem B in Inr (d\<lparr>dm_handlers := (dm_handlers d)[v := h]\<rparr>, B)))
      else Inl Buffer_overflow)"

text \<open>\<^verbatim>\<open>realloc\<close> in \<^verbatim>\<open>dispatcher_push_arg\<close>: a new block for the old one.\<close>

definition push_arg_mem :: "nat \<Rightarrow> dispatcher_mem \<Rightarrow> blocks \<Rightarrow> (dispatcher_mem \<times> blocks) res" where
  "push_arg_mem v d B =
     (if v < length (dm_handlers d) then
        fbind (free_b (hm_args (dm_handlers d ! v)) B) (\<lambda>B.
        let (a, B) = malloc_b B in Inr (d\<lparr>dm_handlers := (dm_handlers d)[v := (dm_handlers d ! v)\<lparr>hm_args := Some a\<rparr>]\<rparr>, B))
      else Inr (d, B))"

definition free_odd :: "nat \<times> handler_mem \<Rightarrow> blocks \<Rightarrow> blocks res" where
  "free_odd od B = fbind (free_b (hm_name (snd od)) B) (\<lambda>B. fbind (free_b (hm_args (snd od)) B) (free_b (Some (fst od))))"

primrec free_handlers :: "handler_mem list \<Rightarrow> blocks \<Rightarrow> blocks res" where
  "free_handlers [] B = Inr B"
| "free_handlers (h # hs) B = fbind (free_b (hm_name h) B) (\<lambda>B. fbind (free_b (hm_args h) B) (free_handlers hs))"

primrec free_odds :: "(nat \<times> handler_mem) list \<Rightarrow> blocks \<Rightarrow> blocks res" where
  "free_odds [] B = Inr B"
| "free_odds (od # odds) B = fbind (free_odd od B) (free_odds odds)"

definition free_dispatcher :: "dispatcher_mem option \<Rightarrow> blocks \<Rightarrow> blocks res" where
  "free_dispatcher d B =
     (case d of
        None \<Rightarrow> Inr B
      | Some d \<Rightarrow> fbind (free_handlers (dm_handlers d) B) (\<lambda>B. fbind (free_odds (dm_odds d) B) (free_b (Some (dm_block d)))))"

definition h_owned :: "handler_mem \<Rightarrow> nat multiset" where
  "h_owned h = opt (hm_name h) + opt (hm_args h)"

definition d_owned :: "dispatcher_mem \<Rightarrow> nat multiset" where
  "d_owned d = {#dm_array d, dm_block d#} + sum_list (map h_owned (dm_handlers d)) + sum_list (map (\<lambda>(b, h). add_mset b (h_owned h)) (dm_odds d))"

lemma handlers_split:
  assumes "v < length hs"
  obtains R where "sum_list (map h_owned hs) = h_owned (hs ! v) + R" "\<And>h. sum_list (map h_owned (hs[v := h])) = h_owned h + R"
proof
  let ?R = "sum_list (map h_owned (take v hs)) + sum_list (map h_owned (drop (Suc v) hs))"
  show upd: "sum_list (map h_owned (hs[v := h])) = h_owned h + ?R" for h
    using assms by (simp add: upd_conv_take_nth_drop ac_simps)
  show "sum_list (map h_owned hs) = h_owned (hs ! v) + ?R" using upd [of "hs ! v"] by simp
qed

lemma new_dispatcher_owns: "owns L {#} B \<Longrightarrow> new_dispatcher_mem sz B = (d, B') \<Longrightarrow> owns L (d_owned d) B'"
proof -
  assume B: "owns L {#} B" and d: "new_dispatcher_mem sz B = (d, B')"
  obtain b B1 where 1: "malloc_b B = (b, B1)" by force
  obtain a B2 where 2: "malloc_b B1 = (a, B2)" by force
  have "sum_list (map h_owned (replicate sz \<lparr>hm_name = None, hm_args = None\<rparr>)) = {#}" by (induction sz) (simp_all add: h_owned_def)
  then show ?thesis using owns_malloc [OF owns_malloc [OF B 1] 2] d 1 2 by (auto simp: new_dispatcher_mem_def d_owned_def)
qed

lemma dispatcher_split:
  assumes "v < length (dm_handlers d)"
  obtains M where "d_owned d = h_owned (dm_handlers d ! v) + M" "\<And>h. d_owned (d\<lparr>dm_handlers := (dm_handlers d)[v := h]\<rparr>) = h_owned h + M"
  using assms by (rule handlers_split) (rule that, auto simp: d_owned_def ac_simps)

lemma set_packet_owns:
  assumes "owns L (d_owned d) B" and "v < length (dm_handlers d)"
  obtains d' B' where "set_packet_mem v d B = Inr (d', B')" "owns L (d_owned d') B'" "length (dm_handlers d') = length (dm_handlers d)"
proof -
  let ?h = "dm_handlers d ! v"
  obtain M where M: "d_owned d = h_owned ?h + M" "\<And>h. d_owned (d\<lparr>dm_handlers := (dm_handlers d)[v := h]\<rparr>) = h_owned h + M"
    using dispatcher_split [OF assms(2)] by blast
  have "owns L (opt (hm_name ?h) + (opt (hm_args ?h) + M)) B" using assms(1) by (simp add: M(1) h_owned_def ac_simps)
  from owns_free [OF this] obtain B1 where 1: "free_b (hm_name ?h) B = Inr B1" "owns L (opt (hm_args ?h) + M) B1" .
  from owns_free [OF this(2)] obtain B2 where 2: "free_b (hm_args ?h) B1 = Inr B2" "owns L M B2" .
  obtain n B3 where 3: "malloc_b B2 = (n, B3)" by force
  obtain a B4 where 4: "malloc_b B3 = (a, B4)" by force
  let ?d = "d\<lparr>dm_handlers := (dm_handlers d)[v := \<lparr>hm_name = Some n, hm_args = Some a\<rparr>]\<rparr>"
  have "set_packet_mem v d B = Inr (?d, B4)" using assms(2) 1(1) 2(1) 3 4 by (simp add: set_packet_mem_def init_handler_mem_def)
  moreover have "owns L (d_owned ?d) B4" using owns_malloc [OF owns_malloc [OF 2(2) 3] 4] by (simp add: M(2) h_owned_def add_mset_commute)
  ultimately show ?thesis by (rule that) simp
qed

lemma push_arg_owns:
  assumes "owns L (d_owned d) B" and "v < length (dm_handlers d)"
  obtains d' B' where "push_arg_mem v d B = Inr (d', B')" "owns L (d_owned d') B'" "length (dm_handlers d') = length (dm_handlers d)"
proof -
  let ?h = "dm_handlers d ! v"
  obtain M where M: "d_owned d = h_owned ?h + M" "\<And>h. d_owned (d\<lparr>dm_handlers := (dm_handlers d)[v := h]\<rparr>) = h_owned h + M"
    using dispatcher_split [OF assms(2)] by blast
  have "owns L (opt (hm_args ?h) + (opt (hm_name ?h) + M)) B" using assms(1) by (simp add: M(1) h_owned_def ac_simps)
  from owns_free [OF this] obtain B1 where 1: "free_b (hm_args ?h) B = Inr B1" "owns L (opt (hm_name ?h) + M) B1" .
  obtain a B2 where 2: "malloc_b B1 = (a, B2)" by force
  let ?d = "d\<lparr>dm_handlers := (dm_handlers d)[v := ?h\<lparr>hm_args := Some a\<rparr>]\<rparr>"
  have "push_arg_mem v d B = Inr (?d, B2)" using assms(2) 1(1) 2 by (simp add: push_arg_mem_def)
  moreover have "owns L (d_owned ?d) B2" using owns_malloc [OF 1(2) 2] by (simp add: M(2) h_owned_def)
  ultimately show ?thesis by (rule that) simp
qed

lemma free_handlers_owns:
  assumes "owns L (sum_list (map h_owned hs) + M) B"
  obtains B' where "free_handlers hs B = Inr B'" "owns L M B'"
  using assms
proof (induction hs arbitrary: B thesis)
  case (Cons h hs)
  have "owns L (opt (hm_name h) + (opt (hm_args h) + (sum_list (map h_owned hs) + M))) B" using Cons.prems(2) by (simp add: h_owned_def [of h] ac_simps)
  from owns_free [OF this] obtain B1 where 1: "free_b (hm_name h) B = Inr B1" "owns L (opt (hm_args h) + (sum_list (map h_owned hs) + M)) B1" .
  from owns_free [OF this(2)] obtain B2 where 2: "free_b (hm_args h) B1 = Inr B2" "owns L (sum_list (map h_owned hs) + M) B2" .
  from Cons.IH [OF _ this(2)] obtain B3 where "free_handlers hs B2 = Inr B3" "owns L M B3" .
  then show ?case using Cons.prems(1) 1(1) 2(1) by simp
qed simp

lemma free_odds_owns:
  assumes "owns L (sum_list (map (\<lambda>(b, h). add_mset b (h_owned h)) ods) + M) B"
  obtains B' where "free_odds ods B = Inr B'" "owns L M B'"
  using assms
proof (induction ods arbitrary: B thesis)
  case (Cons od ods)
  obtain b h where od: "od = (b, h)" by force
  let ?R = "sum_list (map (\<lambda>(b, h). add_mset b (h_owned h)) ods) + M"
  have "owns L (opt (hm_name h) + (opt (hm_args h) + (opt (Some b) + ?R))) B" using Cons.prems(2) by (simp add: od h_owned_def [of h] ac_simps)
  from owns_free [OF this] obtain B1 where 1: "free_b (hm_name h) B = Inr B1" "owns L (opt (hm_args h) + (opt (Some b) + ?R)) B1" .
  from owns_free [OF this(2)] obtain B2 where 2: "free_b (hm_args h) B1 = Inr B2" "owns L (opt (Some b) + ?R) B2" .
  from owns_free [OF this(2)] obtain B3 where 3: "free_b (Some b) B2 = Inr B3" "owns L ?R B3" .
  from Cons.IH [OF _ this(2)] obtain B4 where "free_odds ods B3 = Inr B4" "owns L M B4" .
  then show ?case using Cons.prems(1) 1(1) 2(1) 3(1) by (simp add: od free_odd_def)
qed simp

lemma free_dispatcher_owns:
  assumes "owns L (d_owned d) B"
  obtains B' where "free_dispatcher (Some d) B = Inr B'" "owns L {#dm_array d#} B'"
proof -
  let ?O = "sum_list (map (\<lambda>(b, h). add_mset b (h_owned h)) (dm_odds d))"
  have "owns L (sum_list (map h_owned (dm_handlers d)) + (?O + (opt (Some (dm_block d)) + {#dm_array d#}))) B"
    using assms by (simp add: d_owned_def add_mset_commute ac_simps)
  from free_handlers_owns [OF this] obtain B1 where 1: "free_handlers (dm_handlers d) B = Inr B1" "owns L (?O + (opt (Some (dm_block d)) + {#dm_array d#})) B1" .
  from free_odds_owns [OF this(2)] obtain B2 where 2: "free_odds (dm_odds d) B1 = Inr B2" "owns L (opt (Some (dm_block d)) + {#dm_array d#}) B2" .
  from owns_free [OF this(2)] obtain B3 where 3: "free_b (Some (dm_block d)) B2 = Inr B3" "owns L {#dm_array d#} B3" .
  show ?thesis by (rule that [OF _ 3(2)]) (simp add: free_dispatcher_def 1(1) 2(1) 3(1))
qed

text \<open>Any sequence of registrations and of arguments pushed in between.\<close>

datatype dispatcher_use = Use_set nat | Use_push nat

primrec use_mem :: "dispatcher_use \<Rightarrow> dispatcher_mem \<Rightarrow> blocks \<Rightarrow> (dispatcher_mem \<times> blocks) res" where
  "use_mem (Use_set v) = set_packet_mem v"
| "use_mem (Use_push v) = push_arg_mem v"

primrec uses_mem :: "dispatcher_use list \<Rightarrow> dispatcher_mem \<Rightarrow> blocks \<Rightarrow> (dispatcher_mem \<times> blocks) res" where
  "uses_mem [] d B = Inr (d, B)"
| "uses_mem (u # us) d B = fbind (use_mem u d B) (\<lambda>(d, B). uses_mem us d B)"

primrec in_table :: "nat \<Rightarrow> dispatcher_use \<Rightarrow> bool" where
  "in_table sz (Use_set v) = (v < sz)"
| "in_table sz (Use_push v) = True"

lemma use_owns:
  assumes "owns L (d_owned d) B" and "in_table (length (dm_handlers d)) u"
  obtains d' B' where "use_mem u d B = Inr (d', B')" "owns L (d_owned d') B'" "length (dm_handlers d') = length (dm_handlers d)"
proof (cases u)
  case (Use_set v)
  then show ?thesis using set_packet_owns [OF assms(1), of v] assms(2) that by auto
next
  case (Use_push v)
  show ?thesis
  proof (cases "v < length (dm_handlers d)")
    case True
    then show ?thesis using push_arg_owns [OF assms(1), of v] Use_push that by auto
  next
    case False
    then show ?thesis using that [of d B] assms(1) Use_push by (simp add: push_arg_mem_def)
  qed
qed

lemma uses_mem_spec:
  assumes "owns L (d_owned d) B"
  shows "if \<forall>u \<in> set us. in_table (length (dm_handlers d)) u then \<exists>d' B'. uses_mem us d B = Inr (d', B') \<and> owns L (d_owned d') B'
    else uses_mem us d B = Inl Buffer_overflow"
  using assms
proof (induction us arbitrary: d B)
  case (Cons u us)
  show ?case
  proof (cases "in_table (length (dm_handlers d)) u")
    case True
    obtain d1 B1 where "use_mem u d B = Inr (d1, B1)" "owns L (d_owned d1) B1" "length (dm_handlers d1) = length (dm_handlers d)"
      using use_owns [OF Cons.prems True] .
    then show ?thesis using Cons.IH [of d1 B1] True by simp
  next
    case False
    then show ?thesis by (cases u) (simp_all add: set_packet_mem_def)
  qed
qed auto

text \<open>
  C40. The life of a dispatcher. As long as only packets of the table's range are registered, however often, and whatever arguments are pushed in between, for types of the table or not, nothing is freed twice,
  and \<^verbatim>\<open>free_dispatcher\<close> gives back every block but one: the array of handlers is never freed. As soon as a type outside the table is registered, the block for it is written past its end.
\<close>

theorem dispatcher_leaks_array:
  assumes "owns L {#} B" and "new_dispatcher_mem sz B = (d, B1)"
  shows "if \<forall>u \<in> set us. in_table sz u then
      \<exists>d' B2 B3. uses_mem us d B1 = Inr (d', B2) \<and> free_dispatcher (Some d') B2 = Inr B3 \<and> live B3 = insert (dm_array d') L \<and> dm_array d' \<notin> L
    else uses_mem us d B1 = Inl Buffer_overflow"
proof -
  have len: "length (dm_handlers d) = sz" using assms(2) by (auto simp: new_dispatcher_mem_def malloc_b_def)
  have "\<exists>B3. free_dispatcher (Some d') B2 = Inr B3 \<and> live B3 = insert (dm_array d') L \<and> dm_array d' \<notin> L" if "owns L (d_owned d') B2" for d' B2
    by (rule free_dispatcher_owns [OF that]) (auto simp: owns_def)
  then show ?thesis using uses_mem_spec [OF new_dispatcher_owns [OF assms], of us] len by (auto split: if_splits)
qed

lemma dispatcher_leaks_array_witness:
  "(\<exists>d' B2 B3. uses_mem [Use_set 1, Use_push 5, Use_set 1] (fst (new_dispatcher_mem 2 \<lparr>live = {0}, fresh = 1\<rparr>)) (snd (new_dispatcher_mem 2 \<lparr>live = {0}, fresh = 1\<rparr>)) = Inr (d', B2) \<and>
     free_dispatcher (Some d') B2 = Inr B3 \<and> live B3 = {dm_array d', 0} \<and> dm_array d' \<noteq> 0) \<and>
   uses_mem [Use_set 2] (fst (new_dispatcher_mem 2 \<lparr>live = {0}, fresh = 1\<rparr>)) (snd (new_dispatcher_mem 2 \<lparr>live = {0}, fresh = 1\<rparr>)) = Inl Buffer_overflow"
  using dispatcher_leaks_array [of "{0}" "\<lparr>live = {0}, fresh = 1\<rparr>" 2 _ _ "[Use_set 1, Use_push 5, Use_set 1]"]
    dispatcher_leaks_array [of "{0}" "\<lparr>live = {0}, fresh = 1\<rparr>" 2 _ _ "[Use_set 2]"] by (simp add: owns_def)

subsection \<open>Hash map, grid, loggers\<close>

text \<open>\<^verbatim>\<open>hashmap_new\<close>: the second allocation may fail, then the destructor is called on the half-made map.\<close>

record map_mem =
  mm_block :: nat
  mm_data :: "nat option"

definition hashmap_free :: "map_mem \<Rightarrow> blocks \<Rightarrow> blocks res" where
  "hashmap_free m B = fbind (free_b (mm_data m) B) (free_b (Some (mm_block m)))"

definition hashmap_new_mem :: "bool \<Rightarrow> bool \<Rightarrow> blocks \<Rightarrow> (map_mem option \<times> blocks) res" where
  "hashmap_new_mem malloc_ok calloc_ok B =
     (if \<not> malloc_ok then Inr (None, B)
      else
        let (m, B) = malloc_b B in
        if \<not> calloc_ok then fbind (hashmap_free \<lparr>mm_block = m, mm_data = None\<rparr> B) (\<lambda>B. Inr (None, B))
        else let (a, B) = malloc_b B in Inr (Some \<lparr>mm_block = m, mm_data = Some a\<rparr>, B))"

record grid_mem =
  gm_block :: nat
  gm_cells :: nat
  gm_cols :: "nat list"

primrec malloc_cols :: "nat \<Rightarrow> blocks \<Rightarrow> nat list \<times> blocks" where
  "malloc_cols 0 B = ([], B)"
| "malloc_cols (Suc n) B = (let (a, B) = malloc_b B; (cs, B) = malloc_cols n B in (a # cs, B))"

definition new_grid_mem :: "nat \<Rightarrow> blocks \<Rightarrow> grid_mem \<times> blocks" where
  "new_grid_mem cols B =
     (let (g, B) = malloc_b B; (cells, B) = malloc_b B; (cs, B) = malloc_cols cols B
      in (\<lparr>gm_block = g, gm_cells = cells, gm_cols = cs\<rparr>, B))"

primrec free_cols :: "nat list \<Rightarrow> blocks \<Rightarrow> blocks res" where
  "free_cols [] B = Inr B"
| "free_cols (c # cs) B = fbind (free_b (Some c) B) (free_cols cs)"

definition free_grid :: "grid_mem option \<Rightarrow> blocks \<Rightarrow> blocks res" where
  "free_grid g B =
     (case g of
        None \<Rightarrow> Inr B
      | Some g \<Rightarrow> fbind (free_cols (gm_cols g) B) (\<lambda>B. fbind (free_b (Some (gm_cells g)) B) (free_b (Some (gm_block g)))))"

text \<open>A logger: its structure, the copy of its name, and the stream of \<^verbatim>\<open>fopencookie\<close>.\<close>

record logger_mem =
  lm_block :: nat
  lm_name :: nat
  lm_fp :: "nat option"

definition logger_ctx_init :: "bool \<Rightarrow> nat \<Rightarrow> blocks \<Rightarrow> bool \<times> logger_mem \<times> blocks" where
  "logger_ctx_init cookie_ok l B =
     (let (n, B) = malloc_b B in
      if \<not> cookie_ok then (True, \<lparr>lm_block = l, lm_name = n, lm_fp = None\<rparr>, B)
      else let (f, B) = malloc_b B in (False, \<lparr>lm_block = l, lm_name = n, lm_fp = Some f\<rparr>, B))"

definition logger_ctx_new :: "bool \<Rightarrow> blocks \<Rightarrow> logger_mem option \<times> blocks" where
  "logger_ctx_new cookie_ok B =
     (let (l, B) = malloc_b B; (failed, m, B) = logger_ctx_init cookie_ok l B in (if failed then None else Some m, B))"

definition logger_ctx_close :: "logger_mem \<Rightarrow> blocks \<Rightarrow> blocks res" where
  "logger_ctx_close l B = (if lm_fp l \<noteq> None then free_b (lm_fp l) B else Inr B)"

definition logger_ctx_free :: "logger_mem \<Rightarrow> blocks \<Rightarrow> blocks res" where
  "logger_ctx_free l B = fbind (logger_ctx_close l B) (free_b (Some (lm_block l)))"

lemma malloc_cols_owns: "owns L M B \<Longrightarrow> malloc_cols n B = (cs, B') \<Longrightarrow> owns L (mset cs + M) B'"
proof (induction n arbitrary: M B cs B')
  case (Suc n)
  obtain a B1 where 1: "malloc_b B = (a, B1)" by force
  obtain cs1 B2 where 2: "malloc_cols n B1 = (cs1, B2)" by force
  show ?case using Suc.IH [OF owns_malloc [OF Suc.prems(1) 1] 2] Suc.prems(2) by (auto simp: 1 2)
qed simp

lemma free_cols_owns:
  assumes "owns L (mset cs + M) B"
  obtains B' where "free_cols cs B = Inr B'" "owns L M B'"
  using assms
proof (induction cs arbitrary: B thesis)
  case (Cons c cs)
  have "owns L (opt (Some c) + (mset cs + M)) B" using Cons.prems(2) by simp
  from owns_free [OF this] obtain B1 where 1: "free_b (Some c) B = Inr B1" "owns L (mset cs + M) B1" .
  from Cons.IH [OF _ this(2)] obtain B2 where "free_cols cs B1 = Inr B2" "owns L M B2" .
  then show ?case using Cons.prems(1) 1(1) by simp
qed simp

lemma grid_lifecycle:
  assumes "owns L {#} B" and "new_grid_mem cols B = (g, B1)"
  shows "\<exists>B2. free_grid (Some g) B1 = Inr B2 \<and> live B2 = L"
proof -
  obtain b B2 where 1: "malloc_b B = (b, B2)" by force
  obtain c B3 where 2: "malloc_b B2 = (c, B3)" by force
  obtain cs B4 where 3: "malloc_cols cols B3 = (cs, B4)" by force
  have g: "g = \<lparr>gm_block = b, gm_cells = c, gm_cols = cs\<rparr>" "B1 = B4" using assms(2) by (auto simp: new_grid_mem_def 1 2 3)
  have "owns L (mset cs + (opt (Some c) + (opt (Some b) + {#}))) B4"
    using malloc_cols_owns [OF owns_malloc [OF owns_malloc [OF assms(1) 1] 2] 3] by (simp add: add_mset_commute)
  from free_cols_owns [OF this] obtain B5 where 4: "free_cols cs B4 = Inr B5" "owns L (opt (Some c) + (opt (Some b) + {#})) B5" .
  from owns_free [OF this(2)] obtain B6 where 5: "free_b (Some c) B5 = Inr B6" "owns L (opt (Some b) + {#}) B6" .
  from owns_free [OF this(2)] obtain B7 where "free_b (Some b) B6 = Inr B7" "owns L {#} B7" .
  then show ?thesis using 4(1) 5(1) owns_done by (auto simp: free_grid_def g)
qed

lemma hashmap_lifecycle:
  assumes "owns L {#} B"
  shows "\<exists>r B1. hashmap_new_mem malloc_ok calloc_ok B = Inr (r, B1) \<and>
    (case r of None \<Rightarrow> live B1 = L | Some m \<Rightarrow> \<exists>B2. hashmap_free m B1 = Inr B2 \<and> live B2 = L)"
proof -
  obtain m B1 where 1: "malloc_b B = (m, B1)" by force
  obtain a B2 where 2: "malloc_b B1 = (a, B2)" by force
  have "owns L (opt (Some m) + {#}) B1" using owns_malloc [OF assms 1] by simp
  from owns_free [OF this] obtain B3 where 3: "free_b (Some m) B1 = Inr B3" "live B3 = L" using owns_done by metis
  have "owns L (opt (Some a) + (opt (Some m) + {#})) B2" using owns_malloc [OF owns_malloc [OF assms 1] 2] by (simp add: add_mset_commute)
  from owns_free [OF this] obtain B4 where 4: "free_b (Some a) B2 = Inr B4" "owns L (opt (Some m) + {#}) B4" .
  from owns_free [OF this(2)] obtain B5 where 5: "free_b (Some m) B4 = Inr B5" "live B5 = L" using owns_done by metis
  have "free_b None B1 = Inr B1" by (simp add: free_b_def)
  then show ?thesis using 1 2 3 4(1) 5 owns_done [OF assms] by (auto simp: hashmap_new_mem_def hashmap_free_def)
qed

text \<open>
  A logger that was made and freed leaves its name behind; one whose stream could not be made leaves its name and its structure behind, to which nobody has a pointer.
\<close>

theorem logger_leaks:
  assumes "owns L {#} B" and "logger_ctx_new cookie_ok B = (r, B1)"
  shows "case r of
      None \<Rightarrow> \<not> cookie_ok \<and> live B1 = insert (fresh B) (insert (Suc (fresh B)) L)
    | Some l \<Rightarrow> \<exists>B2. logger_ctx_free l B1 = Inr B2 \<and> live B2 = insert (lm_name l) L \<and> lm_name l \<notin> L"
proof -
  have L: "live B = L" "\<forall>a \<in> L. a < fresh B" using assms(1) by (auto simp: owns_def)
  then have new: "fresh B \<notin> L" "Suc (fresh B) \<notin> L" "Suc (Suc (fresh B)) \<notin> L" by (fastforce dest: bspec)+
  then have diff: "insert (Suc (Suc (fresh B))) (insert (Suc (fresh B)) (insert (fresh B) L)) - {Suc (Suc (fresh B))} - {fresh B} = insert (Suc (fresh B)) L" by auto
  show ?thesis
    using assms(2) L new diff
    by (cases cookie_ok) (auto simp: logger_ctx_new_def logger_ctx_init_def malloc_b_def logger_ctx_free_def logger_ctx_close_def free_b_def Let_def)
qed

lemma logger_leaks_witness:
  "\<exists>B2. logger_ctx_free (the (fst (logger_ctx_new True \<lparr>live = {0}, fresh = 1\<rparr>))) (snd (logger_ctx_new True \<lparr>live = {0}, fresh = 1\<rparr>)) = Inr B2 \<and> live B2 = {2, 0}"
  using logger_leaks [of "{0}" "\<lparr>live = {0}, fresh = 1\<rparr>" True]
  by (auto simp: owns_def logger_ctx_new_def logger_ctx_init_def malloc_b_def numeral_2_eq_2)

end
