(* ===== verification/Message_Api.thy ===== *)
theory Message_Api
  imports Codec_Instance
begin

text \<open>
  The functions that protoc generated for every message into \<^verbatim>\<open>messages.pb-c.c\<close> and the file client's \<^verbatim>\<open>d_messages.pb-c.c\<close>: initialise, measure, pack, append to a buffer, unpack, free. Each asserts the kind of the message
  (unless assertions are compiled out) and calls libprotobuf-c with its descriptor. The program calls them directly and hands the unpacking ones to its dispatchers.

  Messages are objects in memory: an object that was freed is \<open>None\<close>. The library is a parameter, a record of its functions; what is shown of the generated functions is that they keep the kinds of messages apart.
\<close>

subsection \<open>Objects and the library\<close>

type_synonym pb_mem = "message option list"

definition load_msg :: "pb_mem \<Rightarrow> nat option \<Rightarrow> message res" where
  "load_msg mem message =
     fbind (deref message) (\<lambda>p.
     if p < length mem then case mem ! p of None \<Rightarrow> Inl Null_deref | Some m \<Rightarrow> Inr m else Inl Out_of_bounds)"

definition store_msg :: "pb_mem \<Rightarrow> nat option \<Rightarrow> message \<Rightarrow> pb_mem res" where
  "store_msg mem message v = fbind (load_msg mem message) (\<lambda>_. fbind (deref message) (\<lambda>p. Inr (mem[p := Some v])))"

text \<open>The assertion reads the descriptor in the object; without assertions nothing is read.\<close>

definition PROTOBUF_C_ASSERT :: "bool \<Rightarrow> pb_mem \<Rightarrow> nat option \<Rightarrow> msg_desc \<Rightarrow> unit res" where
  "PROTOBUF_C_ASSERT A mem message d =
     (if A then fbind (load_msg mem message) (\<lambda>m. assert_that (descriptor_of m = d)) else Inr ())"

text \<open>
  The functions of libprotobuf-c that the generated code calls, on the objects in memory: the size of the encoding, the encoding itself, its size and a buffer with the encoding behind it, a
  new object of the kind that the descriptor names (or none), and the memory without an object. They are parameters.
\<close>

record pb_lib =
  protobuf_c_message_get_packed_size :: "pb_mem \<Rightarrow> nat option \<Rightarrow> nat res"
  protobuf_c_message_pack :: "pb_mem \<Rightarrow> nat option \<Rightarrow> byte list res"
  protobuf_c_message_pack_to_buffer :: "pb_mem \<Rightarrow> nat option \<Rightarrow> byte list \<Rightarrow> (nat \<times> byte list) res"
  protobuf_c_message_unpack :: "msg_desc \<Rightarrow> pb_mem \<Rightarrow> byte list \<Rightarrow> nat option \<times> pb_mem"
  protobuf_c_message_free_unpacked :: "pb_mem \<Rightarrow> nat option \<Rightarrow> pb_mem res"

record pb_api =
  api_desc :: msg_desc
  api_initial :: message
  api_init :: "pb_mem \<Rightarrow> nat option \<Rightarrow> pb_mem res"
  api_size :: "bool \<Rightarrow> pb_lib \<Rightarrow> pb_mem \<Rightarrow> nat option \<Rightarrow> nat res"
  api_pack :: "bool \<Rightarrow> pb_lib \<Rightarrow> pb_mem \<Rightarrow> nat option \<Rightarrow> byte list res"
  api_buffer :: "bool \<Rightarrow> pb_lib \<Rightarrow> pb_mem \<Rightarrow> nat option \<Rightarrow> byte list \<Rightarrow> (nat \<times> byte list) res"
  api_unpack :: "pb_lib \<Rightarrow> pb_mem \<Rightarrow> byte list \<Rightarrow> nat option \<times> pb_mem"
  api_free :: "bool \<Rightarrow> pb_lib \<Rightarrow> pb_mem \<Rightarrow> nat option \<Rightarrow> pb_mem res"

subsection \<open>The generated functions\<close>

definition header__init :: "pb_mem \<Rightarrow> nat option \<Rightarrow> pb_mem res" where
  "header__init mem message = store_msg mem message (M_Header HEADER__INIT)"

definition header__get_packed_size :: "bool \<Rightarrow> pb_lib \<Rightarrow> pb_mem \<Rightarrow> nat option \<Rightarrow> nat res" where
  "header__get_packed_size A L mem message = fbind (PROTOBUF_C_ASSERT A mem message header__descriptor) (\<lambda>_. protobuf_c_message_get_packed_size L mem message)"

definition header__pack :: "bool \<Rightarrow> pb_lib \<Rightarrow> pb_mem \<Rightarrow> nat option \<Rightarrow> byte list res" where
  "header__pack A L mem message = fbind (PROTOBUF_C_ASSERT A mem message header__descriptor) (\<lambda>_. protobuf_c_message_pack L mem message)"

definition header__pack_to_buffer :: "bool \<Rightarrow> pb_lib \<Rightarrow> pb_mem \<Rightarrow> nat option \<Rightarrow> byte list \<Rightarrow> (nat \<times> byte list) res" where
  "header__pack_to_buffer A L mem message buffer = fbind (PROTOBUF_C_ASSERT A mem message header__descriptor) (\<lambda>_. protobuf_c_message_pack_to_buffer L mem message buffer)"

definition header__unpack_object :: "pb_lib \<Rightarrow> pb_mem \<Rightarrow> byte list \<Rightarrow> nat option \<times> pb_mem" where
  "header__unpack_object L mem data = protobuf_c_message_unpack L header__descriptor mem data"

definition header__free_unpacked :: "bool \<Rightarrow> pb_lib \<Rightarrow> pb_mem \<Rightarrow> nat option \<Rightarrow> pb_mem res" where
  "header__free_unpacked A L mem message = fbind (PROTOBUF_C_ASSERT A mem message header__descriptor) (\<lambda>_. protobuf_c_message_free_unpacked L mem message)"

definition header__api :: pb_api where
  "header__api = \<lparr>api_desc = header__descriptor, api_initial = M_Header HEADER__INIT, api_init = header__init, api_size = header__get_packed_size, api_pack = header__pack,
     api_buffer = header__pack_to_buffer, api_unpack = header__unpack_object, api_free = header__free_unpacked\<rparr>"

definition ticket__init :: "pb_mem \<Rightarrow> nat option \<Rightarrow> pb_mem res" where
  "ticket__init mem message = store_msg mem message (M_Ticket TICKET__INIT)"

definition ticket__get_packed_size :: "bool \<Rightarrow> pb_lib \<Rightarrow> pb_mem \<Rightarrow> nat option \<Rightarrow> nat res" where
  "ticket__get_packed_size A L mem message = fbind (PROTOBUF_C_ASSERT A mem message ticket__descriptor) (\<lambda>_. protobuf_c_message_get_packed_size L mem message)"

definition ticket__pack :: "bool \<Rightarrow> pb_lib \<Rightarrow> pb_mem \<Rightarrow> nat option \<Rightarrow> byte list res" where
  "ticket__pack A L mem message = fbind (PROTOBUF_C_ASSERT A mem message ticket__descriptor) (\<lambda>_. protobuf_c_message_pack L mem message)"

definition ticket__pack_to_buffer :: "bool \<Rightarrow> pb_lib \<Rightarrow> pb_mem \<Rightarrow> nat option \<Rightarrow> byte list \<Rightarrow> (nat \<times> byte list) res" where
  "ticket__pack_to_buffer A L mem message buffer = fbind (PROTOBUF_C_ASSERT A mem message ticket__descriptor) (\<lambda>_. protobuf_c_message_pack_to_buffer L mem message buffer)"

definition ticket__unpack :: "pb_lib \<Rightarrow> pb_mem \<Rightarrow> byte list \<Rightarrow> nat option \<times> pb_mem" where
  "ticket__unpack L mem data = protobuf_c_message_unpack L ticket__descriptor mem data"

definition ticket__free_unpacked :: "bool \<Rightarrow> pb_lib \<Rightarrow> pb_mem \<Rightarrow> nat option \<Rightarrow> pb_mem res" where
  "ticket__free_unpacked A L mem message = fbind (PROTOBUF_C_ASSERT A mem message ticket__descriptor) (\<lambda>_. protobuf_c_message_free_unpacked L mem message)"

definition ticket__api :: pb_api where
  "ticket__api = \<lparr>api_desc = ticket__descriptor, api_initial = M_Ticket TICKET__INIT, api_init = ticket__init, api_size = ticket__get_packed_size, api_pack = ticket__pack,
     api_buffer = ticket__pack_to_buffer, api_unpack = ticket__unpack, api_free = ticket__free_unpacked\<rparr>"

definition addr_discover__init :: "pb_mem \<Rightarrow> nat option \<Rightarrow> pb_mem res" where
  "addr_discover__init mem message = store_msg mem message (M_AddrDiscover ADDR_DISCOVER__INIT)"

definition addr_discover__get_packed_size :: "bool \<Rightarrow> pb_lib \<Rightarrow> pb_mem \<Rightarrow> nat option \<Rightarrow> nat res" where
  "addr_discover__get_packed_size A L mem message = fbind (PROTOBUF_C_ASSERT A mem message addr_discover__descriptor) (\<lambda>_. protobuf_c_message_get_packed_size L mem message)"

definition addr_discover__pack :: "bool \<Rightarrow> pb_lib \<Rightarrow> pb_mem \<Rightarrow> nat option \<Rightarrow> byte list res" where
  "addr_discover__pack A L mem message = fbind (PROTOBUF_C_ASSERT A mem message addr_discover__descriptor) (\<lambda>_. protobuf_c_message_pack L mem message)"

definition addr_discover__pack_to_buffer :: "bool \<Rightarrow> pb_lib \<Rightarrow> pb_mem \<Rightarrow> nat option \<Rightarrow> byte list \<Rightarrow> (nat \<times> byte list) res" where
  "addr_discover__pack_to_buffer A L mem message buffer = fbind (PROTOBUF_C_ASSERT A mem message addr_discover__descriptor) (\<lambda>_. protobuf_c_message_pack_to_buffer L mem message buffer)"

definition addr_discover__unpack :: "pb_lib \<Rightarrow> pb_mem \<Rightarrow> byte list \<Rightarrow> nat option \<times> pb_mem" where
  "addr_discover__unpack L mem data = protobuf_c_message_unpack L addr_discover__descriptor mem data"

definition addr_discover__free_unpacked :: "bool \<Rightarrow> pb_lib \<Rightarrow> pb_mem \<Rightarrow> nat option \<Rightarrow> pb_mem res" where
  "addr_discover__free_unpacked A L mem message = fbind (PROTOBUF_C_ASSERT A mem message addr_discover__descriptor) (\<lambda>_. protobuf_c_message_free_unpacked L mem message)"

definition addr_discover__api :: pb_api where
  "addr_discover__api = \<lparr>api_desc = addr_discover__descriptor, api_initial = M_AddrDiscover ADDR_DISCOVER__INIT, api_init = addr_discover__init, api_size = addr_discover__get_packed_size, api_pack = addr_discover__pack,
     api_buffer = addr_discover__pack_to_buffer, api_unpack = addr_discover__unpack, api_free = addr_discover__free_unpacked\<rparr>"

definition addr_discover_reply__init :: "pb_mem \<Rightarrow> nat option \<Rightarrow> pb_mem res" where
  "addr_discover_reply__init mem message = store_msg mem message (M_AddrDiscoverReply ADDR_DISCOVER_REPLY__INIT)"

definition addr_discover_reply__get_packed_size :: "bool \<Rightarrow> pb_lib \<Rightarrow> pb_mem \<Rightarrow> nat option \<Rightarrow> nat res" where
  "addr_discover_reply__get_packed_size A L mem message = fbind (PROTOBUF_C_ASSERT A mem message addr_discover_reply__descriptor) (\<lambda>_. protobuf_c_message_get_packed_size L mem message)"

definition addr_discover_reply__pack :: "bool \<Rightarrow> pb_lib \<Rightarrow> pb_mem \<Rightarrow> nat option \<Rightarrow> byte list res" where
  "addr_discover_reply__pack A L mem message = fbind (PROTOBUF_C_ASSERT A mem message addr_discover_reply__descriptor) (\<lambda>_. protobuf_c_message_pack L mem message)"

definition addr_discover_reply__pack_to_buffer :: "bool \<Rightarrow> pb_lib \<Rightarrow> pb_mem \<Rightarrow> nat option \<Rightarrow> byte list \<Rightarrow> (nat \<times> byte list) res" where
  "addr_discover_reply__pack_to_buffer A L mem message buffer = fbind (PROTOBUF_C_ASSERT A mem message addr_discover_reply__descriptor) (\<lambda>_. protobuf_c_message_pack_to_buffer L mem message buffer)"

definition addr_discover_reply__unpack :: "pb_lib \<Rightarrow> pb_mem \<Rightarrow> byte list \<Rightarrow> nat option \<times> pb_mem" where
  "addr_discover_reply__unpack L mem data = protobuf_c_message_unpack L addr_discover_reply__descriptor mem data"

definition addr_discover_reply__free_unpacked :: "bool \<Rightarrow> pb_lib \<Rightarrow> pb_mem \<Rightarrow> nat option \<Rightarrow> pb_mem res" where
  "addr_discover_reply__free_unpacked A L mem message = fbind (PROTOBUF_C_ASSERT A mem message addr_discover_reply__descriptor) (\<lambda>_. protobuf_c_message_free_unpacked L mem message)"

definition addr_discover_reply__api :: pb_api where
  "addr_discover_reply__api = \<lparr>api_desc = addr_discover_reply__descriptor, api_initial = M_AddrDiscoverReply ADDR_DISCOVER_REPLY__INIT, api_init = addr_discover_reply__init, api_size = addr_discover_reply__get_packed_size, api_pack = addr_discover_reply__pack,
     api_buffer = addr_discover_reply__pack_to_buffer, api_unpack = addr_discover_reply__unpack, api_free = addr_discover_reply__free_unpacked\<rparr>"

definition data__init :: "pb_mem \<Rightarrow> nat option \<Rightarrow> pb_mem res" where
  "data__init mem message = store_msg mem message (M_Data DATA__INIT)"

definition data__get_packed_size :: "bool \<Rightarrow> pb_lib \<Rightarrow> pb_mem \<Rightarrow> nat option \<Rightarrow> nat res" where
  "data__get_packed_size A L mem message = fbind (PROTOBUF_C_ASSERT A mem message data__descriptor) (\<lambda>_. protobuf_c_message_get_packed_size L mem message)"

definition data__pack :: "bool \<Rightarrow> pb_lib \<Rightarrow> pb_mem \<Rightarrow> nat option \<Rightarrow> byte list res" where
  "data__pack A L mem message = fbind (PROTOBUF_C_ASSERT A mem message data__descriptor) (\<lambda>_. protobuf_c_message_pack L mem message)"

definition data__pack_to_buffer :: "bool \<Rightarrow> pb_lib \<Rightarrow> pb_mem \<Rightarrow> nat option \<Rightarrow> byte list \<Rightarrow> (nat \<times> byte list) res" where
  "data__pack_to_buffer A L mem message buffer = fbind (PROTOBUF_C_ASSERT A mem message data__descriptor) (\<lambda>_. protobuf_c_message_pack_to_buffer L mem message buffer)"

definition data__unpack :: "pb_lib \<Rightarrow> pb_mem \<Rightarrow> byte list \<Rightarrow> nat option \<times> pb_mem" where
  "data__unpack L mem data = protobuf_c_message_unpack L data__descriptor mem data"

definition data__free_unpacked :: "bool \<Rightarrow> pb_lib \<Rightarrow> pb_mem \<Rightarrow> nat option \<Rightarrow> pb_mem res" where
  "data__free_unpacked A L mem message = fbind (PROTOBUF_C_ASSERT A mem message data__descriptor) (\<lambda>_. protobuf_c_message_free_unpacked L mem message)"

definition data__api :: pb_api where
  "data__api = \<lparr>api_desc = data__descriptor, api_initial = M_Data DATA__INIT, api_init = data__init, api_size = data__get_packed_size, api_pack = data__pack,
     api_buffer = data__pack_to_buffer, api_unpack = data__unpack, api_free = data__free_unpacked\<rparr>"

definition find_successor__init :: "pb_mem \<Rightarrow> nat option \<Rightarrow> pb_mem res" where
  "find_successor__init mem message = store_msg mem message (M_FindSuccessor FIND_SUCCESSOR__INIT)"

definition find_successor__get_packed_size :: "bool \<Rightarrow> pb_lib \<Rightarrow> pb_mem \<Rightarrow> nat option \<Rightarrow> nat res" where
  "find_successor__get_packed_size A L mem message = fbind (PROTOBUF_C_ASSERT A mem message find_successor__descriptor) (\<lambda>_. protobuf_c_message_get_packed_size L mem message)"

definition find_successor__pack :: "bool \<Rightarrow> pb_lib \<Rightarrow> pb_mem \<Rightarrow> nat option \<Rightarrow> byte list res" where
  "find_successor__pack A L mem message = fbind (PROTOBUF_C_ASSERT A mem message find_successor__descriptor) (\<lambda>_. protobuf_c_message_pack L mem message)"

definition find_successor__pack_to_buffer :: "bool \<Rightarrow> pb_lib \<Rightarrow> pb_mem \<Rightarrow> nat option \<Rightarrow> byte list \<Rightarrow> (nat \<times> byte list) res" where
  "find_successor__pack_to_buffer A L mem message buffer = fbind (PROTOBUF_C_ASSERT A mem message find_successor__descriptor) (\<lambda>_. protobuf_c_message_pack_to_buffer L mem message buffer)"

definition find_successor__unpack :: "pb_lib \<Rightarrow> pb_mem \<Rightarrow> byte list \<Rightarrow> nat option \<times> pb_mem" where
  "find_successor__unpack L mem data = protobuf_c_message_unpack L find_successor__descriptor mem data"

definition find_successor__free_unpacked :: "bool \<Rightarrow> pb_lib \<Rightarrow> pb_mem \<Rightarrow> nat option \<Rightarrow> pb_mem res" where
  "find_successor__free_unpacked A L mem message = fbind (PROTOBUF_C_ASSERT A mem message find_successor__descriptor) (\<lambda>_. protobuf_c_message_free_unpacked L mem message)"

definition find_successor__api :: pb_api where
  "find_successor__api = \<lparr>api_desc = find_successor__descriptor, api_initial = M_FindSuccessor FIND_SUCCESSOR__INIT, api_init = find_successor__init, api_size = find_successor__get_packed_size, api_pack = find_successor__pack,
     api_buffer = find_successor__pack_to_buffer, api_unpack = find_successor__unpack, api_free = find_successor__free_unpacked\<rparr>"

definition find_successor_reply__init :: "pb_mem \<Rightarrow> nat option \<Rightarrow> pb_mem res" where
  "find_successor_reply__init mem message = store_msg mem message (M_FindSuccessorReply FIND_SUCCESSOR_REPLY__INIT)"

definition find_successor_reply__get_packed_size :: "bool \<Rightarrow> pb_lib \<Rightarrow> pb_mem \<Rightarrow> nat option \<Rightarrow> nat res" where
  "find_successor_reply__get_packed_size A L mem message = fbind (PROTOBUF_C_ASSERT A mem message find_successor_reply__descriptor) (\<lambda>_. protobuf_c_message_get_packed_size L mem message)"

definition find_successor_reply__pack :: "bool \<Rightarrow> pb_lib \<Rightarrow> pb_mem \<Rightarrow> nat option \<Rightarrow> byte list res" where
  "find_successor_reply__pack A L mem message = fbind (PROTOBUF_C_ASSERT A mem message find_successor_reply__descriptor) (\<lambda>_. protobuf_c_message_pack L mem message)"

definition find_successor_reply__pack_to_buffer :: "bool \<Rightarrow> pb_lib \<Rightarrow> pb_mem \<Rightarrow> nat option \<Rightarrow> byte list \<Rightarrow> (nat \<times> byte list) res" where
  "find_successor_reply__pack_to_buffer A L mem message buffer = fbind (PROTOBUF_C_ASSERT A mem message find_successor_reply__descriptor) (\<lambda>_. protobuf_c_message_pack_to_buffer L mem message buffer)"

definition find_successor_reply__unpack :: "pb_lib \<Rightarrow> pb_mem \<Rightarrow> byte list \<Rightarrow> nat option \<times> pb_mem" where
  "find_successor_reply__unpack L mem data = protobuf_c_message_unpack L find_successor_reply__descriptor mem data"

definition find_successor_reply__free_unpacked :: "bool \<Rightarrow> pb_lib \<Rightarrow> pb_mem \<Rightarrow> nat option \<Rightarrow> pb_mem res" where
  "find_successor_reply__free_unpacked A L mem message = fbind (PROTOBUF_C_ASSERT A mem message find_successor_reply__descriptor) (\<lambda>_. protobuf_c_message_free_unpacked L mem message)"

definition find_successor_reply__api :: pb_api where
  "find_successor_reply__api = \<lparr>api_desc = find_successor_reply__descriptor, api_initial = M_FindSuccessorReply FIND_SUCCESSOR_REPLY__INIT, api_init = find_successor_reply__init, api_size = find_successor_reply__get_packed_size, api_pack = find_successor_reply__pack,
     api_buffer = find_successor_reply__pack_to_buffer, api_unpack = find_successor_reply__unpack, api_free = find_successor_reply__free_unpacked\<rparr>"

definition stabilize__init :: "pb_mem \<Rightarrow> nat option \<Rightarrow> pb_mem res" where
  "stabilize__init mem message = store_msg mem message (M_Stabilize STABILIZE__INIT)"

definition stabilize__get_packed_size :: "bool \<Rightarrow> pb_lib \<Rightarrow> pb_mem \<Rightarrow> nat option \<Rightarrow> nat res" where
  "stabilize__get_packed_size A L mem message = fbind (PROTOBUF_C_ASSERT A mem message stabilize__descriptor) (\<lambda>_. protobuf_c_message_get_packed_size L mem message)"

definition stabilize__pack :: "bool \<Rightarrow> pb_lib \<Rightarrow> pb_mem \<Rightarrow> nat option \<Rightarrow> byte list res" where
  "stabilize__pack A L mem message = fbind (PROTOBUF_C_ASSERT A mem message stabilize__descriptor) (\<lambda>_. protobuf_c_message_pack L mem message)"

definition stabilize__pack_to_buffer :: "bool \<Rightarrow> pb_lib \<Rightarrow> pb_mem \<Rightarrow> nat option \<Rightarrow> byte list \<Rightarrow> (nat \<times> byte list) res" where
  "stabilize__pack_to_buffer A L mem message buffer = fbind (PROTOBUF_C_ASSERT A mem message stabilize__descriptor) (\<lambda>_. protobuf_c_message_pack_to_buffer L mem message buffer)"

definition stabilize__unpack :: "pb_lib \<Rightarrow> pb_mem \<Rightarrow> byte list \<Rightarrow> nat option \<times> pb_mem" where
  "stabilize__unpack L mem data = protobuf_c_message_unpack L stabilize__descriptor mem data"

definition stabilize__free_unpacked :: "bool \<Rightarrow> pb_lib \<Rightarrow> pb_mem \<Rightarrow> nat option \<Rightarrow> pb_mem res" where
  "stabilize__free_unpacked A L mem message = fbind (PROTOBUF_C_ASSERT A mem message stabilize__descriptor) (\<lambda>_. protobuf_c_message_free_unpacked L mem message)"

definition stabilize__api :: pb_api where
  "stabilize__api = \<lparr>api_desc = stabilize__descriptor, api_initial = M_Stabilize STABILIZE__INIT, api_init = stabilize__init, api_size = stabilize__get_packed_size, api_pack = stabilize__pack,
     api_buffer = stabilize__pack_to_buffer, api_unpack = stabilize__unpack, api_free = stabilize__free_unpacked\<rparr>"

definition stabilize_reply__init :: "pb_mem \<Rightarrow> nat option \<Rightarrow> pb_mem res" where
  "stabilize_reply__init mem message = store_msg mem message (M_StabilizeReply STABILIZE_REPLY__INIT)"

definition stabilize_reply__get_packed_size :: "bool \<Rightarrow> pb_lib \<Rightarrow> pb_mem \<Rightarrow> nat option \<Rightarrow> nat res" where
  "stabilize_reply__get_packed_size A L mem message = fbind (PROTOBUF_C_ASSERT A mem message stabilize_reply__descriptor) (\<lambda>_. protobuf_c_message_get_packed_size L mem message)"

definition stabilize_reply__pack :: "bool \<Rightarrow> pb_lib \<Rightarrow> pb_mem \<Rightarrow> nat option \<Rightarrow> byte list res" where
  "stabilize_reply__pack A L mem message = fbind (PROTOBUF_C_ASSERT A mem message stabilize_reply__descriptor) (\<lambda>_. protobuf_c_message_pack L mem message)"

definition stabilize_reply__pack_to_buffer :: "bool \<Rightarrow> pb_lib \<Rightarrow> pb_mem \<Rightarrow> nat option \<Rightarrow> byte list \<Rightarrow> (nat \<times> byte list) res" where
  "stabilize_reply__pack_to_buffer A L mem message buffer = fbind (PROTOBUF_C_ASSERT A mem message stabilize_reply__descriptor) (\<lambda>_. protobuf_c_message_pack_to_buffer L mem message buffer)"

definition stabilize_reply__unpack :: "pb_lib \<Rightarrow> pb_mem \<Rightarrow> byte list \<Rightarrow> nat option \<times> pb_mem" where
  "stabilize_reply__unpack L mem data = protobuf_c_message_unpack L stabilize_reply__descriptor mem data"

definition stabilize_reply__free_unpacked :: "bool \<Rightarrow> pb_lib \<Rightarrow> pb_mem \<Rightarrow> nat option \<Rightarrow> pb_mem res" where
  "stabilize_reply__free_unpacked A L mem message = fbind (PROTOBUF_C_ASSERT A mem message stabilize_reply__descriptor) (\<lambda>_. protobuf_c_message_free_unpacked L mem message)"

definition stabilize_reply__api :: pb_api where
  "stabilize_reply__api = \<lparr>api_desc = stabilize_reply__descriptor, api_initial = M_StabilizeReply STABILIZE_REPLY__INIT, api_init = stabilize_reply__init, api_size = stabilize_reply__get_packed_size, api_pack = stabilize_reply__pack,
     api_buffer = stabilize_reply__pack_to_buffer, api_unpack = stabilize_reply__unpack, api_free = stabilize_reply__free_unpacked\<rparr>"

definition notify__init :: "pb_mem \<Rightarrow> nat option \<Rightarrow> pb_mem res" where
  "notify__init mem message = store_msg mem message (M_Notify NOTIFY__INIT)"

definition notify__get_packed_size :: "bool \<Rightarrow> pb_lib \<Rightarrow> pb_mem \<Rightarrow> nat option \<Rightarrow> nat res" where
  "notify__get_packed_size A L mem message = fbind (PROTOBUF_C_ASSERT A mem message notify__descriptor) (\<lambda>_. protobuf_c_message_get_packed_size L mem message)"

definition notify__pack :: "bool \<Rightarrow> pb_lib \<Rightarrow> pb_mem \<Rightarrow> nat option \<Rightarrow> byte list res" where
  "notify__pack A L mem message = fbind (PROTOBUF_C_ASSERT A mem message notify__descriptor) (\<lambda>_. protobuf_c_message_pack L mem message)"

definition notify__pack_to_buffer :: "bool \<Rightarrow> pb_lib \<Rightarrow> pb_mem \<Rightarrow> nat option \<Rightarrow> byte list \<Rightarrow> (nat \<times> byte list) res" where
  "notify__pack_to_buffer A L mem message buffer = fbind (PROTOBUF_C_ASSERT A mem message notify__descriptor) (\<lambda>_. protobuf_c_message_pack_to_buffer L mem message buffer)"

definition notify__unpack :: "pb_lib \<Rightarrow> pb_mem \<Rightarrow> byte list \<Rightarrow> nat option \<times> pb_mem" where
  "notify__unpack L mem data = protobuf_c_message_unpack L notify__descriptor mem data"

definition notify__free_unpacked :: "bool \<Rightarrow> pb_lib \<Rightarrow> pb_mem \<Rightarrow> nat option \<Rightarrow> pb_mem res" where
  "notify__free_unpacked A L mem message = fbind (PROTOBUF_C_ASSERT A mem message notify__descriptor) (\<lambda>_. protobuf_c_message_free_unpacked L mem message)"

definition notify__api :: pb_api where
  "notify__api = \<lparr>api_desc = notify__descriptor, api_initial = M_Notify NOTIFY__INIT, api_init = notify__init, api_size = notify__get_packed_size, api_pack = notify__pack,
     api_buffer = notify__pack_to_buffer, api_unpack = notify__unpack, api_free = notify__free_unpacked\<rparr>"

definition ping__init :: "pb_mem \<Rightarrow> nat option \<Rightarrow> pb_mem res" where
  "ping__init mem message = store_msg mem message (M_Ping PING__INIT)"

definition ping__get_packed_size :: "bool \<Rightarrow> pb_lib \<Rightarrow> pb_mem \<Rightarrow> nat option \<Rightarrow> nat res" where
  "ping__get_packed_size A L mem message = fbind (PROTOBUF_C_ASSERT A mem message ping__descriptor) (\<lambda>_. protobuf_c_message_get_packed_size L mem message)"

definition ping__pack :: "bool \<Rightarrow> pb_lib \<Rightarrow> pb_mem \<Rightarrow> nat option \<Rightarrow> byte list res" where
  "ping__pack A L mem message = fbind (PROTOBUF_C_ASSERT A mem message ping__descriptor) (\<lambda>_. protobuf_c_message_pack L mem message)"

definition ping__pack_to_buffer :: "bool \<Rightarrow> pb_lib \<Rightarrow> pb_mem \<Rightarrow> nat option \<Rightarrow> byte list \<Rightarrow> (nat \<times> byte list) res" where
  "ping__pack_to_buffer A L mem message buffer = fbind (PROTOBUF_C_ASSERT A mem message ping__descriptor) (\<lambda>_. protobuf_c_message_pack_to_buffer L mem message buffer)"

definition ping__unpack :: "pb_lib \<Rightarrow> pb_mem \<Rightarrow> byte list \<Rightarrow> nat option \<times> pb_mem" where
  "ping__unpack L mem data = protobuf_c_message_unpack L ping__descriptor mem data"

definition ping__free_unpacked :: "bool \<Rightarrow> pb_lib \<Rightarrow> pb_mem \<Rightarrow> nat option \<Rightarrow> pb_mem res" where
  "ping__free_unpacked A L mem message = fbind (PROTOBUF_C_ASSERT A mem message ping__descriptor) (\<lambda>_. protobuf_c_message_free_unpacked L mem message)"

definition ping__api :: pb_api where
  "ping__api = \<lparr>api_desc = ping__descriptor, api_initial = M_Ping PING__INIT, api_init = ping__init, api_size = ping__get_packed_size, api_pack = ping__pack,
     api_buffer = ping__pack_to_buffer, api_unpack = ping__unpack, api_free = ping__free_unpacked\<rparr>"

definition pong__init :: "pb_mem \<Rightarrow> nat option \<Rightarrow> pb_mem res" where
  "pong__init mem message = store_msg mem message (M_Pong PONG__INIT)"

definition pong__get_packed_size :: "bool \<Rightarrow> pb_lib \<Rightarrow> pb_mem \<Rightarrow> nat option \<Rightarrow> nat res" where
  "pong__get_packed_size A L mem message = fbind (PROTOBUF_C_ASSERT A mem message pong__descriptor) (\<lambda>_. protobuf_c_message_get_packed_size L mem message)"

definition pong__pack :: "bool \<Rightarrow> pb_lib \<Rightarrow> pb_mem \<Rightarrow> nat option \<Rightarrow> byte list res" where
  "pong__pack A L mem message = fbind (PROTOBUF_C_ASSERT A mem message pong__descriptor) (\<lambda>_. protobuf_c_message_pack L mem message)"

definition pong__pack_to_buffer :: "bool \<Rightarrow> pb_lib \<Rightarrow> pb_mem \<Rightarrow> nat option \<Rightarrow> byte list \<Rightarrow> (nat \<times> byte list) res" where
  "pong__pack_to_buffer A L mem message buffer = fbind (PROTOBUF_C_ASSERT A mem message pong__descriptor) (\<lambda>_. protobuf_c_message_pack_to_buffer L mem message buffer)"

definition pong__unpack :: "pb_lib \<Rightarrow> pb_mem \<Rightarrow> byte list \<Rightarrow> nat option \<times> pb_mem" where
  "pong__unpack L mem data = protobuf_c_message_unpack L pong__descriptor mem data"

definition pong__free_unpacked :: "bool \<Rightarrow> pb_lib \<Rightarrow> pb_mem \<Rightarrow> nat option \<Rightarrow> pb_mem res" where
  "pong__free_unpacked A L mem message = fbind (PROTOBUF_C_ASSERT A mem message pong__descriptor) (\<lambda>_. protobuf_c_message_free_unpacked L mem message)"

definition pong__api :: pb_api where
  "pong__api = \<lparr>api_desc = pong__descriptor, api_initial = M_Pong PONG__INIT, api_init = pong__init, api_size = pong__get_packed_size, api_pack = pong__pack,
     api_buffer = pong__pack_to_buffer, api_unpack = pong__unpack, api_free = pong__free_unpacked\<rparr>"

definition client_request__init :: "pb_mem \<Rightarrow> nat option \<Rightarrow> pb_mem res" where
  "client_request__init mem message = store_msg mem message (M_ClientRequest CLIENT_REQUEST__INIT)"

definition client_request__get_packed_size :: "bool \<Rightarrow> pb_lib \<Rightarrow> pb_mem \<Rightarrow> nat option \<Rightarrow> nat res" where
  "client_request__get_packed_size A L mem message = fbind (PROTOBUF_C_ASSERT A mem message client_request__descriptor) (\<lambda>_. protobuf_c_message_get_packed_size L mem message)"

definition client_request__pack :: "bool \<Rightarrow> pb_lib \<Rightarrow> pb_mem \<Rightarrow> nat option \<Rightarrow> byte list res" where
  "client_request__pack A L mem message = fbind (PROTOBUF_C_ASSERT A mem message client_request__descriptor) (\<lambda>_. protobuf_c_message_pack L mem message)"

definition client_request__pack_to_buffer :: "bool \<Rightarrow> pb_lib \<Rightarrow> pb_mem \<Rightarrow> nat option \<Rightarrow> byte list \<Rightarrow> (nat \<times> byte list) res" where
  "client_request__pack_to_buffer A L mem message buffer = fbind (PROTOBUF_C_ASSERT A mem message client_request__descriptor) (\<lambda>_. protobuf_c_message_pack_to_buffer L mem message buffer)"

definition client_request__unpack :: "pb_lib \<Rightarrow> pb_mem \<Rightarrow> byte list \<Rightarrow> nat option \<times> pb_mem" where
  "client_request__unpack L mem data = protobuf_c_message_unpack L client_request__descriptor mem data"

definition client_request__free_unpacked :: "bool \<Rightarrow> pb_lib \<Rightarrow> pb_mem \<Rightarrow> nat option \<Rightarrow> pb_mem res" where
  "client_request__free_unpacked A L mem message = fbind (PROTOBUF_C_ASSERT A mem message client_request__descriptor) (\<lambda>_. protobuf_c_message_free_unpacked L mem message)"

definition client_request__api :: pb_api where
  "client_request__api = \<lparr>api_desc = client_request__descriptor, api_initial = M_ClientRequest CLIENT_REQUEST__INIT, api_init = client_request__init, api_size = client_request__get_packed_size, api_pack = client_request__pack,
     api_buffer = client_request__pack_to_buffer, api_unpack = client_request__unpack, api_free = client_request__free_unpacked\<rparr>"

definition client_request_reply__init :: "pb_mem \<Rightarrow> nat option \<Rightarrow> pb_mem res" where
  "client_request_reply__init mem message = store_msg mem message (M_ClientRequestReply CLIENT_REQUEST_REPLY__INIT)"

definition client_request_reply__get_packed_size :: "bool \<Rightarrow> pb_lib \<Rightarrow> pb_mem \<Rightarrow> nat option \<Rightarrow> nat res" where
  "client_request_reply__get_packed_size A L mem message = fbind (PROTOBUF_C_ASSERT A mem message client_request_reply__descriptor) (\<lambda>_. protobuf_c_message_get_packed_size L mem message)"

definition client_request_reply__pack :: "bool \<Rightarrow> pb_lib \<Rightarrow> pb_mem \<Rightarrow> nat option \<Rightarrow> byte list res" where
  "client_request_reply__pack A L mem message = fbind (PROTOBUF_C_ASSERT A mem message client_request_reply__descriptor) (\<lambda>_. protobuf_c_message_pack L mem message)"

definition client_request_reply__pack_to_buffer :: "bool \<Rightarrow> pb_lib \<Rightarrow> pb_mem \<Rightarrow> nat option \<Rightarrow> byte list \<Rightarrow> (nat \<times> byte list) res" where
  "client_request_reply__pack_to_buffer A L mem message buffer = fbind (PROTOBUF_C_ASSERT A mem message client_request_reply__descriptor) (\<lambda>_. protobuf_c_message_pack_to_buffer L mem message buffer)"

definition client_request_reply__unpack :: "pb_lib \<Rightarrow> pb_mem \<Rightarrow> byte list \<Rightarrow> nat option \<times> pb_mem" where
  "client_request_reply__unpack L mem data = protobuf_c_message_unpack L client_request_reply__descriptor mem data"

definition client_request_reply__free_unpacked :: "bool \<Rightarrow> pb_lib \<Rightarrow> pb_mem \<Rightarrow> nat option \<Rightarrow> pb_mem res" where
  "client_request_reply__free_unpacked A L mem message = fbind (PROTOBUF_C_ASSERT A mem message client_request_reply__descriptor) (\<lambda>_. protobuf_c_message_free_unpacked L mem message)"

definition client_request_reply__api :: pb_api where
  "client_request_reply__api = \<lparr>api_desc = client_request_reply__descriptor, api_initial = M_ClientRequestReply CLIENT_REQUEST_REPLY__INIT, api_init = client_request_reply__init, api_size = client_request_reply__get_packed_size, api_pack = client_request_reply__pack,
     api_buffer = client_request_reply__pack_to_buffer, api_unpack = client_request_reply__unpack, api_free = client_request_reply__free_unpacked\<rparr>"

definition query__init :: "pb_mem \<Rightarrow> nat option \<Rightarrow> pb_mem res" where
  "query__init mem message = store_msg mem message (M_Query QUERY__INIT)"

definition query__get_packed_size :: "bool \<Rightarrow> pb_lib \<Rightarrow> pb_mem \<Rightarrow> nat option \<Rightarrow> nat res" where
  "query__get_packed_size A L mem message = fbind (PROTOBUF_C_ASSERT A mem message query__descriptor) (\<lambda>_. protobuf_c_message_get_packed_size L mem message)"

definition query__pack :: "bool \<Rightarrow> pb_lib \<Rightarrow> pb_mem \<Rightarrow> nat option \<Rightarrow> byte list res" where
  "query__pack A L mem message = fbind (PROTOBUF_C_ASSERT A mem message query__descriptor) (\<lambda>_. protobuf_c_message_pack L mem message)"

definition query__pack_to_buffer :: "bool \<Rightarrow> pb_lib \<Rightarrow> pb_mem \<Rightarrow> nat option \<Rightarrow> byte list \<Rightarrow> (nat \<times> byte list) res" where
  "query__pack_to_buffer A L mem message buffer = fbind (PROTOBUF_C_ASSERT A mem message query__descriptor) (\<lambda>_. protobuf_c_message_pack_to_buffer L mem message buffer)"

definition query__unpack :: "pb_lib \<Rightarrow> pb_mem \<Rightarrow> byte list \<Rightarrow> nat option \<times> pb_mem" where
  "query__unpack L mem data = protobuf_c_message_unpack L query__descriptor mem data"

definition query__free_unpacked :: "bool \<Rightarrow> pb_lib \<Rightarrow> pb_mem \<Rightarrow> nat option \<Rightarrow> pb_mem res" where
  "query__free_unpacked A L mem message = fbind (PROTOBUF_C_ASSERT A mem message query__descriptor) (\<lambda>_. protobuf_c_message_free_unpacked L mem message)"

definition query__api :: pb_api where
  "query__api = \<lparr>api_desc = query__descriptor, api_initial = M_Query QUERY__INIT, api_init = query__init, api_size = query__get_packed_size, api_pack = query__pack,
     api_buffer = query__pack_to_buffer, api_unpack = query__unpack, api_free = query__free_unpacked\<rparr>"

definition query_reply_success__init :: "pb_mem \<Rightarrow> nat option \<Rightarrow> pb_mem res" where
  "query_reply_success__init mem message = store_msg mem message (M_QueryReplySuccess QUERY_REPLY_SUCCESS__INIT)"

definition query_reply_success__get_packed_size :: "bool \<Rightarrow> pb_lib \<Rightarrow> pb_mem \<Rightarrow> nat option \<Rightarrow> nat res" where
  "query_reply_success__get_packed_size A L mem message = fbind (PROTOBUF_C_ASSERT A mem message query_reply_success__descriptor) (\<lambda>_. protobuf_c_message_get_packed_size L mem message)"

definition query_reply_success__pack :: "bool \<Rightarrow> pb_lib \<Rightarrow> pb_mem \<Rightarrow> nat option \<Rightarrow> byte list res" where
  "query_reply_success__pack A L mem message = fbind (PROTOBUF_C_ASSERT A mem message query_reply_success__descriptor) (\<lambda>_. protobuf_c_message_pack L mem message)"

definition query_reply_success__pack_to_buffer :: "bool \<Rightarrow> pb_lib \<Rightarrow> pb_mem \<Rightarrow> nat option \<Rightarrow> byte list \<Rightarrow> (nat \<times> byte list) res" where
  "query_reply_success__pack_to_buffer A L mem message buffer = fbind (PROTOBUF_C_ASSERT A mem message query_reply_success__descriptor) (\<lambda>_. protobuf_c_message_pack_to_buffer L mem message buffer)"

definition query_reply_success__unpack :: "pb_lib \<Rightarrow> pb_mem \<Rightarrow> byte list \<Rightarrow> nat option \<times> pb_mem" where
  "query_reply_success__unpack L mem data = protobuf_c_message_unpack L query_reply_success__descriptor mem data"

definition query_reply_success__free_unpacked :: "bool \<Rightarrow> pb_lib \<Rightarrow> pb_mem \<Rightarrow> nat option \<Rightarrow> pb_mem res" where
  "query_reply_success__free_unpacked A L mem message = fbind (PROTOBUF_C_ASSERT A mem message query_reply_success__descriptor) (\<lambda>_. protobuf_c_message_free_unpacked L mem message)"

definition query_reply_success__api :: pb_api where
  "query_reply_success__api = \<lparr>api_desc = query_reply_success__descriptor, api_initial = M_QueryReplySuccess QUERY_REPLY_SUCCESS__INIT, api_init = query_reply_success__init, api_size = query_reply_success__get_packed_size, api_pack = query_reply_success__pack,
     api_buffer = query_reply_success__pack_to_buffer, api_unpack = query_reply_success__unpack, api_free = query_reply_success__free_unpacked\<rparr>"

definition query_reply_failure__init :: "pb_mem \<Rightarrow> nat option \<Rightarrow> pb_mem res" where
  "query_reply_failure__init mem message = store_msg mem message (M_QueryReplyFailure QUERY_REPLY_FAILURE__INIT)"

definition query_reply_failure__get_packed_size :: "bool \<Rightarrow> pb_lib \<Rightarrow> pb_mem \<Rightarrow> nat option \<Rightarrow> nat res" where
  "query_reply_failure__get_packed_size A L mem message = fbind (PROTOBUF_C_ASSERT A mem message query_reply_failure__descriptor) (\<lambda>_. protobuf_c_message_get_packed_size L mem message)"

definition query_reply_failure__pack :: "bool \<Rightarrow> pb_lib \<Rightarrow> pb_mem \<Rightarrow> nat option \<Rightarrow> byte list res" where
  "query_reply_failure__pack A L mem message = fbind (PROTOBUF_C_ASSERT A mem message query_reply_failure__descriptor) (\<lambda>_. protobuf_c_message_pack L mem message)"

definition query_reply_failure__pack_to_buffer :: "bool \<Rightarrow> pb_lib \<Rightarrow> pb_mem \<Rightarrow> nat option \<Rightarrow> byte list \<Rightarrow> (nat \<times> byte list) res" where
  "query_reply_failure__pack_to_buffer A L mem message buffer = fbind (PROTOBUF_C_ASSERT A mem message query_reply_failure__descriptor) (\<lambda>_. protobuf_c_message_pack_to_buffer L mem message buffer)"

definition query_reply_failure__unpack :: "pb_lib \<Rightarrow> pb_mem \<Rightarrow> byte list \<Rightarrow> nat option \<times> pb_mem" where
  "query_reply_failure__unpack L mem data = protobuf_c_message_unpack L query_reply_failure__descriptor mem data"

definition query_reply_failure__free_unpacked :: "bool \<Rightarrow> pb_lib \<Rightarrow> pb_mem \<Rightarrow> nat option \<Rightarrow> pb_mem res" where
  "query_reply_failure__free_unpacked A L mem message = fbind (PROTOBUF_C_ASSERT A mem message query_reply_failure__descriptor) (\<lambda>_. protobuf_c_message_free_unpacked L mem message)"

definition query_reply_failure__api :: pb_api where
  "query_reply_failure__api = \<lparr>api_desc = query_reply_failure__descriptor, api_initial = M_QueryReplyFailure QUERY_REPLY_FAILURE__INIT, api_init = query_reply_failure__init, api_size = query_reply_failure__get_packed_size, api_pack = query_reply_failure__pack,
     api_buffer = query_reply_failure__pack_to_buffer, api_unpack = query_reply_failure__unpack, api_free = query_reply_failure__free_unpacked\<rparr>"

definition push__init :: "pb_mem \<Rightarrow> nat option \<Rightarrow> pb_mem res" where
  "push__init mem message = store_msg mem message (M_Push PUSH__INIT)"

definition push__get_packed_size :: "bool \<Rightarrow> pb_lib \<Rightarrow> pb_mem \<Rightarrow> nat option \<Rightarrow> nat res" where
  "push__get_packed_size A L mem message = fbind (PROTOBUF_C_ASSERT A mem message push__descriptor) (\<lambda>_. protobuf_c_message_get_packed_size L mem message)"

definition push__pack :: "bool \<Rightarrow> pb_lib \<Rightarrow> pb_mem \<Rightarrow> nat option \<Rightarrow> byte list res" where
  "push__pack A L mem message = fbind (PROTOBUF_C_ASSERT A mem message push__descriptor) (\<lambda>_. protobuf_c_message_pack L mem message)"

definition push__pack_to_buffer :: "bool \<Rightarrow> pb_lib \<Rightarrow> pb_mem \<Rightarrow> nat option \<Rightarrow> byte list \<Rightarrow> (nat \<times> byte list) res" where
  "push__pack_to_buffer A L mem message buffer = fbind (PROTOBUF_C_ASSERT A mem message push__descriptor) (\<lambda>_. protobuf_c_message_pack_to_buffer L mem message buffer)"

definition push__unpack :: "pb_lib \<Rightarrow> pb_mem \<Rightarrow> byte list \<Rightarrow> nat option \<times> pb_mem" where
  "push__unpack L mem data = protobuf_c_message_unpack L push__descriptor mem data"

definition push__free_unpacked :: "bool \<Rightarrow> pb_lib \<Rightarrow> pb_mem \<Rightarrow> nat option \<Rightarrow> pb_mem res" where
  "push__free_unpacked A L mem message = fbind (PROTOBUF_C_ASSERT A mem message push__descriptor) (\<lambda>_. protobuf_c_message_free_unpacked L mem message)"

definition push__api :: pb_api where
  "push__api = \<lparr>api_desc = push__descriptor, api_initial = M_Push PUSH__INIT, api_init = push__init, api_size = push__get_packed_size, api_pack = push__pack,
     api_buffer = push__pack_to_buffer, api_unpack = push__unpack, api_free = push__free_unpacked\<rparr>"

definition push_reply__init :: "pb_mem \<Rightarrow> nat option \<Rightarrow> pb_mem res" where
  "push_reply__init mem message = store_msg mem message (M_PushReply PUSH_REPLY__INIT)"

definition push_reply__get_packed_size :: "bool \<Rightarrow> pb_lib \<Rightarrow> pb_mem \<Rightarrow> nat option \<Rightarrow> nat res" where
  "push_reply__get_packed_size A L mem message = fbind (PROTOBUF_C_ASSERT A mem message push_reply__descriptor) (\<lambda>_. protobuf_c_message_get_packed_size L mem message)"

definition push_reply__pack :: "bool \<Rightarrow> pb_lib \<Rightarrow> pb_mem \<Rightarrow> nat option \<Rightarrow> byte list res" where
  "push_reply__pack A L mem message = fbind (PROTOBUF_C_ASSERT A mem message push_reply__descriptor) (\<lambda>_. protobuf_c_message_pack L mem message)"

definition push_reply__pack_to_buffer :: "bool \<Rightarrow> pb_lib \<Rightarrow> pb_mem \<Rightarrow> nat option \<Rightarrow> byte list \<Rightarrow> (nat \<times> byte list) res" where
  "push_reply__pack_to_buffer A L mem message buffer = fbind (PROTOBUF_C_ASSERT A mem message push_reply__descriptor) (\<lambda>_. protobuf_c_message_pack_to_buffer L mem message buffer)"

definition push_reply__unpack :: "pb_lib \<Rightarrow> pb_mem \<Rightarrow> byte list \<Rightarrow> nat option \<times> pb_mem" where
  "push_reply__unpack L mem data = protobuf_c_message_unpack L push_reply__descriptor mem data"

definition push_reply__free_unpacked :: "bool \<Rightarrow> pb_lib \<Rightarrow> pb_mem \<Rightarrow> nat option \<Rightarrow> pb_mem res" where
  "push_reply__free_unpacked A L mem message = fbind (PROTOBUF_C_ASSERT A mem message push_reply__descriptor) (\<lambda>_. protobuf_c_message_free_unpacked L mem message)"

definition push_reply__api :: pb_api where
  "push_reply__api = \<lparr>api_desc = push_reply__descriptor, api_initial = M_PushReply PUSH_REPLY__INIT, api_init = push_reply__init, api_size = push_reply__get_packed_size, api_pack = push_reply__pack,
     api_buffer = push_reply__pack_to_buffer, api_unpack = push_reply__unpack, api_free = push_reply__free_unpacked\<rparr>"

definition generated_apis :: "pb_api list" where
  "generated_apis = [header__api, ticket__api, addr_discover__api, addr_discover_reply__api, data__api, find_successor__api, find_successor_reply__api, stabilize__api, stabilize_reply__api, notify__api, ping__api, pong__api, client_request__api, client_request_reply__api, query__api, query_reply_success__api, query_reply_failure__api, push__api, push_reply__api]"

subsection \<open>What they have in common\<close>

text \<open>
  The contract of one kind of message: what is initialised is of the kind, the functions that take an object assert that it is of the kind and then do what the library does, and the one that reads asks the library for that kind.
\<close>

lemma load_store_msg: "load_msg mem p = Inr m \<Longrightarrow> \<exists>mem'. store_msg mem p v = Inr mem' \<and> load_msg mem' p = Inr v"
  by (cases p) (auto simp: store_msg_def load_msg_def split: if_splits option.splits)

locale generated_message =
  fixes api :: pb_api
  assumes init_law: "load_msg mem p = Inr m \<Longrightarrow> \<exists>mem'. api_init api mem p = Inr mem' \<and> load_msg mem' p = Inr (api_initial api)"
    and init_kind: "descriptor_of (api_initial api) = api_desc api" and init_canonical: "canonical (api_initial api)"
    and pack_law: "api_pack api A L mem p = fbind (PROTOBUF_C_ASSERT A mem p (api_desc api)) (\<lambda>_. protobuf_c_message_pack L mem p)"
    and size_law: "api_size api A L mem p = fbind (PROTOBUF_C_ASSERT A mem p (api_desc api)) (\<lambda>_. protobuf_c_message_get_packed_size L mem p)"
    and buffer_law: "api_buffer api A L mem p buf = fbind (PROTOBUF_C_ASSERT A mem p (api_desc api)) (\<lambda>_. protobuf_c_message_pack_to_buffer L mem p buf)"
    and unpack_law: "api_unpack api L mem data = protobuf_c_message_unpack L (api_desc api) mem data"
    and free_law: "api_free api A L mem p = fbind (PROTOBUF_C_ASSERT A mem p (api_desc api)) (\<lambda>_. protobuf_c_message_free_unpacked L mem p)"
begin

text \<open>What the functions do with an object when the assertions are compiled in.\<close>

lemma on_object:
  assumes "load_msg mem p = Inr m"
  shows "api_pack api True L mem p = (if descriptor_of m = api_desc api then protobuf_c_message_pack L mem p else Inl Assert_failed)"
    "api_size api True L mem p = (if descriptor_of m = api_desc api then protobuf_c_message_get_packed_size L mem p else Inl Assert_failed)"
    "api_buffer api True L mem p buf = (if descriptor_of m = api_desc api then protobuf_c_message_pack_to_buffer L mem p buf else Inl Assert_failed)"
    "api_free api True L mem p = (if descriptor_of m = api_desc api then protobuf_c_message_free_unpacked L mem p else Inl Assert_failed)"
  using assms by (simp_all add: pack_law size_law buffer_law free_law PROTOBUF_C_ASSERT_def)

end

lemma api_laws:
  assumes "api = \<lparr>api_desc = d, api_initial = v, api_init = \<lambda>mem message. store_msg mem message v,
      api_size = \<lambda>A L mem message. fbind (PROTOBUF_C_ASSERT A mem message d) (\<lambda>_. protobuf_c_message_get_packed_size L mem message),
      api_pack = \<lambda>A L mem message. fbind (PROTOBUF_C_ASSERT A mem message d) (\<lambda>_. protobuf_c_message_pack L mem message),
      api_buffer = \<lambda>A L mem message buffer. fbind (PROTOBUF_C_ASSERT A mem message d) (\<lambda>_. protobuf_c_message_pack_to_buffer L mem message buffer),
      api_unpack = \<lambda>L mem data. protobuf_c_message_unpack L d mem data,
      api_free = \<lambda>A L mem message. fbind (PROTOBUF_C_ASSERT A mem message d) (\<lambda>_. protobuf_c_message_free_unpacked L mem message)\<rparr>"
    and "descriptor_of v = d" and "canonical v"
  shows "generated_message api"
  by unfold_locales (use assms(2,3) load_store_msg in \<open>simp_all add: assms(1)\<close>)

interpretation header_api: generated_message header__api
  by (rule api_laws [of _ header__descriptor "M_Header HEADER__INIT"]) (simp_all add: fun_eq_iff header__api_def header__init_def header__get_packed_size_def header__pack_def header__pack_to_buffer_def header__unpack_object_def header__free_unpacked_def HEADER__INIT_def)

interpretation ticket_api: generated_message ticket__api
  by (rule api_laws [of _ ticket__descriptor "M_Ticket TICKET__INIT"]) (simp_all add: fun_eq_iff ticket__api_def ticket__init_def ticket__get_packed_size_def ticket__pack_def ticket__pack_to_buffer_def ticket__unpack_def ticket__free_unpacked_def TICKET__INIT_def)

interpretation addr_discover_api: generated_message addr_discover__api
  by (rule api_laws [of _ addr_discover__descriptor "M_AddrDiscover ADDR_DISCOVER__INIT"]) (simp_all add: fun_eq_iff addr_discover__api_def addr_discover__init_def addr_discover__get_packed_size_def addr_discover__pack_def addr_discover__pack_to_buffer_def addr_discover__unpack_def addr_discover__free_unpacked_def ADDR_DISCOVER__INIT_def)

interpretation addr_discover_reply_api: generated_message addr_discover_reply__api
  by (rule api_laws [of _ addr_discover_reply__descriptor "M_AddrDiscoverReply ADDR_DISCOVER_REPLY__INIT"]) (simp_all add: fun_eq_iff addr_discover_reply__api_def addr_discover_reply__init_def addr_discover_reply__get_packed_size_def addr_discover_reply__pack_def addr_discover_reply__pack_to_buffer_def addr_discover_reply__unpack_def addr_discover_reply__free_unpacked_def ADDR_DISCOVER_REPLY__INIT_def)

interpretation data_api: generated_message data__api
  by (rule api_laws [of _ data__descriptor "M_Data DATA__INIT"]) (simp_all add: fun_eq_iff data__api_def data__init_def data__get_packed_size_def data__pack_def data__pack_to_buffer_def data__unpack_def data__free_unpacked_def DATA__INIT_def)

interpretation find_successor_api: generated_message find_successor__api
  by (rule api_laws [of _ find_successor__descriptor "M_FindSuccessor FIND_SUCCESSOR__INIT"]) (simp_all add: fun_eq_iff find_successor__api_def find_successor__init_def find_successor__get_packed_size_def find_successor__pack_def find_successor__pack_to_buffer_def find_successor__unpack_def find_successor__free_unpacked_def FIND_SUCCESSOR__INIT_def)

interpretation find_successor_reply_api: generated_message find_successor_reply__api
  by (rule api_laws [of _ find_successor_reply__descriptor "M_FindSuccessorReply FIND_SUCCESSOR_REPLY__INIT"]) (simp_all add: fun_eq_iff find_successor_reply__api_def find_successor_reply__init_def find_successor_reply__get_packed_size_def find_successor_reply__pack_def find_successor_reply__pack_to_buffer_def find_successor_reply__unpack_def find_successor_reply__free_unpacked_def FIND_SUCCESSOR_REPLY__INIT_def)

interpretation stabilize_api: generated_message stabilize__api
  by (rule api_laws [of _ stabilize__descriptor "M_Stabilize STABILIZE__INIT"]) (simp_all add: fun_eq_iff stabilize__api_def stabilize__init_def stabilize__get_packed_size_def stabilize__pack_def stabilize__pack_to_buffer_def stabilize__unpack_def stabilize__free_unpacked_def STABILIZE__INIT_def)

interpretation stabilize_reply_api: generated_message stabilize_reply__api
  by (rule api_laws [of _ stabilize_reply__descriptor "M_StabilizeReply STABILIZE_REPLY__INIT"]) (simp_all add: fun_eq_iff stabilize_reply__api_def stabilize_reply__init_def stabilize_reply__get_packed_size_def stabilize_reply__pack_def stabilize_reply__pack_to_buffer_def stabilize_reply__unpack_def stabilize_reply__free_unpacked_def STABILIZE_REPLY__INIT_def)

interpretation notify_api: generated_message notify__api
  by (rule api_laws [of _ notify__descriptor "M_Notify NOTIFY__INIT"]) (simp_all add: fun_eq_iff notify__api_def notify__init_def notify__get_packed_size_def notify__pack_def notify__pack_to_buffer_def notify__unpack_def notify__free_unpacked_def NOTIFY__INIT_def)

interpretation ping_api: generated_message ping__api
  by (rule api_laws [of _ ping__descriptor "M_Ping PING__INIT"]) (simp_all add: fun_eq_iff ping__api_def ping__init_def ping__get_packed_size_def ping__pack_def ping__pack_to_buffer_def ping__unpack_def ping__free_unpacked_def PING__INIT_def)

interpretation pong_api: generated_message pong__api
  by (rule api_laws [of _ pong__descriptor "M_Pong PONG__INIT"]) (simp_all add: fun_eq_iff pong__api_def pong__init_def pong__get_packed_size_def pong__pack_def pong__pack_to_buffer_def pong__unpack_def pong__free_unpacked_def PONG__INIT_def)

interpretation client_request_api: generated_message client_request__api
  by (rule api_laws [of _ client_request__descriptor "M_ClientRequest CLIENT_REQUEST__INIT"]) (simp_all add: fun_eq_iff client_request__api_def client_request__init_def client_request__get_packed_size_def client_request__pack_def client_request__pack_to_buffer_def client_request__unpack_def client_request__free_unpacked_def CLIENT_REQUEST__INIT_def)

interpretation client_request_reply_api: generated_message client_request_reply__api
  by (rule api_laws [of _ client_request_reply__descriptor "M_ClientRequestReply CLIENT_REQUEST_REPLY__INIT"]) (simp_all add: fun_eq_iff client_request_reply__api_def client_request_reply__init_def client_request_reply__get_packed_size_def client_request_reply__pack_def client_request_reply__pack_to_buffer_def client_request_reply__unpack_def client_request_reply__free_unpacked_def CLIENT_REQUEST_REPLY__INIT_def)

interpretation query_api: generated_message query__api
  by (rule api_laws [of _ query__descriptor "M_Query QUERY__INIT"]) (simp_all add: fun_eq_iff query__api_def query__init_def query__get_packed_size_def query__pack_def query__pack_to_buffer_def query__unpack_def query__free_unpacked_def QUERY__INIT_def)

interpretation query_reply_success_api: generated_message query_reply_success__api
  by (rule api_laws [of _ query_reply_success__descriptor "M_QueryReplySuccess QUERY_REPLY_SUCCESS__INIT"]) (simp_all add: fun_eq_iff query_reply_success__api_def query_reply_success__init_def query_reply_success__get_packed_size_def query_reply_success__pack_def query_reply_success__pack_to_buffer_def query_reply_success__unpack_def query_reply_success__free_unpacked_def QUERY_REPLY_SUCCESS__INIT_def)

interpretation query_reply_failure_api: generated_message query_reply_failure__api
  by (rule api_laws [of _ query_reply_failure__descriptor "M_QueryReplyFailure QUERY_REPLY_FAILURE__INIT"]) (simp_all add: fun_eq_iff query_reply_failure__api_def query_reply_failure__init_def query_reply_failure__get_packed_size_def query_reply_failure__pack_def query_reply_failure__pack_to_buffer_def query_reply_failure__unpack_def query_reply_failure__free_unpacked_def QUERY_REPLY_FAILURE__INIT_def)

interpretation push_api: generated_message push__api
  by (rule api_laws [of _ push__descriptor "M_Push PUSH__INIT"]) (simp_all add: fun_eq_iff push__api_def push__init_def push__get_packed_size_def push__pack_def push__pack_to_buffer_def push__unpack_def push__free_unpacked_def PUSH__INIT_def)

interpretation push_reply_api: generated_message push_reply__api
  by (rule api_laws [of _ push_reply__descriptor "M_PushReply PUSH_REPLY__INIT"]) (simp_all add: fun_eq_iff push_reply__api_def push_reply__init_def push_reply__get_packed_size_def push_reply__pack_def push_reply__pack_to_buffer_def push_reply__unpack_def push_reply__free_unpacked_def PUSH_REPLY__INIT_def)

lemma generated_apis_laws: "api \<in> set generated_apis \<Longrightarrow> generated_message api"
  unfolding generated_apis_def using header_api.generated_message_axioms ticket_api.generated_message_axioms addr_discover_api.generated_message_axioms addr_discover_reply_api.generated_message_axioms data_api.generated_message_axioms find_successor_api.generated_message_axioms find_successor_reply_api.generated_message_axioms stabilize_api.generated_message_axioms stabilize_reply_api.generated_message_axioms notify_api.generated_message_axioms ping_api.generated_message_axioms pong_api.generated_message_axioms client_request_api.generated_message_axioms client_request_reply_api.generated_message_axioms query_api.generated_message_axioms query_reply_success_api.generated_message_axioms query_reply_failure_api.generated_message_axioms push_api.generated_message_axioms push_reply_api.generated_message_axioms by auto

lemma generated_apis_kinds: "api \<in> set generated_apis \<Longrightarrow> api' \<in> set generated_apis \<Longrightarrow> api_desc api = api_desc api' \<Longrightarrow> api = api'"
proof -
  have "distinct (map api_desc generated_apis)" by (simp add: generated_apis_def header__api_def ticket__api_def addr_discover__api_def addr_discover_reply__api_def data__api_def find_successor__api_def find_successor_reply__api_def stabilize__api_def stabilize_reply__api_def notify__api_def ping__api_def pong__api_def client_request__api_def client_request_reply__api_def query__api_def query_reply_success__api_def query_reply_failure__api_def push__api_def push_reply__api_def)
  then show "api \<in> set generated_apis \<Longrightarrow> api' \<in> set generated_apis \<Longrightarrow> api_desc api = api_desc api' \<Longrightarrow> api = api'"
    by (auto simp: distinct_map dest: inj_onD)
qed

subsection \<open>Kinds of messages\<close>

text \<open>The functions of a family that take an object, on one object: all four are those of the library, or all four stop at the assertion.\<close>

definition accepts :: "pb_api \<Rightarrow> pb_lib \<Rightarrow> pb_mem \<Rightarrow> nat option \<Rightarrow> bool" where
  "accepts api L mem p \<longleftrightarrow> api_size api True L mem p = protobuf_c_message_get_packed_size L mem p \<and> api_pack api True L mem p = protobuf_c_message_pack L mem p \<and>
     (\<forall>buf. api_buffer api True L mem p buf = protobuf_c_message_pack_to_buffer L mem p buf) \<and> api_free api True L mem p = protobuf_c_message_free_unpacked L mem p"

definition refuses :: "pb_api \<Rightarrow> pb_lib \<Rightarrow> pb_mem \<Rightarrow> nat option \<Rightarrow> bool" where
  "refuses api L mem p \<longleftrightarrow> api_size api True L mem p = Inl Assert_failed \<and> api_pack api True L mem p = Inl Assert_failed \<and>
     (\<forall>buf. api_buffer api True L mem p buf = Inl Assert_failed) \<and> api_free api True L mem p = Inl Assert_failed"

lemma kind_decides:
  assumes "api \<in> set generated_apis" and "load_msg mem p = Inr m"
  shows "if descriptor_of m = api_desc api then accepts api L mem p else refuses api L mem p"
  using generated_message.on_object [OF generated_apis_laws [OF assms(1)] assms(2)] by (simp add: accepts_def refuses_def)

text \<open>What is documented of the library: an object that it unpacks with a descriptor is live and of that kind.\<close>

definition lib_typed :: "pb_lib \<Rightarrow> bool" where
  "lib_typed L \<longleftrightarrow> (\<forall>d mem data q mem'. protobuf_c_message_unpack L d mem data = (Some q, mem') \<longrightarrow> (\<exists>m. load_msg mem' (Some q) = Inr m \<and> descriptor_of m = d))"


text \<open>A library over the codec of the demonstration environment, with one pong in memory.\<close>

definition demo_lib :: pb_lib where
  "demo_lib = \<lparr>protobuf_c_message_get_packed_size = \<lambda>mem p. fbind (load_msg mem p) (\<lambda>m. Inr (length (pb_pack demo_env m))),
     protobuf_c_message_pack = \<lambda>mem p. fbind (load_msg mem p) (\<lambda>m. Inr (pb_pack demo_env m)),
     protobuf_c_message_pack_to_buffer = \<lambda>mem p buf. fbind (load_msg mem p) (\<lambda>m. Inr (length (pb_pack demo_env m), buf @ pb_pack demo_env m)),
     protobuf_c_message_unpack = \<lambda>d mem data. case pb_unpack demo_env d data of
        Some m \<Rightarrow> if descriptor_of m = d then (Some (length mem), mem @ [Some m]) else (None, mem) | None \<Rightarrow> (None, mem),
     protobuf_c_message_free_unpacked = \<lambda>mem p. fbind (load_msg mem p) (\<lambda>m. Inr (mem[the p := None]))\<rparr>"

lemma demo_lib_typed: "lib_typed demo_lib"
  by (auto simp: lib_typed_def demo_lib_def load_msg_def split: option.splits if_splits)


end
