(* ===== verification/File_Transfer.thy ===== *)
theory File_Transfer
  imports Chord_Print Codec_Instance
begin

text \<open>
  File transfers of the file client, \<^verbatim>\<open>src/file_client/transfer.cpp\<close>: a transfer is an object that the main thread sets up and hands to a thread of its
  own; the thread connects to the peer, sends or receives one file and ends by freeing the object or by activating an event whose callback runs in the main thread. The UDT
  library is a parameter: the arrivals that its receive calls find, the bytes that its send calls accept, whether its sockets can be made, bound and connected. A thread whose
  arrivals are used up waits; the model then has the value \<open>Out_of_fuel\<close>. Files are regular files, found by their path.
\<close>

subsection \<open>Objects\<close>

datatype transfer_type = TRANSFER_IDLE | TRANSFER_SEND | TRANSFER_RECEIVE

text \<open>The functions that are registered as callbacks, \<^verbatim>\<open>receive_success\<close> and \<^verbatim>\<open>receive_fail\<close>.\<close>

datatype transfer_event_fn = CB_receive_success | CB_receive_fail

text \<open>
  The fields of \<^verbatim>\<open>struct Transfer\<close> that the program uses; an event is present or not. \<^verbatim>\<open>cb_arg\<close> is the one \<^verbatim>\<open>DHash\<close> object of the program,
  \<^verbatim>\<open>chord_sock\<close> and \<^verbatim>\<open>chord_port\<close> are never used.
\<close>

record Transfer =
  t_type :: transfer_type
  t_dir :: string
  t_file :: "string option"
  t_success_cb :: "transfer_event_fn option"
  t_fail_cb :: "transfer_event_fn option"
  t_success_ev :: bool
  t_fail_ev :: bool
  t_udt_sock :: int
  t_remote_addr :: in6_addr
  t_remote_port :: ushort

text \<open>
  The memory and files that the threads share: files by path, transfer objects by address (\<open>None\<close> once freed), the objects that have a thread running, and the events
  that were activated and not yet handled (the object and whether it is the event of success).
\<close>

record tworld =
  tw_files :: "string \<Rightarrow> byte list option"
  tw_transfers :: "Transfer option list"
  tw_threads :: "nat list"
  tw_active :: "(nat \<times> bool) list"

definition load_transfer :: "tworld \<Rightarrow> nat \<Rightarrow> Transfer res" where
  "load_transfer w p = (if p < length (tw_transfers w) then deref (tw_transfers w ! p) else Inl Null_deref)"

definition store_transfer :: "tworld \<Rightarrow> nat \<Rightarrow> Transfer option \<Rightarrow> tworld" where
  "store_transfer w p t = w\<lparr>tw_transfers := (tw_transfers w)[p := t]\<rparr>"

subsection \<open>The library\<close>

datatype arrival = Got "byte list" | Failed

record udt =
  udt_socket :: "nat \<Rightarrow> int option"
  udt_bind :: "nat \<Rightarrow> sockaddr \<Rightarrow> bool"

text \<open>The socket of a running thread: what will arrive, how much each send call will accept (\<open>None\<close> when it fails), and what was sent.\<close>

record udt_conn =
  uc_connect :: "sockaddr \<Rightarrow> bool"
  uc_in :: "arrival list"
  uc_accept :: "nat option list"
  uc_out :: "byte list"

definition udt_recv :: "nat \<Rightarrow> arrival list \<Rightarrow> (byte list option \<times> arrival list) res" where
  "udt_recv len ins =
     (case ins of
        [] \<Rightarrow> Inl Out_of_fuel
      | Failed # rest \<Rightarrow> Inr (None, rest)
      | Got bs # rest \<Rightarrow> Inr (Some (take len bs), if length bs \<le> len then rest else Got (drop len bs) # rest))"

definition udt_send :: "byte list \<Rightarrow> nat option list \<Rightarrow> (byte list option \<times> nat option list) res" where
  "udt_send data acc =
     (case acc of
        [] \<Rightarrow> Inl Out_of_fuel
      | None # rest \<Rightarrow> Inr (None, rest)
      | Some n # rest \<Rightarrow> Inr (Some (take n data), rest))"

text \<open>\<^verbatim>\<open>recvfile\<close> collects the given number of bytes, or those that came before a failure.\<close>

fun udt_recvfile :: "nat \<Rightarrow> arrival list \<Rightarrow> (bool \<times> byte list \<times> arrival list) res" where
  "udt_recvfile 0 ins = Inr (True, [], ins)"
| "udt_recvfile n [] = Inl Out_of_fuel"
| "udt_recvfile n (Failed # rest) = Inr (False, [], rest)"
| "udt_recvfile n (Got bs # rest) =
     (if n < length bs then Inr (True, take n bs, Got (drop n bs) # rest)
      else fbind (udt_recvfile (n - length bs) rest) (\<lambda>(ok, data, ins). Inr (ok, bs @ data, ins)))"

subsection \<open>The life of a transfer object\<close>

text \<open>
  The object is zeroed, so it has no callbacks and no events. A socket that cannot be made or bound makes the function return \<^verbatim>\<open>NULL\<close> and leaves the
  object allocated. The local address is an IPv4 address even for an IPv6 socket.
\<close>

definition new_transfer :: "udt \<Rightarrow> int \<Rightarrow> in6_addr \<Rightarrow> ushort \<Rightarrow> string \<Rightarrow> tworld \<Rightarrow> nat option \<times> tworld" where
  "new_transfer U local_port addr port dir w =
     (let p = length (tw_transfers w);
          t = \<lparr>t_type = TRANSFER_IDLE, t_dir = dir, t_file = None, t_success_cb = None, t_fail_cb = None, t_success_ev = False,
               t_fail_ev = False, t_udt_sock = 0, t_remote_addr = addr, t_remote_port = port\<rparr>
      in case udt_socket U p of
           None \<Rightarrow> (None, w\<lparr>tw_transfers := tw_transfers w @ [Some (t\<lparr>t_udt_sock := -1\<rparr>)]\<rparr>)
         | Some fd \<Rightarrow>
             let w = w\<lparr>tw_transfers := tw_transfers w @ [Some (t\<lparr>t_udt_sock := fd\<rparr>)]\<rparr>
             in if udt_bind U p (Sockaddr_in (htons (word_of_int local_port)) 0) then (Some p, w) else (None, w))"

text \<open>Freeing an event takes it out of the queue of the event loop.\<close>

definition event_free :: "nat \<Rightarrow> bool \<Rightarrow> tworld \<Rightarrow> tworld" where
  "event_free p ok w = w\<lparr>tw_active := filter (\<lambda>e. e \<noteq> (p, ok)) (tw_active w)\<rparr>"

definition free_transfer :: "nat option \<Rightarrow> tworld \<Rightarrow> tworld res" where
  "free_transfer tp w =
     (case tp of
        None \<Rightarrow> Inr w
      | Some p \<Rightarrow>
          fbind (load_transfer w p) (\<lambda>t.
          fbind (if t_success_cb t \<noteq> None then if t_success_ev t then Inr (event_free p True w) else Inl Null_deref else Inr w) (\<lambda>w.
          fbind (if t_fail_cb t \<noteq> None then if t_fail_ev t then Inr (event_free p False w) else Inl Null_deref else Inr w) (\<lambda>w.
          Inr (store_transfer w p None)))))"

definition transfer_set_callbacks ::
  "nat option \<Rightarrow> transfer_event_fn option \<Rightarrow> transfer_event_fn option \<Rightarrow> tworld \<Rightarrow> tworld res" where
  "transfer_set_callbacks tp success_cb fail_cb w =
     fbind (deref tp) (\<lambda>p.
     fbind (load_transfer w p) (\<lambda>t.
     let w = (if t_success_ev t then event_free p True w else w);
         w = (if t_fail_ev t then event_free p False w else w)
     in Inr (store_transfer w p (Some (t\<lparr>t_success_ev := success_cb \<noteq> None, t_fail_ev := fail_cb \<noteq> None,
          t_success_cb := success_cb, t_fail_cb := fail_cb\<rparr>)))))"

definition transfer_start_receiving :: "nat option \<Rightarrow> string \<Rightarrow> tworld \<Rightarrow> tworld res" where
  "transfer_start_receiving tp file w =
     fbind (deref tp) (\<lambda>p.
     fbind (load_transfer w p) (\<lambda>t.
     let w = store_transfer w p (Some (t\<lparr>t_file := Some file, t_type := TRANSFER_RECEIVE\<rparr>))
     in Inr (w\<lparr>tw_threads := tw_threads w @ [p]\<rparr>)))"

definition transfer_start_sending :: "nat option \<Rightarrow> tworld \<Rightarrow> tworld res" where
  "transfer_start_sending tp w =
     fbind (deref tp) (\<lambda>p.
     fbind (load_transfer w p) (\<lambda>t.
     let w = store_transfer w p (Some (t\<lparr>t_type := TRANSFER_SEND\<rparr>))
     in Inr (w\<lparr>tw_threads := tw_threads w @ [p]\<rparr>)))"

subsection \<open>Blocking reads and writes\<close>

text \<open>
  A buffer is a list of bytes that may not have been written yet. Each receive call writes to the start of the buffer, each send call sends from the start: the loops only
  count how many bytes have passed.
\<close>

definition overwrite :: "byte list \<Rightarrow> byte option list \<Rightarrow> byte option list" where
  "overwrite bs buf = map Some bs @ drop (length bs) buf"

fun traffic :: "arrival list \<Rightarrow> nat" where
  "traffic [] = 0"
| "traffic (Failed # rest) = Suc (traffic rest)"
| "traffic (Got bs # rest) = Suc (length bs + traffic rest)"

lemma fbind_cong [fundef_cong]: "m = m' \<Longrightarrow> (\<And>a. m' = Inr a \<Longrightarrow> f a = f' a) \<Longrightarrow> fbind m f = fbind m' f'"
  by (cases m') auto

lemma udt_recv_traffic: "0 < len \<Longrightarrow> udt_recv len ins = Inr (r, ins') \<Longrightarrow> traffic ins' < traffic ins"
  by (auto simp: udt_recv_def split: list.splits arrival.splits if_splits)

function blocking_recv_buf :: "int \<Rightarrow> int \<Rightarrow> byte option list \<Rightarrow> arrival list \<Rightarrow> (bool \<times> byte option list \<times> arrival list) res" where
  "blocking_recv_buf sz received buf ins =
     (if received < sz then
        fbind (udt_recv (nat (sz - received)) ins) (\<lambda>(n, ins).
        case n of
          None \<Rightarrow> Inr (False, buf, ins)
        | Some bs \<Rightarrow> blocking_recv_buf sz (received + int (length bs)) (overwrite bs buf) ins)
      else Inr (True, buf, ins))"
  by pat_completeness auto
termination
  by (relation "measure (\<lambda>(sz, received, buf, ins). traffic ins)") (auto dest: udt_recv_traffic [rotated])

declare blocking_recv_buf.simps [simp del]

text \<open>The send loop passes the whole buffer every time. It ends because every call uses up one answer of the library.\<close>

lemma udt_send_acc: "udt_send data acc = Inr (r, acc') \<Longrightarrow> length acc' < length acc"
  by (auto simp: udt_send_def split: list.splits option.splits)

function blocking_send_buf :: "byte list \<Rightarrow> int \<Rightarrow> int \<Rightarrow> byte list \<Rightarrow> nat option list \<Rightarrow> (bool \<times> byte list \<times> nat option list) res" where
  "blocking_send_buf buf sz sent out acc =
     (if sent < sz then
        fbind (udt_send (take (nat sz) buf) acc) (\<lambda>(n, acc).
        case n of
          None \<Rightarrow> Inr (False, out, acc)
        | Some bs \<Rightarrow> blocking_send_buf buf sz (sent + int (length bs)) (out @ bs) acc)
      else Inr (True, out, acc))"
  by pat_completeness auto
termination
  by (relation "measure (\<lambda>(buf, sz, sent, out, acc). length acc)") (auto dest: udt_send_acc)

declare blocking_send_buf.simps [simp del]

subsection \<open>Sending and receiving a file\<close>

definition bytes_of :: "string \<Rightarrow> byte list" where
  "bytes_of s = map (\<lambda>c. word_of_nat (of_char c)) s"

definition str_of :: "byte list \<Rightarrow> string" where
  "str_of bs = map (\<lambda>b. char_of (unat b)) bs"

text \<open>Reading an object, and a string, from a buffer that may not have been written completely.\<close>

fun read_bytes :: "byte option list \<Rightarrow> byte list res" where
  "read_bytes [] = Inr []"
| "read_bytes (b # buf) = fbind (read_var b) (\<lambda>b. fbind (read_bytes buf) (\<lambda>bs. Inr (b # bs)))"

fun read_cstr :: "byte option list \<Rightarrow> byte list res" where
  "read_cstr [] = Inl Out_of_bounds"
| "read_cstr (b # buf) = fbind (read_var b) (\<lambda>b. if b = 0 then Inr [] else fbind (read_cstr buf) (\<lambda>bs. Inr (b # bs)))"

text \<open>The path that both ends build in an array of 1024 characters.\<close>

definition transfer_path :: "string \<Rightarrow> string \<Rightarrow> string res" where
  "transfer_path dir file =
     (if length dir + 1 + length file < 1024 then Inr (dir @ ''/'' @ file) else Inl Buffer_overflow)"

text \<open>
  The requesting side. The length of the name is a \<^verbatim>\<open>short\<close>; opening the file for output empties it; \<open>creat\<close> tells which paths can be opened. The result of opening is
  not checked: \<^verbatim>\<open>recvfile\<close> then fails, unless the size is not positive, when it looks neither at the stream nor at the connection and the transfer counts as successful.
\<close>

definition transfer_receive ::
  "(string \<Rightarrow> bool) \<Rightarrow> Transfer \<Rightarrow> (string \<Rightarrow> byte list option) \<Rightarrow> udt_conn \<Rightarrow> (bool \<times> (string \<Rightarrow> byte list option) \<times> udt_conn) res" where
  "transfer_receive creat t files c =
     fbind (deref (t_file t)) (\<lambda>file.
     let name_len = (word_of_nat (length file) :: ushort) in
     fbind (blocking_send_buf (le_bytes 2 (htons name_len)) 2 0 (uc_out c) (uc_accept c)) (\<lambda>(ok, out, acc).
     let c = c\<lparr>uc_out := out, uc_accept := acc\<rparr> in
     if \<not> ok then Inr (False, files, c)
     else
       fbind (blocking_send_buf (bytes_of file) (sint name_len) 0 (uc_out c) (uc_accept c)) (\<lambda>(ok, out, acc).
       let c = c\<lparr>uc_out := out, uc_accept := acc\<rparr> in
       if \<not> ok then Inr (False, files, c)
       else
         fbind (blocking_recv_buf 4 0 (replicate 4 None) (uc_in c)) (\<lambda>(ok, buf, ins).
         let c = c\<lparr>uc_in := ins\<rparr> in
         if \<not> ok then Inr (False, files, c)
         else
           fbind (read_bytes buf) (\<lambda>bs.
           let sz = sint (htonl (le_word bs)) in
           fbind (transfer_path (t_dir t) file) (\<lambda>path.
           if \<not> creat path then Inr (sz \<le> 0, files, c)
           else
             fbind (udt_recvfile (nat sz) (uc_in c)) (\<lambda>(ok, data, ins).
             Inr (ok, files(path \<mapsto> data), c\<lparr>uc_in := ins\<rparr>))))))))"

text \<open>
  The serving side. The name is received into an array of \<^verbatim>\<open>name_len+1\<close> characters, where \<^verbatim>\<open>name_len\<close> is a \<^verbatim>\<open>short\<close> that the peer chose; an array
  without elements or with a negative number of them is undefined.
\<close>

definition transfer_send ::
  "Transfer \<Rightarrow> (string \<Rightarrow> byte list option) \<Rightarrow> udt_conn \<Rightarrow> (bool \<times> Transfer \<times> udt_conn) res" where
  "transfer_send t files c =
     fbind (blocking_recv_buf 2 0 (replicate 2 None) (uc_in c)) (\<lambda>(ok, buf, ins).
     let c = c\<lparr>uc_in := ins\<rparr> in
     if \<not> ok then Inr (False, t, c)
     else
       fbind (read_bytes buf) (\<lambda>bs.
       let name_len = sint (htons (le_word bs)) in
       if name_len + 1 \<le> 0 then Inl Out_of_bounds
       else
         fbind (blocking_recv_buf name_len 0 (replicate (nat (name_len + 1)) None) (uc_in c)) (\<lambda>(ok, buf, ins).
         let c = c\<lparr>uc_in := ins\<rparr> in
         if \<not> ok then Inr (False, t, c)
         else
           fbind (read_cstr (buf[nat name_len := Some 0])) (\<lambda>name.
           let t = t\<lparr>t_file := Some (str_of name)\<rparr> in
           fbind (transfer_path (t_dir t) (str_of name)) (\<lambda>path.
           case files path of
             None \<Rightarrow> Inr (False, t, c)
           | Some content \<Rightarrow>
               let sz = (word_of_nat (length content) :: uint32) in
               fbind (blocking_send_buf (le_bytes 4 (htonl sz)) 4 0 (uc_out c) (uc_accept c)) (\<lambda>(ok, out, acc).
               let c = c\<lparr>uc_out := out, uc_accept := acc\<rparr> in
               if \<not> ok then Inr (False, t, c)
               else
                 fbind (udt_send (take (nat (sint sz)) content) (map (map_option (\<lambda>_. length content)) (uc_accept c))) (\<lambda>(n, _).
                 let c = c\<lparr>uc_accept := tl (uc_accept c)\<rparr> in
                 case n of
                   None \<Rightarrow> Inr (False, t, c)
                 | Some data \<Rightarrow> Inr (True, t, c\<lparr>uc_out := uc_out c @ data\<rparr>))))))))"

subsection \<open>The thread\<close>

text \<open>
  A thread whose connection fails leaves the object as it is: no callback is told and nothing is freed.
\<close>

definition event_active :: "nat \<Rightarrow> bool \<Rightarrow> bool \<Rightarrow> tworld \<Rightarrow> tworld res" where
  "event_active p ok ev w = (if ev then Inr (w\<lparr>tw_active := tw_active w @ [(p, ok)]\<rparr>) else Inl Null_deref)"

definition remote_sockaddr :: "env \<Rightarrow> Transfer \<Rightarrow> sockaddr" where
  "remote_sockaddr E t =
     (if V4_MAPPED (t_remote_addr t)
      then Sockaddr_in (htons (t_remote_port t)) (ucast (to_v4addr (mem_after E (t_remote_addr t)) (t_remote_addr t)))
      else Sockaddr_in6 (htons (t_remote_port t)) (t_remote_addr t))"

definition transfer_body ::
  "(string \<Rightarrow> bool) \<Rightarrow> Transfer \<Rightarrow> tworld \<Rightarrow> udt_conn \<Rightarrow> (bool \<times> Transfer \<times> tworld \<times> udt_conn) res" where
  "transfer_body creat t w c =
     (case t_type t of
        TRANSFER_RECEIVE \<Rightarrow>
          fbind (transfer_receive creat t (tw_files w) c) (\<lambda>(ok, files, c). Inr (ok, t, w\<lparr>tw_files := files\<rparr>, c))
      | TRANSFER_SEND \<Rightarrow> fbind (transfer_send t (tw_files w) c) (\<lambda>(ok, t, c). Inr (ok, t, w, c))
      | TRANSFER_IDLE \<Rightarrow> Inr (False, t, w, c))"

definition transfer_finish :: "nat \<Rightarrow> bool \<Rightarrow> Transfer \<Rightarrow> tworld \<Rightarrow> tworld res" where
  "transfer_finish p succeeded t w =
     (if succeeded then
        if t_success_cb t \<noteq> None then event_active p True (t_success_ev t) w else free_transfer (Some p) w
      else
        if t_fail_cb t \<noteq> None then event_active p False (t_fail_ev t) w else free_transfer (Some p) w)"

definition transfer_connect :: "env \<Rightarrow> (string \<Rightarrow> bool) \<Rightarrow> nat \<Rightarrow> tworld \<Rightarrow> udt_conn \<Rightarrow> (tworld \<times> udt_conn) res" where
  "transfer_connect E creat p w c =
     fbind (load_transfer w p) (\<lambda>t.
     if \<not> uc_connect c (remote_sockaddr E t) then Inr (w, c)
     else
       fbind (transfer_body creat t w c) (\<lambda>(succeeded, t, w, c).
       fbind (transfer_finish p succeeded t (store_transfer w p (Some t))) (\<lambda>w.
       Inr (w, c))))"

subsection \<open>Numbers and names on the wire\<close>

lemma htonl_htonl [simp]: "htonl (htonl w) = w"
  by (simp add: htonl_def le_bytes_le_word le_word_le_bytes)

lemma sint_short: "n < 2 ^ 15 \<Longrightarrow> sint (word_of_nat n :: ushort) = int n"
  by (simp add: signed_of_nat signed_take_bit_int_eq_self)

lemma sint_int: "n < 2 ^ 31 \<Longrightarrow> sint (word_of_nat n :: uint32) = int n"
  by (simp add: signed_of_nat signed_take_bit_int_eq_self)

lemma unat_char [simp]: "unat (word_of_nat (of_char c) :: byte) = of_char c"
  by (simp add: unat_of_nat take_bit_eq_mod)

lemma str_of_bytes_of [simp]: "str_of (bytes_of s) = s"
  by (simp add: str_of_def bytes_of_def comp_def)

lemma length_bytes_of [simp]: "length (bytes_of s) = length s"
  by (simp add: bytes_of_def)

lemma zero_bytes_of: "0 \<in> set (bytes_of s) \<longleftrightarrow> NUL \<in> set s"
proof -
  have "(0 :: byte) = word_of_nat (of_char c) \<longleftrightarrow> NUL = c" for c
  proof -
    have "(0 :: byte) = word_of_nat (of_char c) \<longleftrightarrow> (0 :: nat) = of_char c" by (metis unat_char unat_0_iff)
    then show ?thesis by (simp add: NUL_def char_of_eq_iff)
  qed
  then show ?thesis by (simp add: bytes_of_def image_iff)
qed

lemma read_bytes_Some [simp]: "read_bytes (map Some bs) = Inr bs"
  by (induction bs) auto

lemma read_bytes_None: "None \<in> set buf \<Longrightarrow> read_bytes buf = Inl Uninit_read"
  by (induction buf) (auto simp: read_var_def split: option.splits)

lemma read_cstr_name [simp]: "0 \<notin> set bs \<Longrightarrow> read_cstr (map Some bs @ Some 0 # rest) = Inr bs"
  by (induction bs) auto

subsection \<open>The loops\<close>

lemma recv_done: "sz \<le> received \<Longrightarrow> blocking_recv_buf sz received buf ins = Inr (True, buf, ins)"
  by (subst blocking_recv_buf.simps) simp

lemma recv_step:
  "received < sz \<Longrightarrow> blocking_recv_buf sz received buf ins =
     fbind (udt_recv (nat (sz - received)) ins) (\<lambda>(n, ins). case n of None \<Rightarrow> Inr (False, buf, ins)
       | Some bs \<Rightarrow> blocking_recv_buf sz (received + int (length bs)) (overwrite bs buf) ins)"
  by (subst blocking_recv_buf.simps) simp

lemma send_done: "sz \<le> sent \<Longrightarrow> blocking_send_buf buf sz sent out acc = Inr (True, out, acc)"
  by (subst blocking_send_buf.simps) simp

lemma send_step:
  "sent < sz \<Longrightarrow> blocking_send_buf buf sz sent out acc =
     fbind (udt_send (take (nat sz) buf) acc) (\<lambda>(n, acc). case n of None \<Rightarrow> Inr (False, out, acc)
       | Some bs \<Rightarrow> blocking_send_buf buf sz (sent + int (length bs)) (out @ bs) acc)"
  by (subst blocking_send_buf.simps) simp

text \<open>A piece that arrives whole is read whole; what is behind it stays for the next call.\<close>

lemma recv_whole:
  assumes "n \<le> length bs"
  shows "\<exists>rest'. blocking_recv_buf (int n) 0 buf (Got bs # rest) = Inr (True, map Some (take n bs) @ drop n buf, rest') \<and>
    rest' = (if n = 0 then Got bs # rest else if length bs = n then rest else Got (drop n bs) # rest)"
proof (cases "n = 0")
  case False
  then show ?thesis using assms by (auto simp: recv_step udt_recv_def overwrite_def recv_done)
qed (simp add: recv_done)

text \<open>Bytes of the buffer that lie behind what one call may still write are never written.\<close>

lemma recv_tail_untouched:
  assumes "blocking_recv_buf sz received buf ins = Inr (ok, buf', ins')" and "sz - received \<le> int i" and "i < length buf"
  shows "buf' ! i = buf ! i"
  using assms
proof (induction sz received buf ins rule: blocking_recv_buf.induct)
  case (1 sz received buf ins)
  show ?case
  proof (cases "received < sz")
    case True
    then obtain n ins1 where r: "udt_recv (nat (sz - received)) ins = Inr (n, ins1)"
      using 1(2) by (auto simp: recv_step res_simps)
    show ?thesis
    proof (cases n)
      case None
      then show ?thesis using 1(2) True r by (auto simp: recv_step)
    next
      case (Some bs)
      have len: "length bs \<le> nat (sz - received)"
        using r Some by (auto simp: udt_recv_def split: list.splits arrival.splits)
      then have i: "length bs \<le> i" using 1(3) by linarith
      have "buf' ! i = overwrite bs buf ! i"
        by (rule 1(1) [OF True r refl Some]) (use 1(2-4) True r Some i in \<open>auto simp: recv_step overwrite_def\<close>)
      then show ?thesis using i 1(4) by (simp add: overwrite_def nth_append)
    qed
  qed (use 1 in \<open>simp add: recv_done\<close>)
qed

lemma recv_first_piece:
  assumes "0 < length bs" and "length bs < n"
  shows "blocking_recv_buf (int n) 0 buf (Got bs # rest) = blocking_recv_buf (int n) (int (length bs)) (overwrite bs buf) rest"
  using assms by (simp add: recv_step udt_recv_def)

lemma send_whole:
  assumes "length data \<le> a"
  shows "\<exists>acc'. blocking_send_buf data (int (length data)) 0 out (Some a # acc) = Inr (True, out @ data, acc') \<and>
    acc' = (if data = [] then Some a # acc else acc)"
  using assms by (cases "data = []") (auto simp: send_step send_done udt_send_def)

lemma recvfile_all: "\<exists>ins. udt_recvfile (length (concat segs)) (map Got segs) = Inr (True, concat segs, ins)"
proof (induction segs)
  case (Cons s segs)
  then obtain ins where ih: "udt_recvfile (length (concat segs)) (map Got segs) = Inr (True, concat segs, ins)" by blast
  show ?case
  proof (cases "length (concat (s # segs))")
    case (Suc k)
    moreover from Suc have "Suc k - length s = length (concat segs)" by simp
    ultimately show ?thesis using ih by simp
  next
    case 0
    then have "concat (s # segs) = []" by (simp del: concat.simps)
    then show ?thesis by (simp only: list.size udt_recvfile.simps) simp
  qed
qed simp

text \<open>What the two sides put on the wire: the length of the name and the name; the size of the file and the file.\<close>

definition request_bytes :: "string \<Rightarrow> byte list" where
  "request_bytes file = le_bytes 2 (htons (word_of_nat (length file))) @ bytes_of file"

definition reply_bytes :: "byte list \<Rightarrow> byte list" where
  "reply_bytes content = le_bytes 4 (htonl (word_of_nat (length content))) @ content"

lemma transfer_send_serves:
  assumes "length file < 2 ^ 15" and "NUL \<notin> set file" and "length content < 2 ^ 31"
    and "length (t_dir t) + 1 + length file < 1024" and "files (t_dir t @ ''/'' @ file) = Some content"
    and "uc_in c = Got (request_bytes file) # rest" and "uc_accept c = Some a # Some b # acc" and "4 \<le> a"
  shows "\<exists>c'. transfer_send t files c = Inr (True, t\<lparr>t_file := Some file\<rparr>, c') \<and> uc_out c' = uc_out c @ reply_bytes content"
proof -
  obtain r1 where r1: "blocking_recv_buf 2 0 (replicate 2 None) (uc_in c) = Inr (True, map Some (take 2 (request_bytes file)), r1)"
    "r1 = (if file = [] then rest else Got (bytes_of file) # rest)"
    using recv_whole [of 2 "request_bytes file" "replicate 2 None" rest] by (auto simp: assms(6) request_bytes_def)
  have len: "sint (htons (le_word (take 2 (request_bytes file)))) = int (length file)"
    using assms(1) by (simp add: request_bytes_def le_word_le_bytes sint_short)
  obtain r2 where r2: "blocking_recv_buf (int (length file)) 0 (replicate (Suc (length file)) None) r1 = Inr (True, map Some (bytes_of file) @ [None], r2)"
    using recv_whole [of "length file" "bytes_of file" "replicate (Suc (length file)) None" rest, unfolded drop_replicate] that
    by (cases "file = []") (auto simp: r1(2) recv_done bytes_of_def)
  have cstr: "read_cstr ((map Some (bytes_of file) @ [None])[length file := Some 0]) = Inr (bytes_of file)"
    using assms(2) by (simp add: list_update_append zero_bytes_of)
  obtain acc' where s: "blocking_send_buf (le_bytes 4 (htonl (word_of_nat (length content)))) 4 0 (uc_out c) (Some a # Some b # acc) =
      Inr (True, uc_out c @ le_bytes 4 (htonl (word_of_nat (length content))), acc')" "acc' = Some b # acc"
    using send_whole [of "le_bytes 4 (htonl (word_of_nat (length content)))" a "uc_out c" "Some b # acc"] assms(8) by (auto simp: le_bytes_def)
  show ?thesis
    using assms(3-5,7) r1(1) len r2 cstr s
    by (simp add: transfer_send_def Let_def transfer_path_def sint_int udt_send_def reply_bytes_def nat_add_distrib)
qed

lemma transfer_receive_gets:
  assumes "t_file t = Some file" and "length file < 2 ^ 15" and "length content < 2 ^ 31"
    and "length (t_dir t) + 1 + length file < 1024" and "creat (t_dir t @ ''/'' @ file)"
    and "concat (s # segs) = reply_bytes content" and "4 \<le> length s" and "uc_in c = map Got (s # segs)"
    and "uc_accept c = Some a # Some b # acc" and "2 \<le> a" and "length file \<le> b"
  shows "\<exists>c'. transfer_receive creat t files c = Inr (True, files(t_dir t @ ''/'' @ file \<mapsto> content), c') \<and> uc_out c' = uc_out c @ request_bytes file"
proof -
  let ?len = "le_bytes 2 (htons (word_of_nat (length file) :: ushort))" and ?sz = "htonl (word_of_nat (length content))"
  obtain acc' where s1: "blocking_send_buf ?len 2 0 (uc_out c) (Some a # Some b # acc) = Inr (True, uc_out c @ ?len, Some b # acc)"
    and s2: "blocking_send_buf (bytes_of file) (int (length file)) 0 (uc_out c @ ?len) (Some b # acc) = Inr (True, uc_out c @ ?len @ bytes_of file, acc')"
    using send_whole [of ?len a "uc_out c" "Some b # acc"] send_whole [of "bytes_of file" b "uc_out c @ ?len" acc] assms(10,11)
    by (auto simp: le_bytes_def)
  have hd: "take 4 s = le_bytes 4 ?sz" and rest: "concat (drop 4 s # segs) = content"
    using assms(6,7) by (auto simp: reply_bytes_def append_eq_append_conv_if split: if_splits)
  obtain r where r: "blocking_recv_buf 4 0 (replicate 4 None) (uc_in c) = Inr (True, map Some (take 4 s), r)"
    "r = (if length s = 4 then map Got segs else map Got (drop 4 s # segs))"
    using recv_whole [of 4 s "replicate 4 None" "map Got segs"] assms(7,8) by auto
  have "\<exists>ins. udt_recvfile (length content) r = Inr (True, content, ins)"
    using recvfile_all [of segs] recvfile_all [of "drop 4 s # segs"] rest by (cases "length s = 4") (auto simp: r(2))
  moreover have "sint (htonl (le_word (take 4 s))) = int (length content)"
    using assms(3) by (simp add: hd le_word_le_bytes sint_int)
  ultimately show ?thesis
    using s1 s2 r(1) assms(1-5,9) by (auto simp: transfer_receive_def Let_def transfer_path_def sint_short request_bytes_def)
qed

text \<open>
  C15. A file is transferred unchanged: when a node that asks for a file and a node that has it are connected, both calls succeed and the
  receiver's copy has the sender's contents, provided the name is shorter than \<open>2 ^ 15\<close> and has no NUL, the file is smaller than \<open>2 ^ 31\<close> bytes, the paths fit their arrays,
  the send calls take each header whole, and the request and the first four bytes of the reply arrive in one piece. The rest of the reply may arrive in any pieces.
\<close>

theorem transfer_delivers:
  assumes "t_file rt = Some file" and "length file < 2 ^ 15" and "NUL \<notin> set file" and "length content < 2 ^ 31"
    and "length (t_dir rt) + 1 + length file < 1024" and "length (t_dir st) + 1 + length file < 1024"
    and "creat (t_dir rt @ ''/'' @ file)" and "sfiles (t_dir st @ ''/'' @ file) = Some content"
    and "uc_out rc = []" and "uc_accept rc = Some a # Some b # racc" and "2 \<le> a" and "length file \<le> b"
    and "uc_out sc = []" and "uc_accept sc = Some a' # Some b' # sacc" and "4 \<le> a'"
    and "uc_in rc = map Got (s # segs)" and "concat (s # segs) = reply_bytes content" and "4 \<le> length s"
  shows "\<exists>rc' sc'. transfer_receive creat rt rfiles rc = Inr (True, rfiles(t_dir rt @ ''/'' @ file \<mapsto> content), rc') \<and>
    transfer_send st sfiles (sc\<lparr>uc_in := [Got (uc_out rc')]\<rparr>) = Inr (True, st\<lparr>t_file := Some file\<rparr>, sc') \<and>
    uc_out sc' = concat (s # segs)"
proof -
  obtain rc' where rc': "transfer_receive creat rt rfiles rc = Inr (True, rfiles(t_dir rt @ ''/'' @ file \<mapsto> content), rc')"
    "uc_out rc' = request_bytes file"
    using transfer_receive_gets [where creat = creat, OF assms(1,2,4,5,7,17,18,16,10-12), of rfiles] assms(9) by auto
  moreover obtain sc' where "transfer_send st sfiles (sc\<lparr>uc_in := [Got (uc_out rc')]\<rparr>) = Inr (True, st\<lparr>t_file := Some file\<rparr>, sc')"
    "uc_out sc' = reply_bytes content"
    using transfer_send_serves [OF assms(2-4,6), of sfiles "sc\<lparr>uc_in := [Got (uc_out rc')]\<rparr>" "[]" a' b' sacc] assms(8,13-15) rc'(2) by auto
  ultimately show ?thesis using assms(17) by auto
qed

definition demo_transfer :: "string \<Rightarrow> Transfer" where
  "demo_transfer dir = \<lparr>t_type = TRANSFER_RECEIVE, t_dir = dir, t_file = Some ''b'', t_success_cb = None, t_fail_cb = None, t_success_ev = False,
     t_fail_ev = False, t_udt_sock = 5, t_remote_addr = replicate 16 1, t_remote_port = 4001\<rparr>"

definition demo_conn :: "arrival list \<Rightarrow> udt_conn" where
  "demo_conn ins = \<lparr>uc_connect = \<lambda>_. True, uc_in = ins, uc_accept = [Some 8, Some 8], uc_out = []\<rparr>"

lemma demo_reply: "reply_bytes [7, 8, 9] = [0, 0, 0, 3, 7, 8, 9]"
  by (simp add: reply_bytes_def htonl_def le_bytes_def le_word_def upt_rec)

lemma transfer_delivers_witness:
  "\<exists>rc' sc'. transfer_receive (\<lambda>_. True) (demo_transfer ''in'') (\<lambda>_. None) (demo_conn (map Got [[0, 0, 0, 3, 7], [8, 9]])) =
      Inr (True, (\<lambda>_. None)(t_dir (demo_transfer ''in'') @ ''/'' @ ''b'' \<mapsto> [7, 8, 9]), rc') \<and>
    transfer_send (demo_transfer ''out'') (\<lambda>_. Some [7, 8, 9]) ((demo_conn [])\<lparr>uc_in := [Got (uc_out rc')]\<rparr>) =
      Inr (True, (demo_transfer ''out'')\<lparr>t_file := Some ''b''\<rparr>, sc') \<and>
    uc_out sc' = concat [[0, 0, 0, 3, 7], [8, 9]]"
  by (rule transfer_delivers [where content = "[7, 8, 9]" and a = 8 and b = 8 and a' = 8 and b' = 8 and racc = "[]" and sacc = "[]"])
    (simp_all add: demo_transfer_def demo_conn_def demo_reply NUL_def char_of_def)

text \<open>
  The receive loop does not move its pointer: when the first piece is shorter than what was asked for, the last byte of the buffer is never written, even though
  the call reports success.
\<close>

lemma recv_fragment_unwritten:
  assumes "0 < length bs" and "length bs < n" and "length buf = n"
    and "blocking_recv_buf (int n) 0 buf (Got bs # rest) = Inr (True, buf', ins')"
  shows "buf' ! (n - 1) = buf ! (n - 1)"
proof -
  have "blocking_recv_buf (int n) (int (length bs)) (overwrite bs buf) rest = Inr (True, buf', ins')"
    using assms(4) by (simp add: recv_first_piece [OF assms(1,2)])
  then have "buf' ! (n - 1) = overwrite bs buf ! (n - 1)"
    by (rule recv_tail_untouched) (use assms(1-3) in \<open>auto simp: overwrite_def\<close>)
  moreover have "\<not> n - 1 < length bs" using assms(2) by linarith
  ultimately show ?thesis using assms(2,3) by (simp add: overwrite_def nth_append)
qed

lemma sint_short_neg:
  assumes "2 ^ 15 \<le> unat (w :: ushort)"
  shows "sint w < 0"
proof -
  have "unat w < 2 ^ 16" using unsigned_less [of w] by simp
  then have "unat w div 2 ^ 15 = 1" using assms by simp
  then have "bit (unat w) 15" by (simp add: bit_iff_odd)
  then have "bit w 15" by (simp add: bit_unsigned_iff)
  then show ?thesis using bit_last_iff [of w] by simp
qed

lemma unat_le_word_2: "unat (le_word [y, x] :: ushort) = 256 * unat x + unat y"
proof -
  have lt: "unat w < 256" for w :: byte using unsigned_less [of w] by simp
  have "unat (word_of_nat n :: ushort) = n" if "n < 65536" for n using that by (simp add: unat_of_nat take_bit_nat_eq_self)
  from this [of "be_val (rev [y, x])"] show ?thesis using lt [of x] lt [of y] unfolding le_word_def by simp
qed

lemma htons_le_word: "htons (le_word [x, y]) = (le_word [y, x] :: ushort)"
  by (simp add: htons_def le_bytes_le_word)

text \<open>
  C35. What a peer can do to the serving side with two bytes: if the length of the name arrives in two pieces, the thread reads a byte that was never written; if its
  first byte is 128 or more, the thread declares an array of a size that is not positive.
\<close>

theorem transfer_send_bad_length:
  "(\<forall>x y. uc_in c = Got [x] # Got [y] # rest \<longrightarrow> transfer_send t files c = Inl Uninit_read) \<and>
   (\<forall>x y. uc_in c = Got [x, y] # rest \<and> 128 \<le> unat x \<longrightarrow> transfer_send t files c = Inl Out_of_bounds)"
proof (intro conjI allI impI)
  fix x y
  assume "uc_in c = Got [x] # Got [y] # rest"
  then have "blocking_recv_buf 2 0 (replicate 2 None) (uc_in c) = Inr (True, [Some y, None], rest)"
    by (simp add: recv_step recv_done udt_recv_def overwrite_def numeral_2_eq_2)
  then show "transfer_send t files c = Inl Uninit_read" by (simp add: transfer_send_def)
next
  fix x y :: byte
  assume "uc_in c = Got [x, y] # rest \<and> 128 \<le> unat x"
  moreover from this have "blocking_recv_buf 2 0 (replicate 2 None) (uc_in c) = Inr (True, [Some x, Some y], rest)"
    by (simp add: recv_step recv_done udt_recv_def overwrite_def numeral_2_eq_2)
  moreover have "unat (le_word [y, x] :: ushort) = 256 * unat x + unat y" by (rule unat_le_word_2)
  ultimately show "transfer_send t files c = Inl Out_of_bounds"
    using sint_short_neg [of "le_word [y, x]"] by (simp add: transfer_send_def htons_le_word Let_def)
qed

lemma transfer_send_bad_length_witness:
  "transfer_send (demo_transfer ''out'') (\<lambda>_. None) (demo_conn [Got [0], Got [1]]) = Inl Uninit_read \<and>
   transfer_send (demo_transfer ''out'') (\<lambda>_. None) (demo_conn [Got [255, 255]]) = Inl Out_of_bounds"
  using transfer_send_bad_length [of "demo_conn [Got [0], Got [1]]" "[]"] transfer_send_bad_length [of "demo_conn [Got [255, 255]]" "[]"]
  by (simp add: demo_conn_def)

subsection \<open>The life cycle is safe\<close>

text \<open>
  The contract between the threads and the main thread. An object that has a thread has no activated event and the other way round, none has two of either, all of them are
  allocated; an event exists exactly when its callback is set, and an activated event has a callback; a receiving transfer has a file name, and so has every busy one with callbacks.
\<close>

definition wf_transfer :: "Transfer \<Rightarrow> bool" where
  "wf_transfer t \<longleftrightarrow> (t_success_cb t \<noteq> None) = t_success_ev t \<and> (t_fail_cb t \<noteq> None) = t_fail_ev t \<and>
     (t_type t = TRANSFER_RECEIVE \<longrightarrow> t_file t \<noteq> None)"

definition callback_of :: "bool \<Rightarrow> Transfer \<Rightarrow> transfer_event_fn option" where
  "callback_of ok t = (if ok then t_success_cb t else t_fail_cb t)"

definition startable :: "Transfer \<Rightarrow> bool" where
  "startable t \<longleftrightarrow> t_success_cb t = None \<and> t_fail_cb t = None \<or> t_file t \<noteq> None"

definition busy :: "tworld \<Rightarrow> nat list" where
  "busy w = tw_threads w @ map fst (tw_active w)"

definition wf_world :: "tworld \<Rightarrow> bool" where
  "wf_world w \<longleftrightarrow>
     (\<forall>t. Some t \<in> set (tw_transfers w) \<longrightarrow> wf_transfer t) \<and>
     distinct (busy w) \<and> (\<forall>p \<in> set (busy w). \<exists>t. load_transfer w p = Inr t \<and> startable t) \<and>
     (\<forall>e \<in> set (tw_active w). \<forall>t. load_transfer w (fst e) = Inr t \<longrightarrow> callback_of (snd e) t \<noteq> None)"

lemma load_transfer_Inr: "load_transfer w p = Inr t \<longleftrightarrow> p < length (tw_transfers w) \<and> tw_transfers w ! p = Some t"
  by (auto simp: load_transfer_def res_simps)

lemma load_bound: "load_transfer w p = Inr t \<Longrightarrow> p < length (tw_transfers w)"
  by (simp add: load_transfer_Inr)

lemma load_store [simp]:
  "load_transfer (store_transfer w p t) q = (if q = p \<and> p < length (tw_transfers w) then deref t else load_transfer w q)"
  by (auto simp: load_transfer_def store_transfer_def nth_list_update)

lemma busy_store [simp]: "busy (store_transfer w p t) = busy w" "tw_active (store_transfer w p t) = tw_active w"
  "tw_threads (store_transfer w p t) = tw_threads w" "tw_files (store_transfer w p t) = tw_files w"
  by (simp_all add: busy_def store_transfer_def)

lemma load_frame [simp]:
  "load_transfer (w\<lparr>tw_active := a\<rparr>) q = load_transfer w q" "load_transfer (w\<lparr>tw_threads := l\<rparr>) q = load_transfer w q"
  "load_transfer (w\<lparr>tw_files := f\<rparr>) q = load_transfer w q" "load_transfer (event_free p ok w) q = load_transfer w q"
  by (simp_all add: load_transfer_def event_free_def)

lemma wf_world_transfer: "wf_world w \<Longrightarrow> load_transfer w p = Inr t \<Longrightarrow> wf_transfer t"
  unfolding wf_world_def load_transfer_Inr by (metis nth_mem)

lemma wf_world_distinct: "wf_world w \<Longrightarrow> distinct (busy w)"
  by (simp add: wf_world_def)

lemma wf_world_busy: "wf_world w \<Longrightarrow> p \<in> set (busy w) \<Longrightarrow> \<exists>t. load_transfer w p = Inr t \<and> startable t"
  by (simp add: wf_world_def)

lemma wf_world_active: "wf_world w \<Longrightarrow> (p, ok) \<in> set (tw_active w) \<Longrightarrow> load_transfer w p = Inr t \<Longrightarrow> callback_of ok t \<noteq> None"
  unfolding wf_world_def by (metis fst_conv snd_conv)

lemmas wf_worldD = wf_world_transfer wf_world_distinct wf_world_busy wf_world_active

text \<open>Changing or freeing an object that is not busy, and every change that only makes fewer objects busy, keeps the contract.\<close>

lemma set_store: "Some t' \<in> set (tw_transfers (store_transfer w p t)) \<Longrightarrow> t = Some t' \<or> Some t' \<in> set (tw_transfers w)"
  unfolding store_transfer_def by simp (metis insertE set_update_subset_insert subsetD)

lemma wf_store:
  assumes "wf_world w" and "p \<notin> set (busy w)" and "\<And>t'. t = Some t' \<Longrightarrow> wf_transfer t'"
  shows "wf_world (store_transfer w p t)"
proof -
  have "load_transfer (store_transfer w p t) q = load_transfer w q" if "q \<in> set (busy w)" for q
    using that assms(2) by auto
  moreover have "fst e \<in> set (busy w)" if "e \<in> set (tw_active w)" for e using that by (auto simp: busy_def)
  moreover have "wf_transfer t'" if "Some t' \<in> set (tw_transfers (store_transfer w p t))" for t'
    using set_store [OF that] assms(1,3) by (auto simp: wf_world_def)
  ultimately show ?thesis using assms(1) unfolding wf_world_def busy_store by fastforce
qed

lemma wf_fewer:
  assumes "wf_world w" and "distinct (busy w')" and "set (busy w') \<subseteq> set (busy w)" and "set (tw_active w') \<subseteq> set (tw_active w)"
    and "tw_transfers w' = tw_transfers w"
  shows "wf_world w'"
proof -
  have "load_transfer w' = load_transfer w" using assms(5) by (simp add: load_transfer_def fun_eq_iff)
  then show ?thesis using assms unfolding wf_world_def by (metis subsetD)
qed

lemma event_free_idle: "p \<notin> set (map fst (tw_active w)) \<Longrightarrow> event_free p ok w = w"
proof -
  assume "p \<notin> set (map fst (tw_active w))"
  then have "filter (\<lambda>e. e \<noteq> (p, ok)) (tw_active w) = tw_active w" by (force simp: filter_id_conv)
  then show ?thesis by (simp add: event_free_def)
qed

lemma free_transfer_idle:
  assumes "load_transfer w p = Inr t" and "wf_transfer t" and "p \<notin> set (map fst (tw_active w))"
  shows "free_transfer (Some p) w = Inr (store_transfer w p None)"
  using assms(1,2) event_free_idle [OF assms(3)] by (auto simp: free_transfer_def wf_transfer_def)

lemma wf_activate:
  assumes "wf_world w" and "p \<notin> set (busy w)" and "load_transfer w p = Inr t" and "startable t" and "callback_of ok t \<noteq> None"
  shows "wf_world (w\<lparr>tw_active := tw_active w @ [(p, ok)]\<rparr>)"
proof -
  have "busy (w\<lparr>tw_active := tw_active w @ [(p, ok)]\<rparr>) = busy w @ [p]" by (simp add: busy_def)
  then show ?thesis using assms unfolding wf_world_def by auto
qed

lemma wf_thread:
  assumes "wf_world w" and "p \<notin> set (busy w)" and "load_transfer w p = Inr t" and "startable t"
  shows "wf_world (w\<lparr>tw_threads := tw_threads w @ [p]\<rparr>)"
proof -
  have "distinct (busy (w\<lparr>tw_threads := tw_threads w @ [p]\<rparr>))" "set (busy (w\<lparr>tw_threads := tw_threads w @ [p]\<rparr>)) = insert p (set (busy w))"
    using assms(2) wf_world_distinct [OF assms(1)] by (auto simp: busy_def)
  then show ?thesis using assms unfolding wf_world_def by auto
qed

lemma wf_files: "wf_world (w\<lparr>tw_files := f\<rparr>) = wf_world w"
  by (simp add: wf_world_def busy_def)

lemma wf_thread_ends:
  assumes "wf_world w" and "p \<in> set (tw_threads w)"
  shows "wf_world (w\<lparr>tw_threads := remove1 p (tw_threads w)\<rparr>)" and "p \<notin> set (busy (w\<lparr>tw_threads := remove1 p (tw_threads w)\<rparr>))"
proof -
  have "distinct (busy w)" using assms(1) by (rule wf_world_distinct)
  then show "p \<notin> set (busy (w\<lparr>tw_threads := remove1 p (tw_threads w)\<rparr>))" using assms(2) by (auto simp: busy_def)
  show "wf_world (w\<lparr>tw_threads := remove1 p (tw_threads w)\<rparr>)"
    by (rule wf_fewer [OF assms(1)]) (use \<open>distinct (busy w)\<close> in \<open>auto simp: busy_def\<close>)
qed

text \<open>The faults of the library loops; none of them is a bad pointer.\<close>

lemma recv_fault: "blocking_recv_buf sz received buf ins = Inl e \<Longrightarrow> e = Out_of_fuel"
proof (induction sz received buf ins rule: blocking_recv_buf.induct)
  case (1 sz received buf ins)
  have "e = Out_of_fuel" if "udt_recv len ins = Inl e" for len
    using that by (auto simp: udt_recv_def split: list.splits arrival.splits)
  then show ?case
    using 1 by (cases "received < sz") (auto simp: recv_step recv_done res_simps split: option.splits)
qed

lemma send_fault: "blocking_send_buf buf sz sent out acc = Inl e \<Longrightarrow> e = Out_of_fuel"
proof (induction buf sz sent out acc rule: blocking_send_buf.induct)
  case (1 buf sz sent out acc)
  have "e = Out_of_fuel" if "udt_send data acc = Inl e" for data
    using that by (auto simp: udt_send_def split: list.splits option.splits)
  then show ?case
    using 1 by (cases "sent < sz") (auto simp: send_step send_done res_simps split: option.splits)
qed

lemma recvfile_fault: "udt_recvfile n ins = Inl e \<Longrightarrow> e = Out_of_fuel"
  by (induction n ins rule: udt_recvfile.induct) (auto simp: res_simps split: if_splits)

lemma read_fault: "read_bytes buf = Inl e \<Longrightarrow> e = Uninit_read" "read_cstr buf = Inl e \<Longrightarrow> e = Uninit_read \<or> e = Out_of_bounds"
  by (induction buf) (auto simp: res_simps read_var_def split: option.splits if_splits)

lemma transfer_receive_no_null: "t_file t \<noteq> None \<Longrightarrow> transfer_receive creat t files c \<noteq> Inl Null_deref"
  by (auto simp: transfer_receive_def transfer_path_def Let_def res_simps split: if_splits dest!: send_fault recv_fault read_fault(1) recvfile_fault)

lemma transfer_send_no_null: "transfer_send t files c \<noteq> Inl Null_deref"
  by (auto simp: transfer_send_def transfer_path_def udt_send_def Let_def res_simps split: if_splits option.splits list.splits
      dest!: send_fault recv_fault read_fault)

lemma transfer_send_frame: "transfer_send t files c = Inr (ok, t', c') \<Longrightarrow> t' = t \<or> (\<exists>f. t' = t\<lparr>t_file := Some f\<rparr>)"
  by (auto simp: transfer_send_def Let_def res_simps split: if_splits option.splits)

lemma transfer_body_result:
  "transfer_body creat t w c = Inr (ok, t', w', c') \<Longrightarrow> wf_transfer t \<Longrightarrow> startable t \<Longrightarrow>
   wf_transfer t' \<and> startable t' \<and> (\<exists>files. w' = w\<lparr>tw_files := files\<rparr>)"
  by (cases "t_type t") (auto simp: transfer_body_def res_simps wf_transfer_def startable_def dest!: transfer_send_frame intro: exI [of _ "tw_files w"])

lemma transfer_body_no_null: "wf_transfer t \<Longrightarrow> transfer_body creat t w c \<noteq> Inl Null_deref"
  using transfer_send_no_null [of t "tw_files w" c] transfer_receive_no_null [of t creat "tw_files w" c]
  by (cases "t_type t") (auto simp: transfer_body_def res_simps wf_transfer_def)

lemma transfer_finish_result:
  assumes "wf_transfer t" and "load_transfer w p = Inr t" and "p \<notin> set (map fst (tw_active w))"
  shows "transfer_finish p ok t w =
    Inr (if callback_of ok t \<noteq> None then w\<lparr>tw_active := tw_active w @ [(p, ok)]\<rparr> else store_transfer w p None)"
  using assms(1) free_transfer_idle [OF assms(2,1,3)] by (auto simp: transfer_finish_def event_active_def wf_transfer_def callback_of_def)

text \<open>
  A thread of an object that the contract covers never follows a bad pointer, and when it ends the contract holds: the object is freed, or handed over with its event, or
  left alone when there is no connection.
\<close>

lemma transfer_connect_step:
  assumes "wf_world w" and "p \<in> set (tw_threads w)"
  shows "transfer_connect E creat p w c \<noteq> Inl Null_deref"
    and "transfer_connect E creat p w c = Inr (w', c') \<Longrightarrow> wf_world (w'\<lparr>tw_threads := remove1 p (tw_threads w')\<rparr>)"
proof -
  let ?w = "\<lambda>files. w\<lparr>tw_threads := remove1 p (tw_threads w), tw_files := files\<rparr>"
  have wf: "wf_world (?w files)" "p \<notin> set (busy (?w files))" for files
    using wf_thread_ends [OF assms(1,2)] wf_files [of files "w\<lparr>tw_threads := remove1 p (tw_threads w)\<rparr>"] by (auto simp: busy_def)
  have busy: "p \<in> set (busy w)" "p \<notin> set (map fst (tw_active w))" using assms(2) wf_world_distinct [OF assms(1)] by (auto simp: busy_def)
  obtain t where t: "load_transfer w p = Inr t" "wf_transfer t" "p < length (tw_transfers w)" "startable t"
    using wf_worldD(1,3) [OF assms(1)] busy(1) by (metis load_transfer_Inr)
  have fin: "transfer_finish p ok t1 (store_transfer (w\<lparr>tw_files := files\<rparr>) p (Some t1)) =
      Inr (if callback_of ok t1 \<noteq> None then (store_transfer (w\<lparr>tw_files := files\<rparr>) p (Some t1))\<lparr>tw_active := tw_active w @ [(p, ok)]\<rparr>
           else store_transfer (store_transfer (w\<lparr>tw_files := files\<rparr>) p (Some t1)) p None)"
    if "wf_transfer t1" for ok t1 files
    by (subst transfer_finish_result [OF that]) (use busy(2) t(3) in simp_all)
  have body: "\<exists>files. wf_transfer t1 \<and> startable t1 \<and> w1 = w\<lparr>tw_files := files\<rparr>" if "transfer_body creat t w c = Inr (ok, t1, w1, c1)" for ok t1 w1 c1
    using transfer_body_result [OF that t(2,4)] by blast
  show "transfer_connect E creat p w c \<noteq> Inl Null_deref"
  proof (cases "transfer_body creat t w c")
    case (Inl e)
    then show ?thesis using transfer_body_no_null [OF t(2), of creat w c] by (simp add: transfer_connect_def t(1))
  next
    case (Inr r)
    then obtain ok t1 w1 c1 where r: "transfer_body creat t w c = Inr (ok, t1, w1, c1)" by (cases r) auto
    then obtain files where "wf_transfer t1" "w1 = w\<lparr>tw_files := files\<rparr>" using body by blast
    then show ?thesis using fin by (simp add: transfer_connect_def t(1) r)
  qed
  assume res: "transfer_connect E creat p w c = Inr (w', c')"
  show "wf_world (w'\<lparr>tw_threads := remove1 p (tw_threads w')\<rparr>)"
  proof (cases "w' = w")
    case False
    then obtain ok t1 w1 c1 where r: "transfer_body creat t w c = Inr (ok, t1, w1, c1)"
      and end_: "transfer_finish p ok t1 (store_transfer w1 p (Some t1)) = Inr w'"
      using res t(1) by (auto simp: transfer_connect_def res_simps split: if_splits)
    obtain files where t1: "wf_transfer t1" "startable t1" and w1: "w1 = w\<lparr>tw_files := files\<rparr>" using body [OF r] by blast
    have w': "w' = (if callback_of ok t1 \<noteq> None
        then (store_transfer (w\<lparr>tw_files := files\<rparr>) p (Some t1))\<lparr>tw_active := tw_active w @ [(p, ok)]\<rparr>
        else store_transfer (store_transfer (w\<lparr>tw_files := files\<rparr>) p (Some t1)) p None)"
      using end_ fin [OF t1(1)] by (simp add: w1)
    have "wf_world (store_transfer (?w files) p x)" if "x = None \<or> x = Some t1" for x
      by (rule wf_store [OF wf]) (use that t1(1) in auto)
    moreover from this have "wf_world ((store_transfer (?w files) p (Some t1))\<lparr>tw_active := tw_active (?w files) @ [(p, ok)]\<rparr>)"
      if "callback_of ok t1 \<noteq> None"
      using wf_activate [of "store_transfer (?w files) p (Some t1)" p t1 ok] wf(2) [of files] that t(3) t1(2) by simp
    ultimately show ?thesis by (cases w) (auto simp: w' store_transfer_def)
  qed (use wf_thread_ends(1) [OF assms] in simp)
qed

subsection \<open>Setting a transfer up\<close>

lemma new_transfer_idle:
  assumes "wf_world w" and "new_transfer U lp a port dir w = (r, w')"
  shows "wf_world w' \<and> (\<forall>p. r = Some p \<longrightarrow> p \<notin> set (busy w') \<and> (\<exists>t. load_transfer w' p = Inr t \<and> t_dir t = dir \<and> t_remote_addr t = a \<and>
    t_remote_port t = port \<and> t_success_cb t = None \<and> t_fail_cb t = None \<and> \<not> t_success_ev t \<and> \<not> t_fail_ev t \<and> t_file t = None))"
proof -
  obtain t where w': "w' = w\<lparr>tw_transfers := tw_transfers w @ [Some t]\<rparr>" and r: "r = None \<or> r = Some (length (tw_transfers w))"
    and t: "t_dir t = dir \<and> t_remote_addr t = a \<and> t_remote_port t = port \<and> t_success_cb t = None \<and> t_fail_cb t = None \<and>
      \<not> t_success_ev t \<and> \<not> t_fail_ev t \<and> t_file t = None \<and> t_type t = TRANSFER_IDLE"
    using assms(2) by (fastforce simp: new_transfer_def Let_def split: option.splits if_splits)
  have load: "load_transfer w' q = load_transfer w q" if "q \<in> set (busy w)" for q
    using wf_world_busy [OF assms(1) that] by (auto simp: w' load_transfer_def nth_append res_simps split: if_splits)
  have busy: "busy w' = busy w" "length (tw_transfers w) \<notin> set (busy w)"
    using wf_world_busy [OF assms(1)] by (auto simp: w' busy_def load_transfer_Inr)
  have "wf_transfer t" using t by (simp add: wf_transfer_def)
  moreover have "fst e \<in> set (busy w)" if "e \<in> set (tw_active w)" for e using that by (auto simp: busy_def)
  ultimately have "wf_world w'"
    using assms(1) load unfolding wf_world_def busy(1) by (auto simp: w')
  then show ?thesis using r t busy by (auto simp: w' load_transfer_def)
qed

lemma start_receiving_wf:
  assumes "wf_world w" and "p \<notin> set (busy w)" and "load_transfer w p = Inr t"
  shows "\<exists>w'. transfer_start_receiving (Some p) file w = Inr w' \<and> wf_world w'"
proof -
  let ?w = "store_transfer w p (Some (t\<lparr>t_file := Some file, t_type := TRANSFER_RECEIVE\<rparr>))"
  have "wf_world ?w" by (rule wf_store [OF assms(1,2)]) (use wf_world_transfer [OF assms(1,3)] in \<open>auto simp: wf_transfer_def\<close>)
  then have "wf_world (?w\<lparr>tw_threads := tw_threads ?w @ [p]\<rparr>)"
    by (rule wf_thread [where t = "t\<lparr>t_file := Some file, t_type := TRANSFER_RECEIVE\<rparr>"]) (use assms(2) load_bound [OF assms(3)] in \<open>simp_all add: startable_def\<close>)
  then show ?thesis using assms(3) by (simp add: transfer_start_receiving_def)
qed

lemma start_sending_wf:
  assumes "wf_world w" and "p \<notin> set (busy w)" and "load_transfer w p = Inr t" and "startable t"
  shows "\<exists>w'. transfer_start_sending (Some p) w = Inr w' \<and> wf_world w'"
proof -
  let ?w = "store_transfer w p (Some (t\<lparr>t_type := TRANSFER_SEND\<rparr>))"
  have "wf_world ?w" by (rule wf_store [OF assms(1,2)]) (use wf_world_transfer [OF assms(1,3)] in \<open>auto simp: wf_transfer_def\<close>)
  then have "wf_world (?w\<lparr>tw_threads := tw_threads ?w @ [p]\<rparr>)"
    by (rule wf_thread [where t = "t\<lparr>t_type := TRANSFER_SEND\<rparr>"]) (use assms(2,4) load_bound [OF assms(3)] in \<open>simp_all add: startable_def\<close>)
  then show ?thesis using assms(3) by (simp add: transfer_start_sending_def)
qed

lemma set_callbacks_wf:
  assumes "wf_world w" and "p \<notin> set (busy w)" and "load_transfer w p = Inr t"
  shows "\<exists>w'. transfer_set_callbacks (Some p) s f w = Inr w' \<and> wf_world w' \<and> p \<notin> set (busy w') \<and> (\<exists>t'. load_transfer w' p = Inr t')"
proof -
  let ?w = "store_transfer w p (Some (t\<lparr>t_success_ev := s \<noteq> None, t_fail_ev := f \<noteq> None, t_success_cb := s, t_fail_cb := f\<rparr>))"
  have "event_free p ok w = w" for ok using assms(2) by (intro event_free_idle) (simp add: busy_def)
  then have "transfer_set_callbacks (Some p) s f w = Inr ?w" using assms(3) by (simp add: transfer_set_callbacks_def Let_def)
  moreover have "wf_world ?w" by (rule wf_store [OF assms(1,2)]) (use wf_world_transfer [OF assms(1,3)] in \<open>auto simp: wf_transfer_def\<close>)
  ultimately show ?thesis using assms(2) load_bound [OF assms(3)] by simp
qed

end
