(* ===== verification/File_Client.thy ===== *)
theory File_Client
  imports File_Transfer Chord_Handshake
begin

text \<open>
  The file client, \<^verbatim>\<open>src/file_client\<close>: queries for files and offers of files travel through the Chord ring as data packets. A process owns several Chord servers, replaces their handler of data
  packets by its own, answers the queries it can answer, lets Chord forward the others, and moves the files themselves by direct transfers. The state is one \<open>DHash\<close> object; a pointer to one of its servers is the
  server's index.
\<close>

subsection \<open>State\<close>

text \<open>
  What lies outside the repository: the memory the compiler reserves for a variable-length array of a given size, from its start to the end of the reserved area; the UDT library; the paths
  that can be created; whether a file parses as a signed message and whether its signature is valid (\<^verbatim>\<open>d2i_CMS_bio\<close>, \<^verbatim>\<open>CMS_verify\<close>); whether a certificate can be opened and parsed.
\<close>

record fenv =
  fe_vla :: "nat \<Rightarrow> string"
  fe_udt :: udt
  fe_creat :: "string \<Rightarrow> bool"
  fe_cms :: "byte list \<Rightarrow> bool option"
  fe_cert :: "string \<Rightarrow> bool option"

datatype dh_arg = Arg_dhash | Arg_srv nat

datatype dh_process =
    DP_chord process_fn | DP_unpack_chord_data
  | DP_query | DP_query_reply_success | DP_query_reply_failure | DP_push | DP_push_reply | DP_client_request

type_synonym dh_dispatcher = "(dh_arg, dh_process) Dispatcher"

text \<open>
  The servers have their dispatchers beside them. The list of transfers \<^verbatim>\<open>trans_head\<close> is never used; what was written to the control socket is kept in order.
\<close>

record DHash =
  dh_servers :: "ChordServer list"
  dh_srv_disps :: "dh_dispatcher list"
  dh_files_path :: string
  dh_control_out :: "byte list list"
  dh_world :: tworld
  dh_control_dispatcher :: dh_dispatcher
  dh_chord_dispatcher :: dh_dispatcher

type_synonym dh_handled = "(chord_error \<times> DHash) res"

definition get_srv :: "DHash \<Rightarrow> nat \<Rightarrow> ChordServer res" where
  "get_srv dh i = (if i < length (dh_servers dh) then Inr (dh_servers dh ! i) else Inl Out_of_bounds)"

definition set_srv :: "DHash \<Rightarrow> nat \<Rightarrow> ChordServer \<Rightarrow> DHash" where
  "set_srv dh i srv = dh\<lparr>dh_servers := (dh_servers dh)[i := srv]\<rparr>"

text \<open>The enumerations of \<^verbatim>\<open>dhash.h\<close>.\<close>

datatype dhash_client_type = DHASH_CLIENT_REQUEST | DHASH_CLIENT_REQUEST_REPLY
datatype dhash_reply_code = DHASH_CLIENT_REPLY_LOCAL | DHASH_CLIENT_REPLY_SUCCESS | DHASH_CLIENT_REPLY_FAILURE
datatype dhash_type = DHASH_QUERY | DHASH_QUERY_REPLY_SUCCESS | DHASH_QUERY_REPLY_FAILURE | DHASH_PUSH | DHASH_PUSH_REPLY

fun dhash_num :: "dhash_type \<Rightarrow> int" where
  "dhash_num DHASH_QUERY = 0"
| "dhash_num DHASH_QUERY_REPLY_SUCCESS = 1"
| "dhash_num DHASH_QUERY_REPLY_FAILURE = 2"
| "dhash_num DHASH_PUSH = 3"
| "dhash_num DHASH_PUSH_REPLY = 4"

fun reply_code :: "dhash_reply_code \<Rightarrow> int" where
  "reply_code DHASH_CLIENT_REPLY_LOCAL = 0"
| "reply_code DHASH_CLIENT_REPLY_SUCCESS = 1"
| "reply_code DHASH_CLIENT_REPLY_FAILURE = 2"

fun client_num :: "dhash_client_type \<Rightarrow> int" where
  "client_num DHASH_CLIENT_REQUEST = 0"
| "client_num DHASH_CLIENT_REQUEST_REPLY = 1"

subsection \<open>pack.cpp: packing\<close>

definition DHASH_WIRE_VERSION :: uint32 where
  "DHASH_WIRE_VERSION = 1"

definition pack_dhash_header :: "env \<Rightarrow> int \<Rightarrow> message \<Rightarrow> byte list res" where
  "pack_dhash_header E type msg = pack_header E DHASH_WIRE_VERSION type msg"

definition dhash_pack_control_request_reply :: "env \<Rightarrow> int \<Rightarrow> byte list \<Rightarrow> byte list" where
  "dhash_pack_control_request_reply E code name =
     pb_pack E (M_ClientRequestReply (CLIENT_REQUEST_REPLY__INIT\<lparr>crr_name := name, crr_code := word_of_int code\<rparr>))"

definition dhash_pack_query :: "env \<Rightarrow> in6_addr \<Rightarrow> ushort \<Rightarrow> byte list \<Rightarrow> byte list res" where
  "dhash_pack_query E addr port name =
     pack_dhash_header E (dhash_num DHASH_QUERY)
       (M_Query (QUERY__INIT\<lparr>qry_reply_addr := addr, qry_reply_port := ucast port, qry_name := name\<rparr>))"

definition dhash_pack_query_reply_success :: "env \<Rightarrow> byte list \<Rightarrow> byte list res" where
  "dhash_pack_query_reply_success E name =
     pack_dhash_header E (dhash_num DHASH_QUERY_REPLY_SUCCESS) (M_QueryReplySuccess (QUERY_REPLY_SUCCESS__INIT\<lparr>qrs_name := name\<rparr>))"

definition dhash_pack_query_reply_failure :: "env \<Rightarrow> byte list \<Rightarrow> byte list res" where
  "dhash_pack_query_reply_failure E name =
     pack_dhash_header E (dhash_num DHASH_QUERY_REPLY_FAILURE) (M_QueryReplyFailure (QUERY_REPLY_FAILURE__INIT\<lparr>qrf_name := name\<rparr>))"

definition dhash_pack_push :: "env \<Rightarrow> in6_addr \<Rightarrow> ushort \<Rightarrow> byte list \<Rightarrow> byte list res" where
  "dhash_pack_push E addr port name =
     pack_dhash_header E (dhash_num DHASH_PUSH)
       (M_Push (PUSH__INIT\<lparr>psh_reply_addr := addr, psh_reply_port := ucast port, psh_name := name\<rparr>))"

definition dhash_pack_push_reply :: "env \<Rightarrow> byte list \<Rightarrow> byte list res" where
  "dhash_pack_push_reply E name =
     pack_dhash_header E (dhash_num DHASH_PUSH_REPLY) (M_PushReply (PUSH_REPLY__INIT\<lparr>pshr_name := name\<rparr>))"

definition dhash_pack_client_request :: "env \<Rightarrow> byte list \<Rightarrow> byte list res" where
  "dhash_pack_client_request E name =
     pack_dhash_header E (client_num DHASH_CLIENT_REQUEST) (M_ClientRequest (CLIENT_REQUEST__INIT\<lparr>cr_name := name\<rparr>))"

subsection \<open>dhash.cpp: files\<close>

text \<open>
  The path is assembled in a variable-length array that has room for the directory, the name and one more character. The slash takes that one, so the
  terminator goes one past the end of the array: whether it lands in memory that belongs to nobody depends on what the compiler reserved.
\<close>

definition memcpy_at :: "nat \<Rightarrow> string \<Rightarrow> string \<Rightarrow> string res" where
  "memcpy_at pos s buf =
     (if pos + length s \<le> length buf then Inr (take pos buf @ s @ drop (pos + length s) buf) else Inl Out_of_bounds)"

definition dhash_stat_local_file :: "fenv \<Rightarrow> DHash \<Rightarrow> byte list \<Rightarrow> nat option res" where
  "dhash_stat_local_file F dh file =
     (let len = length (dh_files_path dh) + length file + 1; abs_file_path = fe_vla F len in
      fbind (sprintf_at 0 (dh_files_path dh) abs_file_path) (\<lambda>abs_file_path.
      fbind (sprintf_at (length (dh_files_path dh)) ''/'' abs_file_path) (\<lambda>abs_file_path.
      fbind (memcpy_at (length (dh_files_path dh) + 1) (str_of file) abs_file_path) (\<lambda>abs_file_path.
      fbind (put_nul len abs_file_path) (\<lambda>abs_file_path.
      Inr (map_option length (tw_files (dh_world dh) (cstr abs_file_path))))))))"

definition dhash_local_file_exists :: "fenv \<Rightarrow> DHash \<Rightarrow> byte list \<Rightarrow> bool res" where
  "dhash_local_file_exists F dh file = fbind (dhash_stat_local_file F dh file) (\<lambda>r. Inr (r \<noteq> None))"

definition dhash_local_file_size :: "fenv \<Rightarrow> DHash \<Rightarrow> byte list \<Rightarrow> int res" where
  "dhash_local_file_size F dh file =
     fbind (dhash_stat_local_file F dh file) (\<lambda>r.
     fbind (assert_that (r \<noteq> None)) (\<lambda>_.
     Inr (sint (word_of_nat (the r) :: uint32))))"

subsection \<open>send.cpp\<close>

text \<open>
  The packets are packed into arrays of 1024 bytes on the stack. Messages to the standard error stream are left out, except that \<^verbatim>\<open>buf_to_str\<close> copies the name into
  a static buffer of 1024 characters; what that buffer held before never shows.
\<close>

definition into_buf :: "nat \<Rightarrow> byte list res \<Rightarrow> byte list res" where
  "into_buf n packed = fbind packed (\<lambda>buf. if n < length buf then Inl Buffer_overflow else Inr buf)"

definition name_str :: "byte list \<Rightarrow> string res" where
  "name_str name = fbind (buf_to_str name (int (length name)) (replicate 1024 NUL)) (\<lambda>(s, _). Inr s)"

text \<open>The body of the loops of \<^verbatim>\<open>dhash_send_push\<close> and \<^verbatim>\<open>dhash_send_query\<close>, which differ in the packet only.\<close>

definition dhash_send_routed :: "env \<Rightarrow> chordID \<Rightarrow> (in6_addr \<Rightarrow> ushort \<Rightarrow> byte list res) \<Rightarrow> ChordServer \<Rightarrow> ChordServer res" where
  "dhash_send_routed E ident pack srv =
     fbind (into_buf 1024 (pack (s_addr srv) (s_port srv))) (\<lambda>buf.
     let (next, next_is_last) = next_route_node srv ident False in
     if IN6_IS_ADDR_UNSPECIFIED (n_addr next) then Inr srv
     else send_data E srv next_is_last 10 next ident (word_of_nat (length buf)) buf)"

definition dhash_send_push :: "env \<Rightarrow> DHash \<Rightarrow> byte list \<Rightarrow> DHash res" where
  "dhash_send_push E dh name =
     fbind (name_str name) (\<lambda>_.
     let ident = get_data_id E name in
     fbind (fmap (dhash_send_routed E ident (\<lambda>addr port. dhash_pack_push E addr port name)) (dh_servers dh)) (\<lambda>servers.
     Inr (dh\<lparr>dh_servers := servers\<rparr>)))"

definition dhash_send_query :: "env \<Rightarrow> DHash \<Rightarrow> byte list \<Rightarrow> DHash res" where
  "dhash_send_query E dh name =
     fbind (name_str name) (\<lambda>_.
     let ident = get_data_id E name in
     fbind (fmap (dhash_send_routed E ident (\<lambda>addr port. dhash_pack_query E addr port name)) (dh_servers dh)) (\<lambda>servers.
     Inr (dh\<lparr>dh_servers := servers\<rparr>)))"

text \<open>The identifier of the temporary node is never set; nothing reads it.\<close>

definition send_chord_pkt_directly :: "env \<Rightarrow> ChordServer \<Rightarrow> in6_addr \<Rightarrow> ushort \<Rightarrow> byte list \<Rightarrow> ChordServer res" where
  "send_chord_pkt_directly E srv addr port data =
     fbind (get_address_id E addr port) (\<lambda>ident.
     send_data E srv False 10 \<lparr>n_id = [], n_addr = addr, n_port = port\<rparr> ident (word_of_nat (length data)) data)"

definition send_on :: "DHash \<Rightarrow> nat \<Rightarrow> (ChordServer \<Rightarrow> ChordServer res) \<Rightarrow> DHash res" where
  "send_on dh i f = fbind (get_srv dh i) (\<lambda>srv. fbind (f srv) (\<lambda>srv. Inr (set_srv dh i srv)))"

definition dhash_send_query_reply_success :: "env \<Rightarrow> DHash \<Rightarrow> nat \<Rightarrow> in6_addr \<Rightarrow> ushort \<Rightarrow> byte list \<Rightarrow> DHash res" where
  "dhash_send_query_reply_success E dh i addr port name =
     fbind (into_buf 1024 (dhash_pack_query_reply_success E name)) (\<lambda>buf.
     send_on dh i (\<lambda>srv. send_chord_pkt_directly E srv addr port buf))"

definition dhash_send_query_reply_failure :: "env \<Rightarrow> DHash \<Rightarrow> nat \<Rightarrow> in6_addr \<Rightarrow> ushort \<Rightarrow> byte list \<Rightarrow> DHash res" where
  "dhash_send_query_reply_failure E dh i addr port name =
     fbind (into_buf 1024 (dhash_pack_query_reply_failure E name)) (\<lambda>buf.
     send_on dh i (\<lambda>srv. send_chord_pkt_directly E srv addr port buf))"

definition dhash_send_push_reply :: "env \<Rightarrow> DHash \<Rightarrow> nat \<Rightarrow> in6_addr \<Rightarrow> ushort \<Rightarrow> byte list \<Rightarrow> DHash res" where
  "dhash_send_push_reply E dh i addr port name =
     fbind (into_buf 1024 (dhash_pack_push_reply E name)) (\<lambda>buf.
     send_on dh i (\<lambda>srv. send_chord_pkt_directly E srv addr port buf))"

text \<open>A write to the control socket that fails is only reported.\<close>

definition dhash_send_control_packet :: "env \<Rightarrow> DHash \<Rightarrow> dhash_reply_code \<Rightarrow> byte list \<Rightarrow> DHash res" where
  "dhash_send_control_packet E dh code name =
     fbind (into_buf 1024 (Inr (dhash_pack_control_request_reply E (reply_code code) name))) (\<lambda>buf.
     Inr (dh\<lparr>dh_control_out := dh_control_out dh @ [buf]\<rparr>))"

definition dhash_send_control_query_success :: "env \<Rightarrow> DHash \<Rightarrow> byte list \<Rightarrow> DHash res" where
  "dhash_send_control_query_success E dh name = dhash_send_control_packet E dh DHASH_CLIENT_REPLY_SUCCESS name"

definition dhash_send_control_query_failure :: "env \<Rightarrow> DHash \<Rightarrow> byte list \<Rightarrow> DHash res" where
  "dhash_send_control_query_failure E dh name = dhash_send_control_packet E dh DHASH_CLIENT_REPLY_FAILURE name"

text \<open>What the client process writes to its end of the control socket; its array has the size of a datagram.\<close>

definition dhash_client_send_request :: "env \<Rightarrow> byte list \<Rightarrow> byte list res" where
  "dhash_client_send_request E name = into_buf BUFSIZE (dhash_pack_client_request E name)"

subsection \<open>process.cpp\<close>

text \<open>
  The functions return an \<^verbatim>\<open>int\<close>; the value 1 (in the enumeration of the Chord errors \<open>CHORD_PROTOCOL_ERROR\<close>) makes the caller forward the packet.
  The transfer object may be \<^verbatim>\<open>NULL\<close>, and the functions that start it do not check.
\<close>

definition start_transfer :: "fenv \<Rightarrow> DHash \<Rightarrow> nat \<Rightarrow> in6_addr \<Rightarrow> ushort \<Rightarrow> (nat option \<Rightarrow> tworld \<Rightarrow> tworld res) \<Rightarrow> DHash res" where
  "start_transfer F dh i addr port go =
     fbind (get_srv dh i) (\<lambda>srv.
     let (tp, w) = new_transfer (fe_udt F) (uint (s_port srv) + 1) addr port (dh_files_path dh) (dh_world dh) in
     fbind (go tp w) (\<lambda>w. Inr (dh\<lparr>dh_world := w\<rparr>)))"

definition dhash_process_query :: "env \<Rightarrow> fenv \<Rightarrow> DHash \<Rightarrow> nat \<Rightarrow> Query \<Rightarrow> Node \<Rightarrow> dh_handled" where
  "dhash_process_query E F dh i msg from =
     fbind (v6_addr_set (qry_reply_addr msg)) (\<lambda>reply_addr.
     if qry_name msg = [] then Inr (CHORD_NO_ERROR, dh)
     else
       fbind (name_str (qry_name msg)) (\<lambda>_.
       fbind (dhash_local_file_exists F dh (qry_name msg)) (\<lambda>have_it.
       if have_it then
         fbind (dhash_send_query_reply_success E dh i reply_addr (ucast (qry_reply_port msg)) (qry_name msg)) (\<lambda>dh.
         fbind (start_transfer F dh i reply_addr (ucast (qry_reply_port msg + 1)) transfer_start_sending) (\<lambda>dh.
         Inr (CHORD_NO_ERROR, dh)))
       else
         fbind (get_srv dh i) (\<lambda>srv.
         if chord_id_is_local srv (get_data_id E (qry_name msg)) then
           fbind (dhash_send_query_reply_failure E dh i reply_addr (ucast (qry_reply_port msg)) (qry_name msg)) (\<lambda>dh.
           Inr (CHORD_NO_ERROR, dh))
         else Inr (CHORD_PROTOCOL_ERROR, dh)))))"

definition dhash_process_query_reply_success :: "env \<Rightarrow> fenv \<Rightarrow> DHash \<Rightarrow> nat \<Rightarrow> QueryReplySuccess \<Rightarrow> Node \<Rightarrow> dh_handled" where
  "dhash_process_query_reply_success E F dh i msg from =
     fbind (name_str (qrs_name msg)) (\<lambda>file.
     fbind (start_transfer F dh i (n_addr from) (n_port from + 1) (\<lambda>tp w.
       fbind (transfer_set_callbacks tp (Some CB_receive_success) (Some CB_receive_fail) w) (\<lambda>w.
       transfer_start_receiving tp file w))) (\<lambda>dh.
     Inr (CHORD_NO_ERROR, dh)))"

definition dhash_process_query_reply_failure :: "env \<Rightarrow> fenv \<Rightarrow> DHash \<Rightarrow> nat \<Rightarrow> QueryReplyFailure \<Rightarrow> Node \<Rightarrow> dh_handled" where
  "dhash_process_query_reply_failure E F dh i msg from =
     fbind (dhash_send_control_query_failure E dh (qrf_name msg)) (\<lambda>dh. Inr (CHORD_NO_ERROR, dh))"

definition dhash_process_push :: "env \<Rightarrow> fenv \<Rightarrow> DHash \<Rightarrow> nat \<Rightarrow> Push \<Rightarrow> Node \<Rightarrow> dh_handled" where
  "dhash_process_push E F dh i msg from =
     fbind (v6_addr_set (psh_reply_addr msg)) (\<lambda>reply_addr.
     fbind (name_str (psh_name msg)) (\<lambda>file.
     fbind (dhash_local_file_exists F dh (psh_name msg)) (\<lambda>have_it.
     if have_it then Inr (CHORD_NO_ERROR, dh)
     else
       fbind (dhash_send_push_reply E dh i reply_addr (ucast (psh_reply_port msg)) (psh_name msg)) (\<lambda>dh.
       fbind (start_transfer F dh i reply_addr (ucast (psh_reply_port msg + 1)) (\<lambda>tp w. transfer_start_receiving tp file w)) (\<lambda>dh.
       Inr (CHORD_NO_ERROR, dh))))))"

definition dhash_process_push_reply :: "env \<Rightarrow> fenv \<Rightarrow> DHash \<Rightarrow> nat \<Rightarrow> PushReply \<Rightarrow> Node \<Rightarrow> dh_handled" where
  "dhash_process_push_reply E F dh i msg from =
     fbind (name_str (pshr_name msg)) (\<lambda>_.
     fbind (start_transfer F dh i (n_addr from) (n_port from + 1) transfer_start_sending) (\<lambda>dh.
     Inr (CHORD_NO_ERROR, dh)))"

definition dhash_process_client_request :: "env \<Rightarrow> fenv \<Rightarrow> DHash \<Rightarrow> ClientRequest \<Rightarrow> dh_handled" where
  "dhash_process_client_request E F dh msg =
     fbind (dhash_local_file_exists F dh (cr_name msg)) (\<lambda>have_it.
     fbind (if have_it then dhash_send_control_packet E dh DHASH_CLIENT_REPLY_LOCAL (cr_name msg)
            else dhash_send_query E dh (cr_name msg)) (\<lambda>dh.
     Inr (CHORD_NO_ERROR, dh)))"

text \<open>
  The callbacks of a receiving transfer, run by the event loop in the main thread. A file that cannot be opened, parsed or verified leaves the transfer
  object allocated and the requesting client without an answer.
\<close>

definition receive_success :: "env \<Rightarrow> fenv \<Rightarrow> nat \<Rightarrow> DHash \<Rightarrow> DHash res" where
  "receive_success E F p dh =
     fbind (load_transfer (dh_world dh) p) (\<lambda>t.
     fbind (deref (t_file t)) (\<lambda>file.
     fbind (transfer_path (dh_files_path dh) file) (\<lambda>abs_file_path.
     case tw_files (dh_world dh) abs_file_path of
       None \<Rightarrow> Inr dh
     | Some content \<Rightarrow>
         if fe_cms F content \<noteq> Some True then Inr dh
         else
           fbind (dhash_send_control_query_success E dh (bytes_of file)) (\<lambda>dh.
           fbind (dhash_send_push E dh (bytes_of file)) (\<lambda>dh.
           fbind (free_transfer (Some p) (dh_world dh)) (\<lambda>w.
           Inr (dh\<lparr>dh_world := w\<rparr>)))))))"

definition receive_fail :: "env \<Rightarrow> nat \<Rightarrow> DHash \<Rightarrow> DHash res" where
  "receive_fail E p dh =
     fbind (load_transfer (dh_world dh) p) (\<lambda>t.
     fbind (deref (t_file t)) (\<lambda>file.
     fbind (dhash_send_control_query_failure E dh (bytes_of file)) (\<lambda>dh.
     fbind (free_transfer (Some p) (dh_world dh)) (\<lambda>w.
     Inr (dh\<lparr>dh_world := w\<rparr>)))))"

definition run_callback :: "env \<Rightarrow> fenv \<Rightarrow> transfer_event_fn \<Rightarrow> nat \<Rightarrow> DHash \<Rightarrow> DHash res" where
  "run_callback E F cb p dh = (case cb of CB_receive_success \<Rightarrow> receive_success E F p dh | CB_receive_fail \<Rightarrow> receive_fail E p dh)"

definition call_success_cb :: "env \<Rightarrow> fenv \<Rightarrow> nat \<Rightarrow> DHash \<Rightarrow> DHash res" where
  "call_success_cb E F p dh =
     fbind (load_transfer (dh_world dh) p) (\<lambda>t. fbind (deref (t_success_cb t)) (\<lambda>cb. run_callback E F cb p dh))"

definition call_fail_cb :: "env \<Rightarrow> fenv \<Rightarrow> nat \<Rightarrow> DHash \<Rightarrow> DHash res" where
  "call_fail_cb E F p dh =
     fbind (load_transfer (dh_world dh) p) (\<lambda>t. fbind (deref (t_fail_cb t)) (\<lambda>cb. run_callback E F cb p dh))"

subsection \<open>pack.cpp: dispatching\<close>

text \<open>The registered functions; \<^verbatim>\<open>args->dhash\<close> is the first registered argument, \<^verbatim>\<open>args->srv\<close> the one that was pushed.\<close>

fun data_args :: "dh_arg list \<Rightarrow> nat res" where
  "data_args (Arg_dhash # Arg_srv i # rest) = Inr i"
| "data_args (a # b # rest) = Inl Type_confusion"
| "data_args _ = Inl Out_of_bounds"

definition call_dhash :: "env \<Rightarrow> fenv \<Rightarrow> dh_process \<Rightarrow> nat \<Rightarrow> message \<Rightarrow> Node \<Rightarrow> DHash \<Rightarrow> dh_handled" where
  "call_dhash E F process i msg from dh =
     (case (process, msg) of
        (DP_query, M_Query m) \<Rightarrow> dhash_process_query E F dh i m from
      | (DP_query_reply_success, M_QueryReplySuccess m) \<Rightarrow> dhash_process_query_reply_success E F dh i m from
      | (DP_query_reply_failure, M_QueryReplyFailure m) \<Rightarrow> dhash_process_query_reply_failure E F dh i m from
      | (DP_push, M_Push m) \<Rightarrow> dhash_process_push E F dh i m from
      | (DP_push_reply, M_PushReply m) \<Rightarrow> dhash_process_push_reply E F dh i m from
      | _ \<Rightarrow> Inl Type_confusion)"

definition dhash_run :: "env \<Rightarrow> fenv \<Rightarrow> dh_process \<Rightarrow> dh_arg list \<Rightarrow> message \<Rightarrow> Node \<Rightarrow> DHash \<Rightarrow> dh_handled" where
  "dhash_run E F process args msg from dh = fbind (data_args args) (\<lambda>i. call_dhash E F process i msg from dh)"

text \<open>
  The handler of data packets. A packet whose inner message cannot be decoded leaves \<^verbatim>\<open>process_ret\<close> unset, and it is then read. The trace message of \<^verbatim>\<open>dispatch_packet\<close> also reads
  the byte of the inner packet whose index is the packet's type; the inner packet is not a buffer of full size, so it may have too few bytes for that.
\<close>

definition dhash_unpack_chord_data :: "env \<Rightarrow> fenv \<Rightarrow> dh_arg list \<Rightarrow> Data \<Rightarrow> Node \<Rightarrow> DHash \<Rightarrow> dh_handled" where
  "dhash_unpack_chord_data E F args msg from dh =
     (case args of
        Arg_srv i # Arg_dhash # _ \<Rightarrow>
          fbind (dispatcher_get_type E (dat_data msg)) (\<lambda>type.
          fbind (dispatcher_push_arg (dh_chord_dispatcher dh) type (Arg_srv i)) (\<lambda>(_, d).
          fbind (if 0 \<le> type \<and> type < int (length (dat_data msg)) then Inr () else Inl Out_of_bounds) (\<lambda>_.
          fbind (dispatch_packet E (dhash_run E F) d (dat_data msg) from (dh\<lparr>dh_chord_dispatcher := d\<rparr>)) (\<lambda>(ret, dh).
          fbind (dispatcher_pop_arg (dh_chord_dispatcher dh) type) (\<lambda>(_, d).
          let dh = dh\<lparr>dh_chord_dispatcher := d\<rparr> in
          fbind (if \<not> dr_known ret then Inr True
                 else fbind (read_var (dr_process_ret ret)) (\<lambda>process_ret. Inr (process_ret \<noteq> CHORD_NO_ERROR))) (\<lambda>forward.
          if forward then
            fbind (get_srv dh i) (\<lambda>srv.
            fbind (process_data E srv msg from) (\<lambda>(_, srv).
            Inr (CHORD_NO_ERROR, set_srv dh i srv)))
          else Inr (CHORD_NO_ERROR, dh)))))))
      | _ \<Rightarrow> Inl Type_confusion)"

text \<open>
  Requests of the client process. The sender is \<^verbatim>\<open>NULL\<close>, and \<^verbatim>\<open>dispatch_packet\<close> evaluates its address for the trace message before it looks at the packet's type; a failed read passes on
  a negative length.
\<close>

definition control_run :: "env \<Rightarrow> fenv \<Rightarrow> dh_process \<Rightarrow> dh_arg list \<Rightarrow> message \<Rightarrow> Node \<Rightarrow> DHash \<Rightarrow> dh_handled" where
  "control_run E F process args msg from dh =
     (case (process, args, msg) of
        (DP_client_request, Arg_dhash # _, M_ClientRequest m) \<Rightarrow> dhash_process_client_request E F dh m
      | _ \<Rightarrow> Inl Type_confusion)"

definition dhash_unpack_control_packet :: "env \<Rightarrow> fenv \<Rightarrow> byte list option \<Rightarrow> DHash \<Rightarrow> DHash res" where
  "dhash_unpack_control_packet E F received dh =
     (case received of
        None \<Rightarrow> Inl Out_of_bounds
      | Some buf \<Rightarrow>
          fbind (deref (header__unpack E buf)) (\<lambda>_.
          fbind (deref (None :: Node option)) (\<lambda>from.
          fbind (dispatch_packet E (control_run E F) (dh_control_dispatcher dh) buf from dh) (\<lambda>(_, dh).
          Inr dh))))"

text \<open>
  The client's side of the control socket: the reply it unpacks, with the text that \<^verbatim>\<open>process_reply\<close> prints. It prints the name as a string, although the decoded name has its length and
  no terminator: unless the name itself has a NUL, the read goes past its end.
\<close>

definition print_name :: "byte list \<Rightarrow> string \<Rightarrow> string res" where
  "print_name name s = (if 0 \<in> set name then Inr (cstr (str_of name) @ s) else Inl Out_of_bounds)"

definition process_reply :: "int \<Rightarrow> byte list \<Rightarrow> string res" where
  "process_reply code name =
     (if code = reply_code DHASH_CLIENT_REPLY_LOCAL then print_name name '' is local\<newline>''
      else if code = reply_code DHASH_CLIENT_REPLY_SUCCESS then print_name name '' retrieved successfully\<newline>''
      else if code = reply_code DHASH_CLIENT_REPLY_FAILURE then print_name name '' retrieval failed\<newline>''
      else Inr ''unknown code\<newline>'')"

definition dhash_client_unpack_request_reply :: "env \<Rightarrow> byte list \<Rightarrow> (int \<Rightarrow> byte list \<Rightarrow> 'r res) \<Rightarrow> 'r option res" where
  "dhash_client_unpack_request_reply E buf handler =
     (case pb_unpack E client_request_reply__descriptor buf of
        Some (M_ClientRequestReply reply) \<Rightarrow> fbind (handler (sint (crr_code reply)) (crr_name reply)) (\<lambda>r. Inr (Some r))
      | _ \<Rightarrow> Inr None)"

definition handle_reply :: "env \<Rightarrow> byte list option \<Rightarrow> string option res" where
  "handle_reply E received =
     (case received of
        None \<Rightarrow> Inl Out_of_bounds
      | Some buf \<Rightarrow> dhash_client_unpack_request_reply E buf process_reply)"

subsection \<open>dhash.cpp: starting\<close>

definition dhash_handlers :: "(dhash_type \<times> string \<times> msg_desc \<times> dh_process) list" where
  "dhash_handlers =
     [(DHASH_QUERY, ''DHASH_QUERY'', query__descriptor, DP_query),
      (DHASH_QUERY_REPLY_SUCCESS, ''DHASH_QUERY_REPLY_SUCCESS'', query_reply_success__descriptor, DP_query_reply_success),
      (DHASH_QUERY_REPLY_FAILURE, ''DHASH_QUERY_REPLY_FAILURE'', query_reply_failure__descriptor, DP_query_reply_failure),
      (DHASH_PUSH, ''DHASH_PUSH'', push__descriptor, DP_push),
      (DHASH_PUSH_REPLY, ''DHASH_PUSH_REPLY'', push_reply__descriptor, DP_push_reply)]"

fun dhash_set_packets :: "dh_dispatcher \<Rightarrow> (dhash_type \<times> string \<times> msg_desc \<times> dh_process) list \<Rightarrow> dh_dispatcher res" where
  "dhash_set_packets d [] = Inr d"
| "dhash_set_packets d ((t, name, unpack, process) # rest) =
     fbind (dispatcher_set_packet_body d (dhash_num t) name Arg_dhash unpack process) (\<lambda>d. dhash_set_packets d rest)"

text \<open>
  A certificate that cannot be opened ends the program (\<^verbatim>\<open>eprintf\<close> exits with status 2); one that cannot be parsed makes the function return \<^verbatim>\<open>NULL\<close>. The files
  are those the process finds.
\<close>

definition new_dhash :: "fenv \<Rightarrow> (string \<Rightarrow> byte list option) \<Rightarrow> string \<Rightarrow> string \<Rightarrow> DHash option res" where
  "new_dhash F files files_path cert_path =
     fbind (dispatcher_set_packet_body (new_dispatcher (nat (client_num DHASH_CLIENT_REQUEST + 1))) (client_num DHASH_CLIENT_REQUEST)
       ''DHASH_CLIENT_REQUEST'' Arg_dhash client_request__descriptor DP_client_request) (\<lambda>control_dispatcher.
     fbind (dhash_set_packets (new_dispatcher (nat (dhash_num DHASH_PUSH_REPLY + 1))) dhash_handlers) (\<lambda>chord_dispatcher.
     case fe_cert F cert_path of
       None \<Rightarrow> Inl (Exited 2)
     | Some parsed \<Rightarrow>
         if \<not> parsed then Inr None
         else
           Inr (Some \<lparr>dh_servers = [], dh_srv_disps = [], dh_files_path = files_path, dh_control_out = [],
             dh_world = \<lparr>tw_files = files, tw_transfers = [], tw_threads = [], tw_active = []\<rparr>,
             dh_control_dispatcher = control_dispatcher, dh_chord_dispatcher = chord_dispatcher\<rparr>)))"

text \<open>The dispatcher that \<^verbatim>\<open>new_server\<close> builds, with the server's index for the pointer it registers.\<close>

definition retarget_handler :: "nat \<Rightarrow> (unit, process_fn) packet_handler \<Rightarrow> (dh_arg, dh_process) packet_handler" where
  "retarget_handler i h = \<lparr>h_name = h_name h, h_process_args = map (\<lambda>_. Arg_srv i) (h_process_args h), h_nargs = h_nargs h,
     h_unpack = h_unpack h, h_process = map_option DP_chord (h_process h)\<rparr>"

definition retarget :: "nat \<Rightarrow> chord_dispatcher \<Rightarrow> dh_dispatcher" where
  "retarget i d = \<lparr>d_handlers = map (retarget_handler i) (d_handlers d),
     d_odd = map (\<lambda>node. \<lparr>o_value = o_value node, o_handler = retarget_handler i (o_handler node)\<rparr>) (d_odd d),
     d_size = d_size d, d_unpack_error = d_unpack_error d, d_process_error = d_process_error d\<rparr>"

text \<open>
  The loop of \<^verbatim>\<open>dhash_start\<close>, with the random bytes of each server and the descriptor of its socket. The servers keep the zeroed configuration: reading it from a file is commented out, so
  their port is 0 and their sockets are IPv4. Without the pair of sockets for the control process the program ends.
\<close>

definition dhash_start_server :: "nat \<Rightarrow> byte list \<Rightarrow> int \<Rightarrow> (ChordServer \<times> dh_dispatcher) res" where
  "dhash_start_server i rand fd =
     fbind (new_server rand) (\<lambda>(srv, d).
     fbind (dispatcher_set_packet_handlers (retarget i d) (packet_num CHORD_DATA) data__descriptor DP_unpack_chord_data) (\<lambda>(_, d).
     fbind (dispatcher_push_arg d (packet_num CHORD_DATA) Arg_dhash) (\<lambda>(_, d).
     Inr (server_set_socket fd srv, d))))"

definition dhash_start :: "bool \<Rightarrow> (byte list \<times> int) list \<Rightarrow> DHash \<Rightarrow> DHash res" where
  "dhash_start socketpair_ok conf dh =
     (if \<not> socketpair_ok then Inl (Exited 2)
      else
        fbind (fmap (\<lambda>(i, rand, fd). dhash_start_server i rand fd) (zip [0..<length conf] conf)) (\<lambda>started.
        Inr (dh\<lparr>dh_servers := map fst started, dh_srv_disps := map snd started\<rparr>)))"

text \<open>\<^verbatim>\<open>handle_packet\<close> of a server that the file client started.\<close>

definition server_run :: "env \<Rightarrow> fenv \<Rightarrow> dh_process \<Rightarrow> dh_arg list \<Rightarrow> message \<Rightarrow> Node \<Rightarrow> DHash \<Rightarrow> dh_handled" where
  "server_run E F process args msg from dh =
     (case (process, args) of
        (DP_chord pf, Arg_srv i # _) \<Rightarrow>
          fbind (get_srv dh i) (\<lambda>srv.
          fbind (call_process E pf msg from srv) (\<lambda>(ret, srv).
          Inr (ret, set_srv dh i srv)))
      | (DP_unpack_chord_data, _) \<Rightarrow> (case msg of M_Data m \<Rightarrow> dhash_unpack_chord_data E F args m from dh | _ \<Rightarrow> Inl Type_confusion)
      | _ \<Rightarrow> Inl Type_confusion)"

definition dhash_handle_packet :: "env \<Rightarrow> fenv \<Rightarrow> nat \<Rightarrow> (sockaddr \<times> byte list) option \<Rightarrow> DHash \<Rightarrow> DHash res" where
  "dhash_handle_packet E F i received dh =
     (case received of
        None \<Rightarrow> Inr dh
      | Some (from_sa, buf) \<Rightarrow>
          fbind (get_srv dh i) (\<lambda>srv.
          fbind (if i < length (dh_srv_disps dh) then Inr (dh_srv_disps dh ! i) else Inl Out_of_bounds) (\<lambda>d.
          fbind (from_node E srv from_sa) (\<lambda>from.
          fbind (dispatch_packet E (server_run E F) d buf from dh) (\<lambda>(_, dh).
          Inr dh)))))"

subsection \<open>Names and paths\<close>

lemma cstr_append: "NUL \<notin> set s \<Longrightarrow> cstr (s @ t) = s @ cstr t"
  by (induction s) (auto simp: cstr_def)

lemma cstr_NUL: "cstr (s @ NUL # t) = cstr s"
  by (induction s) (auto simp: cstr_def)

lemma cstr_slash: "cstr (CHR ''/'' # s) = CHR ''/'' # cstr s"
  by (simp add: cstr_def NUL_def char_of_def)

lemma name_str_ok: "length name < 1024 \<Longrightarrow> name_str name = Inr (cstr (str_of name))"
proof -
  assume len: "length name < 1024"
  then obtain k where k: "1024 - length name = Suc k" by (cases "1024 - length name") auto
  then have "map (\<lambda>b. char_of (unat b)) name @ drop (length name) (replicate 1024 NUL) = str_of name @ NUL # replicate k NUL"
    by (simp add: str_of_def)
  then show ?thesis
    using len by (simp add: name_str_def buf_to_str_def put_nul_def list_update_append cstr_NUL str_of_def)
qed

text \<open>The path that is looked up, and the file there.\<close>

definition file_at :: "DHash \<Rightarrow> byte list \<Rightarrow> byte list option" where
  "file_at dh name = tw_files (dh_world dh) (dh_files_path dh @ ''/'' @ cstr (str_of name))"

lemma stat_spare:
  assumes "NUL \<notin> set (dh_files_path dh)" and "length (dh_files_path dh) + length name + 1 < length (fe_vla F (length (dh_files_path dh) + length name + 1))"
  shows "dhash_stat_local_file F dh name = Inr (map_option length (file_at dh name))"
proof -
  define len where "len = length (dh_files_path dh) + length name + 1"
  let ?d = "dh_files_path dh" and ?v = "fe_vla F len"
  have n: "length (str_of name) = length name" by (simp add: str_of_def)
  have l: "len < length ?v" using assms(2) by (simp add: len_def)
  have s1: "sprintf_at 0 ?d ?v = Inr (?d @ NUL # drop (length ?d + 1) ?v)" using l by (simp add: sprintf_at_def len_def)
  have s2: "sprintf_at (length ?d) ''/'' (?d @ NUL # drop (length ?d + 1) ?v) = Inr (?d @ CHR ''/'' # NUL # drop (length ?d + 2) ?v)"
    using l by (simp add: sprintf_at_def len_def)
  obtain v2 where v2: "drop (length ?d + 2) ?v = v2" by blast
  have s3: "memcpy_at (length ?d + 1) (str_of name) (?d @ CHR ''/'' # NUL # v2) = Inr (?d @ CHR ''/'' # str_of name @ drop (length name) (NUL # v2))"
    using l v2 n by (auto simp: memcpy_at_def len_def)
  have "0 < length (drop (length name) (NUL # v2))" using l v2 by (auto simp: len_def)
  then obtain c v3 where v3: "drop (length name) (NUL # v2) = c # v3" by (cases "drop (length name) (NUL # v2)") auto
  have s4: "put_nul len (?d @ CHR ''/'' # str_of name @ c # v3) = Inr (?d @ CHR ''/'' # str_of name @ NUL # v3)"
    by (simp add: put_nul_def len_def n list_update_append)
  show ?thesis
    using assms(1) s1 s2 s3 s4 v2 v3 unfolding dhash_stat_local_file_def Let_def len_def [symmetric]
    by (simp add: cstr_append cstr_slash cstr_NUL file_at_def)
qed

lemma stat_exact:
  assumes "length (fe_vla F (length (dh_files_path dh) + length name + 1)) = length (dh_files_path dh) + length name + 1"
  shows "dhash_stat_local_file F dh name = Inl Out_of_bounds"
  using assms unfolding dhash_stat_local_file_def Let_def
  by (cases name) (auto simp: sprintf_at_def memcpy_at_def put_nul_def str_of_def)

text \<open>
  C36. Looking a file up: with at least one spare byte behind the array the function asks for the file of that name (up to its first NUL) in the directory; if the array is as long as it was
  declared, it writes past its end, whatever the file.
\<close>

theorem dhash_stat_local_file_correct:
  assumes "NUL \<notin> set (dh_files_path dh)"
  shows "let len = length (dh_files_path dh) + length name + 1 in
    (len < length (fe_vla F len) \<longrightarrow> dhash_stat_local_file F dh name =
      Inr (map_option length (tw_files (dh_world dh) (dh_files_path dh @ ''/'' @ cstr (str_of name))))) \<and>
    (length (fe_vla F len) = len \<longrightarrow> dhash_stat_local_file F dh name = Inl Out_of_bounds)"
  using stat_spare [OF assms, of name F] stat_exact [of F dh name] by (simp add: Let_def file_at_def)

subsection \<open>The inner dispatcher\<close>

text \<open>
  What holds of the dispatcher between two packets: the five handlers are registered with the \<^verbatim>\<open>DHash\<close> object as their only argument. What an earlier packet pushed and popped is
  still in the array behind it.
\<close>

definition dh_disp_ok :: "dh_dispatcher \<Rightarrow> bool" where
  "dh_disp_ok d \<longleftrightarrow> d_size d = 5 \<and> length (d_handlers d) = 5 \<and>
     list_all (\<lambda>(t, name, unpack, process). let h = d_handlers d ! nat (dhash_num t) in
       h_nargs h = 1 \<and> take 1 (h_process_args h) = [Arg_dhash] \<and> h_unpack h = Some unpack \<and> h_process h = Some process) dhash_handlers"

definition pushed :: "dh_dispatcher \<Rightarrow> nat \<Rightarrow> nat \<Rightarrow> dh_dispatcher" where
  "pushed d k i = d\<lparr>d_handlers := (d_handlers d)[k := (d_handlers d ! k)\<lparr>h_nargs := 2, h_process_args := [Arg_dhash, Arg_srv i]\<rparr>]\<rparr>"

definition popped :: "dh_dispatcher \<Rightarrow> nat \<Rightarrow> nat \<Rightarrow> dh_dispatcher" where
  "popped d k i = d\<lparr>d_handlers := (d_handlers d)[k := (d_handlers d ! k)\<lparr>h_process_args := [Arg_dhash, Arg_srv i], h_nargs := 1\<rparr>]\<rparr>"

lemma dhash_num_bounds [simp]: "0 \<le> dhash_num t" "dhash_num t < 5" "nat (dhash_num t) < 5"
  by (cases t; simp)+

lemma dh_disp_handler:
  assumes "dh_disp_ok d" and "(t, name, unpack, process) \<in> set dhash_handlers"
  shows "h_nargs (d_handlers d ! nat (dhash_num t)) = 1" "take 1 (h_process_args (d_handlers d ! nat (dhash_num t))) = [Arg_dhash]"
    "h_unpack (d_handlers d ! nat (dhash_num t)) = Some unpack" "h_process (d_handlers d ! nat (dhash_num t)) = Some process"
  using assms by (auto simp: dh_disp_ok_def list_all_iff Let_def)

lemma dh_disp_type: "\<exists>name unpack process. (t, name, unpack, process) \<in> set dhash_handlers"
  by (cases t) (auto simp: dhash_handlers_def)

lemma push_arg_ok:
  assumes "dh_disp_ok d"
  shows "dispatcher_push_arg d (dhash_num t) (Arg_srv i) = Inr (True, pushed d (nat (dhash_num t)) i)"
proof -
  obtain name unpack process where h: "(t, name, unpack, process) \<in> set dhash_handlers" using dh_disp_type by blast
  show ?thesis
    using assms dh_disp_handler [OF assms h] by (simp add: dispatcher_push_arg_def get_handler_def dh_disp_ok_def pushed_def)
qed

lemma pop_arg_ok:
  assumes "dh_disp_ok d"
  shows "dispatcher_pop_arg (pushed d (nat (dhash_num t)) i) (dhash_num t) = Inr (Some (Arg_srv i), popped d (nat (dhash_num t)) i)"
  using assms by (simp add: dispatcher_pop_arg_def get_handler_def dh_disp_ok_def pushed_def popped_def)

lemma popped_ok:
  assumes "dh_disp_ok d"
  shows "dh_disp_ok (popped d (nat (dhash_num t)) i)"
  using assms by (auto simp: dh_disp_ok_def popped_def nth_list_update list_all_iff Let_def)

definition dhash_disp :: dh_dispatcher where
  "dhash_disp = \<lparr>d_handlers = map (\<lambda>(t, name, unpack, process). init_handler name Arg_dhash unpack process) dhash_handlers,
     d_odd = [], d_size = 5, d_unpack_error = False, d_process_error = False\<rparr>"

lemma dhash_set_packets_eq: "dhash_set_packets (new_dispatcher 5) dhash_handlers = Inr dhash_disp"
  by (simp add: dhash_handlers_def new_dispatcher_def set_packet_slot dhash_disp_def eval_nat_numeral)

lemma dhash_disp_ok: "dh_disp_ok dhash_disp"
  by (simp add: dh_disp_ok_def dhash_disp_def dhash_handlers_def init_handler_def)

lemma new_dhash_result:
  assumes "new_dhash F files path cert = Inr (Some dh)"
  shows "dh_chord_dispatcher dh = dhash_disp" and "dh_files_path dh = path" and "dh_servers dh = []"
    and "dh_world dh = \<lparr>tw_files = files, tw_transfers = [], tw_threads = [], tw_active = []\<rparr>"
proof -
  obtain cd :: dh_dispatcher where "dispatcher_set_packet_body (new_dispatcher 1) 0 ''DHASH_CLIENT_REQUEST'' Arg_dhash client_request__descriptor DP_client_request = Inr cd"
    by (simp add: set_packet_slot new_dispatcher_def)
  moreover have "nat (client_num DHASH_CLIENT_REQUEST + 1) = 1" "nat (dhash_num DHASH_PUSH_REPLY + 1) = 5" by simp_all
  ultimately have "dh = \<lparr>dh_servers = [], dh_srv_disps = [], dh_files_path = path, dh_control_out = [],
      dh_world = \<lparr>tw_files = files, tw_transfers = [], tw_threads = [], tw_active = []\<rparr>, dh_control_dispatcher = cd, dh_chord_dispatcher = dhash_disp\<rparr>"
    using assms unfolding new_dhash_def client_num.simps dhash_set_packets_eq by (cases "fe_cert F cert") (simp_all add: dhash_set_packets_eq split: if_splits)
  then show "dh_chord_dispatcher dh = dhash_disp" "dh_files_path dh = path" "dh_servers dh = []"
    "dh_world dh = \<lparr>tw_files = files, tw_transfers = [], tw_threads = [], tw_active = []\<rparr>" by simp_all
qed

lemma empty_world_wf: "wf_world \<lparr>tw_files = files, tw_transfers = [], tw_threads = [], tw_active = []\<rparr>"
  by (simp add: wf_world_def busy_def)

text \<open>The bytes of a packet of the file client.\<close>

definition dhash_packet :: "env \<Rightarrow> dhash_type \<Rightarrow> message \<Rightarrow> byte list" where
  "dhash_packet E t msg = pb_pack E (M_Header \<lparr>hdr_has_version = True, hdr_version = 1, hdr_type = word_of_int (dhash_num t), hdr_payload = pb_pack E msg\<rparr>)"

lemma header_dhash_packet:
  assumes "codec_ok E"
  shows "header__unpack E (dhash_packet E t msg) =
    Some \<lparr>hdr_has_version = True, hdr_version = 1, hdr_type = word_of_int (dhash_num t), hdr_payload = pb_pack E msg\<rparr>"
  using codec_roundtrip [OF assms, of "M_Header \<lparr>hdr_has_version = True, hdr_version = 1, hdr_type = word_of_int (dhash_num t), hdr_payload = pb_pack E msg\<rparr>"]
  by (simp add: header__unpack_def dhash_packet_def)

lemma dhash_type_word: "sint (word_of_int (dhash_num t) :: uint32) = dhash_num t" "unat (word_of_int (dhash_num t) :: uint32) < length PACKET_NAMES"
  by (cases t; simp add: PACKET_NAMES_def)+

lemma dispatch_dhash_packet:
  assumes "codec_ok E" and "dh_disp_ok d" and "(t, name, descriptor_of msg, process) \<in> set dhash_handlers" and "canonical msg"
  shows "dispatch_packet E (dhash_run E F) (pushed d (nat (dhash_num t)) i) (dhash_packet E t msg) from dh =
    fbind (call_dhash E F process i msg from dh) (\<lambda>(ret, dh').
      Inr (\<lparr>dr_known = True, dr_process_ret = Some ret, dr_leaked = (if ret = CHORD_NO_ERROR then 0 else 2)\<rparr>, dh'))"
proof -
  let ?h = "d_handlers d ! nat (dhash_num t)"
  have loc: "get_handler (pushed d (nat (dhash_num t)) i) (dhash_num t) = Inr (Some (Slot (nat (dhash_num t))))"
    using assms(2) by (simp add: get_handler_def pushed_def dh_disp_ok_def)
  have at: "handler_at (pushed d (nat (dhash_num t)) i) (Slot (nat (dhash_num t))) = Inr (?h\<lparr>h_nargs := 2, h_process_args := [Arg_dhash, Arg_srv i]\<rparr>)"
    using assms(2) by (simp add: pushed_def dh_disp_ok_def)
  show ?thesis
    using dh_disp_handler [OF assms(2,3)] codec_roundtrip [OF assms(1,4)]
    by (cases "call_dhash E F process i msg from dh")
      (auto simp: dispatch_packet_def header_dhash_packet [OF assms(1)] dhash_type_word loc at dhash_run_def simp del: handler_at.simps)
qed

subsection \<open>Sending\<close>

lemma dhash_pack_ok:
  assumes "codec_size E" and "msg_len msg \<le> 900"
  shows "into_buf 1024 (pack_dhash_header E (dhash_num t) msg) = Inr (dhash_packet E t msg)" and "length (dhash_packet E t msg) \<le> 1024"
proof -
  let ?h = "\<lparr>hdr_has_version = True, hdr_version = 1, hdr_type = word_of_int (dhash_num t), hdr_payload = pb_pack E msg\<rparr>"
  have p: "length (pb_pack E msg) \<le> 932" using codec_sizeD [OF assms(1), of msg] assms(2) by simp
  then have h: "length (pb_pack E (M_Header ?h)) \<le> 964" using codec_sizeD [OF assms(1), of "M_Header ?h"] by simp
  then show "length (dhash_packet E t msg) \<le> 1024" by (simp add: dhash_packet_def)
  show "into_buf 1024 (pack_dhash_header E (dhash_num t) msg) = Inr (dhash_packet E t msg)"
    using p h by (simp add: into_buf_def pack_dhash_header_def pack_header_def DHASH_WIRE_VERSION_def HEADER__INIT_def dhash_packet_def BUFSIZE_def Let_def)
qed

text \<open>The data packet that carries a message of the file client straight to a node.\<close>

definition direct :: "env \<Rightarrow> in6_addr \<Rightarrow> ushort \<Rightarrow> byte list \<Rightarrow> message" where
  "direct E addr port data =
     M_Data \<lparr>dat_id = addr_id E addr port, dat_has_ttl = True, dat_ttl = 10, dat_has_last = True, dat_last = False, dat_data = data\<rparr>"

lemma send_direct_ok:
  assumes "env_ok E" and "length data \<le> 1024" and "can_send srv addr"
  shows "send_chord_pkt_directly E srv addr port data = Inr (post E srv addr port CHORD_DATA (direct E addr port data))"
proof -
  have len: "unat (word_of_nat (length data) :: ushort) = length data" using assms(2) by (simp add: unat_of_nat take_bit_eq_mod)
  have "sha1_ok E" using assms(1) by (simp add: env_ok_def)
  then show ?thesis
    using send_data_total [OF assms(1), where i = "addr_id E addr port" and n = "word_of_nat (length data)" and data = data and srv = srv
        and np = "\<lparr>n_id = [], n_addr = addr, n_port = port\<rparr>" and l = False and ttl = 10] assms(2,3)
    by (simp add: send_chord_pkt_directly_def len direct_def)
qed

lemmas reply_defs = dhash_send_query_reply_success_def dhash_send_query_reply_failure_def dhash_send_push_reply_def dhash_pack_query_reply_success_def
  dhash_pack_query_reply_failure_def dhash_pack_push_reply_def QUERY_REPLY_SUCCESS__INIT_def QUERY_REPLY_FAILURE__INIT_def PUSH_REPLY__INIT_def

lemma send_reply_ok:
  assumes "env_ok E" and "length name \<le> 900" and "i < length (dh_servers dh)" and "can_send (dh_servers dh ! i) addr"
  shows "dhash_send_query_reply_success E dh i addr port name =
      Inr (set_srv dh i (post E (dh_servers dh ! i) addr port CHORD_DATA (direct E addr port (dhash_packet E DHASH_QUERY_REPLY_SUCCESS (M_QueryReplySuccess \<lparr>qrs_name = name\<rparr>)))))"
    and "dhash_send_query_reply_failure E dh i addr port name =
      Inr (set_srv dh i (post E (dh_servers dh ! i) addr port CHORD_DATA (direct E addr port (dhash_packet E DHASH_QUERY_REPLY_FAILURE (M_QueryReplyFailure \<lparr>qrf_name = name\<rparr>)))))"
    and "dhash_send_push_reply E dh i addr port name =
      Inr (set_srv dh i (post E (dh_servers dh ! i) addr port CHORD_DATA (direct E addr port (dhash_packet E DHASH_PUSH_REPLY (M_PushReply \<lparr>pshr_name = name\<rparr>)))))"
proof -
  have E: "codec_size E" using assms(1) by (simp add: env_ok_def)
  have send: "fbind (into_buf 1024 (pack_dhash_header E (dhash_num t) msg)) (\<lambda>buf. send_on dh i (\<lambda>srv. send_chord_pkt_directly E srv addr port buf)) =
      Inr (set_srv dh i (post E (dh_servers dh ! i) addr port CHORD_DATA (direct E addr port (dhash_packet E t msg))))"
    if "msg_len msg \<le> 900" for t msg
    using dhash_pack_ok [OF E that] send_direct_ok [OF assms(1) dhash_pack_ok(2) [OF E that] assms(4)] assms(3)
    by (simp add: send_on_def get_srv_def)
  show "dhash_send_query_reply_success E dh i addr port name =
      Inr (set_srv dh i (post E (dh_servers dh ! i) addr port CHORD_DATA (direct E addr port (dhash_packet E DHASH_QUERY_REPLY_SUCCESS (M_QueryReplySuccess \<lparr>qrs_name = name\<rparr>)))))"
    using send [of "M_QueryReplySuccess \<lparr>qrs_name = name\<rparr>"] assms(2) by (simp add: reply_defs del: dhash_num.simps)
  show "dhash_send_query_reply_failure E dh i addr port name =
      Inr (set_srv dh i (post E (dh_servers dh ! i) addr port CHORD_DATA (direct E addr port (dhash_packet E DHASH_QUERY_REPLY_FAILURE (M_QueryReplyFailure \<lparr>qrf_name = name\<rparr>)))))"
    using send [of "M_QueryReplyFailure \<lparr>qrf_name = name\<rparr>"] assms(2) by (simp add: reply_defs del: dhash_num.simps)
  show "dhash_send_push_reply E dh i addr port name =
      Inr (set_srv dh i (post E (dh_servers dh ! i) addr port CHORD_DATA (direct E addr port (dhash_packet E DHASH_PUSH_REPLY (M_PushReply \<lparr>pshr_name = name\<rparr>)))))"
    using send [of "M_PushReply \<lparr>pshr_name = name\<rparr>"] assms(2) by (simp add: reply_defs del: dhash_num.simps)
qed

text \<open>A transfer that could be set up, and its thread.\<close>

definition udt_ready :: "fenv \<Rightarrow> DHash \<Rightarrow> nat \<Rightarrow> bool" where
  "udt_ready F dh i \<longleftrightarrow> (let p = length (tw_transfers (dh_world dh)) in
     udt_socket (fe_udt F) p \<noteq> None \<and> udt_bind (fe_udt F) p (Sockaddr_in (htons (s_port (dh_servers dh ! i) + 1)) 0))"

definition started :: "tworld \<Rightarrow> Transfer \<Rightarrow> tworld" where
  "started w t = w\<lparr>tw_transfers := tw_transfers w @ [Some t], tw_threads := tw_threads w @ [length (tw_transfers w)]\<rparr>"

definition transfer_to :: "fenv \<Rightarrow> DHash \<Rightarrow> in6_addr \<Rightarrow> ushort \<Rightarrow> Transfer" where
  "transfer_to F dh addr port = \<lparr>t_type = TRANSFER_IDLE, t_dir = dh_files_path dh, t_file = None, t_success_cb = None, t_fail_cb = None,
     t_success_ev = False, t_fail_ev = False, t_udt_sock = the (udt_socket (fe_udt F) (length (tw_transfers (dh_world dh)))),
     t_remote_addr = addr, t_remote_port = port\<rparr>"

lemma new_transfer_ready:
  assumes "udt_ready F dh i"
  shows "new_transfer (fe_udt F) (uint (s_port (dh_servers dh ! i)) + 1) addr port (dh_files_path dh) (dh_world dh) =
    (Some (length (tw_transfers (dh_world dh))), (dh_world dh)\<lparr>tw_transfers := tw_transfers (dh_world dh) @ [Some (transfer_to F dh addr port)]\<rparr>)"
  using assms by (auto simp: udt_ready_def new_transfer_def transfer_to_def Let_def)

lemma start_sending_ok:
  assumes "udt_ready F dh i" and "i < length (dh_servers dh)"
  shows "start_transfer F dh i addr port transfer_start_sending =
    Inr (dh\<lparr>dh_world := started (dh_world dh) ((transfer_to F dh addr port)\<lparr>t_type := TRANSFER_SEND\<rparr>)\<rparr>)"
  using assms(2) new_transfer_ready [OF assms(1)]
  by (simp add: start_transfer_def get_srv_def transfer_start_sending_def load_transfer_def store_transfer_def started_def Let_def)

subsection \<open>Queries\<close>

text \<open>The circumstances of the theorems: the library behaves as documented, the server exists and can send to the address, the arrays have a spare byte behind them.\<close>

definition client_ok :: "env \<Rightarrow> fenv \<Rightarrow> DHash \<Rightarrow> nat \<Rightarrow> in6_addr \<Rightarrow> bool" where
  "client_ok E F dh i addr \<longleftrightarrow> env_ok E \<and> codec_ok E \<and> i < length (dh_servers dh) \<and>
     NUL \<notin> set (dh_files_path dh) \<and> (\<forall>n. n < length (fe_vla F n)) \<and> can_send (dh_servers dh ! i) addr \<and> wf_addr addr"

lemma local_file_exists_ok: "client_ok E F dh i addr \<Longrightarrow> dhash_local_file_exists F dh name = Inr (file_at dh name \<noteq> None)"
  using stat_spare [of dh name F] by (simp add: client_ok_def dhash_local_file_exists_def)

lemma same_port: "ucast (ucast (p :: ushort) :: uint32) = p"
  by (rule bit_word_eqI) (simp add: bit_ucast_iff)

lemma next_port: "ucast (ucast (p :: ushort) + 1 :: uint32) = p + 1"
proof -
  have low: "take_bit 16 (take_bit 32 x) = take_bit 16 x" for x :: int by simp
  have "(ucast (q + r :: uint32) :: ushort) = ucast q + ucast r" for q r
    by transfer (simp, metis low take_bit_add)
  then show ?thesis by (simp add: same_port)
qed

lemma process_query_cases:
  assumes "client_ok E F dh i addr" and "udt_ready F dh i" and "name \<noteq> []" and "length name \<le> 900"
  defines "srv \<equiv> dh_servers dh ! i"
  shows "dhash_process_query E F dh i \<lparr>qry_reply_addr = addr, qry_reply_port = ucast port, qry_name = name\<rparr> from =
    (if file_at dh name \<noteq> None then
       Inr (CHORD_NO_ERROR, (set_srv dh i (post E srv addr port CHORD_DATA (direct E addr port
           (dhash_packet E DHASH_QUERY_REPLY_SUCCESS (M_QueryReplySuccess \<lparr>qrs_name = name\<rparr>)))))
         \<lparr>dh_world := started (dh_world dh) ((transfer_to F dh addr (port + 1))\<lparr>t_type := TRANSFER_SEND\<rparr>)\<rparr>)
     else if chord_id_is_local srv (get_data_id E name) then
       Inr (CHORD_NO_ERROR, set_srv dh i (post E srv addr port CHORD_DATA (direct E addr port
           (dhash_packet E DHASH_QUERY_REPLY_FAILURE (M_QueryReplyFailure \<lparr>qrf_name = name\<rparr>)))))
     else Inr (CHORD_PROTOCOL_ERROR, dh))"
proof -
  let ?dh = "set_srv dh i (post E srv addr port CHORD_DATA (direct E addr port
      (dhash_packet E DHASH_QUERY_REPLY_SUCCESS (M_QueryReplySuccess \<lparr>qrs_name = name\<rparr>))))"
  have c: "env_ok E" "i < length (dh_servers dh)" "can_send srv addr" "wf_addr addr" using assms(1) by (simp_all add: client_ok_def srv_def)
  have "udt_ready F ?dh i" using assms(2) c(2) by (simp add: udt_ready_def set_srv_def srv_def)
  then have "start_transfer F ?dh i addr (port + 1) transfer_start_sending =
      Inr (?dh\<lparr>dh_world := started (dh_world dh) ((transfer_to F dh addr (port + 1))\<lparr>t_type := TRANSFER_SEND\<rparr>)\<rparr>)"
    using start_sending_ok [of F ?dh i] c(2) by (simp add: set_srv_def transfer_to_def)
  then show ?thesis
    using send_reply_ok(1,2) [OF c(1) assms(4) c(2) c(3) [unfolded srv_def], of port] c(2,4) assms(3,4)
    by (simp add: dhash_process_query_def v6_addr_set_def wf_addr_def name_str_ok local_file_exists_ok [OF assms(1)] same_port next_port get_srv_def srv_def)
qed

text \<open>The handlers leave the dispatchers alone.\<close>

lemma send_on_disp: "send_on dh i f = Inr dh' \<Longrightarrow> dh_chord_dispatcher dh' = dh_chord_dispatcher dh"
  by (auto simp: send_on_def set_srv_def res_simps)

lemma start_transfer_disp: "start_transfer F dh i addr port go = Inr dh' \<Longrightarrow> dh_chord_dispatcher dh' = dh_chord_dispatcher dh"
  by (auto simp: start_transfer_def res_simps Let_def case_prod_beta)

lemmas handler_defs = dhash_process_query_def dhash_process_query_reply_success_def dhash_process_query_reply_failure_def dhash_process_push_def
  dhash_process_push_reply_def dhash_send_query_reply_success_def dhash_send_query_reply_failure_def dhash_send_push_reply_def
  dhash_send_control_query_failure_def dhash_send_control_packet_def

lemma call_dhash_disp: "call_dhash E F process i msg from dh = Inr (ret, dh') \<Longrightarrow> dh_chord_dispatcher dh' = dh_chord_dispatcher dh"
  by (auto simp: call_dhash_def handler_defs res_simps split: dh_process.splits message.splits if_splits dest!: send_on_disp start_transfer_disp)

lemma unpack_chord_data_eq:
  fixes i :: nat
  assumes "codec_ok E" and "dh_disp_ok (dh_chord_dispatcher dh)" and "(t, name, descriptor_of msg, process) \<in> set dhash_handlers" and "canonical msg"
    and "dat_data m = dhash_packet E t msg" and "nat (dhash_num t) < length (dat_data m)"
  defines "d \<equiv> pushed (dh_chord_dispatcher dh) (nat (dhash_num t)) i" and "d' \<equiv> popped (dh_chord_dispatcher dh) (nat (dhash_num t)) i"
  shows "dhash_unpack_chord_data E F (Arg_srv i # Arg_dhash # rest) m from dh =
    fbind (call_dhash E F process i msg from (dh\<lparr>dh_chord_dispatcher := d\<rparr>)) (\<lambda>(ret, dh').
    if ret = CHORD_NO_ERROR then Inr (CHORD_NO_ERROR, dh'\<lparr>dh_chord_dispatcher := d'\<rparr>)
    else fbind (get_srv dh' i) (\<lambda>srv. fbind (process_data E srv m from) (\<lambda>(_, srv).
      Inr (CHORD_NO_ERROR, set_srv (dh'\<lparr>dh_chord_dispatcher := d'\<rparr>) i srv))))"
proof -
  have type: "dispatcher_get_type E (dhash_packet E t msg) = Inr (dhash_num t)"
    by (simp add: dispatcher_get_type_def header_dhash_packet [OF assms(1)] dhash_type_word)
  have len: "dhash_num t < int (length (dhash_packet E t msg))" using assms(5,6) by (simp add: nat_less_iff)
  have pop: "dispatcher_pop_arg (dh_chord_dispatcher dh') (dhash_num t) = Inr (Some (Arg_srv i), d')"
    if "call_dhash E F process i msg from (dh\<lparr>dh_chord_dispatcher := d\<rparr>) = Inr (ret, dh')" for ret dh'
    using call_dhash_disp [OF that] pop_arg_ok [OF assms(2)] by (simp add: d_def d'_def)
  show ?thesis
  proof (cases "call_dhash E F process i msg from (dh\<lparr>dh_chord_dispatcher := d\<rparr>)")
    case (Inl e)
    then show ?thesis
      using dispatch_dhash_packet [OF assms(1-4), of F i "from" "dh\<lparr>dh_chord_dispatcher := d\<rparr>"]
      by (simp add: dhash_unpack_chord_data_def assms(5) type push_arg_ok [OF assms(2)] len flip: d_def)
  next
    case (Inr r)
    then obtain ret dh' where r: "call_dhash E F process i msg from (dh\<lparr>dh_chord_dispatcher := d\<rparr>) = Inr (ret, dh')" by (cases r) auto
    then show ?thesis
      using dispatch_dhash_packet [OF assms(1-4), of F i "from" "dh\<lparr>dh_chord_dispatcher := d\<rparr>"] pop [OF r]
      by (simp add: dhash_unpack_chord_data_def assms(5) type push_arg_ok [OF assms(2)] len get_srv_def flip: d_def)
  qed
qed

lemma unpack_query:
  assumes "client_ok E F dh i addr" and "dh_disp_ok (dh_chord_dispatcher dh)" and "udt_ready F dh i" and "name \<noteq> []" and "length name \<le> 900"
    and "dat_data m = dhash_packet E DHASH_QUERY (M_Query \<lparr>qry_reply_addr = addr, qry_reply_port = ucast port, qry_name = name\<rparr>)" and "dat_data m \<noteq> []"
  shows "let srv = dh_servers dh ! i; d' = popped (dh_chord_dispatcher dh) 0 i in dh_disp_ok d' \<and>
    dhash_unpack_chord_data E F (Arg_srv i # Arg_dhash # rest) m from dh =
    (if file_at dh name \<noteq> None then
       Inr (CHORD_NO_ERROR, dh\<lparr>
         dh_servers := (dh_servers dh)[i := post E srv addr port CHORD_DATA (direct E addr port
           (dhash_packet E DHASH_QUERY_REPLY_SUCCESS (M_QueryReplySuccess \<lparr>qrs_name = name\<rparr>)))],
         dh_world := started (dh_world dh) ((transfer_to F dh addr (port + 1))\<lparr>t_type := TRANSFER_SEND\<rparr>),
         dh_chord_dispatcher := d'\<rparr>)
     else if chord_id_is_local srv (get_data_id E name) then
       Inr (CHORD_NO_ERROR, dh\<lparr>
         dh_servers := (dh_servers dh)[i := post E srv addr port CHORD_DATA (direct E addr port
           (dhash_packet E DHASH_QUERY_REPLY_FAILURE (M_QueryReplyFailure \<lparr>qrf_name = name\<rparr>)))],
         dh_chord_dispatcher := d'\<rparr>)
     else fbind (process_data E srv m from) (\<lambda>(_, srv).
       Inr (CHORD_NO_ERROR, dh\<lparr>dh_chord_dispatcher := d', dh_servers := (dh_servers dh)[i := srv]\<rparr>)))"
proof -
  let ?q = "\<lparr>qry_reply_addr = addr, qry_reply_port = ucast port, qry_name = name\<rparr>"
  let ?dh = "dh\<lparr>dh_chord_dispatcher := pushed (dh_chord_dispatcher dh) 0 i\<rparr>"
  have c: "codec_ok E" "dh_disp_ok (dh_chord_dispatcher dh)" "i < length (dh_servers dh)" using assms(1,2) by (simp_all add: client_ok_def)
  have d: "dh_disp_ok (popped (dh_chord_dispatcher dh) 0 i)" using popped_ok [OF c(2), of DHASH_QUERY i] by simp
  have run: "call_dhash E F DP_query i (M_Query ?q) from ?dh = dhash_process_query E F ?dh i ?q from" by (simp add: call_dhash_def)
  have num: "nat (dhash_num DHASH_QUERY) = 0" by simp
  have eq: "dhash_unpack_chord_data E F (Arg_srv i # Arg_dhash # rest) m from dh =
      fbind (dhash_process_query E F ?dh i ?q from) (\<lambda>(ret, dh').
      if ret = CHORD_NO_ERROR then Inr (CHORD_NO_ERROR, dh'\<lparr>dh_chord_dispatcher := popped (dh_chord_dispatcher dh) 0 i\<rparr>)
      else fbind (get_srv dh' i) (\<lambda>srv. fbind (process_data E srv m from) (\<lambda>(_, srv).
        Inr (CHORD_NO_ERROR, set_srv (dh'\<lparr>dh_chord_dispatcher := popped (dh_chord_dispatcher dh) 0 i\<rparr>) i srv))))"
    using unpack_chord_data_eq [OF c(1,2), of DHASH_QUERY "''DHASH_QUERY''" "M_Query ?q" DP_query m F i rest "from", unfolded num run] assms(6,7)
    by (simp add: dhash_handlers_def)
  have same: "file_at ?dh name = file_at dh name" "transfer_to F ?dh addr p = transfer_to F dh addr p" for p by (simp_all add: file_at_def transfer_to_def)
  show ?thesis
  proof (cases "file_at dh name = None \<and> \<not> chord_id_is_local (dh_servers dh ! i) (get_data_id E name)")
    case True
    then show ?thesis
      using d c(3) process_query_cases [of E F ?dh i addr name port "from"] assms(1,3-5)
      by (simp add: eq same Let_def client_ok_def udt_ready_def get_srv_def set_srv_def)
  next
    case False
    then show ?thesis
      using d c(3) process_query_cases [of E F ?dh i addr name port "from"] assms(1,3-5)
      by (auto simp: eq same Let_def client_ok_def udt_ready_def set_srv_def)
  qed
qed


subsection \<open>A started process\<close>

text \<open>The dispatcher of a server that the file client started: data packets go to the file client, everything else to Chord.\<close>

definition fc_disp :: "nat \<Rightarrow> dh_dispatcher" where
  "fc_disp i = (retarget i chord_disp)\<lparr>d_handlers := (d_handlers (retarget i chord_disp))[2 :=
     \<lparr>h_name = Some ''CHORD_DATA'', h_process_args = [Arg_srv i, Arg_dhash], h_nargs = 2, h_unpack = Some data__descriptor, h_process = Some DP_unpack_chord_data\<rparr>]\<rparr>"

lemma retarget_sel [simp]: "d_size (retarget i d) = d_size d" "d_odd (retarget i d) = [] \<longleftrightarrow> d_odd d = []" "length (d_handlers (retarget i d)) = length (d_handlers d)"
  by (simp_all add: retarget_def)

lemma chord_disp_data: "d_handlers chord_disp ! 2 = init_handler ''CHORD_DATA'' () data__descriptor P_data" "d_size chord_disp = 10" "length (d_handlers chord_disp) = 10"
  by (simp_all add: chord_disp_def chord_handlers_def)

lemma dhash_start_server_eq: "dhash_start_server i rand fd = Inr (server_set_socket fd (fresh_server rand), fc_disp i)"
proof -
  have "d_handlers (retarget i chord_disp) ! 2 = retarget_handler i (init_handler ''CHORD_DATA'' () data__descriptor P_data)"
    by (simp add: retarget_def chord_disp_data)
  then show ?thesis
    by (simp add: dhash_start_server_def new_server_eq dispatcher_set_packet_handlers_def dispatcher_push_arg_def get_handler_def chord_disp_data
        retarget_handler_def init_handler_def fc_disp_def)
qed

lemma dhash_start_servers:
  "fmap (\<lambda>(i, rand, fd). dhash_start_server i rand fd) (zip [0..<length conf] conf) =
   Inr (map (\<lambda>(i, rand, fd). (server_set_socket fd (fresh_server rand), fc_disp i)) (zip [0..<length conf] conf))"
  by (rule fmap_total) (auto simp: dhash_start_server_eq)

lemma dhash_start_total: "\<exists>dh'. dhash_start True conf dh = Inr dh'"
  by (simp add: dhash_start_def dhash_start_servers)

lemma dhash_start_result:
  assumes "dhash_start tunnel conf dh = Inr dh'"
  shows "dh_servers dh' = map (\<lambda>(rand, fd). server_set_socket fd (fresh_server rand)) conf" and "dh_srv_disps dh' = map fc_disp [0..<length conf]"
    and "dh_chord_dispatcher dh' = dh_chord_dispatcher dh" and "dh_files_path dh' = dh_files_path dh" and "dh_world dh' = dh_world dh"
proof -
  have servers: "map (\<lambda>x. server_set_socket (snd (snd x)) (fresh_server (fst (snd x)))) (zip [0..<length conf] conf) =
      map (\<lambda>c. server_set_socket (snd c) (fresh_server (fst c))) conf" by (rule nth_equalityI) auto
  moreover have disps: "map (\<lambda>x. fc_disp (fst x)) (zip [0..<length conf] conf) = map fc_disp [0..<length conf]" by (rule nth_equalityI) auto
  ultimately have "dh' = dh\<lparr>dh_servers := map (\<lambda>(rand, fd). server_set_socket fd (fresh_server rand)) conf, dh_srv_disps := map fc_disp [0..<length conf]\<rparr>"
    using assms dhash_start_servers [of conf] by (auto simp: dhash_start_def comp_def case_prod_beta' servers disps split: if_splits)
  then show "dh_servers dh' = map (\<lambda>(rand, fd). server_set_socket fd (fresh_server rand)) conf" "dh_srv_disps dh' = map fc_disp [0..<length conf]"
    "dh_chord_dispatcher dh' = dh_chord_dispatcher dh" "dh_files_path dh' = dh_files_path dh" "dh_world dh' = dh_world dh" by simp_all
qed

lemma handle_data_packet:
  assumes "codec_ok E" and "canonical (M_Data m)" and "i < length (dh_servers dh)" and "i < length (dh_srv_disps dh)" and "dh_srv_disps dh ! i = fc_disp i"
    and "from_node E (dh_servers dh ! i) sa = Inr nd"
  shows "dhash_handle_packet E F i (Some (sa, packet E CHORD_DATA (M_Data m))) dh =
    fbind (dhash_unpack_chord_data E F [Arg_srv i, Arg_dhash] m nd dh) (\<lambda>(_, dh'). Inr dh')"
proof -
  let ?h = "\<lparr>hdr_has_version = True, hdr_version = 1, hdr_type = word_of_int (packet_num CHORD_DATA) :: uint32, hdr_payload = pb_pack E (M_Data m)\<rparr>"
  have h: "header__unpack E (packet E CHORD_DATA (M_Data m)) = Some ?h"
    using codec_roundtrip [OF assms(1), of "M_Header ?h"] by (simp add: packet_def header__unpack_def)
  have loc: "get_handler (fc_disp i) 2 = Inr (Some (Slot 2))" by (simp add: get_handler_def fc_disp_def chord_disp_data)
  have at: "handler_at (fc_disp i) (Slot 2) = Inr \<lparr>h_name = Some ''CHORD_DATA'', h_process_args = [Arg_srv i, Arg_dhash], h_nargs = 2,
      h_unpack = Some data__descriptor, h_process = Some DP_unpack_chord_data\<rparr>"
    by (simp add: fc_disp_def chord_disp_data)
  have msg: "pb_unpack E data__descriptor (pb_pack E (M_Data m)) = Some (M_Data m)" using codec_roundtrip [OF assms(1,2)] by simp
  have "dispatch_packet E (server_run E F) (fc_disp i) (packet E CHORD_DATA (M_Data m)) nd dh =
      fbind (dhash_unpack_chord_data E F [Arg_srv i, Arg_dhash] m nd dh) (\<lambda>(ret, dh').
        Inr (\<lparr>dr_known = True, dr_process_ret = Some ret, dr_leaked = (if ret = CHORD_NO_ERROR then 0 else 2)\<rparr>, dh'))"
    by (cases "dhash_unpack_chord_data E F [Arg_srv i, Arg_dhash] m nd dh")
      (auto simp: dispatch_packet_def h PACKET_NAMES_def loc at msg server_run_def simp del: handler_at.simps)
  then show ?thesis
    using assms(3-6) by (cases "dhash_unpack_chord_data E F [Arg_srv i, Arg_dhash] m nd dh") (auto simp: dhash_handle_packet_def get_srv_def)
qed

subsection \<open>A process with one server\<close>

definition demo_fenv :: fenv where
  "demo_fenv = \<lparr>fe_vla = \<lambda>n. replicate (Suc n) NUL, fe_udt = \<lparr>udt_socket = \<lambda>_. Some 5, udt_bind = \<lambda>_ _. True\<rparr>, fe_creat = \<lambda>_. True,
     fe_cms = \<lambda>_. Some True, fe_cert = \<lambda>_. Some True\<rparr>"

definition demo_dhash :: "ChordServer \<Rightarrow> (string \<Rightarrow> byte list option) \<Rightarrow> DHash" where
  "demo_dhash srv files = \<lparr>dh_servers = [srv], dh_srv_disps = [fc_disp 0], dh_files_path = ''f'', dh_control_out = [],
     dh_world = \<lparr>tw_files = files, tw_transfers = [], tw_threads = [], tw_active = []\<rparr>, dh_control_dispatcher = new_dispatcher 1, dh_chord_dispatcher = dhash_disp\<rparr>"

definition demo_query :: Data where
  "demo_query = \<lparr>dat_id = demo_id 40, dat_has_ttl = True, dat_ttl = 10, dat_has_last = True, dat_last = False,
     dat_data = dhash_packet demo_env DHASH_QUERY (M_Query \<lparr>qry_reply_addr = demo_addr 2, qry_reply_port = ucast (4000 :: ushort), qry_name = [98]\<rparr>)\<rparr>"

lemma demo_path: "NUL \<noteq> CHR ''f''" "cstr (str_of [98]) = ''b''" "length (str_of [98]) = 1"
  by (simp_all add: NUL_def char_of_def str_of_def cstr_def bit_0)

lemma demo_packet_nonempty: "dhash_packet demo_env t msg \<noteq> []"
  by (simp add: dhash_packet_def enc_bool_def enc_bytes_def enc_nat.simps)

lemma demo_file: "file_at dh [98] = tw_files (dh_world dh) (dh_files_path dh @ ''/b'')"
  by (simp add: file_at_def demo_path)

lemma dhash_stat_local_file_correct_witness:
  "dhash_stat_local_file demo_fenv (demo_dhash (pair_srv 1 2) [''f/b'' \<mapsto> [7, 8, 9]]) [98] = Inr (Some 3) \<and>
   dhash_stat_local_file (demo_fenv\<lparr>fe_vla := \<lambda>n. replicate n NUL\<rparr>) (demo_dhash (pair_srv 1 2) [''f/b'' \<mapsto> [7, 8, 9]]) [98] = Inl Out_of_bounds"
  using dhash_stat_local_file_correct [of "demo_dhash (pair_srv 1 2) [''f/b'' \<mapsto> [7, 8, 9]]" "[98]" demo_fenv]
    dhash_stat_local_file_correct [of "demo_dhash (pair_srv 1 2) [''f/b'' \<mapsto> [7, 8, 9]]" "[98]" "demo_fenv\<lparr>fe_vla := \<lambda>n. replicate n NUL\<rparr>"]
  by (simp add: demo_fenv_def demo_dhash_def demo_path Let_def numeral_3_eq_3)

lemma demo_client_ok:
  assumes "dh_servers dh = [srv]" and "can_send srv (demo_addr 2)" and "dh_files_path dh = ''f''"
  shows "client_ok demo_env demo_fenv dh 0 (demo_addr 2)" and "udt_ready demo_fenv dh 0"
  using assms by (simp_all add: client_ok_def env_ok_def demo_fenv_def demo_path(1) wf_addr_def udt_ready_def)


lemma new_dhash_total: "fe_cert F cert = Some True \<Longrightarrow> \<exists>dh. new_dhash F files path cert = Inr (Some dh)"
  using dhash_set_packets_eq by (simp add: new_dhash_def set_packet_slot new_dispatcher_def)

end
