(* ===== verification/File_Machine.thy ===== *)
theory File_Machine
  imports File_Client
begin

text \<open>
  The process of the file client as a state machine, in the sense of the event loop of a single Chord server: datagrams and timers of its servers, requests of the client, the threads of transfers and the
  events they activate, in any order. The theory shows what holds in every state the process can reach: the servers keep the invariant of Chord although their data packets go through the file
  client, and the threads and the main thread never use a transfer object that the other side has freed.
\<close>

subsection \<open>The machine\<close>

text \<open>
  The state is the counter of the stabilization, a static variable that all servers share, and the \<^verbatim>\<open>DHash\<close> object. The run of a transfer's thread is one step, with the traffic its connection will see.
\<close>

type_synonym dh_state = "int \<times> DHash"

datatype dh_event =
    Dh_packet clock nat "(sockaddr \<times> byte list) option"
  | Dh_stabilize clock nat
  | Dh_discover clock nat
  | Dh_request clock ClientRequest
  | Dh_thread nat udt_conn
  | Dh_active clock

definition call_event_cb :: "env \<Rightarrow> fenv \<Rightarrow> DHash \<Rightarrow> DHash res" where
  "call_event_cb E F dh =
     (case tw_active (dh_world dh) of
        [] \<Rightarrow> Inr dh
      | (p, ok) # queue \<Rightarrow> (if ok then call_success_cb else call_fail_cb) E F p (dh\<lparr>dh_world := (dh_world dh)\<lparr>tw_active := queue\<rparr>\<rparr>))"

fun dh_handle :: "env \<Rightarrow> fenv \<Rightarrow> dh_event \<Rightarrow> dh_state \<Rightarrow> dh_state res" where
  "dh_handle E F (Dh_packet c i received) (idx, dh) = fbind (dhash_handle_packet (with_clock E c) F i received dh) (\<lambda>dh. Inr (idx, dh))"
| "dh_handle E F (Dh_stabilize c i) (idx, dh) =
     fbind (get_srv dh i) (\<lambda>srv. fbind (stabilize (with_clock E c) idx srv) (\<lambda>(idx, srv). Inr (idx, set_srv dh i srv)))"
| "dh_handle E F (Dh_discover c i) (idx, dh) =
     fbind (get_srv dh i) (\<lambda>srv. fbind (discover_addr (with_clock E c) srv) (\<lambda>srv. Inr (idx, set_srv dh i srv)))"
| "dh_handle E F (Dh_request c msg) (idx, dh) = fbind (dhash_process_client_request (with_clock E c) F dh msg) (\<lambda>(_, dh). Inr (idx, dh))"
| "dh_handle E F (Dh_thread p conn) (idx, dh) =
     fbind (transfer_connect E (fe_creat F) p (dh_world dh) conn) (\<lambda>(w, _). Inr (idx, dh\<lparr>dh_world := w\<lparr>tw_threads := remove1 p (tw_threads w)\<rparr>\<rparr>))"
| "dh_handle E F (Dh_active c) (idx, dh) = fbind (call_event_cb (with_clock E c) F dh) (\<lambda>dh. Inr (idx, dh))"

fun dh_enabled :: "dh_state \<Rightarrow> dh_event \<Rightarrow> bool" where
  "dh_enabled (idx, dh) (Dh_packet c i received) \<longleftrightarrow>
     i < length (dh_servers dh) \<and> (case received of None \<Rightarrow> True | Some (sa, buf) \<Rightarrow> wf_source (dh_servers dh ! i) sa)"
| "dh_enabled (idx, dh) (Dh_stabilize c i) \<longleftrightarrow> i < length (dh_servers dh) \<and> stab_event (dh_servers dh ! i)"
| "dh_enabled (idx, dh) (Dh_discover c i) \<longleftrightarrow> i < length (dh_servers dh) \<and> discover_addr_event (dh_servers dh ! i)"
| "dh_enabled (idx, dh) (Dh_request c msg) \<longleftrightarrow> True"
| "dh_enabled (idx, dh) (Dh_thread p conn) \<longleftrightarrow> p \<in> set (tw_threads (dh_world dh))"
| "dh_enabled (idx, dh) (Dh_active c) \<longleftrightarrow> tw_active (dh_world dh) \<noteq> []"

definition dh_init :: "fenv \<Rightarrow> dh_state \<Rightarrow> bool" where
  "dh_init F s \<longleftrightarrow> (\<exists>files path cert tunnel conf dh0. fst s = 0 \<and> new_dhash F files path cert = Inr (Some dh0) \<and>
     dhash_start tunnel conf dh0 = Inr (snd s) \<and> (\<forall>(rand, fd) \<in> set conf. length rand = 16))"

definition servers_inv :: "env \<Rightarrow> DHash \<Rightarrow> bool" where
  "servers_inv E dh \<longleftrightarrow> (\<forall>srv \<in> set (dh_servers dh). srv_inv E srv)"

definition file_inv :: "env \<Rightarrow> DHash \<Rightarrow> bool" where
  "file_inv E dh \<longleftrightarrow> wf_world (dh_world dh) \<and> (sha1_ok E \<longrightarrow> servers_inv E dh)"

lemma file_inv_clock [simp]: "file_inv (with_clock E c) dh = file_inv E dh"
  by (simp add: file_inv_def servers_inv_def)

subsection \<open>The servers\<close>

lemma set_srv_inv: "servers_inv E dh \<Longrightarrow> srv_inv E srv \<Longrightarrow> servers_inv E (set_srv dh i srv)"
  unfolding servers_inv_def set_srv_def using set_update_subset_insert [of "dh_servers dh" i srv] by auto

lemma get_srv_inv: "get_srv dh i = Inr srv \<Longrightarrow> servers_inv E dh \<Longrightarrow> srv_inv E srv"
  by (auto simp: get_srv_def servers_inv_def split: if_splits)

lemma set_srv_world [simp]: "dh_world (set_srv dh i srv) = dh_world dh"
  by (simp add: set_srv_def)

lemma servers_inv_frame [simp]: "servers_inv E (dh\<lparr>dh_world := w\<rparr>) = servers_inv E dh" "servers_inv E (dh\<lparr>dh_chord_dispatcher := d\<rparr>) = servers_inv E dh"
  "servers_inv E (dh\<lparr>dh_control_out := bs\<rparr>) = servers_inv E dh"
  by (simp_all add: servers_inv_def)

lemma same_servers:
  "start_transfer F dh i addr port go = Inr dh' \<Longrightarrow> servers_inv E dh' = servers_inv E dh"
  "dhash_send_control_packet E' dh code name = Inr dh' \<Longrightarrow> servers_inv E dh' = servers_inv E dh"
  by (auto simp: start_transfer_def dhash_send_control_packet_def Let_def case_prod_beta res_simps servers_inv_def)

lemma send_on_inv: "send_on dh i (\<lambda>srv. send_chord_pkt_directly E srv a p buf) = Inr dh' \<Longrightarrow> servers_inv E dh \<Longrightarrow> servers_inv E dh'"
  using send_keeps(2) [of E]
  by (fastforce simp: send_on_def send_chord_pkt_directly_def res_simps returns_iff intro: set_srv_inv dest: get_srv_inv)

lemma fmap_keeps: "fmap f xs = Inr ys \<Longrightarrow> \<forall>x \<in> set xs. P x \<Longrightarrow> (\<And>x. P x \<Longrightarrow> returns P (f x)) \<Longrightarrow> \<forall>y \<in> set ys. P y"
  by (induction xs arbitrary: ys) (auto simp: res_simps returns_iff)

lemma send_routed_inv: "srv_inv E srv \<Longrightarrow> returns (srv_inv E) (dhash_send_routed E ident pack srv)"
  using send_keeps(2) [of E srv] by (auto simp: dhash_send_routed_def returns_iff res_simps Let_def case_prod_beta split: if_splits)

lemma broadcast_inv:
  "dhash_send_push E dh name = Inr dh' \<Longrightarrow> servers_inv E dh \<Longrightarrow> servers_inv E dh'"
  "dhash_send_query E dh name = Inr dh' \<Longrightarrow> servers_inv E dh \<Longrightarrow> servers_inv E dh'"
  by (auto simp: dhash_send_push_def dhash_send_query_def servers_inv_def Let_def res_simps dest!: fmap_keeps [where P = "srv_inv E"] intro: send_routed_inv)

lemma call_dhash_servers:
  "call_dhash E F process i msg from dh = Inr (ret, dh') \<Longrightarrow> servers_inv E dh \<Longrightarrow> servers_inv E dh'"
  by (auto simp: call_dhash_def handler_defs dhash_send_control_packet_def [symmetric] res_simps split: dh_process.splits message.splits if_splits
      dest!: same_servers [where E = E] dest: send_on_inv)

subsection \<open>The transfers\<close>

lemma same_world: "send_on dh i f = Inr dh' \<Longrightarrow> dh_world dh' = dh_world dh"
  "dhash_send_control_packet E dh code name = Inr dh' \<Longrightarrow> dh_world dh' = dh_world dh"
  "dhash_send_push E dh name = Inr dh' \<Longrightarrow> dh_world dh' = dh_world dh"
  "dhash_send_query E dh name = Inr dh' \<Longrightarrow> dh_world dh' = dh_world dh"
  by (auto simp: send_on_def set_srv_def dhash_send_control_packet_def dhash_send_push_def dhash_send_query_def Let_def res_simps)

lemma start_transfer_wf:
  assumes "start_transfer F dh i addr port go = Inr dh'" and "wf_world (dh_world dh)" and "\<And>w w'. go None w \<noteq> Inr w'"
    and "\<And>p w t w'. wf_world w \<Longrightarrow> p \<notin> set (busy w) \<Longrightarrow> load_transfer w p = Inr t \<Longrightarrow> startable t \<Longrightarrow> go (Some p) w = Inr w' \<Longrightarrow> wf_world w'"
  shows "wf_world (dh_world dh')"
proof -
  obtain srv r w w' where new: "new_transfer (fe_udt F) (uint (s_port srv) + 1) addr port (dh_files_path dh) (dh_world dh) = (r, w)"
    and go: "go r w = Inr w'" and dh': "dh' = dh\<lparr>dh_world := w'\<rparr>"
    using assms(1) by (auto simp: start_transfer_def res_simps Let_def case_prod_beta) (metis prod.collapse)
  obtain p where r: "r = Some p" using go assms(3) by (cases r) auto
  obtain t where "wf_world w" "p \<notin> set (busy w)" "load_transfer w p = Inr t" "startable t"
    using new_transfer_idle [OF assms(2) new] by (auto simp: r startable_def)
  then show ?thesis using assms(4) go by (auto simp: dh' r)
qed

lemma starters_wf:
  assumes "wf_world w" and "p \<notin> set (busy w)" and "load_transfer w p = Inr t"
  shows "startable t \<Longrightarrow> transfer_start_sending (Some p) w = Inr w' \<Longrightarrow> wf_world w'"
    and "transfer_start_receiving (Some p) fl w = Inr w' \<Longrightarrow> wf_world w'"
    and "fbind (transfer_set_callbacks (Some p) s f w) (\<lambda>w. transfer_start_receiving (Some p) fl w) = Inr w' \<Longrightarrow> wf_world w'"
proof -
  show "startable t \<Longrightarrow> transfer_start_sending (Some p) w = Inr w' \<Longrightarrow> wf_world w'" using start_sending_wf [OF assms] by auto
  show "transfer_start_receiving (Some p) fl w = Inr w' \<Longrightarrow> wf_world w'" using start_receiving_wf [OF assms, of fl] by auto
  show "fbind (transfer_set_callbacks (Some p) s f w) (\<lambda>w. transfer_start_receiving (Some p) fl w) = Inr w' \<Longrightarrow> wf_world w'"
  proof -
    obtain w1 t1 where w1: "transfer_set_callbacks (Some p) s f w = Inr w1" "wf_world w1" "p \<notin> set (busy w1)" "load_transfer w1 p = Inr t1"
      using set_callbacks_wf [OF assms, of s f] by blast
    assume "fbind (transfer_set_callbacks (Some p) s f w) (\<lambda>w. transfer_start_receiving (Some p) fl w) = Inr w'"
    then show "wf_world w'" using start_receiving_wf [OF w1(2-4), of fl] by (auto simp: w1(1))
  qed
qed

lemma null_starters: "transfer_start_sending None w \<noteq> Inr w'" "transfer_start_receiving None fl w \<noteq> Inr w'"
  "fbind (transfer_set_callbacks None s f w) (\<lambda>w. transfer_start_receiving None fl w) \<noteq> Inr w'"
  by (simp_all add: transfer_start_sending_def transfer_start_receiving_def transfer_set_callbacks_def)

lemma start_transfers_wf:
  assumes "wf_world (dh_world dh)"
  shows "start_transfer F dh i addr port transfer_start_sending = Inr dh' \<Longrightarrow> wf_world (dh_world dh')"
    and "start_transfer F dh i addr port (\<lambda>tp w. transfer_start_receiving tp fl w) = Inr dh' \<Longrightarrow> wf_world (dh_world dh')"
    and "start_transfer F dh i addr port (\<lambda>tp w. fbind (transfer_set_callbacks tp s f w) (\<lambda>w. transfer_start_receiving tp fl w)) = Inr dh' \<Longrightarrow>
      wf_world (dh_world dh')"
proof -
  show "wf_world (dh_world dh')" if "start_transfer F dh i addr port transfer_start_sending = Inr dh'"
    using that by (rule start_transfer_wf [OF _ assms]) (rule null_starters, rule starters_wf(1))
  show "wf_world (dh_world dh')" if "start_transfer F dh i addr port (\<lambda>tp w. transfer_start_receiving tp fl w) = Inr dh'"
    using that by (rule start_transfer_wf [OF _ assms]) (rule null_starters, rule starters_wf(2))
  show "wf_world (dh_world dh')"
    if "start_transfer F dh i addr port (\<lambda>tp w. fbind (transfer_set_callbacks tp s f w) (\<lambda>w. transfer_start_receiving tp fl w)) = Inr dh'"
    using that by (rule start_transfer_wf [OF _ assms]) (rule null_starters, rule starters_wf(3))
qed

lemma call_dhash_wf:
  "call_dhash E F process i msg from dh = Inr (ret, dh') \<Longrightarrow> wf_world (dh_world dh) \<Longrightarrow> wf_world (dh_world dh')"
  by (auto simp: call_dhash_def handler_defs dhash_send_control_packet_def [symmetric] res_simps
      split: dh_process.splits message.splits if_splits dest!: same_world start_transfers_wf [rotated])

subsection \<open>Packets\<close>

lemma file_invI: "wf_world (dh_world dh) \<Longrightarrow> (sha1_ok E \<Longrightarrow> servers_inv E dh) \<Longrightarrow> file_inv E dh"
  by (simp add: file_inv_def)

lemma file_inv_disp [simp]: "file_inv E (dh\<lparr>dh_chord_dispatcher := d\<rparr>) = file_inv E dh"
  by (simp add: file_inv_def servers_inv_def)

interpretation inner: packet_processor "dhash_run E F" "file_inv E" "\<lambda>_. True"
proof
  fix dh "from" process args msg
  assume "file_inv E dh"
  then show "returns (\<lambda>(ret, dh'). file_inv E dh') (dhash_run E F process args msg from dh)"
    by (auto simp: returns_iff dhash_run_def res_simps file_inv_def dest: call_dhash_wf call_dhash_servers)
qed

lemma unpack_chord_data_inv:
  assumes "file_inv E dh"
  shows "returns (\<lambda>(_, dh'). file_inv E dh') (dhash_unpack_chord_data E F args m from dh)"
proof -
  have disp: "file_inv E dh'" if "dispatch_packet E (dhash_run E F) d buf from (dh\<lparr>dh_chord_dispatcher := d\<rparr>) = Inr (r, dh')" for d buf r dh'
  proof -
    have "file_inv E (dh\<lparr>dh_chord_dispatcher := d\<rparr>)" using assms by simp
    from inner.dispatch_keeps [OF this TrueI, of E F d buf "from"] show ?thesis using that by (simp add: returns_iff)
  qed
  have fwd: "file_inv E (set_srv dh' i srv')"
    if "file_inv E dh'" "get_srv dh' i = Inr srv" "process_data E srv m from = Inr (ret, srv')" for dh' i srv ret srv'
    using that process_data_keeps [of E srv m "from"] by (auto simp: file_inv_def keeps_def returns_iff intro: set_srv_inv dest: get_srv_inv)
  show ?thesis
    by (auto simp: returns_iff dhash_unpack_chord_data_def res_simps Let_def split: list.splits dh_arg.splits if_splits dest!: disp intro: fwd)
qed

interpretation outer: packet_processor "server_run E F" "file_inv E" "\<lambda>nd. sha1_ok E \<longrightarrow> wf_node E nd"
proof
  fix dh "from" process args msg
  assume inv: "file_inv E dh" and nd: "sha1_ok E \<longrightarrow> wf_node E from"
  have "file_inv E (set_srv dh i srv')" if "get_srv dh i = Inr srv" "call_process E pf msg from srv = Inr (ret, srv')" for i srv pf ret srv'
    using that inv nd call_process_keeps [of E srv "from" pf msg] by (auto simp: file_inv_def keeps_def returns_iff intro: set_srv_inv dest: get_srv_inv)
  then show "returns (\<lambda>(ret, dh'). file_inv E dh') (server_run E F process args msg from dh)"
    using unpack_chord_data_inv [OF inv]
    by (auto simp: server_run_def returns_iff res_simps split: dh_process.splits list.splits dh_arg.splits message.splits)
qed

lemma handle_packet_file_inv:
  assumes "file_inv E dh" and "i < length (dh_servers dh)" and "\<And>sa buf. received = Some (sa, buf) \<Longrightarrow> wf_source (dh_servers dh ! i) sa"
  shows "returns (file_inv E) (dhash_handle_packet E F i received dh)"
proof (cases received)
  case (Some rb)
  obtain sa buf where rb: "rb = (sa, buf)" by force
  have "wf_node E nd" if "from_node E (dh_servers dh ! i) sa = Inr nd" for nd
    using from_node_wf [of "dh_servers dh ! i" sa E] assms(3) [of sa buf] that by (simp add: Some rb returns_iff)
  then have "file_inv E dh'" if "from_node E (dh_servers dh ! i) sa = Inr nd" "dispatch_packet E (server_run E F) d buf nd dh = Inr (r, dh')" for nd d r dh'
    using outer.dispatch_keeps [OF assms(1), of nd E F d buf] that by (simp add: returns_iff)
  then show ?thesis using assms(2) by (auto simp: dhash_handle_packet_def Some rb returns_iff get_srv_def res_simps split: if_splits)
qed (use assms(1) in \<open>simp add: dhash_handle_packet_def\<close>)

subsection \<open>Events\<close>

text \<open>An activated event that leaves the queue: its object is allocated, not busy any more, and has its callback and its file name.\<close>

lemma dequeue:
  assumes "wf_world w" and "tw_active w = (p, ok) # queue"
  shows "wf_world (w\<lparr>tw_active := queue\<rparr>)" and "p \<notin> set (busy (w\<lparr>tw_active := queue\<rparr>))"
    and "\<exists>t. load_transfer w p = Inr t \<and> wf_transfer t \<and> callback_of ok t \<noteq> None \<and> t_file t \<noteq> None"
proof -
  have d: "distinct (busy w)" using assms(1) by (rule wf_world_distinct)
  show "wf_world (w\<lparr>tw_active := queue\<rparr>)" by (rule wf_fewer [OF assms(1)]) (use d assms(2) in \<open>auto simp: busy_def\<close>)
  show "p \<notin> set (busy (w\<lparr>tw_active := queue\<rparr>))" using d assms(2) by (auto simp: busy_def)
  have "p \<in> set (busy w)" "(p, ok) \<in> set (tw_active w)" using assms(2) by (auto simp: busy_def)
  then show "\<exists>t. load_transfer w p = Inr t \<and> wf_transfer t \<and> callback_of ok t \<noteq> None \<and> t_file t \<noteq> None"
    using wf_worldD [OF assms(1)] unfolding startable_def callback_of_def by (metis (full_types))
qed

lemma callback_wf:
  assumes "run_callback E F cb p dh = Inr dh'" and "wf_world (dh_world dh)" and "p \<notin> set (busy (dh_world dh))"
  shows "wf_world (dh_world dh')"
proof -
  have "wf_world w'" if free: "free_transfer (Some p) (dh_world dh) = Inr w'" for w'
  proof -
    obtain t where t: "load_transfer (dh_world dh) p = Inr t" using free by (auto simp: free_transfer_def res_simps)
    have "p \<notin> set (map fst (tw_active (dh_world dh)))" using assms(3) by (simp add: busy_def)
    then have "w' = store_transfer (dh_world dh) p None" using free_transfer_idle [OF t wf_world_transfer [OF assms(2) t]] free by simp
    then show ?thesis using wf_store [OF assms(2,3), of None] by simp
  qed
  then show ?thesis
    using assms(1,2)
    by (cases cb) (auto simp: run_callback_def receive_success_def receive_fail_def dhash_send_control_query_success_def dhash_send_control_query_failure_def
        res_simps split: option.splits if_splits dest!: same_world)
qed

lemma receive_success_servers:
  assumes "receive_success E F p dh = Inr dh'" and "servers_inv E dh"
  shows "servers_inv E dh'"
proof -
  obtain name path where "(case tw_files (dh_world dh) path of None \<Rightarrow> Inr dh
     | Some content \<Rightarrow>
         if fe_cms F content \<noteq> Some True then Inr dh
         else
           fbind (dhash_send_control_query_success E dh (bytes_of name)) (\<lambda>dh.
           fbind (dhash_send_push E dh (bytes_of name)) (\<lambda>dh.
           fbind (free_transfer (Some p) (dh_world dh)) (\<lambda>w.
           Inr (dh\<lparr>dh_world := w\<rparr>))))) = Inr dh'"
    using assms(1) by (auto simp: receive_success_def fbind_Inr_iff)
  then show ?thesis
    using assms(2) by (cases "tw_files (dh_world dh) path")
      (auto simp: dhash_send_control_query_success_def res_simps split: if_splits dest!: same_servers(2) [where E = E] dest: broadcast_inv)
qed

lemma callback_servers: "run_callback E F cb p dh = Inr dh' \<Longrightarrow> servers_inv E dh \<Longrightarrow> servers_inv E dh'"
  by (cases cb) (auto simp: run_callback_def receive_fail_def dhash_send_control_query_failure_def res_simps
      dest!: same_servers(2) [where E = E] dest: receive_success_servers)

lemma request_inv:
  assumes "dhash_process_client_request E F dh msg = Inr (ret, dh')" and "file_inv E dh"
  shows "file_inv E dh'"
proof (rule file_invI)
  show "wf_world (dh_world dh')"
    using assms by (auto simp: dhash_process_client_request_def res_simps file_inv_def split: if_splits dest!: same_world)
  show "sha1_ok E \<Longrightarrow> servers_inv E dh'"
    using assms by (auto simp: dhash_process_client_request_def res_simps file_inv_def split: if_splits dest!: same_servers(2) [where E = E] dest: broadcast_inv)
qed

lemma started_plain_inv: "length rand = 16 \<Longrightarrow> srv_inv E (server_set_socket fd (fresh_server rand))"
  by (simp add: server_set_socket_def srv_inv_def table_inv_def config_ok_def ids_ok_def fresh_server_def zero_server_def wf_id_def wf_addr_def
      ring_sorted_def passive_count_def range_start_def)

lemma call_event_inv:
  assumes "file_inv E dh"
  shows "returns (file_inv E) (call_event_cb E F dh)"
proof (cases "tw_active (dh_world dh)")
  case (Cons e queue)
  obtain p ok where e: "e = (p, ok)" by force
  let ?dh = "dh\<lparr>dh_world := (dh_world dh)\<lparr>tw_active := queue\<rparr>\<rparr>"
  have wf: "wf_world (dh_world dh)" using assms by (simp add: file_inv_def)
  note d = dequeue [OF wf Cons [unfolded e]]
  have "file_inv E dh'" if "run_callback E F cb p ?dh = Inr dh'" for cb dh'
  proof (rule file_invI)
    show "wf_world (dh_world dh')" by (rule callback_wf [OF that]) (use d in simp_all)
    assume "sha1_ok E"
    then have "servers_inv E ?dh" using assms by (simp add: file_inv_def servers_inv_def)
    then show "servers_inv E dh'" using that by (rule callback_servers [rotated])
  qed
  then show ?thesis
    by (cases ok) (auto simp: call_event_cb_def Cons e returns_iff call_success_cb_def call_fail_cb_def res_simps)
qed (use assms in \<open>simp add: call_event_cb_def\<close>)

subsection \<open>Reachable states\<close>

lemma dh_init_inv: "dh_init F s \<Longrightarrow> file_inv E (snd s)"
  using dhash_start_result(1,5) new_dhash_result(4) empty_world_wf started_plain_inv
  by (fastforce simp: dh_init_def file_inv_def servers_inv_def)

interpretation dh_loop: fallible_machine "dh_init F" "dh_handle E F" dh_enabled "\<lambda>s. file_inv E (snd s)"
proof
  fix s
  show "dh_init F s \<Longrightarrow> file_inv E (snd s)" by (rule dh_init_inv)
next
  fix s :: dh_state and e
  obtain idx dh where s: "s = (idx, dh)" by force
  assume "file_inv E (snd s)" and "dh_enabled s e"
  then have inv: "file_inv E dh" and en: "dh_enabled (idx, dh) e" by (simp_all add: s)
  then have wf: "wf_world (dh_world dh)" by (simp add: file_inv_def)
  have upd: "file_inv E (set_srv dh i srv')" if "get_srv dh i = Inr srv" "srv_inv E srv \<Longrightarrow> srv_inv E srv'" for i srv srv'
    using inv that by (auto simp: file_inv_def intro: set_srv_inv dest: get_srv_inv)
  show "returns (\<lambda>s. file_inv E (snd s)) (dh_handle E F e s)"
  proof (cases e)
    case (Dh_packet c i received)
    then show ?thesis using handle_packet_file_inv [of "with_clock E c" dh i received F] inv en
      by (auto simp: s returns_bind intro: returns_mono split: option.splits)
  next
    case (Dh_stabilize c i)
    then show ?thesis using stabilize_inv [of "with_clock E c" _ idx] upd by (fastforce simp: s returns_iff res_simps)
  next
    case (Dh_discover c i)
    then show ?thesis using discover_addr_inv [of "with_clock E c"] upd by (fastforce simp: s returns_iff res_simps)
  next
    case (Dh_request c msg)
    have "file_inv E dh'" if "dhash_process_client_request (with_clock E c) F dh msg = Inr (ret, dh')" for ret dh'
      using request_inv [OF that] inv by simp
    then show ?thesis by (auto simp: s Dh_request returns_iff res_simps)
  next
    case (Dh_thread p conn)
    then show ?thesis using transfer_connect_step(2) [OF wf, of p E "fe_creat F" conn] en inv
      by (auto simp: s returns_iff res_simps file_inv_def servers_inv_def)
  next
    case (Dh_active c)
    then show ?thesis using call_event_inv [of "with_clock E c" dh F] inv by (auto simp: s returns_bind intro: returns_mono)
  qed
qed

text \<open>
  C7. The file client keeps Chord's invariant: in every state that a process of the file client reaches, whatever packets, requests, threads and events it has handled, each of its servers satisfies the
  invariant of a Chord server, although data packets go through the file client's dispatcher and the file client sends packets of its own.
\<close>

theorem file_client_keeps_chord:
  assumes "sha1_ok E" and "reach (dh_init F) (dh_handle E F) dh_enabled (idx, dh)" and "srv \<in> set (dh_servers dh)"
  shows "srv_inv E srv"
  using dh_loop.reach_inv [OF assms(2)] assms(1,3) by (simp add: file_inv_def servers_inv_def)

lemma fmap_fault: "fmap f xs = Inl e \<Longrightarrow> \<exists>x \<in> set xs. f x = Inl e"
  by (induction xs) (auto simp: res_simps)

lemma send_data_no_null: "send_func srv \<noteq> Send_unset \<Longrightarrow> send_data E srv l ttl np ident n data \<noteq> Inl Null_deref"
  by (cases "send_func srv")
    (auto simp: send_data_def pack_data_def pack_chord_header_def pack_header_def send_packet_def send_raw_v4_def memcpy_def assert_that_def Let_def res_simps
      split: if_splits)

lemma send_push_no_null:
  assumes "\<forall>srv \<in> set (dh_servers dh). send_func srv \<noteq> Send_unset"
  shows "dhash_send_push E dh name \<noteq> Inl Null_deref"
proof
  assume null: "dhash_send_push E dh name = Inl Null_deref"
  have "name_str name \<noteq> Inl Null_deref"
    by (auto simp: name_str_def buf_to_str_def memcpy_def put_nul_def res_simps split: if_splits)
  then obtain srv where srv: "srv \<in> set (dh_servers dh)"
    and "dhash_send_routed E (get_data_id E name) (\<lambda>addr port. dhash_pack_push E addr port name) srv = Inl Null_deref"
    using null by (auto simp: dhash_send_push_def Let_def res_simps dest!: fmap_fault)
  then show False
    using assms send_data_no_null [of srv]
    by (auto simp: dhash_send_routed_def into_buf_def dhash_pack_push_def pack_dhash_header_def pack_header_def Let_def res_simps case_prod_beta split: if_splits)
qed

lemma run_callback_no_null:
  assumes "wf_world (dh_world dh)" and "p \<notin> set (busy (dh_world dh))" and "load_transfer (dh_world dh) p = Inr t" and "t_file t \<noteq> None"
    and "\<forall>srv \<in> set (dh_servers dh). send_func srv \<noteq> Send_unset"
  shows "run_callback E F cb p dh \<noteq> Inl Null_deref"
proof -
  have "p \<notin> set (map fst (tw_active (dh_world dh)))" using assms(2) by (simp add: busy_def)
  then have free: "free_transfer (Some p) (dh_world dh) = Inr (store_transfer (dh_world dh) p None)"
    by (rule free_transfer_idle [OF assms(3) wf_world_transfer [OF assms(1,3)]])
  have control: "dhash_send_control_packet E dh code name \<noteq> Inl Null_deref"
    "dhash_send_control_packet E dh code name = Inr dh' \<Longrightarrow> dh_servers dh' = dh_servers dh" for code name dh'
    by (auto simp: dhash_send_control_packet_def into_buf_def res_simps split: if_splits)
  have push: "dhash_send_push E dh' name \<noteq> Inl Null_deref" if "dhash_send_control_packet E dh code n = Inr dh'" for code n dh' name
    using send_push_no_null [of dh' E name] control(2) [OF that] assms(5) by simp
  obtain f where f: "t_file t = Some f" using assms(4) by blast
  have path: "transfer_path (dh_files_path dh) f \<noteq> Inl Null_deref" by (simp add: transfer_path_def)
  show ?thesis
  proof (cases cb)
    case CB_receive_success
    then show ?thesis
      using assms(3) f path free push control(1)
      by (auto simp: run_callback_def receive_success_def dhash_send_control_query_success_def res_simps split: option.splits if_splits dest!: same_world)
  next
    case CB_receive_fail
    then show ?thesis
      using assms(3) f free control(1)
      by (auto simp: run_callback_def receive_fail_def dhash_send_control_query_failure_def res_simps dest!: same_world)
  qed
qed

text \<open>
  C8. Transfer objects are never used after they were freed and never freed twice. In every state that the process can reach from its start, by datagrams, timers, requests, finished threads
  and events in any order, a thread of a transfer does not follow a bad pointer, and the callback of an activated event does not either (as long as the servers have their sockets).
\<close>

theorem transfers_never_dangle:
  assumes "reach (dh_init F) (dh_handle E F) dh_enabled (idx, dh)" and "dh_enabled (idx, dh) e"
    and "(\<exists>p conn. e = Dh_thread p conn) \<or> (\<exists>c. e = Dh_active c) \<and> (\<forall>srv \<in> set (dh_servers dh). send_func srv \<noteq> Send_unset)"
  shows "dh_handle E F e (idx, dh) \<noteq> Inl Null_deref"
proof -
  have wf: "wf_world (dh_world dh)" using dh_loop.reach_inv [OF assms(1)] by (simp add: file_inv_def)
  consider p conn where "e = Dh_thread p conn" | c where "e = Dh_active c" "\<forall>srv \<in> set (dh_servers dh). send_func srv \<noteq> Send_unset" using assms(3) by blast
  then show ?thesis
  proof cases
    case 1
    then show ?thesis using transfer_connect_step(1) [OF wf, of p E "fe_creat F" conn] assms(2) by (auto simp: res_simps)
  next
    case 2
    then obtain p ok queue where q: "tw_active (dh_world dh) = (p, ok) # queue" using assms(2) by (cases "tw_active (dh_world dh)") auto
    obtain t cb where t: "load_transfer (dh_world dh) p = Inr t" "callback_of ok t = Some cb" "t_file t \<noteq> None" using dequeue(3) [OF wf q] by blast
    then show ?thesis
      using run_callback_no_null [of "dh\<lparr>dh_world := (dh_world dh)\<lparr>tw_active := queue\<rparr>\<rparr>" p t "with_clock E c" F cb] dequeue(1,2) [OF wf q] 2 q
      by (cases ok) (auto simp: call_event_cb_def call_success_cb_def call_fail_cb_def callback_of_def res_simps)
  qed
qed

text \<open>A process that was started, has answered a query and sends the file.\<close>

lemma demo_reached:
  "\<exists>dh. reach (dh_init demo_fenv) (dh_handle demo_env demo_fenv) dh_enabled (0, dh) \<and> tw_threads (dh_world dh) = [0] \<and> length (dh_servers dh) = 1"
proof -
  let ?files = "[''f/b'' \<mapsto> [7, 8, 9]]" and ?c = "\<lparr>clk_pack = \<lambda>_. 1700000000, clk_verify = \<lambda>_. 1700000005, clk_wall = \<lambda>_. 5000000\<rparr>"
  let ?received = "Some (Sockaddr_in 0 0, packet demo_env CHORD_DATA (M_Data demo_query))"
  obtain dh0 where dh0: "new_dhash demo_fenv ?files ''f'' [] = Inr (Some dh0)"
    using new_dhash_total [of demo_fenv "[]" ?files "''f''"] by (auto simp: demo_fenv_def)
  obtain dh1 where dh1: "dhash_start True [(replicate 16 7, 3)] dh0 = Inr dh1" using dhash_start_total by blast
  let ?srv = "server_set_socket 3 (fresh_server (replicate 16 7))"
  note s = dhash_start_result [OF dh1] new_dhash_result [OF dh0]
  have srv: "can_send ?srv (demo_addr 2)" "\<not> is_v6 ?srv" by (simp_all add: can_send_def server_set_socket_def fresh_server_def zero_server_def)
  have ok: "client_ok demo_env demo_fenv dh1 0 (demo_addr 2)" "udt_ready demo_fenv dh1 0"
    using demo_client_ok [of dh1 ?srv] s srv by simp_all
  have clock: "with_clock demo_env ?c = demo_env" by (simp add: with_clock_def demo_env_def)
  obtain nd where nd: "from_node demo_env ?srv (Sockaddr_in 0 0) = Inr nd" by (auto simp: from_node_def)
  have "\<exists>dh. dhash_handle_packet demo_env demo_fenv 0 ?received dh1 = Inr dh \<and> tw_threads (dh_world dh) = [0] \<and> length (dh_servers dh) = 1"
    using handle_data_packet [of demo_env demo_query 0 dh1 "Sockaddr_in 0 0" nd demo_fenv] nd
      unpack_query [OF ok(1) _ ok(2), of "[98]" demo_query 4000 "[]" nd] s
    by (simp add: demo_query_def dhash_disp_ok demo_packet_nonempty demo_file started_def Let_def)
  then obtain dh where dh: "dh_handle demo_env demo_fenv (Dh_packet ?c 0 ?received) (0, dh1) = Inr (0, dh)" "tw_threads (dh_world dh) = [0]" "length (dh_servers dh) = 1"
    by (auto simp: clock)
  have "dh_init demo_fenv (0, dh1)" unfolding dh_init_def fst_conv snd_conv using dh0 dh1 by fastforce
  then have "reach (dh_init demo_fenv) (dh_handle demo_env demo_fenv) dh_enabled (0, dh1)" by (rule reach_init)
  then have "reach (dh_init demo_fenv) (dh_handle demo_env demo_fenv) dh_enabled (0, dh)"
    by (rule reach_step [where e = "Dh_packet ?c 0 ?received"]) (use s srv dh(1) in \<open>simp_all add: wf_source_def\<close>)
  then show ?thesis using dh by blast
qed

lemma file_client_keeps_chord_witness:
  "\<exists>dh srv. reach (dh_init demo_fenv) (dh_handle demo_env demo_fenv) dh_enabled (0, dh) \<and> tw_threads (dh_world dh) = [0] \<and> srv \<in> set (dh_servers dh) \<and> srv_inv demo_env srv"
proof -
  obtain dh where dh: "reach (dh_init demo_fenv) (dh_handle demo_env demo_fenv) dh_enabled (0, dh)" "tw_threads (dh_world dh) = [0]" "length (dh_servers dh) = 1"
    using demo_reached by blast
  then have srv: "dh_servers dh ! 0 \<in> set (dh_servers dh)" by simp
  show ?thesis using file_client_keeps_chord [OF demo_env_ok(1) dh(1) srv] dh srv by blast
qed

lemma transfers_never_dangle_witness:
  "\<exists>dh. reach (dh_init demo_fenv) (dh_handle demo_env demo_fenv) dh_enabled (0, dh) \<and> tw_threads (dh_world dh) = [0] \<and>
     dh_handle demo_env demo_fenv (Dh_thread 0 (demo_conn [])) (0, dh) \<noteq> Inl Null_deref"
  using demo_reached transfers_never_dangle [of demo_fenv demo_env 0 _ "Dh_thread 0 (demo_conn [])"] by fastforce

end
