(* ===== verification/Spec2Isabelle.thy ===== *)
theory Spec2Isabelle
  imports Chord_Network Hosts Linked_String Ring_Curves Memory_Lifecycle Message_Api File_Machine
begin

text \<open>
  \<^bold>\<open>Tangent, a Chord distributed hash table in C.\<close>

  A Tangent server is a node on a ring of 160-bit identifiers. Its identifier is the SHA-1 hash of its address; it is responsible for the identifiers
  between its predecessor and itself. It keeps a table of other nodes (fingers), routes data packets towards the node responsible for their
  identifier, and repairs its table by periodic work. Messages are protobuf structures in UDP datagrams; the servers keep no connection state, but put
  a ticket (a truncated keyed hash with a time) into each request and check it in the reply. On top of the ring the file client asks for files by name and moves them between nodes.

  \<^bold>\<open>The program's parts and the theories that model them\<close> (files under src/src, headers under src/include/chord):

  \<^item> \<open>Tangent_Prelude\<close>: results that are a value or a fault (a null or freed pointer, an access out of bounds, a failed assertion, an
    uninitialised read, a type confusion, a signed overflow, an exit of the process, exhausted fuel), their binding and the predicates \<open>returns\<close> and \<open>succeeds\<close>; bytes,
    big-endian values, \<^verbatim>\<open>memcmp\<close> and \<^verbatim>\<open>memcpy\<close>; searches in lists.
  \<^item> \<open>Chord_Id\<close>, \<open>Chord_Addr\<close>: the arithmetic on identifiers, address conversion and the round-trip estimator of \<^verbatim>\<open>util.c\<close>, byte by byte.
    The lemmas relate them to arithmetic modulo \<open>2 ^ 160\<close> and to clockwise distance (\<open>ring_off\<close>).
  \<^item> \<open>Chord_Messages\<close>, \<open>Codec_Instance\<close>: the message structures of \<^verbatim>\<open>messages.pb-c.h\<close> and of the file client's \<^verbatim>\<open>d_messages.pb-c.h\<close> with their initial values, and the environment of the
    program (SHA-1, the protobuf codec, the clocks, \<^verbatim>\<open>random\<close>, \<^verbatim>\<open>inet_ntop\<close>, stray memory) as a record of parameters; a concrete codec and hash show
    that what is assumed of them can hold.
  \<^item> \<open>Message_Descriptors\<close>, \<open>Message_Print\<close>: the tables that protoc generated into \<^verbatim>\<open>messages.pb-c.c\<close> and \<^verbatim>\<open>d_messages.pb-c.c\<close>, the layout of the structures, and the printer of
    \<^verbatim>\<open>message_print.c\<close>, which walks over both.
  \<^item> \<open>Message_Api\<close>: the functions protoc generated for each of the 19 messages (\<^verbatim>\<open>ping__pack\<close> and its like), on message objects in memory; the functions of libprotobuf-c that they call are parameters.
  \<^item> \<open>Chord_Crypt\<close>: \<^verbatim>\<open>crypt.c\<close>, hashing of packed arguments, tickets and identifiers of addresses.
  \<^item> \<open>Chord_Server\<close>, \<open>Finger_Table\<close>: the server structure of \<^verbatim>\<open>chord.h\<close> and \<^verbatim>\<open>finger.c\<close> on the list of fingers, with the invariant of the table
    (\<open>table_inv\<close>): ring order without duplicates, an exact and bounded number of passive fingers, a range that starts at the predecessor.
  \<^item> \<open>Finger_Heap\<close>: the same operations as the code has them, on objects in memory with \<^verbatim>\<open>next\<close>, \<^verbatim>\<open>prev\<close>, head and tail pointers, and the proof that
    they refine the list operations.
  \<^item> \<open>Chord_Send\<close>: \<^verbatim>\<open>pack.c\<close> and \<^verbatim>\<open>sendpkt.c\<close>. The socket is an outbox of datagrams.
  \<^item> \<open>Chord_Process\<close>: \<^verbatim>\<open>process.c\<close>, the routing decision and all packet handlers, with the invariant of the server (\<open>srv_inv\<close>).
  \<^item> \<open>Chord_Dispatcher\<close>: \<^verbatim>\<open>dispatcher.c\<close> and the parts of \<^verbatim>\<open>chord.c\<close> that create a server and handle a datagram.
  \<^item> \<open>Chord_Stabilize\<close>: \<^verbatim>\<open>join.c\<close> and \<^verbatim>\<open>stabilize.c\<close>, the periodic work.
  \<^item> \<open>Chord_Machine\<close>: the event loop of a configured server as a step relation, with the invariant of all reachable states.
  \<^item> \<open>Chord_Config\<close>: the servers that a configuration file describes (\<^verbatim>\<open>chord.c\<close> and the names of \<^verbatim>\<open>hosts.c\<close>).
  \<^item> \<open>Hosts\<close>: the search for the local address and the sockets of \<^verbatim>\<open>hosts.c\<close>, \<^verbatim>\<open>server_initialize_socket\<close> of \<^verbatim>\<open>chord.c\<close> with its exits, and \<^verbatim>\<open>main\<close> of \<^verbatim>\<open>client.c\<close> up to the event loop, over a kernel with its table of sockets.
  \<^item> \<open>Chord_Ring\<close>, \<open>Chord_Handshake\<close>: several servers together. Datagrams are carried as bytes from the outbox of one server to \<^verbatim>\<open>handle_packet\<close>
    of the server at their destination.
  \<^item> \<open>Chord_Safety\<close>: what each handler assumes of its message, and that nothing else can make it fail; a packet that violates the assumption on addresses; the replies that need a valid ticket.
  \<^item> \<open>Chord_Network\<close>: a network of IPv4 servers from their start, over a wire that loses, repeats, delays and reorders datagrams, as a state machine.
  \<^item> \<open>Chord_Print\<close>, \<open>Linked_String\<close>, \<open>Text_Grid\<close>: the texts of the log (\<^verbatim>\<open>util.c\<close>), strings in pieces (\<^verbatim>\<open>str.c\<close>) and the character grid (\<^verbatim>\<open>grid.c\<close>).
  \<^item> \<open>Ring_Curves\<close>: the curves of \<^verbatim>\<open>grid.c\<close> and the position of an identifier on the circle, over a record of long double operations.
  \<^item> \<open>Memory_Lifecycle\<close>: the blocks that the dispatcher, the hash map, the loggers and the grid allocate and free.
  \<^item> \<open>Crc32\<close>, \<open>Hashmap\<close>, \<open>Logger\<close>, \<open>Eprintf\<close>: the hash map of \<^verbatim>\<open>logger/hashmap.c\<close>, the logging library of \<^verbatim>\<open>logger/clog.c\<close>, \<^verbatim>\<open>logger/file.c\<close> and
    \<^verbatim>\<open>logger/color.c\<close>, and the error reports and allocation wrappers of \<^verbatim>\<open>eprintf.c\<close>.
  \<^item> \<open>File_Transfer\<close>: \<^verbatim>\<open>src/file_client/transfer.cpp\<close>, the objects of file transfers, their blocking loops and the thread that runs one of them.
  \<^item> \<open>File_Client\<close>: \<^verbatim>\<open>pack.cpp\<close>, \<^verbatim>\<open>send.cpp\<close>, \<^verbatim>\<open>process.cpp\<close> and \<^verbatim>\<open>dhash.cpp\<close> of the file client: a process with several Chord servers, the dispatcher behind their
    data packets, queries, offers, replies and callbacks.
  \<^item> \<open>File_Machine\<close>: that process as a state machine of datagrams, timers, requests, threads and events.

  \<^bold>\<open>Interfaces.\<close> The contract of an ordered ring of keys (\<open>ring_order\<close>), of a channel of packed messages (\<open>channel\<close>), of functions behind a dispatcher (\<open>packet_processor\<close>), of an event loop whose handlers may fail
  (\<open>fallible_machine\<close>), of an implementation against its
  abstract operations (\<open>data_refinement\<close>), of the functions generated for a message (\<open>generated_message\<close>) and of a map with string keys (\<open>string_map\<close>) are locales; each is interpreted on the definitions of the model, and the
  properties use the interpreted facts. The dispatcher's contract is interpreted three times (the handlers of Chord, those of the file client, and both together), the event loop's three times (a server, a
  network of servers, a file client), the one of generated functions once for every message.

  \<^bold>\<open>What is shown.\<close>

  \<^item> One server: from any configuration, every sequence of datagrams and timers that is handled without a fault keeps the server invariant; a server
    never keeps more than the allowed number of fingers that have not answered a ping.
  \<^item> Each operation: the functional behaviour of the finger table, the routing decision, the handlers, the tickets, the periodic work and the
    identifier arithmetic, with their error results; the faults that one packet can cause are stated as theorems,
    and a message that meets the listed assumptions of its handler causes none. A reply without an authentic ticket changes nothing.
  \<^item> Memory: the pointer code of the finger list refines the list operations, follows no null or freed pointer, ends, and frees what it should. The grid and the hash map give back all their blocks, the dispatcher
    all but one, a logger all but its name; none frees a block twice.
  \<^item> Start: which address is found for the machine; from a configuration the program reaches its event loop with one server per section, each in an initial state and on its own IPv4 socket, or exits, or faults for want of a terminal or
    of a peer's address. A section for IP version 6 always makes it exit, since the address its socket is bound to claims to be of the other family.
  \<^item> Several servers, all on IPv4 sockets as these are the only ones that start: in a settled ring the servers divide the identifiers among them; a data packet handed to any server reaches the one responsible;
    a ping and its pong make the answering node an active finger. In a network that nobody outside sends to, whatever the wire does, the members only ever learn of each other, under their right addresses,
    and what they send each other brings none of them down, up to two conditions on timing.
  \<^item> The file client: a query is handled on every branch; a
    file arrives unchanged when the connection delivers the short headers whole, and what happens when it does not is stated as a theorem; in every reachable state the servers keep the invariant of Chord and
    the threads use no freed transfer object.
  \<^item> Libraries: the hash map refines a map, its checksum is the CRC-32 polynomial division, the generated tables agree with the structures, the printer
    shows every field, the logger writes each message once and completely, buffers hold the text they are given, the allocation wrappers
    give memory or do not return, the generated functions keep the kinds of messages apart, and no curve writes outside the grid.

  \<^bold>\<open>Fuel and bounds.\<close> Loops over a linked list carry fuel, and one round more than there are nodes is enough. \<^verbatim>\<open>hashmap_put\<close>, which calls itself through
  \<^verbatim>\<open>hashmap_rehash\<close>, needs at most 31 rounds, since each doubles the table and memory is exhausted before. The relay of a packet in a settled ring of
  \<open>N\<close> servers handles at most \<open>N\<close> datagrams. Machine integers are words of their width, or integers with the range checked; the counters of the server
  and the coordinates of the grid are integers, as they stay far below the range of an int.

  \<^bold>\<open>What is not modelled, and why.\<close> libprotobuf-c, OpenSSL, libevent and the operating system are parameters or absent. The syntax of the configuration file
  is that of libconfuse; the model starts from the values it gives. The arithmetic of long double is a parameter: that no curve leaves the grid holds for any arithmetic, that the loops over full turns end and where a node is
  drawn is shown for exact arithmetic. The body of \<^verbatim>\<open>chord_print_circle\<close> behind its first statement, a return, is not modelled. \<^verbatim>\<open>sglib.h\<close> is a third-party header of list macros. The UDT library, the signatures of
  OpenSSL and the files of the file client are parameters. The file client binds its servers to port 0 and gives them no well-known nodes, because reading their configuration is commented out in \<^verbatim>\<open>dhash_start\<close>; so one
  process is modelled, and no ring of them. Its \<^verbatim>\<open>main\<close> is empty, its handler of typed-in requests is disabled. Logging has its own theories and is left out of the handlers, since it does not change the state of
  a server. In \<^verbatim>\<open>crypt.c\<close> a 32-bit argument is read by \<^verbatim>\<open>va_arg\<close> as 64 bits, which the language leaves undefined; the environment chooses the value (\<open>va_ulong\<close>), the same one when a ticket is made and when it is verified.
  The trace message of \<^verbatim>\<open>dispatch_packet\<close> reads one byte of the receive buffer at an index below ten, past the end of a shorter datagram but inside the buffer; it is left out, except in the inner dispatcher of the file client, whose buffer is exactly
  as long as the packet. A fault ends a run of the model where the behaviour of the program is undefined or the process is aborted; it is never a value that a function returns.
\<close>

end
